(* ===== verification/Prelude.thy ===== *)
theory Prelude
  imports Main "HOL-Library.Word" "HOL-Library.AList" "HOL-Library.Multiset"
begin

text \<open>
  Shared vocabulary of the development: the machine integers of the Go code, Go errors as
  values, the results of calls into code that may fail or panic, and the small facts on lists
  and association lists that several components use.

  Conventions. A Go \<open>uint64\<close> is a \<open>64 word\<close>, so its arithmetic wraps. A Go \<open>int\<close> (64 bits on
  every supported platform) is an \<open>int\<close>, and \<open>wrap64\<close> is written out where an addition can leave
  the 64-bit range. A Go map is an association list with distinct keys. Slices and strings are
  lists, \<open>nil\<close> and an empty slice being the same list. The \<open>Copy\<close> methods of the code only
  separate mutable memory, so they have no counterpart in a model whose values are immutable.
\<close>

section \<open>Machine integers\<close>

type_synonym u64 = "64 word"
type_synonym u32 = "32 word"

text \<open>The value a Go \<open>int\<close> holds after an operation whose exact result is \<open>i\<close>.\<close>

definition wrap64 :: "int \<Rightarrow> int" where
  "wrap64 i = (i + 2 ^ 63) mod 2 ^ 64 - 2 ^ 63"

definition max_int64 :: int where
  "max_int64 = 2 ^ 63 - 1"

lemma wrap64_id: "- (2 ^ 63) \<le> i \<Longrightarrow> i < 2 ^ 63 \<Longrightarrow> wrap64 i = i"
  by (simp add: wrap64_def mod_pos_pos_trivial)

lemma wrap64_range: "- (2 ^ 63) \<le> wrap64 i \<and> wrap64 i < 2 ^ 63"
proof -
  have "0 \<le> (i + 2 ^ 63) mod 2 ^ 64" and "(i + 2 ^ 63) mod 2 ^ 64 < (2 ^ 64 :: int)"
    by simp_all
  then show ?thesis unfolding wrap64_def by simp
qed

lemma unat_less_max_Suc: "w \<noteq> - 1 \<Longrightarrow> unat (w + 1) = unat (w :: u64) + 1"
proof -
  assume "w \<noteq> - 1"
  then have "1 + w \<noteq> 0" by (metis add.commute add_eq_0_iff)
  then have "unat (1 + w) = Suc (unat w)" by (rule unatSuc)
  then show ?thesis by (simp add: add.commute)
qed

lemma word_pos_iff: "(w :: u64) \<noteq> 0 \<longleftrightarrow> 0 < unat w"
  by (simp add: unat_gt_0)

lemma word_less_Suc_iff: "w \<noteq> - 1 \<Longrightarrow> i < w + 1 \<longleftrightarrow> i \<le> (w :: u64)"
  by (simp add: word_less_nat_alt word_le_nat_alt unat_less_max_Suc less_Suc_eq_le)

lemma word_le_Suc: "w \<noteq> - 1 \<Longrightarrow> i \<le> w \<Longrightarrow> i \<le> w + (1 :: u64)"
  by (simp add: word_less_Suc_iff [symmetric] order.strict_implies_order)

lemma of_nat_u64_inject:
  "a < 2 ^ 64 \<Longrightarrow> b < 2 ^ 64 \<Longrightarrow> (of_nat a = (of_nat b :: u64)) \<longleftrightarrow> a = b"
proof -
  have "unat (of_nat k :: u64) = k" if "k < 2 ^ 64" for k
    using that by (simp add: unat_of_nat)
  then show "a < 2 ^ 64 \<Longrightarrow> b < 2 ^ 64 \<Longrightarrow> (of_nat a = (of_nat b :: u64)) \<longleftrightarrow> a = b"
    by metis
qed

section \<open>Errors\<close>

text \<open>
  The sentinel errors the code tests with \<open>errors.Is\<close>. A Go error is modelled by the sentinels
  its chain wraps, its text, and what \<open>errors.As\<close> would find in it: a panic record or the code of a decision.
\<close>

datatype sentinel =
    ErrInvalidValue
  | ErrNotInitialized | ErrTerminated | ErrInvalidConfig | ErrInvalidAction
  | ErrUnsupportedAction | ErrMessageUnavailable | ErrAdapter | ErrAdapterContract
  | ErrSUTPanic | ErrIDExhausted | ErrBudgetExceeded
  | ErrCanceled | ErrDeadlineExceeded
  | ErrInvalidPlan
  | ErrInvalidEvent | ErrInvalidTransition
  | ErrActionInapplicable | ErrModelBoundReached | ErrUnsupportedByProfile
  | ErrUnsupportedSemantics
  | ErrEngineConfig | ErrInvalidPlanSequence | ErrResolution | ErrRuntime | ErrMapping
  | ErrUnsupported | ErrOracle | ErrPolicy | ErrModel

fun sentinel_text :: "sentinel \<Rightarrow> string" where
  "sentinel_text ErrInvalidValue = ''invalid core value''"
| "sentinel_text ErrNotInitialized = ''runtime is not initialized''"
| "sentinel_text ErrTerminated = ''runtime execution is terminated''"
| "sentinel_text ErrInvalidConfig = ''invalid runtime config''"
| "sentinel_text ErrInvalidAction = ''invalid concrete action''"
| "sentinel_text ErrUnsupportedAction = ''adapter does not support action''"
| "sentinel_text ErrMessageUnavailable = ''message is unavailable''"
| "sentinel_text ErrAdapter = ''adapter operation failed''"
| "sentinel_text ErrAdapterContract = ''adapter contract violation''"
| "sentinel_text ErrSUTPanic = ''SUT adapter panicked''"
| "sentinel_text ErrIDExhausted = ''runtime ID exhausted''"
| "sentinel_text ErrBudgetExceeded = ''runtime budget exceeded''"
| "sentinel_text ErrCanceled = ''context canceled''"
| "sentinel_text ErrDeadlineExceeded = ''context deadline exceeded''"
| "sentinel_text ErrInvalidPlan = ''invalid plan''"
| "sentinel_text ErrInvalidEvent = ''invalid model event''"
| "sentinel_text ErrInvalidTransition = ''invalid model transition''"
| "sentinel_text ErrActionInapplicable = ''action is inapplicable in current state''"
| "sentinel_text ErrModelBoundReached = ''model bound reached''"
| "sentinel_text ErrUnsupportedByProfile = ''action is unsupported by model profile''"
| "sentinel_text ErrUnsupportedSemantics = ''transition is not represented by the raft model''"
| "sentinel_text ErrEngineConfig = ''invalid engine config''"
| "sentinel_text ErrInvalidPlanSequence = ''invalid plan sequence''"
| "sentinel_text ErrResolution = ''plan resolution failed''"
| "sentinel_text ErrRuntime = ''runtime execution failed''"
| "sentinel_text ErrMapping = ''model mapping failed''"
| "sentinel_text ErrUnsupported = ''action unsupported by model''"
| "sentinel_text ErrOracle = ''online oracle violation''"
| "sentinel_text ErrPolicy = ''action source failed''"
| "sentinel_text ErrModel = ''model execution failed''"

record sut_panic_error =
  pn_operation :: string
  pn_value :: string
  pn_stack :: string

record go_error =
  err_is :: "sentinel list"
  err_text :: string
  err_panic :: "sut_panic_error option"
  err_decision :: "string option"

definition errors_is :: "go_error \<Rightarrow> sentinel \<Rightarrow> bool" where
  "errors_is e s \<longleftrightarrow> s \<in> set (err_is e)"

text \<open>\<open>sentinel_error s\<close> is the sentinel itself, \<open>errorf_v s d\<close> is \<open>fmt.Errorf("%w: ...", s, ...)\<close>
  whose detail does not wrap another error, and \<open>errorf_w s d e\<close> also wraps \<open>e\<close>.\<close>

definition sentinel_error :: "sentinel \<Rightarrow> go_error" where
  "sentinel_error s = \<lparr>err_is = [s], err_text = sentinel_text s, err_panic = None,
     err_decision = None\<rparr>"

definition errorf_v :: "sentinel \<Rightarrow> string \<Rightarrow> go_error" where
  "errorf_v s detail = \<lparr>err_is = [s], err_text = sentinel_text s @ '': '' @ detail, err_panic = None,
     err_decision = None\<rparr>"

definition errorf_w :: "sentinel \<Rightarrow> string \<Rightarrow> go_error \<Rightarrow> go_error" where
  "errorf_w s prefix e = \<lparr>err_is = s # err_is e,
     err_text = sentinel_text s @ '': '' @ prefix @ '': '' @ err_text e, err_panic = err_panic e,
     err_decision = err_decision e\<rparr>"

lemma errors_is_simps [simp]:
  "errors_is (sentinel_error s) t \<longleftrightarrow> t = s"
  "errors_is (errorf_v s d) t \<longleftrightarrow> t = s"
  "errors_is (errorf_w s d e) t \<longleftrightarrow> t = s \<or> errors_is e t"
  by (auto simp: errors_is_def sentinel_error_def errorf_v_def errorf_w_def)

section \<open>Facts shared by the components\<close>

named_theorems invariant_intros \<open>preservation of the components' invariants\<close>
named_theorems validate_simps \<open>validators as conjunctions\<close>

text \<open>A validator runs its checks in order and returns the first error.\<close>

lemma first_error_None [simp]:
  "(case x of None \<Rightarrow> r | Some e \<Rightarrow> Some (f e)) = None \<longleftrightarrow> x = None \<and> r = None"
  by (cases x) simp_all

lemma first_error_None_id [simp]:
  "(case x of None \<Rightarrow> r | Some e \<Rightarrow> Some e) = None \<longleftrightarrow> x = None \<and> r = None"
  by (cases x) simp_all

lemma option_None_iff: "(x = None) = (\<forall>y. x \<noteq> Some y)"
  by (cases x) auto

lemma sum_is_Inr: "(\<exists>y. x = Inr y) \<longleftrightarrow> (\<forall>e. x \<noteq> Inl e)"
  by (cases x) auto

lemma map_of_distinct_unique:
  "distinct (map fst m) \<Longrightarrow> (k, v) \<in> set m \<Longrightarrow> map_of m k = Some v"
  by simp

section \<open>Maps whose values are lists\<close>

text \<open>A Go \<open>map[K][]V\<close>: a missing key reads as the empty slice. \<open>all_values\<close> lists the values of
  every key; only its multiset matters, since Go iterates maps in no particular order.\<close>

definition list_at :: "('k \<times> 'v list) list \<Rightarrow> 'k \<Rightarrow> 'v list" where
  "list_at m k = (case map_of m k of None \<Rightarrow> [] | Some vs \<Rightarrow> vs)"

definition all_values :: "('k \<times> 'v list) list \<Rightarrow> 'v list" where
  "all_values m = concat (map snd m)"

lemma list_at_update [simp]:
  "list_at (AList.update k vs m) k' = (if k = k' then vs else list_at m k')"
  by (simp add: list_at_def update_conv')

lemma list_at_delete [simp]:
  "list_at (AList.delete k m) k' = (if k = k' then [] else list_at m k')"
  by (simp add: list_at_def delete_conv')

lemma set_update_subset: "p \<in> set (AList.update k v m) \<Longrightarrow> p = (k, v) \<or> p \<in> set m"
  by (induction m) (auto split: if_splits)

lemma set_delete_subset: "p \<in> set (AList.delete k m) \<Longrightarrow> p \<in> set m"
  by (induction m) (auto split: if_splits)

lemma list_at_in: "list_at m k \<noteq> [] \<Longrightarrow> (k, list_at m k) \<in> set m"
  by (auto simp: list_at_def split: option.splits dest: map_of_SomeD)

lemma list_at_entry: "distinct (map fst m) \<Longrightarrow> (k, vs) \<in> set m \<Longrightarrow> list_at m k = vs"
  by (simp add: list_at_def)

lemma mset_all_values_update:
  "distinct (map fst m) \<Longrightarrow>
     mset (all_values (AList.update k vs m)) + mset (list_at m k) = mset (all_values m) + mset vs"
proof (induction m)
  case Nil
  then show ?case by (simp add: all_values_def list_at_def)
next
  case (Cons p m)
  obtain k' ws where p: "p = (k', ws)" by (cases p)
  show ?case
  proof (cases "k' = k")
    case True
    with Cons.prems p show ?thesis by (simp add: all_values_def list_at_def ac_simps)
  next
    case False
    with Cons p have "mset (all_values (AList.update k vs m)) + mset (list_at m k)
        = mset (all_values m) + mset vs" by simp
    moreover have "list_at (p # m) k = list_at m k" using False p by (simp add: list_at_def)
    ultimately show ?thesis using False p
      by (simp add: all_values_def ac_simps)
  qed
qed

lemma mset_all_values_delete:
  "distinct (map fst m) \<Longrightarrow>
     mset (all_values (AList.delete k m)) + mset (list_at m k) = mset (all_values m)"
proof (induction m)
  case Nil
  then show ?case by (simp add: all_values_def list_at_def)
next
  case (Cons p m)
  obtain k' ws where p: "p = (k', ws)" by (cases p)
  show ?case
  proof (cases "k' = k")
    case True
    with Cons.prems p have "AList.delete k m = m"
      by (simp del: set_map add: set_map [symmetric])
    with True p show ?thesis by (simp add: all_values_def list_at_def)
  next
    case False
    with Cons p have "mset (all_values (AList.delete k m)) + mset (list_at m k) = mset (all_values m)"
      by simp
    moreover have "list_at (p # m) k = list_at m k" using False p by (simp add: list_at_def)
    ultimately show ?thesis using False p
      by (simp add: all_values_def ac_simps)
  qed
qed

lemma length_all_values: "length (all_values m) = sum_list (map (\<lambda>p. length (snd p)) m)"
  by (induction m) (simp_all add: all_values_def)

lemma set_all_values: "v \<in> set (all_values m) \<longleftrightarrow> (\<exists>p \<in> set m. v \<in> set (snd p))"
  by (auto simp: all_values_def)

end
