(* ===== verification/Core_Values.thy ===== *)
theory Core_Values
  imports Go_Strconv Complex_Main
begin

text \<open>
  internal/core: identifiers (id.go), validation errors (error.go), the logical clock (timer.go)
  and the dynamic values of type \<open>any\<close> that semantic fields and event parameters carry.
\<close>

section \<open>Validation errors (error.go)\<close>

record validation_error =
  ve_type :: string
  ve_field :: string
  ve_reason :: string

definition invalid_value :: "string \<Rightarrow> string \<Rightarrow> string \<Rightarrow> validation_error" where
  "invalid_value typ field reason = \<lparr>ve_type = typ, ve_field = field, ve_reason = reason\<rparr>"

definition validation_error_text :: "validation_error \<Rightarrow> string" where
  "validation_error_text e =
     (if ve_field e = [] then ve_type e @ '': '' @ ve_reason e
      else ve_type e @ ''.'' @ ve_field e @ '': '' @ ve_reason e)"

section \<open>Identifiers (id.go)\<close>

type_synonym node_id = u64
type_synonym message_id = u64
type_synonym node_epoch = u64
type_synonym execution_id = string
type_synonym logical_time = u64

datatype link_id = LinkID (link_from: node_id) (link_to: node_id)

definition node_id_valid :: "node_id \<Rightarrow> bool" where
  "node_id_valid i \<longleftrightarrow> i \<noteq> 0"

definition message_id_valid :: "message_id \<Rightarrow> bool" where
  "message_id_valid i \<longleftrightarrow> i \<noteq> 0"

definition execution_id_valid :: "execution_id \<Rightarrow> bool" where
  "execution_id_valid i \<longleftrightarrow> i \<noteq> []"

definition node_epoch_valid :: "node_epoch \<Rightarrow> bool" where
  "node_epoch_valid i \<longleftrightarrow> i \<noteq> 0"

lemmas id_valid_defs [simp] =
  node_id_valid_def message_id_valid_def execution_id_valid_def node_epoch_valid_def

definition node_id_text :: "node_id \<Rightarrow> string" where
  "node_id_text i = ''n'' @ format_uint i"

definition message_id_text :: "message_id \<Rightarrow> string" where
  "message_id_text i = ''m'' @ format_uint i"

definition link_id_text :: "link_id \<Rightarrow> string" where
  "link_id_text l = node_id_text (link_from l) @ ''->'' @ node_id_text (link_to l)"

definition link_id_validate :: "link_id \<Rightarrow> validation_error option" where
  "link_id_validate l =
     (if \<not> node_id_valid (link_from l)
      then Some (invalid_value ''link'' ''from'' ''must be non-zero'')
      else if \<not> node_id_valid (link_to l)
      then Some (invalid_value ''link'' ''to'' ''must be non-zero'')
      else None)"

lemma link_id_validate_None [simp, validate_simps]:
  "link_id_validate l = None \<longleftrightarrow> link_from l \<noteq> 0 \<and> link_to l \<noteq> 0"
  by (simp add: link_id_validate_def)

text \<open>
  The JSON form of a message ID. \<open>encoding/json\<close> hands the method one value, which is a string,
  a number (kept as its literal text by \<open>UseNumber\<close>) or something else.
\<close>

datatype json_token = JString string | JNumber string | JOther

definition message_id_marshal :: "message_id \<Rightarrow> json_token" where
  "message_id_marshal i = JString (message_id_text i)"

fun message_id_unmarshal :: "json_token \<Rightarrow> message_id option" where
  "message_id_unmarshal (JString s) =
     (case parse_uint (trim_prefix s ''m'') of
        None \<Rightarrow> None
      | Some n \<Rightarrow> if n = 0 then None else Some n)"
| "message_id_unmarshal (JNumber s) =
     (case parse_uint s of
        None \<Rightarrow> None
      | Some n \<Rightarrow> if n = 0 then None else Some n)"
| "message_id_unmarshal JOther = None"

text \<open>A valid message ID survives its JSON form (as a string, and in the older numeric form),
  and no JSON value is ever read as the invalid ID zero.\<close>

theorem message_id_json_roundtrip:
  "(if message_id_valid i then message_id_unmarshal (message_id_marshal i) = Some i
      \<and> message_id_unmarshal (JNumber (format_uint i)) = Some i
    else message_id_unmarshal (message_id_marshal i) = None)
   \<and> message_id_unmarshal t \<noteq> Some 0"
proof -
  have "message_id_unmarshal t \<noteq> Some 0"
    by (cases t) (auto split: option.splits if_splits)
  then show ?thesis
    by (simp add: message_id_marshal_def message_id_text_def trim_prefix_def)
qed

text \<open>Links are ordered by sender, then by receiver: the order \<open>network.observations\<close> sorts by.\<close>

instantiation link_id :: linorder
begin

definition less_eq_link_id :: "link_id \<Rightarrow> link_id \<Rightarrow> bool" where
  "less_eq_link_id a b \<longleftrightarrow>
     (if link_from a = link_from b then link_to a \<le> link_to b else link_from a < link_from b)"

definition less_link_id :: "link_id \<Rightarrow> link_id \<Rightarrow> bool" where
  "less_link_id a b \<longleftrightarrow>
     (if link_from a = link_from b then link_to a < link_to b else link_from a < link_from b)"

instance
proof
  fix a b c :: link_id
  show "(a < b) = (a \<le> b \<and> \<not> b \<le> a)"
    by (auto simp: less_eq_link_id_def less_link_id_def)
  show "a \<le> a" by (simp add: less_eq_link_id_def)
  show "a \<le> b \<Longrightarrow> b \<le> c \<Longrightarrow> a \<le> c"
    by (auto simp: less_eq_link_id_def split: if_splits)
  show "a \<le> b \<Longrightarrow> b \<le> a \<Longrightarrow> a = b"
    by (cases a; cases b) (auto simp: less_eq_link_id_def split: if_splits)
  show "a \<le> b \<or> b \<le> a"
    by (auto simp: less_eq_link_id_def)
qed

end

section \<open>Logical time (timer.go)\<close>

definition logical_time_add :: "logical_time \<Rightarrow> u64 \<Rightarrow> validation_error + logical_time" where
  "logical_time_add t delta =
     (if delta > - 1 - t
      then Inl (invalid_value ''logical_time'' ''delta'' ''overflows logical time'')
      else Inr (t + delta))"

lemma unat_max_minus: "unat (- 1 - t :: u64) = 2 ^ 64 - 1 - unat t"
proof -
  have "t \<le> - 1" by simp
  then have "unat (- 1 - t) = unat (- 1 :: u64) - unat t" by (rule unat_sub)
  then show ?thesis by (simp add: unsigned_minus_1_eq_mask mask_eq_exp_minus_1)
qed

lemma logical_time_add_Inr:
  "logical_time_add t d = Inr t' \<longleftrightarrow> unat t + unat d < 2 ^ 64 \<and> t' = t + d"
proof -
  have "unat t < 2 ^ 64" using unsigned_less [of t] by simp
  then have "\<not> d > - 1 - t \<longleftrightarrow> unat t + unat d < 2 ^ 64"
    unfolding word_less_nat_alt unat_max_minus by linarith
  then show ?thesis by (auto simp: logical_time_add_def)
qed

text \<open>Adding to the clock is exact: it fails precisely when the sum does not fit in 64 bits and
  otherwise never wraps.\<close>

lemma logical_time_add_exact:
  "(case logical_time_add t d of
      Inr t' \<Rightarrow> unat t' = unat t + unat d
    | Inl _ \<Rightarrow> 2 ^ 64 \<le> unat t + unat d)"
proof (cases "logical_time_add t d")
  case (Inl e)
  then have "\<not> unat t + unat d < 2 ^ 64"
    using logical_time_add_Inr [of t d "t + d"] by auto
  with Inl show ?thesis by simp
next
  case (Inr t')
  then have "unat t + unat d < 2 ^ 64" and "t' = t + d"
    by (auto simp: logical_time_add_Inr)
  then show ?thesis using Inr by (simp add: unat_word_ariths)
qed

datatype timer_fire_source = TimerFireNatural | TimerFireForced | TimerFireOther string

fun timer_fire_source_valid :: "timer_fire_source \<Rightarrow> bool" where
  "timer_fire_source_valid TimerFireNatural = True"
| "timer_fire_source_valid TimerFireForced = True"
| "timer_fire_source_valid (TimerFireOther _) = False"

fun timer_fire_source_text :: "timer_fire_source \<Rightarrow> string" where
  "timer_fire_source_text TimerFireNatural = ''natural''"
| "timer_fire_source_text TimerFireForced = ''forced''"
| "timer_fire_source_text (TimerFireOther s) = s"

section \<open>Dynamic values\<close>

text \<open>
  A Go \<open>any\<close>: the types the program's type switches distinguish, every other dynamic type being
  \<open>VOther\<close> with its identity and what \<open>json.Marshal\<close> answers on it. A \<open>float64\<close> is NaN, an
  infinity or the rational it represents.
\<close>

datatype gofloat = FNaN | FInf bool | FFin rat

datatype goval =
    VNil
  | VBool bool
  | VInt int
  | VInt64 int
  | VUint u64
  | VUint32 u32
  | VUint64 u64
  | VFloat gofloat
  | VString string
  | VBytes string
  | VStrMap "(string \<times> string) list"
  | VMap "(string \<times> goval) list"
  | VSlice "goval list"
  | VMapSlice "(string \<times> goval) list list"
  | VOther string "string option"

type_synonym any_map = "(string \<times> goval) list"
type_synonym string_map = "(string \<times> string) list"

text \<open>Indexing a Go map yields the zero value of its element type when the key is absent.\<close>

definition any_at :: "any_map \<Rightarrow> string \<Rightarrow> goval" where
  "any_at m k = (case map_of m k of None \<Rightarrow> VNil | Some v \<Rightarrow> v)"

definition string_at :: "string_map \<Rightarrow> string \<Rightarrow> string" where
  "string_at m k = (case map_of m k of None \<Rightarrow> [] | Some v \<Rightarrow> v)"

text \<open>The type assertions \<open>v.(string)\<close> and \<open>v.(bool)\<close> in their two-result form.\<close>

fun as_string :: "goval \<Rightarrow> string option" where
  "as_string (VString s) = Some s"
| "as_string _ = None"

fun as_bool :: "goval \<Rightarrow> bool option" where
  "as_bool (VBool b) = Some b"
| "as_bool _ = None"

definition first_some :: "'a option list \<Rightarrow> 'a option" where
  "first_some xs = fold (\<lambda>x r. case r of None \<Rightarrow> x | Some y \<Rightarrow> Some y) xs None"

text \<open>The error of \<open>json.Marshal\<close>, if any: a float that is not finite, or a value of a type JSON
  cannot hold.\<close>

fun json_error :: "goval \<Rightarrow> string option" where
  "json_error (VFloat FNaN) = Some ''json: unsupported value: NaN''"
| "json_error (VFloat (FInf s)) =
     Some (if s then ''json: unsupported value: -Inf'' else ''json: unsupported value: +Inf'')"
| "json_error (VMap m) = first_some (map (\<lambda>p. json_error (snd p)) m)"
| "json_error (VSlice vs) = first_some (map json_error vs)"
| "json_error (VMapSlice ms) = first_some (map (\<lambda>m. first_some (map (\<lambda>p. json_error (snd p)) m)) ms)"
| "json_error (VOther _ e) = e"
| "json_error _ = None"

definition json_map_error :: "any_map \<Rightarrow> string option" where
  "json_map_error m = json_error (VMap m)"

lemma first_some_None_iff: "first_some xs = None \<longleftrightarrow> (\<forall>x \<in> set xs. x = None)"
proof -
  have gen: "fold (\<lambda>x r. case r of None \<Rightarrow> x | Some y \<Rightarrow> Some y) xs r = None
    \<longleftrightarrow> r = None \<and> (\<forall>x \<in> set xs. x = None)" for r :: "'a option"
    by (induction xs arbitrary: r) (auto split: option.splits)
  show ?thesis by (simp add: first_some_def gen)
qed

lemma json_map_error_Nil [simp]: "json_map_error [] = None"
  by (simp add: json_map_error_def first_some_def)

end
