(* ===== verification/Core_Action.thy ===== *)
theory Core_Action
  imports Core_Values
begin

text \<open>internal/core/action.go: the concrete actions the runtime executes, and their validation.\<close>

datatype action_kind =
    ActionDeliver | ActionDrop | ActionDuplicate | ActionAdvanceTime
  | ActionTimeout | ActionCrash | ActionRestart | ActionRequest
  | ActionKindOther string

fun action_kind_valid :: "action_kind \<Rightarrow> bool" where
  "action_kind_valid (ActionKindOther _) = False"
| "action_kind_valid _ = True"

fun action_kind_text :: "action_kind \<Rightarrow> string" where
  "action_kind_text ActionDeliver = ''deliver''"
| "action_kind_text ActionDrop = ''drop''"
| "action_kind_text ActionDuplicate = ''duplicate''"
| "action_kind_text ActionAdvanceTime = ''advance_time''"
| "action_kind_text ActionTimeout = ''timeout''"
| "action_kind_text ActionCrash = ''crash''"
| "action_kind_text ActionRestart = ''restart''"
| "action_kind_text ActionRequest = ''request''"
| "action_kind_text (ActionKindOther s) = s"

record message_selector =
  sel_link :: link_id
  sel_position :: int

definition message_selector_validate :: "message_selector \<Rightarrow> validation_error option" where
  "message_selector_validate s =
     (case link_id_validate (sel_link s) of
        Some e \<Rightarrow> Some e
      | None \<Rightarrow>
          if sel_position s < 0
          then Some (invalid_value ''message_selector'' ''position'' ''must be non-negative'')
          else None)"

lemma message_selector_validate_None [simp, validate_simps]:
  "message_selector_validate s = None \<longleftrightarrow>
     link_from (sel_link s) \<noteq> 0 \<and> link_to (sel_link s) \<noteq> 0 \<and> 0 \<le> sel_position s"
  by (auto simp: message_selector_validate_def)

record action =
  act_kind :: action_kind
  act_node :: node_id
  act_message :: message_id
  act_selector :: "message_selector option"
  act_target_time :: logical_time
  act_request :: string

text \<open>A composite literal \<open>Action{Kind: k}\<close>: every other field has its zero value.\<close>

definition action_of_kind :: "action_kind \<Rightarrow> action" where
  "action_of_kind k = \<lparr>act_kind = k, act_node = 0, act_message = 0, act_selector = None,
     act_target_time = 0, act_request = []\<rparr>"

definition validate_message_action :: "action \<Rightarrow> validation_error option" where
  "validate_message_action a =
     (if \<not> message_id_valid (act_message a)
      then Some (invalid_value ''action'' ''message'' ''concrete message action requires a message ID'')
      else case act_selector a of
        None \<Rightarrow> Some (invalid_value ''action'' ''selector'' ''concrete message action requires a selector'')
      | Some s \<Rightarrow>
          (case message_selector_validate s of
             Some e \<Rightarrow> Some e
           | None \<Rightarrow>
               if node_id_valid (act_node a) \<or> act_target_time a \<noteq> 0 \<or> act_request a \<noteq> []
               then Some (invalid_value ''action'' '''' ''message action contains unrelated fields'')
               else None))"

definition validate_time_action :: "action \<Rightarrow> validation_error option" where
  "validate_time_action a =
     (if act_target_time a = 0
      then Some (invalid_value ''action'' ''target_time'' ''must be non-zero'')
      else if node_id_valid (act_node a) \<or> message_id_valid (act_message a)
        \<or> act_selector a \<noteq> None \<or> act_request a \<noteq> []
      then Some (invalid_value ''action'' '''' ''advance-time action contains unrelated fields'')
      else None)"

definition validate_node_action :: "action \<Rightarrow> validation_error option" where
  "validate_node_action a =
     (if \<not> node_id_valid (act_node a)
      then Some (invalid_value ''action'' ''node'' ''must be non-zero'')
      else if message_id_valid (act_message a) \<or> act_selector a \<noteq> None
        \<or> act_target_time a \<noteq> 0 \<or> act_request a \<noteq> []
      then Some (invalid_value ''action'' '''' ''node action contains unrelated fields'')
      else None)"

definition validate_request_action :: "action \<Rightarrow> validation_error option" where
  "validate_request_action a =
     (if \<not> node_id_valid (act_node a)
      then Some (invalid_value ''action'' ''node'' ''concrete request requires a target node'')
      else if act_request a = []
      then Some (invalid_value ''action'' ''request'' ''must not be empty'')
      else if message_id_valid (act_message a) \<or> act_selector a \<noteq> None \<or> act_target_time a \<noteq> 0
      then Some (invalid_value ''action'' '''' ''request action contains unrelated fields'')
      else None)"

definition action_validate :: "action \<Rightarrow> validation_error option" where
  "action_validate a =
     (case act_kind a of
        ActionDeliver \<Rightarrow> validate_message_action a
      | ActionDrop \<Rightarrow> validate_message_action a
      | ActionDuplicate \<Rightarrow> validate_message_action a
      | ActionAdvanceTime \<Rightarrow> validate_time_action a
      | ActionTimeout \<Rightarrow> validate_node_action a
      | ActionCrash \<Rightarrow> validate_node_action a
      | ActionRestart \<Rightarrow> validate_node_action a
      | ActionRequest \<Rightarrow> validate_request_action a
      | ActionKindOther _ \<Rightarrow> Some (invalid_value ''action'' ''kind'' ''is unknown''))"

lemma validate_message_action_None [validate_simps]:
  "validate_message_action a = None \<longleftrightarrow>
     act_message a \<noteq> 0 \<and> act_node a = 0 \<and> act_target_time a = 0 \<and> act_request a = [] \<and>
     (\<exists>s. act_selector a = Some s \<and> message_selector_validate s = None)"
  by (cases "act_selector a") (auto simp: validate_message_action_def)

lemma validate_time_action_None [validate_simps]:
  "validate_time_action a = None \<longleftrightarrow>
     act_target_time a \<noteq> 0 \<and> act_node a = 0 \<and> act_message a = 0 \<and> act_selector a = None
     \<and> act_request a = []"
  by (auto simp: validate_time_action_def)

lemma validate_node_action_None [validate_simps]:
  "validate_node_action a = None \<longleftrightarrow>
     act_node a \<noteq> 0 \<and> act_message a = 0 \<and> act_selector a = None \<and> act_target_time a = 0
     \<and> act_request a = []"
  by (auto simp: validate_node_action_def)

lemma validate_request_action_None [validate_simps]:
  "validate_request_action a = None \<longleftrightarrow>
     act_node a \<noteq> 0 \<and> act_request a \<noteq> [] \<and> act_message a = 0 \<and> act_selector a = None
     \<and> act_target_time a = 0"
  by (auto simp: validate_request_action_def)

definition is_message_kind :: "action_kind \<Rightarrow> bool" where
  "is_message_kind k \<longleftrightarrow> k \<in> {ActionDeliver, ActionDrop, ActionDuplicate}"

lemma action_validate_message:
  "is_message_kind (act_kind a) \<Longrightarrow> action_validate a = None \<Longrightarrow>
     act_message a \<noteq> 0 \<and> (\<exists>s. act_selector a = Some s \<and> message_selector_validate s = None)"
  by (auto simp: is_message_kind_def action_validate_def validate_message_action_None)

lemma action_validate_kind: "action_validate a = None \<Longrightarrow> action_kind_valid (act_kind a)"
  by (cases "act_kind a") (auto simp: action_validate_def)

text \<open>An action sequence is validated in order; the index of the first bad action is reported.\<close>

fun action_sequence_validate_from :: "nat \<Rightarrow> action list \<Rightarrow> validation_error option" where
  "action_sequence_validate_from i [] = None"
| "action_sequence_validate_from i (a # rest) =
     (case action_validate a of
        Some e \<Rightarrow> Some (invalid_value ''action_sequence'' ''actions''
          (''action at index '' @ show_nat i @ '' is invalid: '' @ validation_error_text e))
      | None \<Rightarrow> action_sequence_validate_from (Suc i) rest)"

definition action_sequence_validate :: "action list \<Rightarrow> validation_error option" where
  "action_sequence_validate actions = action_sequence_validate_from 0 actions"

lemma action_sequence_validate_from_None:
  "action_sequence_validate_from i as = None \<longleftrightarrow> (\<forall>a \<in> set as. action_validate a = None)"
  by (induction i as rule: action_sequence_validate_from.induct) (auto split: option.splits)

lemma action_sequence_validate_None [validate_simps]:
  "action_sequence_validate as = None \<longleftrightarrow> (\<forall>a \<in> set as. action_validate a = None)"
  by (simp add: action_sequence_validate_def action_sequence_validate_from_None)

end
