(* ===== verification/Core_Message.thy ===== *)
theory Core_Message
  imports Core_Action
begin

text \<open>
  internal/core/message.go and effect.go: message envelopes, with the difference between a message
  the adapter has just produced and one the network has registered, and the effects an adapter
  reports.
\<close>

section \<open>Messages (message.go)\<close>

record message =
  msg_id :: message_id
  msg_from :: node_id
  msg_to :: node_id
  msg_sender_epoch :: node_epoch
  msg_sequence :: u64
  msg_parent_id :: message_id
  msg_type_hint :: string
  msg_payload_digest :: string
  msg_metadata :: string_map
  msg_payload :: goval

definition message_link :: "message \<Rightarrow> link_id" where
  "message_link m = LinkID (msg_from m) (msg_to m)"

lemma message_link_sel [simp]:
  "link_from (message_link m) = msg_from m" "link_to (message_link m) = msg_to m"
  by (simp_all add: message_link_def)

definition message_validate_envelope :: "message \<Rightarrow> validation_error option" where
  "message_validate_envelope m =
     (case link_id_validate (message_link m) of
        Some e \<Rightarrow> Some e
      | None \<Rightarrow>
          if \<not> node_epoch_valid (msg_sender_epoch m)
          then Some (invalid_value ''message'' ''sender_epoch'' ''must be non-zero'')
          else if message_id_valid (msg_parent_id m) \<and> message_id_valid (msg_id m)
            \<and> msg_parent_id m = msg_id m
          then Some (invalid_value ''message'' ''parent_id'' ''cannot reference the message itself'')
          else None)"

definition message_validate_outbound :: "message \<Rightarrow> validation_error option" where
  "message_validate_outbound m =
     (case message_validate_envelope m of
        Some e \<Rightarrow> Some e
      | None \<Rightarrow>
          if message_id_valid (msg_id m) \<or> msg_sequence m \<noteq> 0 \<or> message_id_valid (msg_parent_id m)
          then Some (invalid_value ''message'' ''''
                 ''outbound message must not contain runtime-assigned identity fields'')
          else None)"

definition message_validate :: "message \<Rightarrow> validation_error option" where
  "message_validate m =
     (case message_validate_envelope m of
        Some e \<Rightarrow> Some e
      | None \<Rightarrow>
          if \<not> message_id_valid (msg_id m)
          then Some (invalid_value ''message'' ''id'' ''must be non-zero'')
          else if msg_sequence m = 0
          then Some (invalid_value ''message'' ''link_sequence'' ''must be non-zero'')
          else None)"

lemma message_validate_envelope_None [validate_simps]:
  "message_validate_envelope m = None \<longleftrightarrow>
     msg_from m \<noteq> 0 \<and> msg_to m \<noteq> 0 \<and> msg_sender_epoch m \<noteq> 0 \<and>
     (msg_parent_id m \<noteq> 0 \<longrightarrow> msg_id m \<noteq> 0 \<longrightarrow> msg_parent_id m \<noteq> msg_id m)"
  by (auto simp: message_validate_envelope_def)

lemma message_validate_outbound_None [validate_simps]:
  "message_validate_outbound m = None \<longleftrightarrow>
     msg_from m \<noteq> 0 \<and> msg_to m \<noteq> 0 \<and> msg_sender_epoch m \<noteq> 0 \<and>
     msg_id m = 0 \<and> msg_sequence m = 0 \<and> msg_parent_id m = 0"
  by (auto simp: message_validate_outbound_def message_validate_envelope_None)

lemma message_validate_None [validate_simps]:
  "message_validate m = None \<longleftrightarrow>
     msg_from m \<noteq> 0 \<and> msg_to m \<noteq> 0 \<and> msg_sender_epoch m \<noteq> 0 \<and>
     msg_id m \<noteq> 0 \<and> msg_sequence m \<noteq> 0 \<and> msg_parent_id m \<noteq> msg_id m"
  by (auto simp: message_validate_def message_validate_envelope_None)

section \<open>Effects (effect.go)\<close>

datatype effect_kind = EffectSendMessage | EffectTimerFired | EffectModelEvent | EffectKindOther string

fun effect_kind_valid :: "effect_kind \<Rightarrow> bool" where
  "effect_kind_valid (EffectKindOther _) = False"
| "effect_kind_valid _ = True"

record timer_fired =
  tf_node :: node_id
  tf_epoch :: node_epoch
  tf_source :: timer_fire_source
  tf_type_hint :: string
  tf_role_hint :: string
  tf_metadata :: string_map

definition timer_fired_validate :: "timer_fired \<Rightarrow> validation_error option" where
  "timer_fired_validate e =
     (if \<not> node_id_valid (tf_node e)
      then Some (invalid_value ''timer_fired'' ''node'' ''must be non-zero'')
      else if \<not> node_epoch_valid (tf_epoch e)
      then Some (invalid_value ''timer_fired'' ''node_epoch'' ''must be non-zero'')
      else if \<not> timer_fire_source_valid (tf_source e)
      then Some (invalid_value ''timer_fired'' ''source'' ''is unknown'')
      else None)"

record model_event =
  me_name :: string
  me_node :: node_id
  me_params :: any_map

definition model_event_validate :: "model_event \<Rightarrow> validation_error option" where
  "model_event_validate e =
     (if me_name e = []
      then Some (invalid_value ''model_event'' ''name'' ''must not be empty'')
      else case json_map_error (me_params e) of
        Some t \<Rightarrow> Some (invalid_value ''model_event'' ''params'' (''must be JSON serializable: '' @ t))
      | None \<Rightarrow> None)"

record effect =
  eff_at :: logical_time
  eff_kind :: effect_kind
  eff_message :: "message option"
  eff_timer_fired :: "timer_fired option"
  eff_model_event :: "model_event option"

definition effect_payloads :: "effect \<Rightarrow> nat" where
  "effect_payloads e =
     length (filter id [eff_message e \<noteq> None, eff_timer_fired e \<noteq> None, eff_model_event e \<noteq> None])"

definition effect_validate :: "effect \<Rightarrow> validation_error option" where
  "effect_validate e =
     (if \<not> effect_kind_valid (eff_kind e)
      then Some (invalid_value ''effect'' ''kind'' ''is unknown'')
      else if effect_payloads e \<noteq> 1
      then Some (invalid_value ''effect'' '''' ''must contain exactly one payload'')
      else case eff_kind e of
        EffectSendMessage \<Rightarrow>
          (case eff_message e of
             None \<Rightarrow> Some (invalid_value ''effect'' ''message'' ''is required for send_message'')
           | Some m \<Rightarrow> message_validate m)
      | EffectTimerFired \<Rightarrow>
          (case eff_timer_fired e of
             None \<Rightarrow> Some (invalid_value ''effect'' ''timer_fired'' ''is required for timer_fired'')
           | Some t \<Rightarrow> timer_fired_validate t)
      | EffectModelEvent \<Rightarrow>
          (case eff_model_event e of
             None \<Rightarrow> Some (invalid_value ''effect'' ''model_event'' ''is required for model_event'')
           | Some v \<Rightarrow> model_event_validate v)
      | EffectKindOther _ \<Rightarrow> Some (invalid_value ''effect'' ''kind'' ''is unknown''))"

text \<open>What a valid effect is: the tag and the one payload agree, and the payload is valid.\<close>

fun effect_well_formed :: "effect_kind \<Rightarrow> message option \<Rightarrow> timer_fired option \<Rightarrow> model_event option \<Rightarrow> bool"
  where
  "effect_well_formed EffectSendMessage (Some m) None None = (message_validate m = None)"
| "effect_well_formed EffectTimerFired None (Some t) None = (timer_fired_validate t = None)"
| "effect_well_formed EffectModelEvent None None (Some v) = (model_event_validate v = None)"
| "effect_well_formed _ _ _ _ = False"

text \<open>Effect validation accepts exactly the well-formed tagged unions: one payload, of the kind
  the tag announces, itself valid.\<close>

theorem effect_validate_iff_tagged_union:
  "effect_validate e = None \<longleftrightarrow>
     effect_well_formed (eff_kind e) (eff_message e) (eff_timer_fired e) (eff_model_event e)"
  by (cases "eff_kind e"; cases "eff_message e"; cases "eff_timer_fired e"; cases "eff_model_event e")
     (simp_all add: effect_validate_def effect_payloads_def)

lemma effect_validate_send_message:
  "eff_kind e = EffectSendMessage \<Longrightarrow>
     effect_validate e = None \<longleftrightarrow>
       (\<exists>m. eff_message e = Some m \<and> message_validate m = None) \<and>
       eff_timer_fired e = None \<and> eff_model_event e = None"
  by (cases "eff_message e"; cases "eff_timer_fired e"; cases "eff_model_event e")
     (simp_all add: effect_validate_def effect_payloads_def)

lemma effect_validate_timer_fired:
  "eff_kind e = EffectTimerFired \<Longrightarrow> effect_validate e = None \<Longrightarrow> \<exists>t. eff_timer_fired e = Some t"
  by (cases "eff_message e"; cases "eff_timer_fired e"; cases "eff_model_event e")
     (simp_all add: effect_validate_def effect_payloads_def)

end
