(* ===== verification/Core_Observation.thy ===== *)
theory Core_Observation
  imports Core_Message "HOL-Library.Multiset"
begin

text \<open>internal/core/observation.go: the protocol-independent view of a cluster and its message queues.\<close>

datatype node_status = NodeRunning | NodeCrashed | NodeStatusOther string

fun node_status_valid :: "node_status \<Rightarrow> bool" where
  "node_status_valid NodeRunning = True"
| "node_status_valid NodeCrashed = True"
| "node_status_valid (NodeStatusOther _) = False"

record node_observation =
  no_id :: node_id
  no_epoch :: node_epoch
  no_status :: node_status
  no_digest :: string
  no_semantic :: any_map

definition node_observation_validate :: "node_observation \<Rightarrow> validation_error option" where
  "node_observation_validate n =
     (if \<not> node_id_valid (no_id n)
      then Some (invalid_value ''node_observation'' ''id'' ''must be non-zero'')
      else if \<not> node_epoch_valid (no_epoch n)
      then Some (invalid_value ''node_observation'' ''epoch'' ''must be non-zero'')
      else if \<not> node_status_valid (no_status n)
      then Some (invalid_value ''node_observation'' ''status'' ''is unknown or invalid'')
      else case json_map_error (no_semantic n) of
        Some t \<Rightarrow> Some (invalid_value ''node_observation'' ''semantic'' (''must be JSON serializable: '' @ t))
      | None \<Rightarrow> None)"

record message_observation =
  mo_id :: message_id
  mo_from :: node_id
  mo_to :: node_id
  mo_sender_epoch :: node_epoch
  mo_link_sequence :: u64
  mo_parent_id :: message_id
  mo_position :: int
  mo_enqueued_at :: logical_time
  mo_type_hint :: string
  mo_payload_digest :: string
  mo_metadata :: string_map

definition message_of_observation :: "message_observation \<Rightarrow> message" where
  "message_of_observation m =
     \<lparr>msg_id = mo_id m, msg_from = mo_from m, msg_to = mo_to m, msg_sender_epoch = mo_sender_epoch m,
      msg_sequence = mo_link_sequence m, msg_parent_id = mo_parent_id m, msg_type_hint = [],
      msg_payload_digest = mo_payload_digest m, msg_metadata = [], msg_payload = VNil\<rparr>"

definition message_observation_validate :: "message_observation \<Rightarrow> validation_error option" where
  "message_observation_validate m =
     (case message_validate (message_of_observation m) of
        Some e \<Rightarrow> Some e
      | None \<Rightarrow>
          if mo_position m < 0
          then Some (invalid_value ''message_observation'' ''position'' ''must be non-negative'')
          else None)"

lemma message_observation_validate_None [validate_simps]:
  "message_observation_validate m = None \<longleftrightarrow>
     message_validate (message_of_observation m) = None \<and> 0 \<le> mo_position m"
  by (auto simp: message_observation_validate_def)

record observation =
  obs_time :: logical_time
  obs_nodes :: "node_observation list"
  obs_messages :: "message_observation list"
  obs_last_action :: "action option"
  obs_semantic :: any_map

definition empty_observation :: observation where
  "empty_observation = \<lparr>obs_time = 0, obs_nodes = [], obs_messages = [], obs_last_action = None,
     obs_semantic = []\<rparr>"

text \<open>The two loops of \<open>Validate\<close>, with the IDs seen so far.\<close>

fun validate_nodes :: "node_id list \<Rightarrow> node_observation list \<Rightarrow> validation_error option" where
  "validate_nodes seen [] = None"
| "validate_nodes seen (n # ns) =
     (case node_observation_validate n of
        Some e \<Rightarrow> Some e
      | None \<Rightarrow>
          if no_id n \<in> set seen
          then Some (invalid_value ''observation'' ''nodes'' (''contains duplicate node '' @ node_id_text (no_id n)))
          else validate_nodes (no_id n # seen) ns)"

fun validate_messages :: "message_id list \<Rightarrow> message_observation list \<Rightarrow> validation_error option" where
  "validate_messages seen [] = None"
| "validate_messages seen (m # ms) =
     (case message_observation_validate m of
        Some e \<Rightarrow> Some e
      | None \<Rightarrow>
          if mo_id m \<in> set seen
          then Some (invalid_value ''observation'' ''messages''
                 (''contains duplicate message '' @ message_id_text (mo_id m)))
          else validate_messages (mo_id m # seen) ms)"

definition observation_validate :: "observation \<Rightarrow> validation_error option" where
  "observation_validate o' =
     (case json_map_error (obs_semantic o') of
        Some t \<Rightarrow> Some (invalid_value ''observation'' ''semantic'' (''must be JSON serializable: '' @ t))
      | None \<Rightarrow>
        (case validate_nodes [] (obs_nodes o') of
           Some e \<Rightarrow> Some e
         | None \<Rightarrow>
           (case validate_messages [] (obs_messages o') of
              Some e \<Rightarrow> Some e
            | None \<Rightarrow>
              (case obs_last_action o' of
                 None \<Rightarrow> None
               | Some a \<Rightarrow>
                 (case action_validate a of
                    Some e \<Rightarrow> Some (invalid_value ''observation'' ''last_action'' (validation_error_text e))
                  | None \<Rightarrow> None)))))"

lemma validate_nodes_None:
  "validate_nodes seen ns = None \<longleftrightarrow>
     (\<forall>n \<in> set ns. node_observation_validate n = None) \<and> distinct (map no_id ns) \<and>
     set (map no_id ns) \<inter> set seen = {}"
  by (induction seen ns rule: validate_nodes.induct) (auto split: option.splits)

lemma validate_messages_None:
  "validate_messages seen ms = None \<longleftrightarrow>
     (\<forall>m \<in> set ms. message_observation_validate m = None) \<and> distinct (map mo_id ms) \<and>
     set (map mo_id ms) \<inter> set seen = {}"
  by (induction seen ms rule: validate_messages.induct) (auto split: option.splits)

text \<open>C36: Observation validation accepts exactly the observations whose nodes and messages are valid
  one by one, carry pairwise distinct IDs, and whose semantics and last action are valid.\<close>

theorem observation_validate_iff:
  "observation_validate o' = None \<longleftrightarrow>
     json_map_error (obs_semantic o') = None \<and>
     list_all (\<lambda>n. node_observation_validate n = None) (obs_nodes o') \<and>
     distinct (map no_id (obs_nodes o')) \<and>
     list_all (\<lambda>m. message_observation_validate m = None) (obs_messages o') \<and>
     distinct (map mo_id (obs_messages o')) \<and>
     (case obs_last_action o' of None \<Rightarrow> True | Some a \<Rightarrow> action_validate a = None)"
  by (cases "obs_last_action o'")
     (auto simp: observation_validate_def validate_nodes_None validate_messages_None list_all_iff)

lemma observation_validate_None [validate_simps]:
  "observation_validate o' = None \<longleftrightarrow>
     json_map_error (obs_semantic o') = None \<and>
     (\<forall>n \<in> set (obs_nodes o'). node_observation_validate n = None) \<and>
     distinct (map no_id (obs_nodes o')) \<and>
     (\<forall>m \<in> set (obs_messages o'). message_observation_validate m = None) \<and>
     distinct (map mo_id (obs_messages o')) \<and>
     (\<forall>a. obs_last_action o' = Some a \<longrightarrow> action_validate a = None)"
  by (cases "obs_last_action o'")
     (auto simp: observation_validate_def validate_nodes_None validate_messages_None)

text \<open>\<open>Normalized\<close> sorts nodes and messages by ID; the sort of a list with distinct keys is unique,
  so it does not matter that Go's sort is not stable.\<close>

definition observation_normalized :: "observation \<Rightarrow> observation" where
  "observation_normalized o' = o'\<lparr>obs_nodes := sort_key no_id (obs_nodes o'),
     obs_messages := sort_key mo_id (obs_messages o')\<rparr>"

lemma distinct_map_sort_key [simp]: "distinct (map f (sort_key g xs)) \<longleftrightarrow> distinct (map f xs)"
  by (rule mset_eq_imp_distinct_iff) simp

lemma observation_normalized_sel [simp]:
  "obs_time (observation_normalized o') = obs_time o'"
  "obs_last_action (observation_normalized o') = obs_last_action o'"
  "obs_semantic (observation_normalized o') = obs_semantic o'"
  "set (obs_nodes (observation_normalized o')) = set (obs_nodes o')"
  "set (obs_messages (observation_normalized o')) = set (obs_messages o')"
  "length (obs_messages (observation_normalized o')) = length (obs_messages o')"
  by (simp_all add: observation_normalized_def)

lemma observation_normalized_valid [simp]:
  "observation_validate (observation_normalized o') = None \<longleftrightarrow> observation_validate o' = None"
  by (simp add: observation_validate_None observation_normalized_def)

text \<open>Lookup of a node by ID: the first match.\<close>

definition observed_node :: "observation \<Rightarrow> node_id \<Rightarrow> node_observation option" where
  "observed_node o' i = find (\<lambda>n. no_id n = i) (obs_nodes o')"

lemma observed_node_Some: "observed_node o' i = Some n \<Longrightarrow> n \<in> set (obs_nodes o') \<and> no_id n = i"
  by (auto simp: observed_node_def find_Some_iff)

end
