(* ===== verification/Network.thy ===== *)
theory Network
  imports Core_Observation
begin

text \<open>
  internal/runtime/network.go: the deterministic network of one execution. It keeps one FIFO queue
  per directed link, hands out message IDs and link sequence numbers, and removes or duplicates a
  message only when its ID, link and position all match. The Go map of queues is an association
  list whose order carries no meaning: \<open>observations\<close> sorts the links and \<open>len\<close> adds lengths.
\<close>

section \<open>State and operations\<close>

record queued_message =
  qm_message :: message
  qm_enqueued_at :: logical_time

record network =
  nw_queues :: "(link_id \<times> queued_message list) list"
  nw_next_message_id :: message_id
  nw_last_link_sequence :: "(link_id \<times> u64) list"

definition network_len :: "network \<Rightarrow> nat" where
  "network_len n = sum_list (map (\<lambda>p. length (snd p)) (nw_queues n))"

definition new_network :: network where
  "new_network = \<lparr>nw_queues = [], nw_next_message_id = 1, nw_last_link_sequence = []\<rparr>"

definition queue_at :: "network \<Rightarrow> link_id \<Rightarrow> queued_message list" where
  "queue_at n l = list_at (nw_queues n) l"

definition last_sequence :: "network \<Rightarrow> link_id \<Rightarrow> u64" where
  "last_sequence n l = (case map_of (nw_last_link_sequence n) l of None \<Rightarrow> 0 | Some s \<Rightarrow> s)"

definition network_register ::
  "network \<Rightarrow> message \<Rightarrow> message_id \<Rightarrow> logical_time \<Rightarrow> go_error + message \<times> network" where
  "network_register n m parent now =
     (case message_validate_outbound m of
        Some e \<Rightarrow> Inl (errorf_v ErrAdapterContract (''invalid outbound message: '' @ validation_error_text e))
      | None \<Rightarrow>
        if \<not> message_id_valid (nw_next_message_id n)
        then Inl (errorf_v ErrIDExhausted ''message ID space exhausted'')
        else
          let link = message_link m; last_seq = last_sequence n link
          in if last_seq = - 1
             then Inl (errorf_v ErrIDExhausted (''link sequence exhausted for '' @ link_id_text link))
             else
               let m' = m\<lparr>msg_id := nw_next_message_id n, msg_sequence := last_seq + 1,
                          msg_parent_id := parent\<rparr>
               in (case message_validate m' of
                     Some e \<Rightarrow> Inl (errorf_v ErrAdapterContract
                       (''registered message is invalid: '' @ validation_error_text e))
                   | None \<Rightarrow> Inr (m',
                       \<lparr>nw_queues = AList.update link
                          (queue_at n link @ [\<lparr>qm_message = m', qm_enqueued_at = now\<rparr>]) (nw_queues n),
                        nw_next_message_id =
                          (if nw_next_message_id n = - 1 then 0 else nw_next_message_id n + 1),
                        nw_last_link_sequence =
                          AList.update link (msg_sequence m') (nw_last_link_sequence n)\<rparr>)))"

definition network_register_outbound ::
  "network \<Rightarrow> message \<Rightarrow> logical_time \<Rightarrow> go_error + message \<times> network" where
  "network_register_outbound n m now = network_register n m 0 now"

definition network_resolve ::
  "network \<Rightarrow> message_id \<Rightarrow> message_selector \<Rightarrow> go_error + queued_message" where
  "network_resolve n i sel =
     (if \<not> message_id_valid i
      then Inl (errorf_v ErrMessageUnavailable ''message ID is zero'')
      else case message_selector_validate sel of
        Some e \<Rightarrow> Inl (errorf_v ErrMessageUnavailable (''invalid selector: '' @ validation_error_text e))
      | None \<Rightarrow>
        let queue = queue_at n (sel_link sel)
        in if sel_position sel \<ge> int (length queue)
           then Inl (errorf_v ErrMessageUnavailable
             (link_id_text (sel_link sel) @ '' position '' @ show_int (sel_position sel)
              @ '' is outside queue length '' @ show_nat (length queue)))
           else
             let selected = queue ! nat (sel_position sel)
             in if msg_id (qm_message selected) \<noteq> i
                then Inl (errorf_v ErrMessageUnavailable
                  (''selector points to '' @ message_id_text (msg_id (qm_message selected))
                   @ '', not requested '' @ message_id_text i))
                else Inr selected)"

definition network_remove ::
  "network \<Rightarrow> message_id \<Rightarrow> message_selector \<Rightarrow> go_error + message \<times> network" where
  "network_remove n i sel =
     (case network_resolve n i sel of
        Inl e \<Rightarrow> Inl e
      | Inr selected \<Rightarrow>
          let queue = queue_at n (sel_link sel); p = nat (sel_position sel);
              queue' = take p queue @ drop (Suc p) queue
          in Inr (qm_message selected,
               n\<lparr>nw_queues := (if queue' = [] then AList.delete (sel_link sel) (nw_queues n)
                               else AList.update (sel_link sel) queue' (nw_queues n))\<rparr>))"

definition network_duplicate ::
  "network \<Rightarrow> message_id \<Rightarrow> message_selector \<Rightarrow> logical_time \<Rightarrow> go_error + message \<times> network" where
  "network_duplicate n i sel now =
     (case network_resolve n i sel of
        Inl e \<Rightarrow> Inl e
      | Inr selected \<Rightarrow>
          network_register n
            ((qm_message selected)\<lparr>msg_id := 0, msg_sequence := 0, msg_parent_id := 0\<rparr>)
            (msg_id (qm_message selected)) now)"

definition observe_queued :: "nat \<Rightarrow> queued_message \<Rightarrow> message_observation" where
  "observe_queued position q =
     (let m = qm_message q in
      \<lparr>mo_id = msg_id m, mo_from = msg_from m, mo_to = msg_to m, mo_sender_epoch = msg_sender_epoch m,
       mo_link_sequence = msg_sequence m, mo_parent_id = msg_parent_id m, mo_position = int position,
       mo_enqueued_at = qm_enqueued_at q, mo_type_hint = msg_type_hint m,
       mo_payload_digest = msg_payload_digest m, mo_metadata = msg_metadata m\<rparr>)"

definition observe_queue :: "queued_message list \<Rightarrow> message_observation list" where
  "observe_queue q = map (\<lambda>(p, x). observe_queued p x) (enumerate 0 q)"

definition network_observations :: "network \<Rightarrow> message_observation list" where
  "network_observations n =
     concat (map (\<lambda>l. observe_queue (queue_at n l)) (sort (map fst (nw_queues n))))"

section \<open>The invariant\<close>

text \<open>IDs below \<open>next\<close> have been handed out; \<open>next = 0\<close> marks the exhausted ID space.\<close>

definition id_issued :: "message_id \<Rightarrow> message_id \<Rightarrow> bool" where
  "id_issued next i \<longleftrightarrow> i \<noteq> 0 \<and> (next = 0 \<or> i < next)"

definition queued_ok :: "network \<Rightarrow> link_id \<Rightarrow> queued_message \<Rightarrow> bool" where
  "queued_ok n l q \<longleftrightarrow>
     message_validate (qm_message q) = None \<and> message_link (qm_message q) = l \<and>
     msg_sequence (qm_message q) \<le> last_sequence n l \<and>
     id_issued (nw_next_message_id n) (msg_id (qm_message q))"

definition queue_ordered :: "queued_message list \<Rightarrow> bool" where
  "queue_ordered q \<longleftrightarrow>
     sorted_wrt (<) (map (msg_sequence \<circ> qm_message) q) \<and> sorted_wrt (<) (map (msg_id \<circ> qm_message) q)"

definition network_wf :: "network \<Rightarrow> bool" where
  "network_wf n \<longleftrightarrow>
     distinct (map fst (nw_queues n)) \<and>
     (\<forall>l. \<forall>q \<in> set (queue_at n l). queued_ok n l q) \<and>
     (\<forall>l. queue_ordered (queue_at n l)) \<and>
     (\<forall>p \<in> set (nw_queues n). snd p \<noteq> []) \<and>
     distinct (map (msg_id \<circ> qm_message) (all_values (nw_queues n)))"

lemma network_len_all_values: "network_len n = length (all_values (nw_queues n))"
  by (simp add: network_len_def length_all_values)

lemma new_network_wf [invariant_intros]: "network_wf new_network"
  by (simp add: network_wf_def new_network_def queue_at_def list_at_def all_values_def queue_ordered_def)

lemma queue_at_new [simp]: "queue_at new_network l = []"
  by (simp add: queue_at_def new_network_def list_at_def)

lemma network_len_new [simp]: "network_len new_network = 0"
  by (simp add: network_len_def new_network_def)

section \<open>Registering a message\<close>

definition registered_message :: "network \<Rightarrow> message \<Rightarrow> message_id \<Rightarrow> message" where
  "registered_message n m parent = m\<lparr>msg_id := nw_next_message_id n,
     msg_sequence := last_sequence n (message_link m) + 1, msg_parent_id := parent\<rparr>"

lemma registered_message_sel [simp]:
  "msg_id (registered_message n m parent) = nw_next_message_id n"
  "msg_sequence (registered_message n m parent) = last_sequence n (message_link m) + 1"
  "msg_parent_id (registered_message n m parent) = parent"
  "message_link (registered_message n m parent) = message_link m"
  "msg_from (registered_message n m parent) = msg_from m"
  "msg_to (registered_message n m parent) = msg_to m"
  "msg_sender_epoch (registered_message n m parent) = msg_sender_epoch m"
  by (simp_all add: registered_message_def message_link_def)

definition can_register :: "network \<Rightarrow> message \<Rightarrow> message_id \<Rightarrow> bool" where
  "can_register n m parent \<longleftrightarrow>
     message_validate_outbound m = None \<and> nw_next_message_id n \<noteq> 0 \<and>
     last_sequence n (message_link m) \<noteq> - 1 \<and> message_validate (registered_message n m parent) = None"

definition after_register :: "network \<Rightarrow> message \<Rightarrow> message_id \<Rightarrow> logical_time \<Rightarrow> network" where
  "after_register n m parent now =
     \<lparr>nw_queues = AList.update (message_link m)
        (queue_at n (message_link m) @ [\<lparr>qm_message = registered_message n m parent, qm_enqueued_at = now\<rparr>])
        (nw_queues n),
      nw_next_message_id = (if nw_next_message_id n = - 1 then 0 else nw_next_message_id n + 1),
      nw_last_link_sequence =
        AList.update (message_link m) (last_sequence n (message_link m) + 1) (nw_last_link_sequence n)\<rparr>"

lemma network_register_Inr:
  "network_register n m parent now = Inr r \<longleftrightarrow>
     can_register n m parent \<and> r = (registered_message n m parent, after_register n m parent now)"
  by (auto simp: network_register_def Let_def can_register_def after_register_def
      registered_message_def split: option.splits)

lemma queue_at_after_register [simp]:
  "queue_at (after_register n m parent now) l =
     (if l = message_link m
      then queue_at n l @ [\<lparr>qm_message = registered_message n m parent, qm_enqueued_at = now\<rparr>]
      else queue_at n l)"
  by (auto simp: queue_at_def after_register_def)

lemma last_sequence_after_register [simp]:
  "last_sequence (after_register n m parent now) l =
     (if l = message_link m then last_sequence n l + 1 else last_sequence n l)"
  by (auto simp: last_sequence_def after_register_def update_conv')

lemma next_id_after_register [simp]:
  "nw_next_message_id (after_register n m parent now) =
     (if nw_next_message_id n = - 1 then 0 else nw_next_message_id n + 1)"
  by (simp add: after_register_def)

lemma all_values_after_register:
  "distinct (map fst (nw_queues n)) \<Longrightarrow>
     mset (all_values (nw_queues (after_register n m parent now))) =
     add_mset \<lparr>qm_message = registered_message n m parent, qm_enqueued_at = now\<rparr>
       (mset (all_values (nw_queues n)))"
  using mset_all_values_update [of "nw_queues n" "message_link m"
      "queue_at n (message_link m) @ [\<lparr>qm_message = registered_message n m parent, qm_enqueued_at = now\<rparr>]"]
  by (simp add: after_register_def queue_at_def)

lemma network_len_after_register:
  "distinct (map fst (nw_queues n)) \<Longrightarrow>
     network_len (after_register n m parent now) = Suc (network_len n)"
  using all_values_after_register [of n m parent now]
  by (metis network_len_all_values size_add_mset size_mset)

lemma queue_at_in_all: "q \<in> set (queue_at n l) \<Longrightarrow> q \<in> set (all_values (nw_queues n))"
proof -
  assume "q \<in> set (queue_at n l)"
  then have "(l, queue_at n l) \<in> set (nw_queues n)"
    unfolding queue_at_def by (intro list_at_in) auto
  then show ?thesis using \<open>q \<in> set (queue_at n l)\<close> by (force simp: set_all_values)
qed

lemma all_in_queue_at:
  "network_wf n \<Longrightarrow> q \<in> set (all_values (nw_queues n)) \<Longrightarrow> \<exists>l. q \<in> set (queue_at n l)"
  unfolding set_all_values queue_at_def network_wf_def by (metis list_at_entry prod.collapse)

lemma network_wf_queued_ok: "network_wf n \<Longrightarrow> q \<in> set (queue_at n l) \<Longrightarrow> queued_ok n l q"
  by (simp add: network_wf_def)

lemma queued_ok_after_register:
  assumes "can_register n m parent" "queued_ok n l q"
  shows "queued_ok (after_register n m parent now) l q"
proof -
  have "last_sequence n (message_link m) \<noteq> - 1" "nw_next_message_id n \<noteq> 0"
    using assms(1) by (simp_all add: can_register_def)
  then show ?thesis using assms(2)
    by (auto simp: queued_ok_def id_issued_def word_less_Suc_iff word_le_Suc)
qed

lemma queued_ok_registered:
  assumes "can_register n m parent"
  shows "queued_ok (after_register n m parent now) (message_link m)
    \<lparr>qm_message = registered_message n m parent, qm_enqueued_at = now\<rparr>"
  using assms by (auto simp: queued_ok_def can_register_def id_issued_def word_less_Suc_iff)

lemma queue_ordered_snoc:
  "queue_ordered (q @ [x]) \<longleftrightarrow> queue_ordered q \<and>
     (\<forall>y \<in> set q. msg_sequence (qm_message y) < msg_sequence (qm_message x) \<and>
        msg_id (qm_message y) < msg_id (qm_message x))"
  by (auto simp: queue_ordered_def sorted_wrt_append)

lemma after_register_wf [invariant_intros]:
  assumes wf: "network_wf n" and can: "can_register n m parent"
  shows "network_wf (after_register n m parent now)"
proof -
  let ?n = "after_register n m parent now" and ?l = "message_link m"
  let ?x = "\<lparr>qm_message = registered_message n m parent, qm_enqueued_at = now\<rparr>"
  from can have nz: "nw_next_message_id n \<noteq> 0" and lastseq: "last_sequence n ?l \<noteq> - 1"
    by (simp_all add: can_register_def)
  have dist: "distinct (map fst (nw_queues n))" using wf by (simp add: network_wf_def)
  have issued: "msg_id (qm_message q) < nw_next_message_id n" if "q \<in> set (queue_at n l)" for q l
    using network_wf_queued_ok [OF wf that] nz by (simp add: queued_ok_def id_issued_def)
  have seq: "msg_sequence (qm_message q) < last_sequence n ?l + 1" if "q \<in> set (queue_at n ?l)" for q
    using network_wf_queued_ok [OF wf that] lastseq by (simp add: queued_ok_def word_less_Suc_iff)
  have 1: "distinct (map fst (nw_queues ?n))"
    using dist by (simp add: after_register_def distinct_update)
  have 2: "queued_ok ?n l q" if "q \<in> set (queue_at ?n l)" for l q
    using that queued_ok_after_register [OF can network_wf_queued_ok [OF wf]] queued_ok_registered [OF can]
    by (auto split: if_splits)
  have 3: "queue_ordered (queue_at ?n l)" for l
    using wf seq issued by (auto simp: queue_ordered_snoc network_wf_def)
  have 4: "\<forall>p \<in> set (nw_queues ?n). snd p \<noteq> []"
    using wf set_update_subset by (fastforce simp: after_register_def network_wf_def)
  have fresh: "nw_next_message_id n \<notin> (msg_id \<circ> qm_message) ` set (all_values (nw_queues n))"
    using all_in_queue_at [OF wf] issued by fastforce
  have "mset (map (msg_id \<circ> qm_message) (all_values (nw_queues ?n))) =
      mset (nw_next_message_id n # map (msg_id \<circ> qm_message) (all_values (nw_queues n)))"
    by (simp add: all_values_after_register [OF dist])
  then have "distinct (map (msg_id \<circ> qm_message) (all_values (nw_queues ?n))) \<longleftrightarrow>
      distinct (nw_next_message_id n # map (msg_id \<circ> qm_message) (all_values (nw_queues n)))"
    by (rule mset_eq_imp_distinct_iff)
  then have 5: "distinct (map (msg_id \<circ> qm_message) (all_values (nw_queues ?n)))"
    using wf fresh by (simp add: network_wf_def)
  from 1 2 3 4 5 show ?thesis by (simp add: network_wf_def)
qed

section \<open>Selecting, removing and duplicating\<close>

lemma network_resolve_Inr:
  "network_resolve n i sel = Inr q \<longleftrightarrow>
     i \<noteq> 0 \<and> message_selector_validate sel = None \<and>
     nat (sel_position sel) < length (queue_at n (sel_link sel)) \<and>
     q = queue_at n (sel_link sel) ! nat (sel_position sel) \<and> msg_id (qm_message q) = i"
proof (cases "message_selector_validate sel")
  case None
  then have "0 \<le> sel_position sel" by simp
  then have "int (length (queue_at n (sel_link sel))) \<le> sel_position sel \<longleftrightarrow>
      \<not> nat (sel_position sel) < length (queue_at n (sel_link sel))" by linarith
  with None show ?thesis
    by (auto simp: network_resolve_def Let_def simp del: message_selector_validate_None)
next
  case (Some e)
  then show ?thesis by (simp add: network_resolve_def del: message_selector_validate_None)
qed

definition after_remove :: "network \<Rightarrow> message_selector \<Rightarrow> network" where
  "after_remove n sel =
     (let p = nat (sel_position sel);
          queue' = take p (queue_at n (sel_link sel)) @ drop (Suc p) (queue_at n (sel_link sel))
      in n\<lparr>nw_queues := (if queue' = [] then AList.delete (sel_link sel) (nw_queues n)
                         else AList.update (sel_link sel) queue' (nw_queues n))\<rparr>)"

lemma network_remove_Inr:
  "network_remove n i sel = Inr r \<longleftrightarrow>
     (\<exists>q. network_resolve n i sel = Inr q \<and> r = (qm_message q, after_remove n sel))"
  by (auto simp: network_remove_def after_remove_def Let_def split: sum.splits)

lemma queue_at_after_remove [simp]:
  "queue_at (after_remove n sel) l =
     (if l = sel_link sel
      then take (nat (sel_position sel)) (queue_at n l) @ drop (Suc (nat (sel_position sel))) (queue_at n l)
      else queue_at n l)"
  by (auto simp: after_remove_def Let_def queue_at_def)

lemma after_remove_frame [simp]:
  "last_sequence (after_remove n sel) l = last_sequence n l"
  "nw_next_message_id (after_remove n sel) = nw_next_message_id n"
  by (simp_all add: after_remove_def Let_def last_sequence_def)

lemma all_values_after_remove:
  assumes "distinct (map fst (nw_queues n))" "nat (sel_position sel) < length (queue_at n (sel_link sel))"
  shows "mset (all_values (nw_queues n)) =
    add_mset (queue_at n (sel_link sel) ! nat (sel_position sel))
      (mset (all_values (nw_queues (after_remove n sel))))"
proof -
  let ?q = "queue_at n (sel_link sel)" and ?p = "nat (sel_position sel)"
  let ?rest = "take ?p ?q @ drop (Suc ?p) ?q"
  have "mset ?q = mset (take ?p ?q @ ?q ! ?p # drop (Suc ?p) ?q)"
    using assms(2) by (simp flip: id_take_nth_drop)
  then have split: "mset ?q = add_mset (?q ! ?p) (mset ?rest)" by simp
  have "mset (all_values (nw_queues (after_remove n sel))) + mset ?q
      = mset (all_values (nw_queues n)) + mset ?rest"
    using mset_all_values_update [OF assms(1), of "sel_link sel" ?rest]
      mset_all_values_delete [OF assms(1), of "sel_link sel"]
    by (auto simp: after_remove_def Let_def queue_at_def)
  then show ?thesis unfolding split by (simp flip: union_assoc)
qed

lemma queue_ordered_remove: "queue_ordered q \<Longrightarrow> queue_ordered (take p q @ drop (Suc p) q)"
proof (cases "p < length q")
  case True
  assume "queue_ordered q"
  then have "queue_ordered (take p q @ q ! p # drop (Suc p) q)"
    using True by (simp flip: id_take_nth_drop)
  then show ?thesis by (auto simp: queue_ordered_def sorted_wrt_append)
qed simp

lemma after_remove_wf [invariant_intros]:
  assumes wf: "network_wf n" and pos: "nat (sel_position sel) < length (queue_at n (sel_link sel))"
  shows "network_wf (after_remove n sel)"
proof -
  let ?n = "after_remove n sel"
  have dist: "distinct (map fst (nw_queues n))" using wf by (simp add: network_wf_def)
  have 1: "distinct (map fst (nw_queues ?n))"
    using dist by (auto simp: after_remove_def Let_def distinct_update distinct_delete)
  have sub: "set (queue_at ?n l) \<subseteq> set (queue_at n l)" for l
    by (auto dest: in_set_takeD in_set_dropD)
  have 2: "queued_ok ?n l q" if "q \<in> set (queue_at ?n l)" for l q
    using network_wf_queued_ok [OF wf, of q l] sub [of l] that by (auto simp: queued_ok_def)
  have 3: "queue_ordered (queue_at ?n l)" for l
    using wf by (auto simp: network_wf_def queue_ordered_remove)
  have 4: "\<forall>p \<in> set (nw_queues ?n). snd p \<noteq> []"
  proof
    fix p assume "p \<in> set (nw_queues ?n)"
    then have "snd p \<noteq> [] \<or> p \<in> set (nw_queues n)"
      by (auto simp: after_remove_def Let_def split: if_splits dest: set_update_subset set_delete_subset)
    then show "snd p \<noteq> []" using wf by (auto simp: network_wf_def)
  qed
  have "mset (map (msg_id \<circ> qm_message) (all_values (nw_queues n))) =
      mset (msg_id (qm_message (queue_at n (sel_link sel) ! nat (sel_position sel)))
        # map (msg_id \<circ> qm_message) (all_values (nw_queues ?n)))"
    by (simp add: all_values_after_remove [OF dist pos])
  then have "distinct (map (msg_id \<circ> qm_message) (all_values (nw_queues n))) \<longleftrightarrow>
      distinct (msg_id (qm_message (queue_at n (sel_link sel) ! nat (sel_position sel)))
        # map (msg_id \<circ> qm_message) (all_values (nw_queues ?n)))"
    by (rule mset_eq_imp_distinct_iff)
  then have 5: "distinct (map (msg_id \<circ> qm_message) (all_values (nw_queues ?n)))"
    using wf by (simp add: network_wf_def)
  from 1 2 3 4 5 show ?thesis by (simp add: network_wf_def)
qed

lemma network_len_after_remove:
  assumes "network_wf n" "nat (sel_position sel) < length (queue_at n (sel_link sel))"
  shows "network_len n = Suc (network_len (after_remove n sel))"
  using all_values_after_remove [of n sel] assms
  by (metis network_len_all_values network_wf_def size_add_mset size_mset)

definition duplicated_message :: "message \<Rightarrow> message" where
  "duplicated_message m = m\<lparr>msg_id := 0, msg_sequence := 0, msg_parent_id := 0\<rparr>"

lemma duplicated_message_link [simp]: "message_link (duplicated_message m) = message_link m"
  by (simp add: duplicated_message_def message_link_def)

lemma network_duplicate_Inr:
  "network_duplicate n i sel now = Inr r \<longleftrightarrow>
     (\<exists>q. network_resolve n i sel = Inr q \<and>
        can_register n (duplicated_message (qm_message q)) i \<and>
        r = (registered_message n (duplicated_message (qm_message q)) i,
             after_register n (duplicated_message (qm_message q)) i now))"
proof (cases "network_resolve n i sel")
  case (Inl e)
  then show ?thesis by (simp add: network_duplicate_def)
next
  case (Inr q)
  then have "msg_id (qm_message q) = i" unfolding network_resolve_Inr by blast
  with Inr show ?thesis
    by (simp add: network_duplicate_def duplicated_message_def network_register_Inr)
qed

text \<open>On a well-formed network a selected message can be duplicated unless IDs have run out.\<close>

lemma can_duplicate_iff:
  assumes wf: "network_wf n" and q: "network_resolve n i sel = Inr q"
  shows "can_register n (duplicated_message (qm_message q)) i \<longleftrightarrow>
    nw_next_message_id n \<noteq> 0 \<and> last_sequence n (sel_link sel) \<noteq> - 1"
proof -
  have "q \<in> set (queue_at n (sel_link sel))" and id: "msg_id (qm_message q) = i"
    using q by (auto simp: network_resolve_Inr)
  then have ok: "queued_ok n (sel_link sel) q" using wf network_wf_queued_ok by blast
  then have link: "message_link (qm_message q) = sel_link sel"
    and valid: "message_validate (qm_message q) = None"
    and issued: "id_issued (nw_next_message_id n) i"
    using id by (simp_all add: queued_ok_def)
  have "last_sequence n (sel_link sel) + 1 \<noteq> 0 \<longleftrightarrow> last_sequence n (sel_link sel) \<noteq> - 1"
    by (metis add_eq_0_iff2)
  then show ?thesis using link valid issued
    by (auto simp: can_register_def message_validate_outbound_None message_validate_None
        registered_message_def duplicated_message_def message_link_def id_issued_def)
qed

section \<open>Runs of network operations\<close>

text \<open>
  The operations the runtime performs on its network, in any order and with any arguments; one
  that fails leaves the network as it was, as the code's early returns do. A run collects the
  messages that were given an ID.
\<close>

datatype network_op =
    OpRegister message logical_time
  | OpRemove message_id message_selector
  | OpDuplicate message_id message_selector logical_time

fun network_apply :: "network \<Rightarrow> network_op \<Rightarrow> message list \<times> network" where
  "network_apply n (OpRegister m now) =
     (case network_register_outbound n m now of Inl _ \<Rightarrow> ([], n) | Inr (m', n') \<Rightarrow> ([m'], n'))"
| "network_apply n (OpRemove i sel) =
     (case network_remove n i sel of Inl _ \<Rightarrow> ([], n) | Inr (_, n') \<Rightarrow> ([], n'))"
| "network_apply n (OpDuplicate i sel now) =
     (case network_duplicate n i sel now of Inl _ \<Rightarrow> ([], n) | Inr (m', n') \<Rightarrow> ([m'], n'))"

fun network_run :: "network \<Rightarrow> network_op list \<Rightarrow> message list \<times> network" where
  "network_run n [] = ([], n)"
| "network_run n (op # ops) =
     (let (ms, n1) = network_apply n op; (ms', n2) = network_run n1 ops in (ms @ ms', n2))"

text \<open>Every operation is one of three moves: none, a registration or a removal.\<close>

lemma network_apply_cases:
  assumes "network_wf n"
  obtains (none) "network_apply n op = ([], n)"
  | (register) m parent now where "can_register n m parent"
      "network_apply n op = ([registered_message n m parent], after_register n m parent now)"
  | (remove) sel where "nat (sel_position sel) < length (queue_at n (sel_link sel))"
      "network_apply n op = ([], after_remove n sel)"
proof (cases op)
  case (OpRegister m now)
  show ?thesis
  proof (cases "network_register_outbound n m now")
    case (Inl e)
    then show ?thesis using OpRegister by (auto intro: none)
  next
    case (Inr r)
    then have "can_register n m 0" and "r = (registered_message n m 0, after_register n m 0 now)"
      by (simp_all add: network_register_outbound_def network_register_Inr)
    then show ?thesis using OpRegister Inr register [of m 0 now] by simp
  qed
next
  case (OpRemove i sel)
  show ?thesis
  proof (cases "network_remove n i sel")
    case (Inl e)
    then show ?thesis using OpRemove by (auto intro: none)
  next
    case (Inr r)
    then obtain q where "network_resolve n i sel = Inr q" and "r = (qm_message q, after_remove n sel)"
      unfolding network_remove_Inr by blast
    then show ?thesis using OpRemove Inr remove [of sel] by (simp add: network_resolve_Inr)
  qed
next
  case (OpDuplicate i sel now)
  show ?thesis
  proof (cases "network_duplicate n i sel now")
    case (Inl e)
    then show ?thesis using OpDuplicate by (auto intro: none)
  next
    case (Inr r)
    then obtain q :: queued_message where "can_register n (duplicated_message (qm_message q)) i"
      and "r = (registered_message n (duplicated_message (qm_message q)) i,
        after_register n (duplicated_message (qm_message q)) i now)"
      unfolding network_duplicate_Inr by blast
    then show ?thesis using OpDuplicate Inr
        register [of "duplicated_message (qm_message q)" i now] by simp
  qed
qed

lemma network_apply_wf [invariant_intros]:
  assumes "network_wf n"
  shows "network_wf (snd (network_apply n op))"
  by (rule network_apply_cases [OF assms, of op])
     (simp_all add: assms after_register_wf after_remove_wf)

lemma network_run_snoc:
  "network_run n (ops @ [op]) =
     (let (ms, n1) = network_run n ops; (ms', n2) = network_apply n1 op in (ms @ ms', n2))"
  by (induction ops arbitrary: n) (auto simp: Let_def split: prod.splits)

lemma network_run_wf: "network_wf n \<Longrightarrow> network_wf (snd (network_run n ops))"
proof (induction ops arbitrary: n)
  case (Cons op ops)
  obtain ms n1 where app: "network_apply n op = (ms, n1)" by fastforce
  then have "network_wf n1" using network_apply_wf [OF Cons.prems, of op] by simp
  then show ?case using Cons.IH [of n1] app by (cases "network_run n1 ops") simp
qed simp

definition on_link :: "link_id \<Rightarrow> message list \<Rightarrow> message list" where
  "on_link l ms = filter (\<lambda>m. message_link m = l) ms"

definition numbered :: "u64 list \<Rightarrow> bool" where
  "numbered is \<longleftrightarrow> is = map of_nat [1..<Suc (length is)]"

definition issued_by :: "message list \<Rightarrow> network \<Rightarrow> bool" where
  "issued_by ms n \<longleftrightarrow>
     length ms < 2 ^ 64 \<and> nw_next_message_id n = of_nat (Suc (length ms)) \<and>
     numbered (map msg_id ms) \<and>
     (\<forall>l. last_sequence n l = of_nat (length (on_link l ms)) \<and>
          numbered (map msg_sequence (on_link l ms)))"

lemma numbered_snoc: "numbered (is @ [i]) \<longleftrightarrow> numbered is \<and> i = of_nat (Suc (length is))"
proof -
  have "[1..<Suc (length (is @ [i]))] = [1..<Suc (length is)] @ [Suc (length is)]" by simp
  then show ?thesis unfolding numbered_def by (auto simp del: upt_Suc)
qed

lemma issued_by_register:
  assumes ok: "issued_by ms n" and can: "can_register n m parent"
  shows "issued_by (ms @ [registered_message n m parent]) (after_register n m parent now)"
proof -
  let ?r = "registered_message n m parent"
  have nz: "nw_next_message_id n \<noteq> 0" using can by (simp add: can_register_def)
  have next_id: "nw_next_message_id n = of_nat (Suc (length ms))" using ok by (simp add: issued_by_def)
  have "Suc (length ms) \<noteq> 2 ^ 64"
  proof
    assume "Suc (length ms) = 2 ^ 64"
    then have "nw_next_message_id n = of_nat (2 ^ 64)" using next_id by metis
    then show False using nz by simp
  qed
  then have len: "Suc (length ms) < 2 ^ 64" using ok by (simp add: issued_by_def)
  have succ: "nw_next_message_id (after_register n m parent now) = of_nat (Suc (Suc (length ms)))"
    using next_id by auto
  have on: "on_link l (ms @ [?r]) = (if l = message_link m then on_link l ms @ [?r] else on_link l ms)" for l
    by (auto simp: on_link_def)
  have last: "last_sequence n l = of_nat (length (on_link l ms))"
    and nums: "numbered (map msg_sequence (on_link l ms))" for l
    using ok by (simp_all add: issued_by_def)
  show ?thesis
    using ok len succ unfolding issued_by_def
    by (auto simp: numbered_snoc next_id on last nums algebra_simps)
qed

lemma issued_by_run: "issued_by (fst (network_run new_network ops)) (snd (network_run new_network ops))"
proof (induction ops rule: rev_induct)
  case Nil
  show ?case
    by (simp add: issued_by_def new_network_def numbered_def on_link_def last_sequence_def)
next
  case (snoc op ops)
  obtain ms n where run: "network_run new_network ops = (ms, n)" by fastforce
  then have ok: "issued_by ms n" using snoc by simp
  have wf: "network_wf n" using network_run_wf [OF new_network_wf, of ops] run by simp
  from wf show ?case
  proof (rule network_apply_cases [of n op])
    assume "network_apply n op = ([], n)"
    then show ?thesis using ok run by (simp add: network_run_snoc)
  next
    fix m parent now
    assume "can_register n m parent"
      "network_apply n op = ([registered_message n m parent], after_register n m parent now)"
    then show ?thesis using issued_by_register [OF ok] run by (simp add: network_run_snoc)
  next
    fix sel assume "network_apply n op = ([], after_remove n sel)"
    then show ?thesis using ok run by (simp add: network_run_snoc issued_by_def)
  qed
qed

text \<open>In every state the network can reach, queues hold only valid registered messages of their
  own link, in strictly increasing sequence and ID order, no queue is stored empty, and no ID
  occurs twice anywhere in the network.\<close>

theorem network_run_well_formed: "network_wf (snd (network_run new_network ops))"
  by (rule network_run_wf [OF new_network_wf])

text \<open>Over any run, the IDs handed out are exactly 1, 2, 3, ... in order of registration, fewer
  than 2^64 of them, so that none is ever zero or reused; and the sequence numbers of each link
  are exactly 1, 2, 3, ... in order of registration on that link.\<close>

theorem network_run_numbers_messages:
  "(let ms = fst (network_run new_network ops) in
      length ms < 2 ^ 64 \<and> map msg_id ms = map of_nat [1..<Suc (length ms)] \<and>
      (\<forall>l. map msg_sequence (on_link l ms) = map of_nat [1..<Suc (length (on_link l ms))]))"
  using issued_by_run [of ops] by (simp add: Let_def issued_by_def numbered_def del: upt_Suc)

lemma queue_position_unique:
  assumes "queue_ordered q" "i < length q" "j < length q"
    "msg_id (qm_message (q ! i)) = msg_id (qm_message (q ! j))"
  shows "i = j"
proof (rule ccontr)
  assume "i \<noteq> j"
  moreover have "msg_id (qm_message (q ! a)) < msg_id (qm_message (q ! b))" if "a < b" "b < length q" for a b
    using assms(1) that by (auto simp: queue_ordered_def sorted_wrt_iff_nth_less)
  ultimately show False using assms(2-4) by (metis linorder_neqE_nat order.irrefl)
qed

lemma queued_id_unique:
  assumes wf: "network_wf n" and q: "q \<in> set (queue_at n l)" "q' \<in> set (queue_at n l')"
    and eq: "msg_id (qm_message q) = msg_id (qm_message q')"
  shows "q = q' \<and> l = l'"
proof -
  have "inj_on (msg_id \<circ> qm_message) (set (all_values (nw_queues n)))"
    using wf by (simp add: network_wf_def distinct_map)
  then have "q = q'" using queue_at_in_all [OF q(1)] queue_at_in_all [OF q(2)] eq
    unfolding inj_on_def comp_def by blast
  moreover have "message_link (qm_message q) = l" and "message_link (qm_message q') = l'"
    using q wf network_wf_queued_ok by (auto simp: queued_ok_def)
  ultimately show ?thesis by simp
qed

text \<open>In a reachable network a message ID addresses one place only: two selectors that both
  resolve it are the same link and position, and yield the same queued message.\<close>

theorem network_selector_unique:
  assumes "network_resolve (snd (network_run new_network ops)) i s = Inr q"
    and "network_resolve (snd (network_run new_network ops)) i s' = Inr q'"
  shows "s = s' \<and> q = q'"
proof -
  let ?n = "snd (network_run new_network ops)"
  have wf: "network_wf ?n" by (rule network_run_wf [OF new_network_wf])
  have s: "nat (sel_position s) < length (queue_at ?n (sel_link s))"
    "q = queue_at ?n (sel_link s) ! nat (sel_position s)" "msg_id (qm_message q) = i" "0 \<le> sel_position s"
    using assms(1) unfolding network_resolve_Inr by auto
  have s': "nat (sel_position s') < length (queue_at ?n (sel_link s'))"
    "q' = queue_at ?n (sel_link s') ! nat (sel_position s')" "msg_id (qm_message q') = i" "0 \<le> sel_position s'"
    using assms(2) unfolding network_resolve_Inr by auto
  have eq: "q = q' \<and> sel_link s = sel_link s'"
    by (rule queued_id_unique [OF wf]) (use s s' in auto)
  moreover have "nat (sel_position s) = nat (sel_position s')"
    by (rule queue_position_unique [of "queue_at ?n (sel_link s)"])
       (use wf eq s s' in \<open>auto simp: network_wf_def\<close>)
  ultimately show ?thesis using s(4) s'(4) by (simp add: message_selector.equality)
qed

definition example_message :: message where
  "example_message = \<lparr>msg_id = 0, msg_from = 1, msg_to = 2, msg_sender_epoch = 1, msg_sequence = 0,
     msg_parent_id = 0, msg_type_hint = ''MsgApp'', msg_payload_digest = [], msg_metadata = [],
     msg_payload = VNil\<rparr>"

theorem network_selector_unique_witness:
  "network_resolve (snd (network_run new_network [OpRegister example_message 7])) 1
     \<lparr>sel_link = LinkID 1 2, sel_position = 0\<rparr>
   = Inr \<lparr>qm_message = example_message\<lparr>msg_id := 1, msg_sequence := 1\<rparr>, qm_enqueued_at = 7\<rparr>"
  (is "network_resolve ?n 1 ?s = Inr ?q")
proof -
  have r: "network_resolve ?n 1 ?s = Inr ?q"
    by (simp add: network_register_outbound_def network_register_def example_message_def
        message_validate_outbound_def message_validate_def message_validate_envelope_def
        new_network_def last_sequence_def queue_at_def list_at_def network_resolve_def
        message_link_def Let_def link_id_validate_def message_selector_validate_def)
  have "?s = ?s \<and> ?q = ?q" by (rule network_selector_unique [OF r r])
  with r show ?thesis by simp
qed

section \<open>What the network shows\<close>

lemma observe_queued_valid:
  assumes "message_validate (qm_message q) = None"
  shows "message_observation_validate (observe_queued p q) = None"
  using assms
  by (simp add: message_observation_validate_None message_validate_None observe_queued_def
      message_of_observation_def Let_def)

lemma observe_queued_sel [simp]:
  "mo_id (observe_queued p q) = msg_id (qm_message q)"
  "mo_from (observe_queued p q) = msg_from (qm_message q)"
  "mo_to (observe_queued p q) = msg_to (qm_message q)"
  "mo_position (observe_queued p q) = int p"
  by (simp_all add: observe_queued_def Let_def)

lemma length_observe_queue [simp]: "length (observe_queue q) = length q"
  by (simp add: observe_queue_def)

lemma nth_observe_queue [simp]: "p < length q \<Longrightarrow> observe_queue q ! p = observe_queued p (q ! p)"
  by (simp add: observe_queue_def nth_enumerate_eq)

lemma map_id_observe_queue: "map mo_id (observe_queue q) = map (msg_id \<circ> qm_message) q"
  by (rule nth_equalityI) simp_all

lemma set_observe_queue: "m \<in> set (observe_queue q) \<Longrightarrow> \<exists>p < length q. m = observe_queued p (q ! p)"
  by (metis in_set_conv_nth length_observe_queue nth_observe_queue)

definition observed_link :: "message_observation \<Rightarrow> link_id" where
  "observed_link m = LinkID (mo_from m) (mo_to m)"

lemma concat_map_filter_unique:
  assumes "distinct ls" and "l \<notin> set ls \<Longrightarrow> f l = []"
    and "\<And>k x. x \<in> set (f k) \<Longrightarrow> g x = k"
  shows "filter (\<lambda>x. g x = l) (concat (map f ls)) = f l"
proof -
  have same: "filter (\<lambda>x. g x = l) (f l) = f l" by (rule filter_True) (simp add: assms(3))
  have other: "filter (\<lambda>x. g x = l) (f k) = []" if "k \<noteq> l" for k
    using that by (auto simp: filter_empty_conv dest: assms(3))
  have "distinct ls \<Longrightarrow> filter (\<lambda>x. g x = l) (concat (map f ls)) = (if l \<in> set ls then f l else [])"
  proof (induction ls)
    case Nil
    then show ?case by simp
  next
    case (Cons a ls)
    then show ?case by (cases "a = l") (simp_all add: same other)
  qed
  then show ?thesis using assms(1,2) by auto
qed

lemma network_observations_on_link:
  assumes wf: "network_wf n"
  shows "filter (\<lambda>m. observed_link m = l) (network_observations n) = observe_queue (queue_at n l)"
  unfolding network_observations_def
proof (rule concat_map_filter_unique)
  show "distinct (sort (map fst (nw_queues n)))" using wf by (simp add: network_wf_def)
  show "observe_queue (queue_at n l) = []" if "l \<notin> set (sort (map fst (nw_queues n)))"
  proof -
    have "map_of (nw_queues n) l = None" using that by (force simp: map_of_eq_None_iff)
    then show ?thesis by (simp add: queue_at_def list_at_def observe_queue_def)
  qed
  show "observed_link x = k" if x: "x \<in> set (observe_queue (queue_at n k))" for k x
  proof -
    obtain p where "p < length (queue_at n k)" and x: "x = observe_queued p (queue_at n k ! p)"
      using set_observe_queue [OF x] by blast
    then have "message_link (qm_message (queue_at n k ! p)) = k"
      using network_wf_queued_ok [OF wf] by (auto simp: queued_ok_def)
    then show ?thesis by (auto simp: x observed_link_def message_link_def)
  qed
qed

lemma mset_concat_map: "mset (concat (map f xs)) = (\<Sum>x\<in>#mset xs. mset (f x))"
  by (induction xs) simp_all

lemma mset_observed_ids:
  assumes "network_wf n"
  shows "mset (map mo_id (network_observations n)) =
    mset (map (msg_id \<circ> qm_message) (all_values (nw_queues n)))"
proof -
  let ?ks = "map fst (nw_queues n)" and ?f = "\<lambda>l. map (msg_id \<circ> qm_message) (queue_at n l)"
  have "mset (map mo_id (network_observations n)) = mset (concat (map ?f (sort ?ks)))"
    by (simp add: network_observations_def map_concat comp_def map_id_observe_queue [unfolded comp_def])
  also have "\<dots> = mset (concat (map ?f ?ks))"
    by (simp only: mset_concat_map mset_sort)
  also have "map ?f ?ks = map (map (msg_id \<circ> qm_message)) (map snd (nw_queues n))"
  proof -
    have "queue_at n (fst p) = snd p" if "p \<in> set (nw_queues n)" for p
      using assms that by (metis list_at_entry network_wf_def prod.collapse queue_at_def)
    then show ?thesis by simp
  qed
  also have "concat (map (map (msg_id \<circ> qm_message)) (map snd (nw_queues n))) =
      map (msg_id \<circ> qm_message) (all_values (nw_queues n))"
    by (simp only: all_values_def map_concat)
  finally show ?thesis .
qed

lemma network_observations_valid:
  assumes wf: "network_wf n"
  shows "\<forall>m \<in> set (network_observations n). message_observation_validate m = None"
    and "distinct (map mo_id (network_observations n))"
    and "length (network_observations n) = network_len n"
proof -
  show "\<forall>m \<in> set (network_observations n). message_observation_validate m = None"
    by (auto simp: network_observations_def dest!: set_observe_queue
        intro!: observe_queued_valid)
       (metis network_wf_queued_ok [OF wf] nth_mem queued_ok_def)
  show "distinct (map mo_id (network_observations n))"
    using mset_eq_imp_distinct_iff [OF mset_observed_ids [OF wf]] wf by (simp add: network_wf_def)
  show "length (network_observations n) = network_len n"
    using arg_cong [OF mset_observed_ids [OF wf], of size] by (simp add: network_len_all_values)
qed

text \<open>C30: The observation of a reachable network lists every queued message once, valid and under a
  distinct ID, and restricted to a link it is that link's queue, position by position.\<close>

theorem network_observations_faithful:
  "(let n = snd (network_run new_network ops); os = network_observations n in
      list_all (\<lambda>m. message_observation_validate m = None) os \<and> distinct (map mo_id os) \<and>
      length os = network_len n \<and>
      (\<forall>l. filter (\<lambda>m. observed_link m = l) os = observe_queue (queue_at n l) \<and>
           map mo_position (observe_queue (queue_at n l)) = map int [0..<length (queue_at n l)]))"
proof -
  let ?n = "snd (network_run new_network ops)"
  have wf: "network_wf ?n" by (rule network_run_wf [OF new_network_wf])
  have "map mo_position (observe_queue q) = map int [0..<length q]" for q
    by (rule nth_equalityI) simp_all
  then show ?thesis
    using network_observations_valid [OF wf] network_observations_on_link [OF wf]
    by (simp add: Let_def list_all_iff)
qed

section \<open>The queue interface\<close>

text \<open>
  What the users of the network rely on, whatever the representation of the queues: a removal at a
  matching position takes out just that element, anything else that happens only appends. From
  these laws follows the convention of the plan resolver: a batch taken off a link names the
  position of its first message for every message, and each removal makes the next one move there.
\<close>

locale message_queues =
  fixes wf :: "'n \<Rightarrow> bool" and queue_of :: "'n \<Rightarrow> 'l \<Rightarrow> 'q list" and ident :: "'q \<Rightarrow> 'i"
    and remove :: "'n \<Rightarrow> 'i \<Rightarrow> 'l \<Rightarrow> nat \<Rightarrow> 'e + 'm \<times> 'n"
    and register :: "'n \<Rightarrow> 'x \<Rightarrow> 'e + 'm \<times> 'n"
  assumes remove_succeeds: "wf n \<Longrightarrow> p < length (queue_of n l) \<Longrightarrow> ident (queue_of n l ! p) = i \<Longrightarrow>
      \<exists>m n'. remove n i l p = Inr (m, n')"
    and remove_only: "wf n \<Longrightarrow> remove n i l p = Inr (m, n') \<Longrightarrow>
      wf n' \<and> p < length (queue_of n l) \<and> ident (queue_of n l ! p) = i \<and>
      queue_of n' = (queue_of n)(l := take p (queue_of n l) @ drop (Suc p) (queue_of n l))"
    and register_appends: "wf n \<Longrightarrow> register n x = Inr (m, n') \<Longrightarrow>
      wf n' \<and> (\<exists>new. queue_of n' k = queue_of n k @ new)"
    and idents_distinct: "wf n \<Longrightarrow> distinct (map ident (queue_of n l))"
begin

definition pending :: "'n \<Rightarrow> 'l \<Rightarrow> nat \<Rightarrow> 'i list \<Rightarrow> bool" where
  "pending n l p is \<longleftrightarrow> wf n \<and> p + length is \<le> length (queue_of n l) \<and>
     map ident (take (length is) (drop p (queue_of n l))) = is"

lemma pending_remove:
  assumes "pending n l p (i # is)"
  shows "\<exists>m n'. remove n i l p = Inr (m, n') \<and> pending n' l p is"
proof -
  have wf: "wf n" and len: "p < length (queue_of n l)"
    and more: "p + Suc (length is) \<le> length (queue_of n l)"
    using assms by (auto simp: pending_def)
  have split: "drop p (queue_of n l) = queue_of n l ! p # drop (Suc p) (queue_of n l)"
    using len by (simp add: Cons_nth_drop_Suc)
  have i: "ident (queue_of n l ! p) = i"
    and rest: "map ident (take (length is) (drop (Suc p) (queue_of n l))) = is"
    using assms by (simp_all add: pending_def split)
  obtain m n' where r: "remove n i l p = Inr (m, n')" using remove_succeeds [OF wf len i] by blast
  have "wf n'" and q: "queue_of n' l = take p (queue_of n l) @ drop (Suc p) (queue_of n l)"
    using remove_only [OF wf r] by simp_all
  then have "pending n' l p is" using more rest by (simp add: pending_def)
  with r show ?thesis by blast
qed

lemma pending_register:
  assumes "pending n l p is" and "register n x = Inr (m, n')"
  shows "pending n' l p is"
proof -
  obtain new where "queue_of n' l = queue_of n l @ new" and "wf n'"
    using register_appends assms unfolding pending_def by metis
  with assms(1) show ?thesis by (simp add: pending_def)
qed

lemma no_second_remove:
  assumes wf: "wf n" and r: "remove n i l p = Inr (m, n')"
  shows "remove n' i l p' \<noteq> Inr r'"
proof
  assume again: "remove n' i l p' = Inr r'"
  have wf': "wf n'" and p: "p < length (queue_of n l)" "ident (queue_of n l ! p) = i"
    and q: "queue_of n' l = take p (queue_of n l) @ drop (Suc p) (queue_of n l)"
    using remove_only [OF wf r] by simp_all
  have "i \<in> set (map ident (queue_of n' l))"
    using remove_only [OF wf', of i l p' "fst r'" "snd r'"] again
    by (metis nth_mem length_map nth_map prod.collapse)
  moreover have "distinct (map ident (take p (queue_of n l) @ queue_of n l ! p # drop (Suc p) (queue_of n l)))"
    using idents_distinct [OF wf, of l] p(1) by (simp flip: id_take_nth_drop)
  ultimately show False using p q by auto
qed

end

definition remove_at :: "network \<Rightarrow> message_id \<Rightarrow> link_id \<Rightarrow> nat \<Rightarrow> go_error + message \<times> network" where
  "remove_at n i l p = network_remove n i \<lparr>sel_link = l, sel_position = int p\<rparr>"

lemma network_resolve_at:
  assumes wf: "network_wf n" and p: "p < length (queue_at n l)"
    and i: "msg_id (qm_message (queue_at n l ! p)) = i"
  shows "network_resolve n i \<lparr>sel_link = l, sel_position = int p\<rparr> = Inr (queue_at n l ! p)"
proof -
  have "queued_ok n l (queue_at n l ! p)" using network_wf_queued_ok [OF wf nth_mem [OF p]] .
  then have "message_validate (qm_message (queue_at n l ! p)) = None"
    and l: "l = message_link (qm_message (queue_at n l ! p))"
    by (simp_all add: queued_ok_def)
  moreover obtain q where q: "queue_at n l ! p = q" by blast
  ultimately have "i \<noteq> 0 \<and> link_from l \<noteq> 0 \<and> link_to l \<noteq> 0"
    using i l unfolding q by (simp add: message_validate_None)
  then show ?thesis using p i by (simp add: network_resolve_Inr)
qed

lemma network_ids_distinct:
  assumes wf: "network_wf n"
  shows "distinct (map (msg_id \<circ> qm_message) (queue_at n l))"
proof -
  have "sorted_wrt (<) (map (msg_id \<circ> qm_message) (queue_at n l))"
    using wf by (simp add: network_wf_def queue_ordered_def)
  then show ?thesis using strict_sorted_iff by blast
qed

definition queued_id :: "queued_message \<Rightarrow> message_id" where
  "queued_id q = msg_id (qm_message q)"

interpretation nq: message_queues network_wf queue_at queued_id remove_at
  "\<lambda>n (m, parent, now). network_register n m parent now"
proof
  fix n and p and l and i
  assume "network_wf n" "p < length (queue_at n l)" "queued_id (queue_at n l ! p) = i"
  then have "network_resolve n i \<lparr>sel_link = l, sel_position = int p\<rparr> = Inr (queue_at n l ! p)"
    by (simp add: network_resolve_at queued_id_def)
  then show "\<exists>m n'. remove_at n i l p = Inr (m, n')"
    by (simp add: remove_at_def network_remove_Inr)
next
  fix n i l p m n'
  assume wf: "network_wf n" and "remove_at n i l p = Inr (m, n')"
  then obtain q :: queued_message where q: "network_resolve n i \<lparr>sel_link = l, sel_position = int p\<rparr> = Inr q"
    and n': "n' = after_remove n \<lparr>sel_link = l, sel_position = int p\<rparr>"
    unfolding remove_at_def network_remove_Inr by blast
  have p: "p < length (queue_at n l)" and "queued_id (queue_at n l ! p) = i"
    using q unfolding network_resolve_Inr queued_id_def by auto
  moreover have "network_wf n'" using after_remove_wf [OF wf] p n' by simp
  moreover have "queue_at n' = (queue_at n)(l := take p (queue_at n l) @ drop (Suc p) (queue_at n l))"
    by (rule ext) (simp add: n')
  ultimately show "network_wf n' \<and> p < length (queue_at n l) \<and>
      queued_id (queue_at n l ! p) = i \<and>
      queue_at n' = (queue_at n)(l := take p (queue_at n l) @ drop (Suc p) (queue_at n l))" by simp
next
  fix n x m n' k
  assume wf: "network_wf n" and "(case x of (m, parent, now) \<Rightarrow> network_register n m parent now) = Inr (m, n')"
  then obtain m0 parent now where "can_register n m0 parent" and "n' = after_register n m0 parent now"
    by (cases x) (auto simp: network_register_Inr)
  then show "network_wf n' \<and> (\<exists>new. queue_at n' k = queue_at n k @ new)"
    using after_register_wf [OF wf] by simp
next
  fix n l
  assume "network_wf n"
  then show "distinct (map queued_id (queue_at n l))"
    using network_ids_distinct unfolding queued_id_def [abs_def] comp_def by blast
qed

text \<open>An ID that has been taken off the network stays off it.\<close>

definition retired :: "network \<Rightarrow> message_id \<Rightarrow> bool" where
  "retired n i \<longleftrightarrow> id_issued (nw_next_message_id n) i \<and>
     i \<notin> (msg_id \<circ> qm_message) ` set (all_values (nw_queues n))"

lemma retired_after_register:
  assumes "network_wf n" "can_register n m parent" "retired n i"
  shows "retired (after_register n m parent now) i"
proof -
  have "distinct (map fst (nw_queues n))" using assms(1) by (simp add: network_wf_def)
  then have "set (all_values (nw_queues (after_register n m parent now))) =
      insert \<lparr>qm_message = registered_message n m parent, qm_enqueued_at = now\<rparr> (set (all_values (nw_queues n)))"
    using all_values_after_register by (metis set_mset_add_mset_insert set_mset_mset)
  moreover have "nw_next_message_id n \<noteq> 0" using assms(2) by (simp add: can_register_def)
  ultimately show ?thesis using assms(3)
    by (auto simp: retired_def id_issued_def word_less_Suc_iff)
qed

lemma retired_after_remove:
  assumes "network_wf n" "nat (sel_position sel) < length (queue_at n (sel_link sel))" "retired n i"
  shows "retired (after_remove n sel) i"
proof -
  have "distinct (map fst (nw_queues n))" using assms(1) by (simp add: network_wf_def)
  then have "set (all_values (nw_queues (after_remove n sel))) \<subseteq> set (all_values (nw_queues n))"
    using all_values_after_remove [OF _ assms(2)]
    by (metis set_mset_add_mset_insert set_mset_mset subset_insertI)
  then show ?thesis using assms(3) by (auto simp: retired_def)
qed

lemma retired_run: "network_wf n \<Longrightarrow> retired n i \<Longrightarrow> retired (snd (network_run n ops)) i"
proof (induction ops arbitrary: n)
  case (Cons op ops)
  have "retired (snd (network_apply n op)) i"
    by (rule network_apply_cases [OF Cons.prems(1), of op])
       (simp_all add: Cons.prems retired_after_register retired_after_remove)
  then show ?case
    using Cons.IH [OF network_apply_wf [OF Cons.prems(1), of op]]
    by (cases "network_apply n op"; cases "network_run (snd (network_apply n op)) ops") simp
qed simp

lemma retired_by_remove:
  assumes wf: "network_wf n" and r: "network_remove n i sel = Inr (m, n')"
  shows "retired n' i"
proof -
  obtain q :: queued_message where "network_resolve n i sel = Inr q" and n': "n' = after_remove n sel"
    using r unfolding network_remove_Inr by blast
  then have pos: "nat (sel_position sel) < length (queue_at n (sel_link sel))"
    and id: "msg_id (qm_message (queue_at n (sel_link sel) ! nat (sel_position sel))) = i"
    unfolding network_resolve_Inr by auto
  have dist: "distinct (map fst (nw_queues n))" using wf by (simp add: network_wf_def)
  have "mset (map (msg_id \<circ> qm_message) (all_values (nw_queues n))) =
      mset (i # map (msg_id \<circ> qm_message) (all_values (nw_queues n')))"
    using all_values_after_remove [OF dist pos] id n' by simp
  then have "distinct (i # map (msg_id \<circ> qm_message) (all_values (nw_queues n')))"
    using wf mset_eq_imp_distinct_iff by (metis network_wf_def)
  moreover have "id_issued (nw_next_message_id n') i"
    using network_wf_queued_ok [OF wf nth_mem [OF pos]] id n' by (simp add: queued_ok_def)
  ultimately show ?thesis by (simp add: retired_def)
qed

lemma retired_not_resolved:
  assumes "network_wf n" "retired n i"
  shows "\<exists>e. network_resolve n i sel = Inl e"
proof (cases "network_resolve n i sel")
  case (Inr q)
  then have "q \<in> set (queue_at n (sel_link sel))" and "msg_id (qm_message q) = i"
    unfolding network_resolve_Inr by auto
  then show ?thesis using assms(2) queue_at_in_all by (force simp: retired_def)
qed simp

text \<open>C25: At-most-once delivery: once a message has been taken off a reachable network, no selector
  resolves its ID again, whatever registrations, removals and duplications follow.\<close>

theorem network_removed_is_gone:
  assumes "network_remove (snd (network_run new_network before)) i sel = Inr (m, n)"
  shows "\<exists>e. network_resolve (snd (network_run n after)) i sel' = Inl e"
proof -
  have wf: "network_wf (snd (network_run new_network before))" by (rule network_run_wf [OF new_network_wf])
  obtain q :: queued_message where "network_resolve (snd (network_run new_network before)) i sel = Inr q"
    and n: "n = after_remove (snd (network_run new_network before)) sel"
    using assms unfolding network_remove_Inr by blast
  then have "network_wf n" using after_remove_wf [OF wf] unfolding network_resolve_Inr by blast
  then show ?thesis
    by (intro retired_not_resolved network_run_wf retired_run retired_by_remove [OF wf assms]) auto
qed

theorem network_removed_is_gone_witness:
  "\<exists>e. network_resolve (snd (network_run
       (snd (projr (network_remove (snd (network_run new_network [OpRegister example_message 7])) 1
          \<lparr>sel_link = LinkID 1 2, sel_position = 0\<rparr>))) [OpRegister example_message 8])) 1
       \<lparr>sel_link = LinkID 1 2, sel_position = 0\<rparr> = Inl e"
proof -
  have "\<exists>m n. network_remove (snd (network_run new_network [OpRegister example_message 7])) 1
          \<lparr>sel_link = LinkID 1 2, sel_position = 0\<rparr> = Inr (m, n)"
    by (simp add: network_register_outbound_def network_register_def example_message_def
        message_validate_outbound_def message_validate_def message_validate_envelope_def
        new_network_def last_sequence_def queue_at_def list_at_def network_resolve_def
        message_link_def Let_def link_id_validate_def message_selector_validate_def network_remove_def)
  then obtain m n where r: "network_remove (snd (network_run new_network [OpRegister example_message 7])) 1
          \<lparr>sel_link = LinkID 1 2, sel_position = 0\<rparr> = Inr (m, n)" by blast
  show ?thesis using network_removed_is_gone [OF r, of "[OpRegister example_message 8]"]
    by (simp only: r sum.sel snd_conv)
qed

end
