(* ===== verification/Plan.thy ===== *)
theory Plan
  imports Core_Observation
begin

text \<open>
  internal/plan: planned actions and their validation (action.go, selector.go, sequence.go), the
  resolver that turns one planned action into concrete actions against the current observation
  (resolver.go), and the resolutions it returns (result.go).

  Slicing out of bounds panics in Go: \<open>resolve_messages\<close> returns \<open>None\<close> there, and the theorems say
  when that cannot happen.
\<close>

section \<open>Planned actions (action.go, selector.go, sequence.go)\<close>

datatype plan_kind =
    PlanDeliver | PlanDrop | PlanDuplicate | PlanAdvanceTicks
  | PlanTimeout | PlanCrash | PlanRestart | PlanRequest | PlanKindOther string

fun plan_kind_valid :: "plan_kind \<Rightarrow> bool" where
  "plan_kind_valid (PlanKindOther _) = False"
| "plan_kind_valid _ = True"

fun plan_kind_text :: "plan_kind \<Rightarrow> string" where
  "plan_kind_text PlanDeliver = ''deliver''"
| "plan_kind_text PlanDrop = ''drop''"
| "plan_kind_text PlanDuplicate = ''duplicate''"
| "plan_kind_text PlanAdvanceTicks = ''advance_ticks''"
| "plan_kind_text PlanTimeout = ''timeout''"
| "plan_kind_text PlanCrash = ''crash''"
| "plan_kind_text PlanRestart = ''restart''"
| "plan_kind_text PlanRequest = ''request''"
| "plan_kind_text (PlanKindOther s) = s"

record message_range_selector =
  rng_link :: link_id
  rng_start :: int
  rng_count :: int

definition range_validate :: "message_range_selector \<Rightarrow> go_error option" where
  "range_validate s =
     (case link_id_validate (rng_link s) of
        Some e \<Rightarrow> Some (errorf_v ErrInvalidPlan (''invalid message link: '' @ validation_error_text e))
      | None \<Rightarrow>
          if rng_start s < 0
          then Some (errorf_v ErrInvalidPlan ''message start must be non-negative'')
          else if rng_count s \<le> 0
          then Some (errorf_v ErrInvalidPlan ''message count must be positive'')
          else None)"

record plan_action =
  pa_kind :: plan_kind
  pa_node :: node_id
  pa_messages :: "message_range_selector option"
  pa_ticks :: u64
  pa_request :: string

definition unrelated_fields :: "plan_kind \<Rightarrow> go_error" where
  "unrelated_fields k = errorf_v ErrInvalidPlan (plan_kind_text k @ '' contains unrelated fields'')"

definition validate_plan_messages :: "plan_action \<Rightarrow> go_error option" where
  "validate_plan_messages a =
     (case pa_messages a of
        None \<Rightarrow> Some (errorf_v ErrInvalidPlan (plan_kind_text (pa_kind a) @ '' requires a message selector''))
      | Some s \<Rightarrow>
          (case range_validate s of
             Some e \<Rightarrow> Some e
           | None \<Rightarrow>
               if node_id_valid (pa_node a) \<or> pa_ticks a \<noteq> 0 \<or> pa_request a \<noteq> []
               then Some (unrelated_fields (pa_kind a)) else None))"

definition validate_plan_ticks :: "plan_action \<Rightarrow> go_error option" where
  "validate_plan_ticks a =
     (if pa_ticks a = 0
      then Some (errorf_v ErrInvalidPlan ''advance_ticks requires a positive ticks value'')
      else if node_id_valid (pa_node a) \<or> pa_messages a \<noteq> None \<or> pa_request a \<noteq> []
      then Some (unrelated_fields PlanAdvanceTicks) else None)"

definition validate_plan_node :: "plan_action \<Rightarrow> go_error option" where
  "validate_plan_node a =
     (if \<not> node_id_valid (pa_node a)
      then Some (errorf_v ErrInvalidPlan (plan_kind_text (pa_kind a) @ '' requires a node''))
      else if pa_messages a \<noteq> None \<or> pa_ticks a \<noteq> 0 \<or> pa_request a \<noteq> []
      then Some (unrelated_fields (pa_kind a)) else None)"

definition validate_plan_request :: "plan_action \<Rightarrow> go_error option" where
  "validate_plan_request a =
     (if \<not> node_id_valid (pa_node a)
      then Some (errorf_v ErrInvalidPlan ''request requires a node'')
      else if pa_request a = []
      then Some (errorf_v ErrInvalidPlan ''request value must not be empty'')
      else if pa_messages a \<noteq> None \<or> pa_ticks a \<noteq> 0
      then Some (unrelated_fields PlanRequest) else None)"

definition plan_action_validate :: "plan_action \<Rightarrow> go_error option" where
  "plan_action_validate a =
     (case pa_kind a of
        PlanKindOther k \<Rightarrow> Some (errorf_v ErrInvalidPlan (''unknown action kind '' @ go_quote k))
      | PlanDeliver \<Rightarrow> validate_plan_messages a
      | PlanDrop \<Rightarrow> validate_plan_messages a
      | PlanDuplicate \<Rightarrow> validate_plan_messages a
      | PlanAdvanceTicks \<Rightarrow> validate_plan_ticks a
      | PlanTimeout \<Rightarrow> validate_plan_node a
      | PlanCrash \<Rightarrow> validate_plan_node a
      | PlanRestart \<Rightarrow> validate_plan_node a
      | PlanRequest \<Rightarrow> validate_plan_request a)"

text \<open>A sequence is validated in order; the index of the first bad action is in the error.\<close>

fun plan_sequence_validate_from :: "nat \<Rightarrow> plan_action list \<Rightarrow> go_error option" where
  "plan_sequence_validate_from i [] = None"
| "plan_sequence_validate_from i (a # rest) =
     (case plan_action_validate a of
        Some e \<Rightarrow> Some (errorf_v ErrInvalidPlan (''action '' @ show_nat i @ '': '' @ err_text e))
      | None \<Rightarrow> plan_sequence_validate_from (Suc i) rest)"

record plan_sequence =
  ps_actions :: "plan_action list"
  ps_metadata :: string_map

definition plan_sequence_validate :: "plan_sequence \<Rightarrow> go_error option" where
  "plan_sequence_validate s = plan_sequence_validate_from 0 (ps_actions s)"

section \<open>Resolutions (result.go)\<close>

datatype resolution_status =
    ResolutionResolved | ResolutionPartial | ResolutionSkipped | ResolutionInapplicable
  | ResolutionModelBound | ResolutionUnsupported | ResolutionInvalid | ResolutionEmptyQueue
  | ResolutionStatusOther string

fun resolution_status_valid :: "resolution_status \<Rightarrow> bool" where
  "resolution_status_valid (ResolutionStatusOther _) = False"
| "resolution_status_valid _ = True"

fun resolution_status_text :: "resolution_status \<Rightarrow> string" where
  "resolution_status_text ResolutionResolved = ''resolved''"
| "resolution_status_text ResolutionPartial = ''partial''"
| "resolution_status_text ResolutionSkipped = ''skipped''"
| "resolution_status_text ResolutionInapplicable = ''inapplicable''"
| "resolution_status_text ResolutionModelBound = ''model_bound''"
| "resolution_status_text ResolutionUnsupported = ''unsupported_by_model''"
| "resolution_status_text ResolutionInvalid = ''invalid''"
| "resolution_status_text ResolutionEmptyQueue = ''empty_queue''"
| "resolution_status_text (ResolutionStatusOther s) = s"

text \<open>Reason codes are strings that the engine also takes from elsewhere (a mapping's code).\<close>

type_synonym reason_code = string

record resolution =
  rs_plan :: plan_action
  rs_status :: resolution_status
  rs_requested :: int
  rs_resolved :: int
  rs_reason_code :: reason_code
  rs_reason :: string
  rs_actions :: "action list"

fun validate_concrete_actions :: "nat \<Rightarrow> action list \<Rightarrow> go_error option" where
  "validate_concrete_actions i [] = None"
| "validate_concrete_actions i (a # rest) =
     (case action_validate a of
        Some e \<Rightarrow> Some (errorf_v ErrInvalidPlan (''concrete action '' @ show_nat i @ '': '' @
             validation_error_text e))
      | None \<Rightarrow> validate_concrete_actions (Suc i) rest)"

definition validate_resolution_status :: "resolution \<Rightarrow> go_error option" where
  "validate_resolution_status r =
     (case rs_status r of
        ResolutionResolved \<Rightarrow>
          if rs_resolved r \<noteq> rs_requested r
          then Some (errorf_v ErrInvalidPlan ''resolved result must resolve every requested action'') else None
      | ResolutionPartial \<Rightarrow>
          if rs_resolved r = 0 \<or> rs_resolved r \<ge> rs_requested r
          then Some (errorf_v ErrInvalidPlan ''partial resolution requires 0 < resolved < requested'') else None
      | s \<Rightarrow>
          if rs_resolved r \<noteq> 0
          then Some (errorf_v ErrInvalidPlan (resolution_status_text s @ '' resolution must not contain actions''))
          else None)"

definition resolution_validate :: "resolution \<Rightarrow> go_error option" where
  "resolution_validate r =
     (if \<not> resolution_status_valid (rs_status r)
      then Some (errorf_v ErrInvalidPlan (''unknown resolution status '' @
             go_quote (resolution_status_text (rs_status r))))
      else case (if rs_status r \<noteq> ResolutionInvalid then plan_action_validate (rs_plan r) else None) of
        Some e \<Rightarrow> Some e
      | None \<Rightarrow>
          if rs_requested r \<le> 0
          then Some (errorf_v ErrInvalidPlan ''resolution requested count must be positive'')
          else if rs_resolved r < 0 \<or> rs_resolved r > rs_requested r
          then Some (errorf_v ErrInvalidPlan (''resolution count '' @ show_int (rs_resolved r) @
                 '' is outside 0..'' @ show_int (rs_requested r)))
          else if int (length (rs_actions r)) \<noteq> rs_resolved r
          then Some (errorf_v ErrInvalidPlan (''resolution has '' @ show_nat (length (rs_actions r)) @
                 '' actions but resolved count is '' @ show_int (rs_resolved r)))
          else case validate_concrete_actions 0 (rs_actions r) of
            Some e \<Rightarrow> Some e
          | None \<Rightarrow> validate_resolution_status r)"

section \<open>The resolver (resolver.go)\<close>

record resolver_config =
  rc_max_advance_ticks :: u64
  rc_max_batch :: int
  rc_clamp_message_start :: bool

definition default_resolver_config :: resolver_config where
  "default_resolver_config = \<lparr>rc_max_advance_ticks = 100, rc_max_batch = 1024, rc_clamp_message_start = True\<rparr>"

definition new_resolver :: "resolver_config \<Rightarrow> go_error + resolver_config" where
  "new_resolver c =
     (if rc_max_advance_ticks c = 0
      then Inl (errorf_v ErrInvalidPlan ''MaxAdvanceTicks must be positive'')
      else if rc_max_batch c \<le> 0
      then Inl (errorf_v ErrInvalidPlan ''MaxBatch must be positive'')
      else Inr c)"

definition initial_resolution :: "plan_action \<Rightarrow> resolution" where
  "initial_resolution a = \<lparr>rs_plan = a, rs_status = ResolutionStatusOther [], rs_requested = 1,
     rs_resolved = 0, rs_reason_code = [], rs_reason = [], rs_actions = []\<rparr>"

definition invalid_resolution :: "resolution \<Rightarrow> reason_code \<Rightarrow> string \<Rightarrow> resolution" where
  "invalid_resolution r code reason = r\<lparr>rs_status := ResolutionInvalid, rs_reason_code := code,
     rs_reason := reason, rs_resolved := 0, rs_actions := []\<rparr>"

definition skipped_resolution :: "resolution \<Rightarrow> reason_code \<Rightarrow> string \<Rightarrow> resolution" where
  "skipped_resolution r code reason = r\<lparr>rs_status := ResolutionSkipped, rs_reason_code := code,
     rs_reason := reason, rs_resolved := 0, rs_actions := []\<rparr>"

definition messages_on_link :: "observation \<Rightarrow> link_id \<Rightarrow> message_observation list" where
  "messages_on_link ob l =
     sort_key mo_position (filter (\<lambda>m. mo_from m = link_from l \<and> mo_to m = link_to l) (obs_messages ob))"

fun concrete_message_kind :: "plan_kind \<Rightarrow> action_kind" where
  "concrete_message_kind PlanDeliver = ActionDeliver"
| "concrete_message_kind PlanDrop = ActionDrop"
| "concrete_message_kind PlanDuplicate = ActionDuplicate"
| "concrete_message_kind _ = ActionKindOther []"

fun concrete_node_kind :: "plan_kind \<Rightarrow> action_kind" where
  "concrete_node_kind PlanTimeout = ActionTimeout"
| "concrete_node_kind PlanCrash = ActionCrash"
| "concrete_node_kind PlanRestart = ActionRestart"
| "concrete_node_kind PlanRequest = ActionRequest"
| "concrete_node_kind _ = ActionKindOther []"

definition no_message_at :: "resolution \<Rightarrow> message_range_selector \<Rightarrow> resolution" where
  "no_message_at r sel = r\<lparr>rs_status := ResolutionEmptyQueue, rs_reason_code := ''message_not_available'',
     rs_reason := ''link '' @ link_id_text (rng_link sel) @ '' has no message at position '' @
       show_int (rng_start sel)\<rparr>"

text \<open>The check that positions on the link are \<open>0, 1, 2, ...\<close>; the first bad index is reported.\<close>

fun bad_position :: "nat \<Rightarrow> message_observation list \<Rightarrow> (nat \<times> message_observation) option" where
  "bad_position i [] = None"
| "bad_position i (m # ms) = (if mo_position m \<noteq> int i then Some (i, m) else bad_position (Suc i) ms)"

text \<open>\<open>queue[start:end]\<close> with the bounds check of Go.\<close>

definition go_slice :: "'a list \<Rightarrow> int \<Rightarrow> int \<Rightarrow> 'a list option" where
  "go_slice xs i j =
     (if 0 \<le> i \<and> i \<le> j \<and> j \<le> int (length xs) then Some (take (nat (j - i)) (drop (nat i) xs)) else None)"

definition concrete_message_action :: "plan_kind \<Rightarrow> link_id \<Rightarrow> int \<Rightarrow> message_observation \<Rightarrow> action" where
  "concrete_message_action k l start m =
     (action_of_kind (concrete_message_kind k))\<lparr>act_message := mo_id m,
        act_selector := Some \<lparr>sel_link = l,
          sel_position = (if k = PlanDeliver \<or> k = PlanDrop then start else mo_position m)\<rparr>\<rparr>"

definition finish_messages :: "resolution \<Rightarrow> message_range_selector \<Rightarrow> int \<Rightarrow> bool \<Rightarrow> action list \<Rightarrow> resolution" where
  "finish_messages r sel start clamped actions =
     (let resolved = int (length actions);
          r = r\<lparr>rs_actions := actions, rs_resolved := resolved\<rparr> in
      if resolved < rs_requested r then
        (if clamped
         then r\<lparr>rs_status := ResolutionPartial, rs_reason_code := ''selector_start_clamped'',
           rs_reason := ''message start '' @ show_int (rng_start sel) @ '' clamped to '' @ show_int start @
             ''; requested '' @ show_int (rs_requested r) @ '' messages but only '' @ show_int resolved @
             '' are available''\<rparr>
         else r\<lparr>rs_status := ResolutionPartial, rs_reason_code := ''partial_availability'',
           rs_reason := ''requested '' @ show_int (rs_requested r) @ '' messages but only '' @
             show_int resolved @ '' are available''\<rparr>)
      else
        (if clamped
         then r\<lparr>rs_status := ResolutionResolved, rs_reason_code := ''selector_start_clamped'',
           rs_reason := ''message start '' @ show_int (rng_start sel) @ '' clamped to '' @ show_int start\<rparr>
         else r\<lparr>rs_status := ResolutionResolved\<rparr>))"

definition select_messages ::
  "resolver_config \<Rightarrow> resolution \<Rightarrow> plan_kind \<Rightarrow> message_range_selector \<Rightarrow> message_observation list \<Rightarrow>
     resolution option" where
  "select_messages c r k sel queue =
     (if queue = [] then Some (no_message_at r sel)
      else if rng_start sel \<ge> int (length queue) \<and> \<not> rc_clamp_message_start c
      then Some (no_message_at r sel)
      else
        let clamped = (rng_start sel \<ge> int (length queue));
            start = (if clamped then int (length queue) - 1 else rng_start sel);
            stop = wrap64 (start + rng_count sel);
            stop = (if stop > int (length queue) then int (length queue) else stop)
        in case go_slice queue start stop of
             None \<Rightarrow> None
           | Some selected \<Rightarrow>
               Some (finish_messages r sel start clamped
                       (map (concrete_message_action k (rng_link sel) start) selected)))"

definition resolve_messages ::
  "resolver_config \<Rightarrow> resolution \<Rightarrow> plan_action \<Rightarrow> observation \<Rightarrow> resolution option" where
  "resolve_messages c r a ob =
     (let sel = the (pa_messages a); r = r\<lparr>rs_requested := rng_count sel\<rparr>;
          target = observed_node ob (link_to (rng_link sel)) in
      if rng_count sel > rc_max_batch c
      then Some (invalid_resolution r ''batch_limit'' (''message count '' @ show_int (rng_count sel) @
             '' exceeds MaxBatch '' @ show_int (rc_max_batch c)))
      else if pa_kind a = PlanDeliver \<and> target = None
      then Some (skipped_resolution r ''node_not_observed'' (''target node '' @
             node_id_text (link_to (rng_link sel)) @ '' is not present in the observation''))
      else if pa_kind a = PlanDeliver \<and> no_status (the target) \<noteq> NodeRunning
      then Some (skipped_resolution r ''target_not_running'' (''target node '' @
             node_id_text (link_to (rng_link sel)) @ '' is not running''))
      else
        let queue = messages_on_link ob (rng_link sel) in
        (case bad_position 0 queue of
           Some (position, m) \<Rightarrow> Some (invalid_resolution r ''invalid_queue'' (''link '' @
             link_id_text (rng_link sel) @ '' has non-contiguous position '' @ show_int (mo_position m) @
             '' at queue index '' @ show_nat position))
         | None \<Rightarrow> select_messages c r (pa_kind a) sel queue))"

definition resolve_time :: "resolver_config \<Rightarrow> resolution \<Rightarrow> plan_action \<Rightarrow> observation \<Rightarrow> resolution" where
  "resolve_time c r a ob =
     (if pa_ticks a > rc_max_advance_ticks c
      then invalid_resolution r ''advance_limit'' (''ticks '' @ format_uint (pa_ticks a) @
             '' exceeds MaxAdvanceTicks '' @ format_uint (rc_max_advance_ticks c))
      else case logical_time_add (obs_time ob) (pa_ticks a) of
        Inl e \<Rightarrow> invalid_resolution r ''time_overflow'' (validation_error_text e)
      | Inr target \<Rightarrow> r\<lparr>rs_status := ResolutionResolved, rs_resolved := 1,
          rs_actions := [(action_of_kind ActionAdvanceTime)\<lparr>act_target_time := target\<rparr>]\<rparr>)"

definition node_refusal :: "plan_kind \<Rightarrow> node_status \<Rightarrow> (reason_code \<times> string) option" where
  "node_refusal k status =
     (case k of
        PlanCrash \<Rightarrow> if status = NodeCrashed then Some (''node_already_crashed'', '' is already crashed'') else None
      | PlanRestart \<Rightarrow> if status = NodeRunning then Some (''node_already_running'', '' is already running'') else None
      | PlanTimeout \<Rightarrow> if status \<noteq> NodeRunning then Some (''target_not_running'', '' is not running'') else None
      | PlanRequest \<Rightarrow> if status \<noteq> NodeRunning then Some (''target_not_running'', '' is not running'') else None
      | _ \<Rightarrow> None)"

definition resolve_node :: "resolution \<Rightarrow> plan_action \<Rightarrow> observation \<Rightarrow> resolution" where
  "resolve_node r a ob =
     (case observed_node ob (pa_node a) of
        None \<Rightarrow> r\<lparr>rs_status := ResolutionSkipped, rs_reason_code := ''node_not_observed'',
          rs_reason := ''node '' @ node_id_text (pa_node a) @ '' is not present in the observation''\<rparr>
      | Some node \<Rightarrow>
          (case node_refusal (pa_kind a) (no_status node) of
             Some (code, text) \<Rightarrow> skipped_resolution r code (''node '' @ node_id_text (pa_node a) @ text)
           | None \<Rightarrow> r\<lparr>rs_status := ResolutionResolved, rs_resolved := 1,
               rs_actions := [(action_of_kind (concrete_node_kind (pa_kind a)))\<lparr>act_node := pa_node a,
                 act_request := (if pa_kind a = PlanRequest then pa_request a else [])\<rparr>]\<rparr>))"

text \<open>The result is \<open>None\<close> if the call panics; a nil resolver is \<open>None\<close> as an argument.\<close>

definition resolve :: "resolver_config option \<Rightarrow> plan_action \<Rightarrow> observation \<Rightarrow> resolution option" where
  "resolve resolver a ob =
     (let r = initial_resolution a in
      case resolver of
        None \<Rightarrow> Some (invalid_resolution r ''resolver_unavailable'' ''resolver is nil'')
      | Some c \<Rightarrow>
          (case plan_action_validate a of
             Some e \<Rightarrow> Some (invalid_resolution r ''invalid_plan'' (err_text e))
           | None \<Rightarrow>
               (case observation_validate ob of
                  Some e \<Rightarrow> Some (invalid_resolution r ''invalid_observation''
                    (''invalid observation: '' @ validation_error_text e))
                | None \<Rightarrow>
                    (case pa_kind a of
                       PlanDeliver \<Rightarrow> resolve_messages c r a ob
                     | PlanDrop \<Rightarrow> resolve_messages c r a ob
                     | PlanDuplicate \<Rightarrow> resolve_messages c r a ob
                     | PlanAdvanceTicks \<Rightarrow> Some (resolve_time c r a ob)
                     | PlanTimeout \<Rightarrow> Some (resolve_node r a ob)
                     | PlanCrash \<Rightarrow> Some (resolve_node r a ob)
                     | PlanRestart \<Rightarrow> Some (resolve_node r a ob)
                     | PlanRequest \<Rightarrow> Some (resolve_node r a ob)
                     | PlanKindOther _ \<Rightarrow> Some (invalid_resolution r ''unknown_action_kind'' ''unknown action kind'')))))"

section \<open>Validators as conjunctions\<close>

lemma range_validate_None [validate_simps]:
  "range_validate s = None \<longleftrightarrow>
     link_from (rng_link s) \<noteq> 0 \<and> link_to (rng_link s) \<noteq> 0 \<and> 0 \<le> rng_start s \<and> 0 < rng_count s"
  by (auto simp: range_validate_def)

definition is_plan_message_kind :: "plan_kind \<Rightarrow> bool" where
  "is_plan_message_kind k \<longleftrightarrow> k \<in> {PlanDeliver, PlanDrop, PlanDuplicate}"

lemma plan_action_validate_None [validate_simps]:
  "plan_action_validate a = None \<longleftrightarrow>
     (case pa_kind a of
        PlanKindOther _ \<Rightarrow> False
      | PlanAdvanceTicks \<Rightarrow> pa_ticks a \<noteq> 0 \<and> pa_node a = 0 \<and> pa_messages a = None \<and> pa_request a = []
      | PlanTimeout \<Rightarrow> pa_node a \<noteq> 0 \<and> pa_messages a = None \<and> pa_ticks a = 0 \<and> pa_request a = []
      | PlanCrash \<Rightarrow> pa_node a \<noteq> 0 \<and> pa_messages a = None \<and> pa_ticks a = 0 \<and> pa_request a = []
      | PlanRestart \<Rightarrow> pa_node a \<noteq> 0 \<and> pa_messages a = None \<and> pa_ticks a = 0 \<and> pa_request a = []
      | PlanRequest \<Rightarrow> pa_node a \<noteq> 0 \<and> pa_request a \<noteq> [] \<and> pa_messages a = None \<and> pa_ticks a = 0
      | _ \<Rightarrow> (\<exists>s. pa_messages a = Some s \<and> range_validate s = None) \<and>
             pa_node a = 0 \<and> pa_ticks a = 0 \<and> pa_request a = [])"
  by (cases "pa_kind a"; cases "pa_messages a")
     (auto simp: plan_action_validate_def validate_plan_messages_def validate_plan_ticks_def
       validate_plan_node_def validate_plan_request_def)

lemma validate_concrete_actions_None:
  "validate_concrete_actions i as = None \<longleftrightarrow> (\<forall>a \<in> set as. action_validate a = None)"
  by (induction as arbitrary: i) simp_all

lemma resolution_validate_None [validate_simps]:
  "resolution_validate r = None \<longleftrightarrow>
     resolution_status_valid (rs_status r) \<and>
     (rs_status r \<noteq> ResolutionInvalid \<longrightarrow> plan_action_validate (rs_plan r) = None) \<and>
     0 < rs_requested r \<and> 0 \<le> rs_resolved r \<and> rs_resolved r \<le> rs_requested r \<and>
     int (length (rs_actions r)) = rs_resolved r \<and>
     (\<forall>a \<in> set (rs_actions r). action_validate a = None) \<and>
     validate_resolution_status r = None"
  by (auto simp: resolution_validate_def validate_concrete_actions_None)

text \<open>What a usable resolution is: it validates, and anything but a full success says why.\<close>

definition resolution_ok :: "resolution \<Rightarrow> bool" where
  "resolution_ok r \<longleftrightarrow>
     resolution_validate r = None \<and>
     (rs_status r \<noteq> ResolutionResolved \<longrightarrow> rs_reason_code r \<noteq> [] \<and> rs_reason r \<noteq> [])"

lemma invalid_resolution_ok:
  "0 < rs_requested r \<Longrightarrow> code \<noteq> [] \<Longrightarrow> reason \<noteq> [] \<Longrightarrow> resolution_ok (invalid_resolution r code reason)"
  by (simp add: resolution_ok_def resolution_validate_None invalid_resolution_def validate_resolution_status_def)

lemma skipped_resolution_ok:
  "0 < rs_requested r \<Longrightarrow> plan_action_validate (rs_plan r) = None \<Longrightarrow> code \<noteq> [] \<Longrightarrow> reason \<noteq> [] \<Longrightarrow>
     resolution_ok (skipped_resolution r code reason)"
  by (simp add: resolution_ok_def resolution_validate_None skipped_resolution_def validate_resolution_status_def)

lemma no_message_at_ok:
  "0 < rs_requested r \<Longrightarrow> plan_action_validate (rs_plan r) = None \<Longrightarrow> rs_resolved r = 0 \<Longrightarrow> rs_actions r = [] \<Longrightarrow>
     resolution_ok (no_message_at r sel)"
  by (simp add: resolution_ok_def resolution_validate_None no_message_at_def validate_resolution_status_def)

lemma err_text_nonempty: "plan_action_validate a = Some e \<Longrightarrow> err_text e \<noteq> []"
proof -
  assume "plan_action_validate a = Some e"
  then have "\<exists>d. e = errorf_v ErrInvalidPlan d"
    by (auto simp: plan_action_validate_def validate_plan_messages_def validate_plan_ticks_def unrelated_fields_def
        validate_plan_node_def validate_plan_request_def range_validate_def split: plan_kind.splits option.splits if_splits)
  then show ?thesis by (auto simp: errorf_v_def)
qed

lemma validation_error_text_nonempty [simp]: "validation_error_text (invalid_value t f r) \<noteq> []"
  by (simp add: validation_error_text_def)

lemma resolve_time_ok:
  assumes "plan_action_validate a = None" "pa_kind a = PlanAdvanceTicks"
  shows "resolution_ok (resolve_time c (initial_resolution a) a ob)"
proof -
  have valid: "plan_action_validate (rs_plan (initial_resolution a)) = None"
    using assms by (simp add: initial_resolution_def)
  have pos: "t \<noteq> 0" if "logical_time_add (obs_time ob) (pa_ticks a) = Inr t" for t
  proof -
    have "unat t = unat (obs_time ob) + unat (pa_ticks a)"
      using logical_time_add_exact [of "obs_time ob" "pa_ticks a"] that by simp
    moreover have "0 < unat (pa_ticks a)" using assms by (simp add: plan_action_validate_None unat_gt_0)
    ultimately have "0 < unat t" by linarith
    then show ?thesis by (simp add: unat_gt_0)
  qed
  have why: "validation_error_text e \<noteq> []" if "logical_time_add (obs_time ob) (pa_ticks a) = Inl e" for e
    using that by (auto simp: logical_time_add_def split: if_splits)
  show ?thesis
  proof (cases "logical_time_add (obs_time ob) (pa_ticks a)")
    case (Inl e)
    then show ?thesis using why by (simp add: resolve_time_def invalid_resolution_ok initial_resolution_def)
  next
    case (Inr t)
    show ?thesis
    proof (cases "pa_ticks a > rc_max_advance_ticks c")
      case True
      then show ?thesis by (simp add: resolve_time_def invalid_resolution_ok initial_resolution_def)
    next
      case False
      then show ?thesis using pos [OF Inr] valid Inr
        by (simp add: resolve_time_def initial_resolution_def resolution_ok_def
            resolution_validate_None validate_resolution_status_def action_of_kind_def action_validate_def
            validate_time_action_None)
    qed
  qed
qed

lemma resolve_node_ok:
  assumes valid: "plan_action_validate a = None"
    and kind: "pa_kind a \<in> {PlanTimeout, PlanCrash, PlanRestart, PlanRequest}"
  shows "resolution_ok (resolve_node (initial_resolution a) a ob)"
proof (cases "observed_node ob (pa_node a)")
  case None
  then show ?thesis using valid
    by (simp add: resolve_node_def resolution_ok_def resolution_validate_None initial_resolution_def
        validate_resolution_status_def)
next
  case (Some node)
  show ?thesis
  proof (cases "node_refusal (pa_kind a) (no_status node)")
    case None
    then show ?thesis using Some valid kind
      by (auto simp: resolve_node_def resolution_ok_def resolution_validate_None initial_resolution_def
          validate_resolution_status_def plan_action_validate_None action_of_kind_def action_validate_def
          validate_node_action_None validate_request_action_None)
  next
    case refused: (Some p)
    obtain code why where p: "p = (code, why)" by (cases p)
    then have "code \<noteq> []" using refused
      by (auto simp: node_refusal_def split: plan_kind.splits if_splits)
    then show ?thesis using Some refused p valid
      by (simp add: resolve_node_def skipped_resolution_ok initial_resolution_def)
  qed
qed

section \<open>Message batches\<close>

lemma bad_position_None:
  "bad_position i q = None \<longleftrightarrow> (\<forall>p < length q. mo_position (q ! p) = int (i + p))"
proof (induction q arbitrary: i)
  case (Cons m q)
  have "(\<forall>p < length (m # q). mo_position ((m # q) ! p) = int (i + p)) \<longleftrightarrow>
      mo_position m = int i \<and> (\<forall>p < length q. mo_position (q ! p) = int (Suc i + p))"
    by (simp add: All_less_Suc2 algebra_simps)
  then show ?case using Cons.IH by (simp add: ac_simps)
qed simp

definition batch_start :: "message_range_selector \<Rightarrow> nat \<Rightarrow> nat" where
  "batch_start sel len = (if rng_start sel \<ge> int len then len - 1 else nat (rng_start sel))"

text \<open>The messages a selector picks from a queue.\<close>

definition batch :: "message_range_selector \<Rightarrow> 'a list \<Rightarrow> 'a list" where
  "batch sel q = take (nat (rng_count sel)) (drop (batch_start sel (length q)) q)"

lemma select_messages_nonempty:
  assumes q: "q \<noteq> []" and sel: "range_validate sel = None"
    and clamp: "rng_start sel < int (length q) \<or> rc_clamp_message_start c"
    and small: "int (length q) + rng_count sel \<le> 2 ^ 63"
  shows "select_messages c r k sel q =
    Some (finish_messages r sel (int (batch_start sel (length q))) (rng_start sel \<ge> int (length q))
      (map (concrete_message_action k (rng_link sel) (int (batch_start sel (length q)))) (batch sel q)))"
proof -
  let ?b = "batch_start sel (length q)" and ?n = "length q"
  have start: "(if rng_start sel \<ge> int ?n then int ?n - 1 else rng_start sel) = int ?b" and less: "?b < ?n"
    using q sel by (auto simp: batch_start_def range_validate_None Suc_le_eq of_nat_diff)
  have count: "0 < rng_count sel" using sel by (simp add: range_validate_None)
  have stop: "wrap64 (int ?b + rng_count sel) = int ?b + rng_count sel"
    using less count small by (intro wrap64_id) linarith+
  let ?stop = "if int ?b + rng_count sel > int ?n then int ?n else int ?b + rng_count sel"
  have "go_slice q (int ?b) ?stop = Some (take (nat (?stop - int ?b)) (drop ?b q))"
    using less count by (auto simp: go_slice_def)
  moreover have "take (nat (?stop - int ?b)) (drop ?b q) = batch sel q"
  proof (cases "int ?b + rng_count sel > int ?n")
    case True
    then have "?n - ?b \<le> nat (rng_count sel)" by linarith
    then show ?thesis using True by (simp add: batch_def nat_diff_distrib)
  next
    case False
    then show ?thesis by (simp add: batch_def)
  qed
  ultimately show ?thesis using q clamp start stop
    by (auto simp: select_messages_def Let_def)
qed

lemma select_messages_empty:
  assumes "q = [] \<or> (rng_start sel \<ge> int (length q) \<and> \<not> rc_clamp_message_start c)"
  shows "select_messages c r k sel q = Some (no_message_at r sel)"
  using assms by (auto simp: select_messages_def)

lemma batch_length:
  assumes "q \<noteq> []" "range_validate sel = None"
  shows "0 < length (batch sel q)" and "int (length (batch sel q)) \<le> rng_count sel"
  using assms by (auto simp: batch_def batch_start_def range_validate_None)

lemma finish_messages_ok:
  assumes r: "rs_requested r = rng_count sel" "plan_action_validate (rs_plan r) = None"
    and count: "0 < length as" "int (length as) \<le> rng_count sel"
    and valid: "\<forall>a \<in> set as. action_validate a = None"
  shows "resolution_ok (finish_messages r sel start clamped as)"
proof -
  have "0 < rng_count sel" using count by linarith
  then show ?thesis using assms
    by (auto simp del: length_greater_0_conv simp: finish_messages_def Let_def resolution_ok_def resolution_validate_None
        validate_resolution_status_def)
qed

lemma finish_messages_actions [simp]: "rs_actions (finish_messages r sel start clamped as) = as"
  by (simp add: finish_messages_def Let_def)

lemma finish_messages_status:
  "rs_status (finish_messages r sel start clamped as) =
     (if int (length as) < rs_requested r then ResolutionPartial else ResolutionResolved)"
  by (simp add: finish_messages_def Let_def)

lemma set_messages_on_link:
  "m \<in> set (messages_on_link ob l) \<Longrightarrow> m \<in> set (obs_messages ob) \<and> mo_from m = link_from l \<and> mo_to m = link_to l"
  by (simp add: messages_on_link_def)

lemma length_messages_on_link: "length (messages_on_link ob l) \<le> length (obs_messages ob)"
  by (simp add: messages_on_link_def)

lemma set_batch: "m \<in> set (batch sel q) \<Longrightarrow> m \<in> set q"
  by (auto simp: batch_def dest: in_set_takeD in_set_dropD)

lemma concrete_message_action_valid:
  assumes "is_plan_message_kind k" "range_validate sel = None" "observation_validate ob = None"
    and m: "m \<in> set (messages_on_link ob (rng_link sel))" and start: "0 \<le> start"
  shows "action_validate (concrete_message_action k (rng_link sel) start m) = None"
proof -
  have "message_observation_validate m = None"
    using assms(3) set_messages_on_link [OF m] by (simp add: observation_validate_None)
  then have "mo_id m \<noteq> 0" and "0 \<le> mo_position m"
    by (simp_all add: message_observation_validate_None message_validate_None message_of_observation_def)
  then show ?thesis using assms(1,2) start
    by (auto simp: is_plan_message_kind_def concrete_message_action_def action_of_kind_def action_validate_def
        validate_message_action_None range_validate_None)
qed

text \<open>A batch that fits a Go \<open>int\<close> on top of the queue cannot overflow the end of the slice.\<close>

definition batch_fits :: "resolver_config \<Rightarrow> observation \<Rightarrow> bool" where
  "batch_fits c ob \<longleftrightarrow> rc_max_batch c + int (length (obs_messages ob)) \<le> 2 ^ 63"

lemma resolve_messages_ok:
  assumes valid: "plan_action_validate a = None" "observation_validate ob = None"
    and kind: "is_plan_message_kind (pa_kind a)" and fits: "batch_fits c ob"
  shows "\<exists>r. resolve_messages c (initial_resolution a) a ob = Some r \<and> resolution_ok r"
proof -
  obtain sel where sel: "pa_messages a = Some sel" and sv: "range_validate sel = None"
    using valid(1) kind by (auto simp: plan_action_validate_None is_plan_message_kind_def)
  let ?r = "(initial_resolution a)\<lparr>rs_requested := rng_count sel\<rparr>" and ?q = "messages_on_link ob (rng_link sel)"
  have r: "rs_requested ?r = rng_count sel" "0 < rng_count sel" "plan_action_validate (rs_plan ?r) = None"
      "rs_resolved ?r = 0" "rs_actions ?r = []"
    using sv valid by (simp_all add: initial_resolution_def range_validate_None)
  have selected: "\<exists>r. select_messages c ?r (pa_kind a) sel ?q = Some r \<and> resolution_ok r"
    if batch: "rng_count sel \<le> rc_max_batch c"
  proof (cases "?q = [] \<or> (rng_start sel \<ge> int (length ?q) \<and> \<not> rc_clamp_message_start c)")
    case True
    then show ?thesis using r by (simp add: select_messages_empty no_message_at_ok)
  next
    case False
    then have q: "?q \<noteq> []" by simp
    have small: "int (length ?q) + rng_count sel \<le> 2 ^ 63"
      using batch fits length_messages_on_link [of ob "rng_link sel"] by (simp add: batch_fits_def)
    have "\<forall>x \<in> set (map (concrete_message_action (pa_kind a) (rng_link sel) (int (batch_start sel (length ?q))))
        (batch sel ?q)). action_validate x = None"
      using concrete_message_action_valid [OF kind sv valid(2)] set_batch by fastforce
    then show ?thesis
      using False small batch_length [OF q sv] r
      by (subst select_messages_nonempty [OF q sv _ small]) (auto intro!: finish_messages_ok)
  qed
  show ?thesis
    using selected r
    by (auto simp: resolve_messages_def sel Let_def invalid_resolution_ok skipped_resolution_ok split: option.splits)
qed

section \<open>What the resolver guarantees\<close>

lemma resolve_ok:
  assumes fits: "\<And>c. resolver = Some c \<Longrightarrow> batch_fits c ob"
  shows "\<exists>r. resolve resolver a ob = Some r \<and> resolution_ok r"
proof (cases resolver)
  case None
  then show ?thesis by (simp add: resolve_def Let_def invalid_resolution_ok initial_resolution_def)
next
  case (Some c)
  have req: "0 < rs_requested (initial_resolution a)" by (simp add: initial_resolution_def)
  show ?thesis
  proof (cases "plan_action_validate a")
    case bad: (Some e)
    then show ?thesis using Some req err_text_nonempty [OF bad]
      by (simp add: resolve_def Let_def invalid_resolution_ok)
  next
    case valid: None
    show ?thesis
    proof (cases "observation_validate ob")
      case bad: (Some e)
      then show ?thesis using Some req valid by (simp add: resolve_def Let_def invalid_resolution_ok)
    next
      case ob: None
      show ?thesis using Some valid ob resolve_messages_ok [OF valid ob _ fits [OF Some]]
          resolve_time_ok [OF valid] resolve_node_ok [OF valid] req
        by (cases "pa_kind a")
           (simp_all add: resolve_def Let_def is_plan_message_kind_def invalid_resolution_ok)
    qed
  qed
qed

text \<open>C31: For any plan action and any observation, valid or not, the resolver returns a resolution that
  passes its own validation and that gives a reason code and a reason unless everything that was
  asked for is resolved. The one requirement is that \<open>MaxBatch\<close> and the number of queued messages
  add up within 64 bits; the default \<open>MaxBatch\<close> of 1024 is far below.\<close>

theorem resolve_total_and_valid:
  assumes "case resolver of None \<Rightarrow> True | Some c \<Rightarrow> batch_fits c ob"
  shows "\<exists>r. resolve resolver a ob = Some r \<and> resolution_validate r = None \<and>
    (rs_status r = ResolutionResolved \<or> (rs_reason_code r \<noteq> [] \<and> rs_reason r \<noteq> []))"
proof -
  have "\<exists>r. resolve resolver a ob = Some r \<and> resolution_ok r"
    by (rule resolve_ok) (use assms in simp)
  then show ?thesis by (auto simp: resolution_ok_def)
qed

definition example_drop :: "int \<Rightarrow> int \<Rightarrow> plan_action" where
  "example_drop start amount = \<lparr>pa_kind = PlanDrop, pa_node = 0,
     pa_messages = Some \<lparr>rng_link = LinkID 1 2, rng_start = start, rng_count = amount\<rparr>,
     pa_ticks = 0, pa_request = []\<rparr>"

definition example_queued :: "message_id \<Rightarrow> int \<Rightarrow> message_observation" where
  "example_queued i p = \<lparr>mo_id = i, mo_from = 1, mo_to = 2, mo_sender_epoch = 1, mo_link_sequence = i,
     mo_parent_id = 0, mo_position = p, mo_enqueued_at = 0, mo_type_hint = [], mo_payload_digest = [],
     mo_metadata = []\<rparr>"

definition example_observation :: observation where
  "example_observation = empty_observation\<lparr>obs_messages := [example_queued 1 0, example_queued 2 1]\<rparr>"

theorem resolve_total_and_valid_witness:
  "\<exists>r. resolve (Some default_resolver_config) (example_drop 0 5) example_observation = Some r \<and>
     resolution_validate r = None \<and>
     (rs_status r = ResolutionResolved \<or> (rs_reason_code r \<noteq> [] \<and> rs_reason r \<noteq> []))"
  by (rule resolve_total_and_valid)
     (simp add: batch_fits_def default_resolver_config_def example_observation_def empty_observation_def)

lemma example_observation_valid: "observation_validate example_observation = None"
  by (simp add: observation_validate_None example_observation_def empty_observation_def example_queued_def
      message_observation_validate_None message_validate_None message_of_observation_def)

text \<open>C33: The requirement is needed: \<open>NewResolver\<close> accepts a \<open>MaxBatch\<close> of the largest \<open>int\<close>, and then a
  valid plan action makes \<open>Resolve\<close> compute an end that has wrapped around, and panic on the slice.\<close>

theorem resolve_batch_overflow_panics:
  "new_resolver (default_resolver_config\<lparr>rc_max_batch := max_int64\<rparr>)
     = Inr (default_resolver_config\<lparr>rc_max_batch := max_int64\<rparr>) \<and>
   plan_action_validate (example_drop 1 max_int64) = None \<and>
   observation_validate example_observation = None \<and>
   resolve (Some (default_resolver_config\<lparr>rc_max_batch := max_int64\<rparr>)) (example_drop 1 max_int64)
     example_observation = None"
proof -
  have valid: "plan_action_validate (example_drop 1 max_int64) = None"
    by (simp add: plan_action_validate_None example_drop_def range_validate_None max_int64_def)
  moreover have "messages_on_link example_observation (LinkID 1 2) = [example_queued 1 0, example_queued 2 1]"
    by (simp add: messages_on_link_def example_observation_def empty_observation_def example_queued_def)
  ultimately show ?thesis using example_observation_valid
    by (simp add: new_resolver_def default_resolver_config_def resolve_def Let_def)
       (simp add: max_int64_def example_drop_def resolve_messages_def select_messages_def
         example_queued_def wrap64_def go_slice_def Let_def)
qed

end
