(* ===== verification/Batch.thy ===== *)
theory Batch
  imports Network Plan
begin

text \<open>
  The meeting point of the plan resolver (internal/plan/resolver.go) and the network
  (internal/runtime/network.go): the resolver chooses the positions of a whole batch from one
  observation, and the runtime executes the actions one by one on a network that changes under
  them. The theorems say that the chosen selectors are right at the moment each is used, whatever
  messages the executed actions register in between.
\<close>

section \<open>Resolving against the observation of a network\<close>

definition observes_network :: "observation \<Rightarrow> network \<Rightarrow> bool" where
  "observes_network ob n \<longleftrightarrow> obs_messages ob = sort_key mo_id (network_observations n)"

lemma map_position_observe_queue: "map mo_position (observe_queue q) = map int [0..<length q]"
  by (rule nth_equalityI) simp_all

lemma sort_key_position_observe_queue:
  assumes "mset ms = mset (observe_queue q)"
  shows "sort_key mo_position ms = observe_queue q"
proof (rule sort_key_inj_key_eq [OF assms])
  show "sorted (map mo_position (observe_queue q))"
    by (simp add: map_position_observe_queue sorted_iff_nth_mono)
  have "distinct (map mo_position (observe_queue q))"
    by (simp add: map_position_observe_queue distinct_map)
  then show "inj_on mo_position (set ms)"
    using mset_eq_setD [OF assms] by (simp add: distinct_map)
qed

lemma messages_on_link_network:
  assumes wf: "network_wf n" and ob: "observes_network ob n"
  shows "messages_on_link ob l = observe_queue (queue_at n l)"
proof -
  have "(\<lambda>m. mo_from m = link_from l \<and> mo_to m = link_to l) = (\<lambda>m. observed_link m = l)"
    by (rule ext) (auto simp: observed_link_def)
  then have "mset (filter (\<lambda>m. mo_from m = link_from l \<and> mo_to m = link_to l) (obs_messages ob))
      = mset (observe_queue (queue_at n l))"
    using ob network_observations_on_link [OF wf, of l]
    by (simp add: observes_network_def filter_sort)
  then show ?thesis unfolding messages_on_link_def by (rule sort_key_position_observe_queue)
qed

lemma bad_position_network:
  "network_wf n \<Longrightarrow> observes_network ob n \<Longrightarrow> bad_position 0 (messages_on_link ob l) = None"
  by (simp add: messages_on_link_network bad_position_None)

lemma observe_network_batch:
  "batch sel (observe_queue q) =
     map (\<lambda>i. observe_queued (batch_start sel (length q) + i) (batch sel q ! i)) [0..<length (batch sel q)]"
  by (rule nth_equalityI) (auto simp: batch_def)

definition batch_action :: "plan_kind \<Rightarrow> link_id \<Rightarrow> nat \<Rightarrow> nat \<Rightarrow> message_id \<Rightarrow> action" where
  "batch_action k l start i m =
     (action_of_kind (concrete_message_kind k))\<lparr>act_message := m,
        act_selector := Some \<lparr>sel_link = l, sel_position = int (if k = PlanDuplicate then start + i else start)\<rparr>\<rparr>"

definition batch_actions :: "plan_kind \<Rightarrow> message_range_selector \<Rightarrow> queued_message list \<Rightarrow> action list" where
  "batch_actions k sel q =
     map (\<lambda>i. batch_action k (rng_link sel) (batch_start sel (length q)) i (queued_id (batch sel q ! i)))
       [0..<length (batch sel q)]"

lemma concrete_batch_actions:
  "is_plan_message_kind k \<Longrightarrow>
     map (concrete_message_action k (rng_link sel) (int (batch_start sel (length q)))) (batch sel (observe_queue q))
       = batch_actions k sel q"
  by (auto simp: observe_network_batch batch_actions_def batch_action_def concrete_message_action_def
      is_plan_message_kind_def queued_id_def)

lemma finish_messages_status_in:
  "rs_status (finish_messages r sel start clamped as) \<in> {ResolutionResolved, ResolutionPartial, ResolutionEmptyQueue}"
  by (simp add: finish_messages_status)

text \<open>The observation a deliver needs: its target is running.\<close>

definition target_running :: "plan_action \<Rightarrow> message_range_selector \<Rightarrow> observation \<Rightarrow> bool" where
  "target_running a sel ob \<longleftrightarrow>
     (pa_kind a = PlanDeliver \<longrightarrow>
        (\<exists>node. observed_node ob (link_to (rng_link sel)) = Some node \<and> no_status node = NodeRunning))"

lemma resolve_on_network:
  assumes wf: "network_wf n" and ob: "observes_network ob n" "observation_validate ob = None"
    and a: "plan_action_validate a = None" "is_plan_message_kind (pa_kind a)" "pa_messages a = Some sel"
    and limits: "rng_count sel \<le> rc_max_batch c" "batch_fits c ob" and target: "target_running a sel ob"
    and r: "resolve (Some c) a ob = Some r"
  shows "rs_actions r =
      (if queue_at n (rng_link sel) = [] \<or>
          (rng_start sel \<ge> int (length (queue_at n (rng_link sel))) \<and> \<not> rc_clamp_message_start c)
       then [] else batch_actions (pa_kind a) sel (queue_at n (rng_link sel)))"
    and "rs_status r \<in> {ResolutionResolved, ResolutionPartial, ResolutionEmptyQueue}"
proof -
  let ?q = "queue_at n (rng_link sel)" and ?r = "(initial_resolution a)\<lparr>rs_requested := rng_count sel\<rparr>"
  have sv: "range_validate sel = None"
    using a by (auto simp: plan_action_validate_None is_plan_message_kind_def)
  have on: "messages_on_link ob (rng_link sel) = observe_queue ?q" by (rule messages_on_link_network [OF wf ob(1)])
  have bad: "bad_position 0 (observe_queue ?q) = None" by (simp add: bad_position_None)
  have "resolve (Some c) a ob = resolve_messages c (initial_resolution a) a ob"
    using a ob by (auto simp: resolve_def is_plan_message_kind_def)
  also have "\<dots> = select_messages c ?r (pa_kind a) sel (observe_queue ?q)"
    using a(3) limits(1) target by (auto simp: resolve_messages_def Let_def on bad target_running_def)
  finally have select: "select_messages c ?r (pa_kind a) sel (observe_queue ?q) = Some r" using r by simp
  have result: "rs_actions r = (if ?q = [] \<or> (rng_start sel \<ge> int (length ?q) \<and> \<not> rc_clamp_message_start c)
       then [] else batch_actions (pa_kind a) sel ?q) \<and>
    rs_status r \<in> {ResolutionResolved, ResolutionPartial, ResolutionEmptyQueue}"
  proof (cases "?q = [] \<or> (rng_start sel \<ge> int (length ?q) \<and> \<not> rc_clamp_message_start c)")
    case True
    then have "r = no_message_at ?r sel"
      using select select_messages_empty [of "observe_queue ?q" sel c ?r "pa_kind a"]
      by (auto simp: observe_queue_def)
    then show ?thesis using True by (simp add: no_message_at_def initial_resolution_def)
  next
    case False
    have ne: "observe_queue ?q \<noteq> []" using False by (auto simp flip: length_greater_0_conv)
    have "int (length (observe_queue ?q)) + rng_count sel \<le> 2 ^ 63"
      using limits length_messages_on_link [of ob "rng_link sel"] on by (simp add: batch_fits_def)
    moreover have "rng_start sel < int (length (observe_queue ?q)) \<or> rc_clamp_message_start c"
      using False by auto
    ultimately have "r = finish_messages ?r sel (int (batch_start sel (length ?q))) (rng_start sel \<ge> int (length ?q))
        (batch_actions (pa_kind a) sel ?q)"
      using select select_messages_nonempty [OF ne sv, of c ?r "pa_kind a"]
        concrete_batch_actions [OF a(2), of sel ?q] by simp
    then show ?thesis using False finish_messages_status_in by auto
  qed
  then show "rs_actions r =
      (if queue_at n (rng_link sel) = [] \<or>
          (rng_start sel \<ge> int (length (queue_at n (rng_link sel))) \<and> \<not> rc_clamp_message_start c)
       then [] else batch_actions (pa_kind a) sel (queue_at n (rng_link sel)))"
    and "rs_status r \<in> {ResolutionResolved, ResolutionPartial, ResolutionEmptyQueue}" by simp_all
qed

section \<open>Executing the batch\<close>

text \<open>What the runtime does to the network for a message action, and then with the messages that the
  adapter sends in reply: they are registered before the next action runs.\<close>

definition network_execute :: "action \<Rightarrow> logical_time \<Rightarrow> network \<Rightarrow> go_error + message \<times> network" where
  "network_execute a now n =
     (if act_kind a = ActionDuplicate then network_duplicate n (act_message a) (the (act_selector a)) now
      else network_remove n (act_message a) (the (act_selector a)))"

definition register_all :: "network \<Rightarrow> (message \<times> logical_time) list \<Rightarrow> network" where
  "register_all n ms = snd (network_run n (map (\<lambda>(m, t). OpRegister m t) ms))"

fun run_batch ::
  "network \<Rightarrow> logical_time \<Rightarrow> (action \<times> (message \<times> logical_time) list) list \<Rightarrow> (message list \<times> network) option" where
  "run_batch n now [] = Some ([], n)"
| "run_batch n now ((a, replies) # rest) =
     (case network_execute a now n of
        Inl e \<Rightarrow> None
      | Inr (m, n') \<Rightarrow> map_option (\<lambda>(ms, n''). (m # ms, n'')) (run_batch (register_all n' replies) now rest))"

lemma pending_register_all: "nq.pending n l p is \<Longrightarrow> nq.pending (register_all n ms) l p is"
proof (induction ms arbitrary: n)
  case Nil
  then show ?case by (simp add: register_all_def)
next
  case (Cons x ms)
  obtain m t where x: "x = (m, t)" by (cases x)
  have "nq.pending (snd (network_apply n (OpRegister m t))) l p is"
  proof (cases "network_register n m 0 t")
    case (Inl e)
    then have same: "snd (network_apply n (OpRegister m t)) = n" by (simp add: network_register_outbound_def)
    show ?thesis unfolding same by (rule Cons.prems)
  next
    case (Inr r)
    then have "nq.pending (snd r) l p is"
      using nq.pending_register [OF Cons.prems, of "(m, 0, t)" "fst r" "snd r"] by simp
    then show ?thesis using Inr by (cases r) (simp add: network_register_outbound_def)
  qed
  then have "nq.pending (register_all (snd (network_apply n (OpRegister m t))) ms) l p is" by (rule Cons.IH)
  moreover have "register_all n (x # ms) = register_all (snd (network_apply n (OpRegister m t))) ms"
    by (simp add: register_all_def x Let_def split: prod.splits)
  ultimately show ?case by (simp only:)
qed

definition removal_at :: "action \<Rightarrow> link_id \<Rightarrow> nat \<Rightarrow> message_id \<Rightarrow> bool" where
  "removal_at a l p i \<longleftrightarrow> act_kind a \<noteq> ActionDuplicate \<and> act_message a = i \<and>
     act_selector a = Some \<lparr>sel_link = l, sel_position = int p\<rparr>"

lemma run_removals:
  assumes "nq.pending n l p is" "list_all2 (\<lambda>(a, replies) i. removal_at a l p i) steps is"
  shows "\<exists>ms n'. run_batch n now steps = Some (ms, n') \<and> map msg_id ms = is \<and> network_wf n'"
  using assms(2,1)
proof (induction steps "is" arbitrary: n rule: list_all2_induct)
  case Nil
  then show ?case by (simp add: nq.pending_def)
next
  case (Cons x xs i js)
  obtain a replies where x: "x = (a, replies)" by (cases x)
  have a: "removal_at a l p i" using Cons.hyps x by simp
  obtain m n1 where r: "remove_at n i l p = Inr (m, n1)" and "nq.pending n1 l p js"
    using nq.pending_remove [OF Cons.prems] by blast
  then have "nq.pending (register_all n1 replies) l p js" by (simp add: pending_register_all)
  from Cons.IH [OF this] obtain ms n' where
    rest: "run_batch (register_all n1 replies) now xs = Some (ms, n')" "map msg_id ms = js" "network_wf n'" by blast
  have "msg_id m = i"
    using r unfolding remove_at_def network_remove_Inr network_resolve_Inr by auto
  moreover have "network_execute a now n = Inr (m, n1)"
    using a r by (simp add: network_execute_def removal_at_def remove_at_def)
  ultimately show ?case using rest x by simp
qed

lemma take_fits:
  "b \<le> length q \<Longrightarrow> b + length (take c (drop b q)) \<le> length q \<and>
     take (length (take c (drop b q))) (drop b q) = take c (drop b q)"
  by (auto simp: min_def)

lemma batch_pending:
  assumes "network_wf n"
  shows "nq.pending n l (batch_start sel (length (queue_at n l)))
    (map queued_id (batch sel (queue_at n l)))"
proof -
  have "batch_start sel (length (queue_at n l)) \<le> length (queue_at n l)"
    by (simp add: batch_start_def) linarith
  from take_fits [OF this, of "nat (rng_count sel)"] show ?thesis
    using assms by (simp only: nq.pending_def batch_def length_map take_map drop_map simp_thms)
qed

lemma batch_actions_removals:
  assumes "k = PlanDeliver \<or> k = PlanDrop" "length replies = length (batch sel q)"
  shows "list_all2 (\<lambda>(a, rs) i. removal_at a (rng_link sel) (batch_start sel (length q)) i)
    (zip (batch_actions k sel q) replies) (map queued_id (batch sel q))"
  using assms
  by (auto simp: list_all2_conv_all_nth batch_actions_def batch_action_def removal_at_def action_of_kind_def)

text \<open>C9: A batch of delivers or drops, resolved from one observation of a well-formed network, can be
  executed to its end: every selector is right when its turn comes, although the positions move
  and the adapter may have messages registered after each action, and the messages that leave the
  network are exactly the selected ones, in queue order.\<close>

theorem resolved_batch_executes:
  assumes wf: "network_wf n" and ob: "observes_network ob n" "observation_validate ob = None"
    and a: "plan_action_validate a = None" "pa_kind a = PlanDeliver \<or> pa_kind a = PlanDrop" "pa_messages a = Some sel"
    and limits: "rng_count sel \<le> rc_max_batch c" "batch_fits c ob" and target: "target_running a sel ob"
    and queue: "rng_start sel < int (length (queue_at n (rng_link sel)))"
    and r: "resolve (Some c) a ob = Some r"
    and replies: "length replies = length (rs_actions r)"
  shows "\<exists>ms n'. run_batch n now (zip (rs_actions r) replies) = Some (ms, n') \<and> network_wf n' \<and>
    map msg_id ms = map queued_id (batch sel (queue_at n (rng_link sel)))"
proof -
  let ?q = "queue_at n (rng_link sel)"
  have kind: "is_plan_message_kind (pa_kind a)" using a(2) by (auto simp: is_plan_message_kind_def)
  have "0 \<le> rng_start sel" using a by (auto simp: plan_action_validate_None range_validate_None)
  then have "?q \<noteq> []" using queue by auto
  then have actions: "rs_actions r = batch_actions (pa_kind a) sel ?q"
    using resolve_on_network(1) [OF wf ob a(1) kind a(3) limits target r] queue by simp
  then have "length replies = length (batch sel ?q)" using replies by (simp add: batch_actions_def)
  from batch_actions_removals [OF a(2) this]
  have "list_all2 (\<lambda>(a, rs) i. removal_at a (rng_link sel) (batch_start sel (length ?q)) i)
      (zip (rs_actions r) replies) (map queued_id (batch sel ?q))" unfolding actions .
  from run_removals [OF batch_pending [OF wf] this, of now] show ?thesis by blast
qed

definition example_network :: network where
  "example_network = snd (network_run new_network [OpRegister example_message 0, OpRegister example_message 0])"

definition network_observation :: "network \<Rightarrow> observation" where
  "network_observation n = empty_observation\<lparr>obs_messages := sort_key mo_id (network_observations n)\<rparr>"

lemma network_observation_ok:
  assumes "network_wf n"
  shows "observes_network (network_observation n) n" and "observation_validate (network_observation n) = None"
  using network_observations_valid [OF assms]
  by (simp_all add: observes_network_def network_observation_def observation_validate_None empty_observation_def)

lemma example_network_size:
  "length (queue_at example_network (LinkID 1 2)) = 2" "network_len example_network = 2"
proof -
  have can: "can_register n example_message 0" if "nw_next_message_id n \<in> {1, 2}" "last_sequence n (LinkID 1 2) \<in> {0, 1}" for n
    using that by (auto simp: can_register_def message_validate_outbound_None message_validate_None example_message_def
        registered_message_def message_link_def)
  have link: "message_link example_message = LinkID 1 2" by (simp add: example_message_def message_link_def)
  have reg: "network_apply n (OpRegister example_message 0) =
      ([registered_message n example_message 0], after_register n example_message 0 0)"
    if "can_register n example_message 0" for n
  proof -
    have "network_register n example_message 0 0 =
        Inr (registered_message n example_message 0, after_register n example_message 0 0)"
      using that by (simp add: network_register_Inr)
    then show ?thesis by (simp add: network_register_outbound_def)
  qed
  have c1: "can_register new_network example_message 0"
    by (rule can) (simp_all add: new_network_def last_sequence_def)
  have new0: "last_sequence new_network (LinkID 1 2) = 0" "nw_next_message_id new_network = 1"
    by (simp_all add: new_network_def last_sequence_def)
  have c2: "can_register (after_register new_network example_message 0 0) example_message 0"
    by (rule can) (simp_all add: link new0)
  have eq: "example_network = after_register (after_register new_network example_message 0 0) example_message 0 0"
    by (simp add: example_network_def reg c1 c2 del: network_apply.simps)
  show "length (queue_at example_network (LinkID 1 2)) = 2" by (simp add: eq link)
  have "network_wf (after_register new_network example_message 0 0)"
    by (rule after_register_wf [OF new_network_wf c1])
  then show "network_len example_network = 2"
    using new_network_wf by (simp add: eq network_len_after_register network_wf_def)
qed

theorem resolved_batch_executes_witness:
  "\<exists>ms n'. run_batch example_network 0 (zip (rs_actions (the (resolve (Some default_resolver_config)
        (example_drop 0 2) (network_observation example_network)))) [[], []]) = Some (ms, n') \<and> network_wf n' \<and>
     map msg_id ms = map queued_id (batch \<lparr>rng_link = LinkID 1 2, rng_start = 0, rng_count = 2\<rparr>
       (queue_at example_network (LinkID 1 2)))"
proof -
  let ?sel = "\<lparr>rng_link = LinkID 1 2, rng_start = 0, rng_count = 2\<rparr>" and ?a = "example_drop 0 2"
  let ?ob = "network_observation example_network" and ?c = "default_resolver_config"
  have wf: "network_wf example_network"
    unfolding example_network_def by (rule network_run_wf [OF new_network_wf])
  note ob = network_observation_ok [OF wf]
  have valid: "plan_action_validate ?a = None"
    by (simp add: plan_action_validate_None example_drop_def range_validate_None)
  have a: "pa_kind ?a = PlanDeliver \<or> pa_kind ?a = PlanDrop" "pa_messages ?a = Some ?sel" "is_plan_message_kind (pa_kind ?a)"
    by (simp_all add: example_drop_def is_plan_message_kind_def)
  have len: "length (queue_at example_network (rng_link ?sel)) = 2" using example_network_size by simp
  have "length (network_observations example_network) = network_len example_network"
    using network_observations_valid(3) [OF wf] .
  then have fits: "batch_fits ?c ?ob"
    by (simp add: batch_fits_def default_resolver_config_def network_observation_def empty_observation_def
        example_network_size)
  have limit: "rng_count ?sel \<le> rc_max_batch ?c" by (simp add: default_resolver_config_def)
  have target: "target_running ?a ?sel ?ob" by (simp add: target_running_def example_drop_def)
  obtain r where r: "resolve (Some ?c) ?a ?ob = Some r"
    using resolve_ok [of "Some ?c" ?ob ?a] fits by auto
  have "rs_actions r = batch_actions (pa_kind ?a) ?sel (queue_at example_network (rng_link ?sel))"
    using resolve_on_network(1) [OF wf ob valid a(3,2) limit fits target r] len by auto
  then have two: "length [[], []] = length (rs_actions r)"
    using len by (simp add: batch_actions_def batch_def batch_start_def)
  show ?thesis
    using resolved_batch_executes [OF wf ob valid a(1,2) limit fits target _ r two, of 0] len r by fastforce
qed

end
