(* ===== verification/Core_Trace.thy ===== *)
theory Core_Trace
  imports Core_Observation
begin

text \<open>
  internal/core/trace.go and failure.go: step records, concrete traces and failure records, with
  the agreement of the incremental check (\<open>Append\<close>) and the check of a whole trace (\<open>Validate\<close>).
\<close>

definition current_trace_version :: u32 where
  "current_trace_version = 4"

record step_record =
  sr_index :: u64
  sr_time_before :: logical_time
  sr_time_after :: logical_time
  sr_action :: action
  sr_effects :: "effect list"
  sr_nodes_before :: "node_observation list"
  sr_nodes_after :: "node_observation list"
  sr_observation_digest :: string

definition validate_node_snapshot :: "node_observation list \<Rightarrow> validation_error option" where
  "validate_node_snapshot nodes = observation_validate (empty_observation\<lparr>obs_nodes := nodes\<rparr>)"

text \<open>The effect loop, with the previous effect (none for the first).\<close>

fun validate_step_effects ::
  "logical_time \<Rightarrow> logical_time \<Rightarrow> effect option \<Rightarrow> effect list \<Rightarrow> validation_error option" where
  "validate_step_effects before after prev [] = None"
| "validate_step_effects before after prev (e # es) =
     (if eff_at e < before \<or> eff_at e > after
      then Some (invalid_value ''step_record'' ''effects'' ''effect time is outside the step interval'')
      else if (case prev of None \<Rightarrow> False | Some p \<Rightarrow> eff_at e < eff_at p)
      then Some (invalid_value ''step_record'' ''effects'' ''effect times must be non-decreasing'')
      else case effect_validate e of
        Some err \<Rightarrow> Some (invalid_value ''step_record'' ''effects'' (validation_error_text err))
      | None \<Rightarrow> validate_step_effects before after (Some e) es)"

definition validate_step_time :: "step_record \<Rightarrow> validation_error option" where
  "validate_step_time s =
     (if act_kind (sr_action s) = ActionAdvanceTime then
        (if sr_time_after s \<le> sr_time_before s
         then Some (invalid_value ''step_record'' ''time_after'' ''advance-time action must move time forward'')
         else if act_target_time (sr_action s) \<noteq> sr_time_after s
         then Some (invalid_value ''step_record'' ''time_after'' ''must equal advance-time target'')
         else None)
      else if sr_time_after s \<noteq> sr_time_before s
      then Some (invalid_value ''step_record'' ''time_after''
             ''only advance-time actions may move logical time'')
      else None)"

definition step_record_validate :: "step_record \<Rightarrow> validation_error option" where
  "step_record_validate s =
     (if sr_time_after s < sr_time_before s
      then Some (invalid_value ''step_record'' ''time_after'' ''must not precede time_before'')
      else case action_validate (sr_action s) of
        Some e \<Rightarrow> Some (invalid_value ''step_record'' ''action'' (validation_error_text e))
      | None \<Rightarrow>
        (case validate_step_time s of
           Some e \<Rightarrow> Some e
         | None \<Rightarrow>
           (case validate_step_effects (sr_time_before s) (sr_time_after s) None (sr_effects s) of
              Some e \<Rightarrow> Some e
            | None \<Rightarrow>
              (case validate_node_snapshot (sr_nodes_before s) of
                 Some e \<Rightarrow> Some (invalid_value ''step_record'' ''nodes_before'' (validation_error_text e))
               | None \<Rightarrow>
                 (case validate_node_snapshot (sr_nodes_after s) of
                    Some e \<Rightarrow> Some (invalid_value ''step_record'' ''nodes_after'' (validation_error_text e))
                  | None \<Rightarrow> None)))))"

lemma validate_node_snapshot_None [validate_simps]:
  "validate_node_snapshot ns = None \<longleftrightarrow>
     (\<forall>n \<in> set ns. node_observation_validate n = None) \<and> distinct (map no_id ns)"
  by (simp add: validate_node_snapshot_def observation_validate_None empty_observation_def)

lemma validate_step_effects_None:
  "validate_step_effects b a prev es = None \<longleftrightarrow>
     (\<forall>e \<in> set es. b \<le> eff_at e \<and> eff_at e \<le> a \<and> effect_validate e = None) \<and>
     sorted (map eff_at es) \<and>
     (\<forall>p. prev = Some p \<longrightarrow> (\<forall>e \<in> set es. eff_at p \<le> eff_at e))"
proof (induction b a prev es rule: validate_step_effects.induct)
  case (1 b a prev)
  then show ?case by simp
next
  case (2 b a prev e es)
  then show ?case
    by (cases prev) (auto simp: not_less dest: order_trans)
qed

lemma step_record_validate_None [validate_simps]:
  "step_record_validate s = None \<longleftrightarrow>
     action_validate (sr_action s) = None \<and>
     (if act_kind (sr_action s) = ActionAdvanceTime
      then sr_time_before s < sr_time_after s \<and> act_target_time (sr_action s) = sr_time_after s
      else sr_time_after s = sr_time_before s) \<and>
     (\<forall>e \<in> set (sr_effects s). sr_time_before s \<le> eff_at e \<and> eff_at e \<le> sr_time_after s \<and>
        effect_validate e = None) \<and>
     sorted (map eff_at (sr_effects s)) \<and>
     validate_node_snapshot (sr_nodes_before s) = None \<and>
     validate_node_snapshot (sr_nodes_after s) = None"
  by (auto simp: step_record_validate_def validate_step_time_def validate_step_effects_None)

section \<open>Traces\<close>

record trace =
  tr_version :: u32
  tr_execution_id :: execution_id
  tr_seed :: int
  tr_steps :: "step_record list"
  tr_metadata :: string_map

definition new_trace :: "execution_id \<Rightarrow> int \<Rightarrow> trace" where
  "new_trace i seed = \<lparr>tr_version = current_trace_version, tr_execution_id = i, tr_seed = seed,
     tr_steps = [], tr_metadata = []\<rparr>"

definition trace_append :: "trace \<Rightarrow> step_record \<Rightarrow> validation_error + trace" where
  "trace_append t step =
     (case step_record_validate step of
        Some e \<Rightarrow> Inl e
      | None \<Rightarrow>
          if tr_version t \<ge> 2 \<and> (sr_nodes_before step = [] \<or> sr_nodes_after step = [])
          then Inl (invalid_value ''step_record'' ''nodes'' ''version 2 requires before/after node snapshots'')
          else if sr_index step \<noteq> of_nat (length (tr_steps t))
          then Inl (invalid_value ''step_record'' ''index'' ''must be the next contiguous index'')
          else if tr_steps t \<noteq> [] \<and> sr_time_before step \<noteq> sr_time_after (last (tr_steps t))
          then Inl (invalid_value ''step_record'' ''time_before'' ''must equal the previous step's time_after'')
          else Inr (t\<lparr>tr_steps := tr_steps t @ [step]\<rparr>))"

fun validate_trace_steps :: "u32 \<Rightarrow> nat \<Rightarrow> step_record option \<Rightarrow> step_record list \<Rightarrow> validation_error option"
  where
  "validate_trace_steps version i prev [] = None"
| "validate_trace_steps version i prev (s # ss) =
     (if sr_index s \<noteq> of_nat i
      then Some (invalid_value ''trace'' ''steps'' ''indices must be contiguous and zero-based'')
      else case step_record_validate s of
        Some e \<Rightarrow> Some e
      | None \<Rightarrow>
          if version \<ge> 2 \<and> (sr_nodes_before s = [] \<or> sr_nodes_after s = [])
          then Some (invalid_value ''trace'' ''steps'' ''version 2 steps require before/after node snapshots'')
          else if (case prev of None \<Rightarrow> False | Some p \<Rightarrow> sr_time_before s \<noteq> sr_time_after p)
          then Some (invalid_value ''trace'' ''steps'' ''logical time must be contiguous'')
          else validate_trace_steps version (Suc i) (Some s) ss)"

definition trace_validate :: "trace \<Rightarrow> validation_error option" where
  "trace_validate t =
     (if tr_version t = 0 \<or> tr_version t > current_trace_version
      then Some (invalid_value ''trace'' ''version'' ''is unsupported'')
      else if \<not> execution_id_valid (tr_execution_id t)
      then Some (invalid_value ''trace'' ''execution_id'' ''must not be empty'')
      else validate_trace_steps (tr_version t) 0 None (tr_steps t))"

definition step_ok :: "u32 \<Rightarrow> nat \<Rightarrow> step_record option \<Rightarrow> step_record \<Rightarrow> bool" where
  "step_ok version i prev s \<longleftrightarrow>
     sr_index s = of_nat i \<and> step_record_validate s = None \<and>
     \<not> (version \<ge> 2 \<and> (sr_nodes_before s = [] \<or> sr_nodes_after s = [])) \<and>
     (\<forall>p. prev = Some p \<longrightarrow> sr_time_before s = sr_time_after p)"

lemma validate_trace_steps_Cons_None:
  "validate_trace_steps v i prev (s # ss) = None \<longleftrightarrow>
     step_ok v i prev s \<and> validate_trace_steps v (Suc i) (Some s) ss = None"
  by (cases prev) (auto simp: step_ok_def)

definition last_step :: "step_record option \<Rightarrow> step_record list \<Rightarrow> step_record option" where
  "last_step prev ss = (if ss = [] then prev else Some (last ss))"

lemma validate_trace_steps_snoc:
  "validate_trace_steps v i prev (ss @ [s]) = None \<longleftrightarrow>
     validate_trace_steps v i prev ss = None \<and> step_ok v (i + length ss) (last_step prev ss) s"
proof (induction ss arbitrary: i prev)
  case Nil
  then show ?case by (simp add: validate_trace_steps_Cons_None last_step_def del: validate_trace_steps.simps(2))
next
  case (Cons r ss)
  have "last_step (Some r) ss = last_step prev (r # ss)" by (simp add: last_step_def)
  then show ?case
    by (simp add: validate_trace_steps_Cons_None Cons.IH del: validate_trace_steps.simps(2))
qed

lemma trace_append_Inr:
  "trace_append t s = Inr t' \<longleftrightarrow>
     t' = t\<lparr>tr_steps := tr_steps t @ [s]\<rparr> \<and>
     step_ok (tr_version t) (length (tr_steps t)) (last_step None (tr_steps t)) s"
  by (cases "step_record_validate s") (auto simp: trace_append_def step_ok_def last_step_def)

text \<open>Appending keeps a trace valid.\<close>

lemma trace_append_valid [invariant_intros]:
  "trace_validate t = None \<Longrightarrow> trace_append t s = Inr t' \<Longrightarrow> trace_validate t' = None"
  by (auto simp: trace_append_Inr trace_validate_def validate_trace_steps_snoc split: if_splits)

lemma new_trace_valid [invariant_intros]: "i \<noteq> [] \<Longrightarrow> trace_validate (new_trace i seed) = None"
  by (simp add: trace_validate_def new_trace_def current_trace_version_def)

text \<open>The trace obtained by appending steps one after another, and none when one is refused.\<close>

fun append_steps :: "trace \<Rightarrow> step_record list \<Rightarrow> trace option" where
  "append_steps t [] = Some t"
| "append_steps t (s # ss) =
     (case trace_append t s of Inl _ \<Rightarrow> None | Inr t' \<Rightarrow> append_steps t' ss)"

lemma append_steps_snoc:
  "append_steps t (ss @ [s]) =
     (case append_steps t ss of None \<Rightarrow> None
      | Some t' \<Rightarrow> (case trace_append t' s of Inl _ \<Rightarrow> None | Inr t'' \<Rightarrow> Some t''))"
  by (induction ss arbitrary: t) (auto split: sum.splits)

lemma append_steps_valid_iff:
  assumes "tr_steps t = []"
  shows "append_steps t ss =
    (if validate_trace_steps (tr_version t) 0 None ss = None then Some (t\<lparr>tr_steps := ss\<rparr>) else None)"
proof (induction ss rule: rev_induct)
  case Nil
  then show ?case using assms by simp
next
  case (snoc s ss)
  show ?case
  proof (cases "validate_trace_steps (tr_version t) 0 None ss = None")
    case True
    then have prefix: "append_steps t ss = Some (t\<lparr>tr_steps := ss\<rparr>)" using snoc by simp
    show ?thesis
    proof (cases "trace_append (t\<lparr>tr_steps := ss\<rparr>) s")
      case (Inl e)
      then have "\<not> step_ok (tr_version t) (length ss) (last_step None ss) s"
        using trace_append_Inr [of "t\<lparr>tr_steps := ss\<rparr>" s] by simp
      then show ?thesis using Inl prefix by (simp add: append_steps_snoc validate_trace_steps_snoc)
    next
      case (Inr t')
      then have "step_ok (tr_version t) (length ss) (last_step None ss) s"
        and "t' = t\<lparr>tr_steps := ss @ [s]\<rparr>"
        using trace_append_Inr [of "t\<lparr>tr_steps := ss\<rparr>" s] by simp_all
      then show ?thesis using Inr prefix True by (simp add: append_steps_snoc validate_trace_steps_snoc)
    qed
  next
    case False
    then have "append_steps t ss = None" using snoc by auto
    then show ?thesis using False by (auto simp: append_steps_snoc validate_trace_steps_snoc)
  qed
qed

text \<open>The incremental and the whole-trace check agree: building a trace step by step with
  \<open>Append\<close> succeeds exactly on the step lists that \<open>Validate\<close> accepts as a whole, and then yields
  the trace with just those steps.\<close>

theorem trace_append_agrees_with_validate:
  "(i \<noteq> [] \<and> append_steps (new_trace i seed) ss \<noteq> None) =
     (trace_validate ((new_trace i seed)\<lparr>tr_steps := ss\<rparr>) = None)
   \<and> append_steps (new_trace i seed) ss \<in> {None, Some ((new_trace i seed)\<lparr>tr_steps := ss\<rparr>)}"
  by (auto simp: append_steps_valid_iff new_trace_def trace_validate_def current_trace_version_def)

lemma validate_trace_steps_nth:
  "validate_trace_steps v i prev ss = None \<Longrightarrow> k < length ss \<Longrightarrow>
     step_record_validate (ss ! k) = None \<and> sr_index (ss ! k) = of_nat (i + k) \<and>
     (0 < k \<longrightarrow> sr_time_before (ss ! k) = sr_time_after (ss ! (k - 1)))"
proof (induction ss arbitrary: i prev k)
  case Nil
  then show ?case by simp
next
  case (Cons s ss)
  from Cons.prems(1) have ok: "step_ok v i prev s"
    and rest: "validate_trace_steps v (Suc i) (Some s) ss = None"
    by (simp_all only: validate_trace_steps_Cons_None)
  show ?case
  proof (cases k)
    case 0
    with ok show ?thesis by (simp add: step_ok_def)
  next
    case (Suc j)
    with Cons.prems(2) have j: "j < length ss" by simp
    note ih = Cons.IH [OF rest j]
    show ?thesis
    proof (cases j)
      case 0
      obtain r rs where "ss = r # rs" using j by (cases ss) auto
      with rest have "step_ok v (Suc i) (Some s) (hd ss)"
        using validate_trace_steps_Cons_None [of v "Suc i" "Some s" r rs] by simp
      with ih Suc 0 j show ?thesis by (cases ss) (auto simp: step_ok_def)
    next
      case (Suc m)
      with ih \<open>k = Suc j\<close> show ?thesis by simp
    qed
  qed
qed

section \<open>Failure records (failure.go)\<close>

datatype failure_kind = FailureSUTPanic | FailureRuntimeError | FailureKindOther string

fun failure_kind_valid :: "failure_kind \<Rightarrow> bool" where
  "failure_kind_valid (FailureKindOther _) = False"
| "failure_kind_valid _ = True"

record failure_record =
  fr_kind :: failure_kind
  fr_operation :: string
  fr_time :: logical_time
  fr_action :: "action option"
  fr_error :: string
  fr_panic_value :: string
  fr_stack :: string
  fr_observation_before :: observation

definition failure_record_validate :: "failure_record \<Rightarrow> validation_error option" where
  "failure_record_validate f =
     (if \<not> failure_kind_valid (fr_kind f)
      then Some (invalid_value ''failure_record'' ''kind'' ''is unknown'')
      else if fr_operation f = []
      then Some (invalid_value ''failure_record'' ''operation'' ''must not be empty'')
      else if fr_error f = []
      then Some (invalid_value ''failure_record'' ''error'' ''must not be empty'')
      else if fr_kind f = FailureSUTPanic \<and> (fr_panic_value f = [] \<or> fr_stack f = [])
      then Some (invalid_value ''failure_record'' ''panic'' ''panic value and stack are required'')
      else case (case fr_action f of None \<Rightarrow> None | Some a \<Rightarrow> action_validate a) of
        Some e \<Rightarrow> Some (invalid_value ''failure_record'' ''action'' (validation_error_text e))
      | None \<Rightarrow>
        (case observation_validate (fr_observation_before f) of
           Some e \<Rightarrow> Some (invalid_value ''failure_record'' ''observation_before'' (validation_error_text e))
         | None \<Rightarrow> None))"

lemma failure_record_validate_None [validate_simps]:
  "failure_record_validate f = None \<longleftrightarrow>
     failure_kind_valid (fr_kind f) \<and> fr_operation f \<noteq> [] \<and> fr_error f \<noteq> [] \<and>
     (fr_kind f = FailureSUTPanic \<longrightarrow> fr_panic_value f \<noteq> [] \<and> fr_stack f \<noteq> []) \<and>
     (\<forall>a. fr_action f = Some a \<longrightarrow> action_validate a = None) \<and>
     observation_validate (fr_observation_before f) = None"
  by (cases "fr_action f") (auto simp: failure_record_validate_def)

end
