(* ===== verification/Runtime.thy ===== *)
theory Runtime
  imports Core_Trace Network
begin

text \<open>
  internal/runtime (runtime.go, action.go, clock.go, recorder.go, panic.go) over the adapter
  interface of internal/sut/adapter.go: the single-threaded executor of concrete actions, with its
  logical clock, its network, its trace, its budgets and its failure record.

  The adapter, the cancellation context and the digest of an observation are not code of this
  package: they are the fields of \<open>sut_env\<close>, functions over a world of any type \<open>'w\<close> that holds
  whatever state the system under test has.
\<close>

section \<open>The adapter interface (sut/adapter.go)\<close>

record capabilities =
  cap_force_timeout :: bool
  cap_crash_restart :: bool
  cap_client_request :: bool

text \<open>A call of the adapter returns a value, returns an error, or panics with a value and a stack.\<close>

datatype ('a, 'w) outcome = Returns 'a 'w | Fails go_error 'w | Panics string string 'w

record 'w sut_env =
  ad_capabilities :: "'w \<Rightarrow> (capabilities, 'w) outcome"
  ad_reset :: "int \<Rightarrow> 'w \<Rightarrow> (unit, 'w) outcome"
  ad_tick :: "logical_time \<Rightarrow> 'w \<Rightarrow> (effect list, 'w) outcome"
  ad_deliver :: "logical_time \<Rightarrow> message \<Rightarrow> 'w \<Rightarrow> (effect list, 'w) outcome"
  ad_force_timeout :: "logical_time \<Rightarrow> node_id \<Rightarrow> 'w \<Rightarrow> (effect list, 'w) outcome"
  ad_crash :: "logical_time \<Rightarrow> node_id \<Rightarrow> 'w \<Rightarrow> (effect list, 'w) outcome"
  ad_restart :: "logical_time \<Rightarrow> node_id \<Rightarrow> 'w \<Rightarrow> (effect list, 'w) outcome"
  ad_request :: "logical_time \<Rightarrow> node_id \<Rightarrow> string \<Rightarrow> 'w \<Rightarrow> (effect list, 'w) outcome"
  ad_observe :: "logical_time \<Rightarrow> 'w \<Rightarrow> (observation, 'w) outcome"
  env_ctx_err :: "'w \<Rightarrow> go_error option \<times> 'w"
  env_json_sha256 :: "observation \<Rightarrow> string"

section \<open>State (runtime.go)\<close>

record limits =
  max_actions :: u64
  max_ticks :: u64
  max_effects :: u64
  max_queued_messages :: int

record config =
  cfg_execution_id :: execution_id
  cfg_seed :: int
  cfg_limits :: limits

definition config_validate :: "config \<Rightarrow> go_error option" where
  "config_validate c =
     (if \<not> execution_id_valid (cfg_execution_id c)
      then Some (errorf_v ErrInvalidConfig ''execution ID must not be empty'')
      else if max_queued_messages (cfg_limits c) < 0
      then Some (errorf_v ErrInvalidConfig ''MaxQueuedMessages must not be negative'')
      else None)"

record step_result =
  sres_record :: step_record
  sres_before_observation :: observation
  sres_observation :: observation

text \<open>The trace is \<open>nil\<close> before the first reset; every access to it is guarded by \<open>initialized\<close>, so
  the model starts from an empty one. The world stands beside the fields of the struct.\<close>

record 'w runtime =
  rt_adapter :: "'w sut_env"
  rt_config :: config
  rt_network :: network
  rt_time :: logical_time
  rt_trace :: trace
  rt_last_action :: "action option"
  rt_observation :: observation
  rt_action_count :: u64
  rt_effect_count :: u64
  rt_initialized :: bool
  rt_terminated :: bool
  rt_failure :: "failure_record option"
  rt_world :: 'w

type_synonym ('a, 'w) run_result = "(go_error + 'a) \<times> 'w runtime"

definition runtime_new :: "'w sut_env option \<Rightarrow> config \<Rightarrow> 'w \<Rightarrow> go_error + 'w runtime" where
  "runtime_new adapter c w =
     (case adapter of
        None \<Rightarrow> Inl (errorf_v ErrAdapterContract ''adapter is nil'')
      | Some a \<Rightarrow>
        (case config_validate c of
           Some e \<Rightarrow> Inl e
         | None \<Rightarrow> Inr \<lparr>rt_adapter = a, rt_config = c, rt_network = new_network, rt_time = 0,
             rt_trace = new_trace [] 0, rt_last_action = None, rt_observation = empty_observation,
             rt_action_count = 0, rt_effect_count = 0, rt_initialized = False,
             rt_terminated = False, rt_failure = None, rt_world = w\<rparr>))"

section \<open>Calling the adapter (panic.go)\<close>

definition sut_panic_to_error :: "string \<Rightarrow> string \<Rightarrow> string \<Rightarrow> go_error" where
  "sut_panic_to_error operation v stack =
     \<lparr>err_is = [ErrSUTPanic], err_text = operation @ '' panicked: '' @ v,
      err_panic = Some \<lparr>pn_operation = operation, pn_value = v, pn_stack = stack\<rparr>,
      err_decision = None\<rparr>"

fun outcome_result :: "string \<Rightarrow> ('a, 'w) outcome \<Rightarrow> (go_error + 'a) \<times> 'w" where
  "outcome_result operation (Returns x w) = (Inr x, w)"
| "outcome_result operation (Fails e w) = (Inl e, w)"
| "outcome_result operation (Panics v stack w) = (Inl (sut_panic_to_error operation v stack), w)"

definition call_sut :: "string \<Rightarrow> ('w \<Rightarrow> ('a, 'w) outcome) \<Rightarrow> 'w runtime \<Rightarrow> ('a, 'w) run_result" where
  "call_sut operation call r =
     (case outcome_result operation (call (rt_world r)) of (result, w) \<Rightarrow> (result, r\<lparr>rt_world := w\<rparr>))"

definition record_failure ::
  "string \<Rightarrow> action option \<Rightarrow> observation \<Rightarrow> go_error \<Rightarrow> 'w runtime \<Rightarrow> 'w runtime" where
  "record_failure operation a before e r =
     (if rt_failure r \<noteq> None then r
      else
        let base = \<lparr>fr_kind = FailureRuntimeError, fr_operation = operation, fr_time = rt_time r,
              fr_action = a, fr_error = err_text e, fr_panic_value = [], fr_stack = [],
              fr_observation_before = before\<rparr>
        in r\<lparr>rt_failure := Some
             (case err_panic e of
                None \<Rightarrow> base
              | Some p \<Rightarrow> base\<lparr>fr_kind := FailureSUTPanic, fr_operation := pn_operation p,
                  fr_panic_value := pn_value p, fr_stack := pn_stack p\<rparr>)\<rparr>)"

section \<open>Recording effects (recorder.go)\<close>

definition is_send_message :: "effect \<Rightarrow> bool" where
  "is_send_message e \<longleftrightarrow> eff_kind e = EffectSendMessage"

text \<open>The first loop checks every effect before any message is registered.\<close>

fun prepare_effects :: "logical_time \<Rightarrow> nat \<Rightarrow> effect list \<Rightarrow> go_error option" where
  "prepare_effects now i [] = None"
| "prepare_effects now i (e # es) =
     (if eff_at e \<noteq> now
      then Some (errorf_v ErrAdapterContract (''effect '' @ show_nat i @ '' occurred at '' @
             format_uint (eff_at e) @ '', want '' @ format_uint now))
      else if is_send_message e then
        (case eff_message e of
           None \<Rightarrow> Some (errorf_v ErrAdapterContract (''send-message effect '' @ show_nat i @
                    '' must contain only a message payload''))
         | Some m \<Rightarrow>
             if eff_timer_fired e \<noteq> None \<or> eff_model_event e \<noteq> None
             then Some (errorf_v ErrAdapterContract (''send-message effect '' @ show_nat i @
                    '' must contain only a message payload''))
             else (case message_validate_outbound m of
               Some err \<Rightarrow> Some (errorf_v ErrAdapterContract (''send-message effect '' @ show_nat i @
                    '' contains invalid outbound message: '' @ validation_error_text err))
             | None \<Rightarrow> prepare_effects now (Suc i) es))
      else
        (case effect_validate e of
           Some err \<Rightarrow> Some (errorf_v ErrAdapterContract (''effect '' @ show_nat i @ '' is invalid: '' @
                validation_error_text err))
         | None \<Rightarrow> prepare_effects now (Suc i) es))"

text \<open>The second loop registers the messages, one effect after the other.\<close>

definition concretize_effect :: "logical_time \<Rightarrow> effect \<Rightarrow> network \<Rightarrow> go_error + effect \<times> network" where
  "concretize_effect now e n =
     (if is_send_message e
      then (case network_register_outbound n (the (eff_message e)) now of
              Inl err \<Rightarrow> Inl err
            | Inr (m, n') \<Rightarrow> Inr (e\<lparr>eff_message := Some m\<rparr>, n'))
      else Inr (e, n))"

fun concretize_effects ::
  "logical_time \<Rightarrow> nat \<Rightarrow> effect list \<Rightarrow> network \<Rightarrow> (go_error + effect list) \<times> network" where
  "concretize_effects now i [] n = (Inr [], n)"
| "concretize_effects now i (e # es) n =
     (case concretize_effect now e n of
        Inl err \<Rightarrow> (Inl err, n)
      | Inr (e', n') \<Rightarrow>
          (case effect_validate e' of
             Some err \<Rightarrow> (Inl (errorf_v ErrAdapterContract (''concrete effect '' @ show_nat i @
               '' is invalid: '' @ validation_error_text err)), n')
           | None \<Rightarrow>
               (case concretize_effects now (Suc i) es n' of
                  (Inl err, n'') \<Rightarrow> (Inl err, n'')
                | (Inr es', n'') \<Rightarrow> (Inr (e' # es'), n''))))"

text \<open>The checks before the first registration: the two budgets, then every effect.\<close>

definition effects_refused :: "effect list \<Rightarrow> logical_time \<Rightarrow> 'w runtime \<Rightarrow> go_error option" where
  "effects_refused es now r =
     (let limits = cfg_limits (rt_config r); outbound = length (filter is_send_message es) in
      if max_effects limits \<noteq> 0 \<and> length es > unat (max_effects limits - rt_effect_count r)
      then Some (errorf_v ErrBudgetExceeded (''effects would exceed limit '' @ format_uint (max_effects limits)))
      else if max_queued_messages limits \<noteq> 0
        \<and> int (network_len (rt_network r) + outbound) > max_queued_messages limits
      then Some (errorf_v ErrBudgetExceeded (''messages would exceed queue limit '' @
             show_int (max_queued_messages limits)))
      else prepare_effects now 0 es)"

definition process_adapter_effects :: "effect list \<Rightarrow> logical_time \<Rightarrow> 'w runtime \<Rightarrow> (effect list, 'w) run_result"
  where
  "process_adapter_effects es now r =
     (case effects_refused es now r of
        Some e \<Rightarrow> (Inl e, r)
      | None \<Rightarrow>
          (case concretize_effects now 0 es (rt_network r) of
             (Inl e, n) \<Rightarrow> (Inl e, r\<lparr>rt_network := n\<rparr>)
           | (Inr concrete, n) \<Rightarrow>
               (Inr concrete, r\<lparr>rt_network := n,
                  rt_effect_count := rt_effect_count r + of_nat (length concrete)\<rparr>)))"

definition observation_json_error :: "observation \<Rightarrow> string option" where
  "observation_json_error ob =
     first_some (map (\<lambda>n. json_map_error (no_semantic n)) (obs_nodes ob) @ [json_map_error (obs_semantic ob)])"

definition observation_digest :: "'w sut_env \<Rightarrow> observation \<Rightarrow> go_error + string" where
  "observation_digest env ob =
     (let normalized = observation_normalized ob
      in case observation_json_error normalized of
           Some t \<Rightarrow> Inl (errorf_v ErrAdapterContract (''observation is not serializable: '' @ t))
         | None \<Rightarrow> Inr (env_json_sha256 env normalized))"

fun validate_natural_timeout_effects :: "nat \<Rightarrow> effect list \<Rightarrow> go_error option" where
  "validate_natural_timeout_effects i [] = None"
| "validate_natural_timeout_effects i (e # es) =
     (if eff_kind e = EffectTimerFired \<and> tf_source (the (eff_timer_fired e)) \<noteq> TimerFireNatural
      then Some (errorf_v ErrAdapterContract (''tick effect '' @ show_nat i @ '' reports a non-natural timeout''))
      else validate_natural_timeout_effects (Suc i) es)"

fun validate_forced_timeout_effects :: "node_id \<Rightarrow> bool \<Rightarrow> nat \<Rightarrow> effect list \<Rightarrow> go_error option" where
  "validate_forced_timeout_effects node found i [] =
     (if found then None
      else Some (errorf_v ErrAdapterContract (''successful forced timeout for '' @ node_id_text node @
             '' did not produce EffectTimerFired'')))"
| "validate_forced_timeout_effects node found i (e # es) =
     (if eff_kind e \<noteq> EffectTimerFired then validate_forced_timeout_effects node found (Suc i) es
      else
        let t = the (eff_timer_fired e)
        in if tf_source t \<noteq> TimerFireForced \<or> tf_node t \<noteq> node
           then Some (errorf_v ErrAdapterContract (''forced-timeout effect '' @ show_nat i @ '' has source '' @
                  go_quote (timer_fire_source_text (tf_source t)) @ '' and node '' @ node_id_text (tf_node t) @
                  '', want forced timeout for '' @ node_id_text node))
           else validate_forced_timeout_effects node True (Suc i) es)"

section \<open>Time (clock.go)\<close>

text \<open>The body of the loop of \<open>advanceTime\<close>: one unit of time, one tick of the adapter.\<close>

definition check_context :: "'w runtime \<Rightarrow> go_error option \<times> 'w runtime" where
  "check_context r =
     (case env_ctx_err (rt_adapter r) (rt_world r) of (e, w) \<Rightarrow> (e, r\<lparr>rt_world := w\<rparr>))"

definition advance_tick :: "'w runtime \<Rightarrow> (effect list, 'w) run_result" where
  "advance_tick r =
     (case check_context r of
        (Some e, r) \<Rightarrow> (Inl e, r)
      | (None, r) \<Rightarrow>
          let r = r\<lparr>rt_time := rt_time r + 1\<rparr> in
          (case call_sut ''tick'' (ad_tick (rt_adapter r) (rt_time r)) r of
             (Inl e, r) \<Rightarrow> (Inl (errorf_w ErrAdapter (''tick at '' @ format_uint (rt_time r)) e), r)
           | (Inr current, r) \<Rightarrow>
               (case process_adapter_effects current (rt_time r) r of
                  (Inl e, r) \<Rightarrow> (Inl e, r)
                | (Inr concrete, r) \<Rightarrow>
                    (case validate_natural_timeout_effects 0 concrete of
                       Some e \<Rightarrow> (Inl e, r)
                     | None \<Rightarrow> (Inr concrete, r)))))"

lemma call_sut_frame:
  assumes "call_sut op f r = (x, r')"
  shows "\<exists>w. r' = r\<lparr>rt_world := w\<rparr>"
  using assms by (auto simp: call_sut_def split: prod.splits)

lemma check_context_frame:
  assumes "check_context r = (x, r')"
  shows "\<exists>w. r' = r\<lparr>rt_world := w\<rparr>"
  using assms by (auto simp: check_context_def split: prod.splits)

lemma process_adapter_effects_frame:
  assumes "process_adapter_effects es now r = (x, r')"
  shows "\<exists>n c. r' = r\<lparr>rt_network := n, rt_effect_count := c\<rparr>"
proof -
  have same: "\<exists>n c. r = r\<lparr>rt_network := n, rt_effect_count := c\<rparr>"
    by (rule exI [of _ "rt_network r"], rule exI [of _ "rt_effect_count r"]) simp
  have net: "\<exists>n' c. r\<lparr>rt_network := n\<rparr> = r\<lparr>rt_network := n', rt_effect_count := c\<rparr>" for n
    by (rule exI [of _ n], rule exI [of _ "rt_effect_count r"]) simp
  have both: "\<exists>n' c'. r\<lparr>rt_network := n, rt_effect_count := c\<rparr> = r\<lparr>rt_network := n', rt_effect_count := c'\<rparr>" for n c
    by blast
  show ?thesis using assms same net both
    by (auto simp: process_adapter_effects_def Let_def split: if_splits option.splits prod.splits sum.splits)
qed

lemma advance_tick_time:
  assumes "advance_tick r = (Inr es, r')"
  shows "rt_time r' = rt_time r + 1"
proof -
  obtain w1 where r1: "check_context r = (None, r\<lparr>rt_world := w1\<rparr>)"
    using assms check_context_frame by (fastforce simp: advance_tick_def split: prod.splits option.splits)
  let ?r = "r\<lparr>rt_world := w1, rt_time := rt_time r + 1\<rparr>"
  obtain current w2 where r2:
    "call_sut ''tick'' (ad_tick (rt_adapter r) (rt_time r + 1)) ?r = (Inr current, ?r\<lparr>rt_world := w2\<rparr>)"
    using assms r1 call_sut_frame
    by (fastforce simp: advance_tick_def Let_def split: prod.splits sum.splits)
  let ?r2 = "?r\<lparr>rt_world := w2\<rparr>"
  have "process_adapter_effects current (rt_time r + 1) ?r2 = (Inr es, r')"
    using assms r1 r2 by (auto simp: advance_tick_def Let_def split: prod.splits sum.splits option.splits)
  then show ?thesis using process_adapter_effects_frame by fastforce
qed

lemma advance_tick_decreases:
  assumes tick: "advance_tick r = (Inr es, r')" and lt: "rt_time r < target"
  shows "unat target - unat (rt_time r') < unat target - unat (rt_time r)"
proof -
  have less: "unat (rt_time r) < unat target" using lt by (simp add: word_less_nat_alt)
  have "rt_time r \<noteq> - 1" using lt by (auto simp: not_less [symmetric])
  then have "unat (rt_time r') = unat (rt_time r) + 1"
    using advance_tick_time [OF tick] by (simp add: unat_less_max_Suc)
  then show ?thesis using less by simp
qed

text \<open>The loop \<open>for r.time < target\<close>; every round that does not return moves the clock by one.\<close>

function advance_loop :: "logical_time \<Rightarrow> effect list \<Rightarrow> 'w runtime \<Rightarrow> (effect list, 'w) run_result" where
  "advance_loop target effects r =
     (if \<not> rt_time r < target then (Inr effects, r)
      else case advance_tick r of
        (Inl e, r') \<Rightarrow> (Inl e, r')
      | (Inr concrete, r') \<Rightarrow> advance_loop target (effects @ concrete) r')"
  by pat_completeness auto
termination
  by (relation "measure (\<lambda>(target, effects, r). unat target - unat (rt_time r))")
     (auto dest!: sym [of "(_, _)" "advance_tick _"] advance_tick_decreases)

declare advance_loop.simps [simp del]

definition advance_time :: "logical_time \<Rightarrow> 'w runtime \<Rightarrow> (effect list, 'w) run_result" where
  "advance_time target r =
     (if target \<le> rt_time r
      then (Inl (errorf_v ErrInvalidAction (''target time '' @ format_uint target @
              '' must be greater than current time '' @ format_uint (rt_time r))), r)
      else advance_loop target [] r)"

section \<open>Executing actions (action.go)\<close>

definition collect_observation :: "'w runtime \<Rightarrow> (observation, 'w) run_result" where
  "collect_observation r =
     (case call_sut ''observe'' (ad_observe (rt_adapter r) (rt_time r)) r of
        (Inl e, r) \<Rightarrow> (Inl (errorf_w ErrAdapter ''observe'' e), r)
      | (Inr ob, r) \<Rightarrow>
          if obs_time ob \<noteq> rt_time r
          then (Inl (errorf_v ErrAdapterContract (''observation time is '' @ format_uint (obs_time ob) @
                  '', want '' @ format_uint (rt_time r))), r)
          else if obs_messages ob \<noteq> []
          then (Inl (errorf_v ErrAdapterContract
                  ''adapter observation must not contain runtime-owned messages''), r)
          else if obs_last_action ob \<noteq> None
          then (Inl (errorf_v ErrAdapterContract
                  ''adapter observation must not contain runtime-owned last action''), r)
          else
            let ob = ob\<lparr>obs_messages := network_observations (rt_network r)\<rparr>;
                ob = (if rt_last_action r \<noteq> None then ob\<lparr>obs_last_action := rt_last_action r\<rparr> else ob);
                ob = observation_normalized ob
            in (case observation_validate ob of
                  Some e \<Rightarrow> (Inl (errorf_v ErrAdapterContract
                    (''invalid observation: '' @ validation_error_text e)), r)
                | None \<Rightarrow> (Inr ob, r)))"

definition node_status :: "'w runtime \<Rightarrow> node_id \<Rightarrow> node_status option" where
  "node_status r i = map_option no_status (observed_node (rt_observation r) i)"

definition validate_budget :: "action \<Rightarrow> 'w runtime \<Rightarrow> go_error option" where
  "validate_budget a r =
     (let limits = cfg_limits (rt_config r) in
      if max_actions limits \<noteq> 0 \<and> rt_action_count r \<ge> max_actions limits
      then Some (errorf_v ErrBudgetExceeded (''action limit '' @ format_uint (max_actions limits) @ '' reached''))
      else if act_kind a = ActionAdvanceTime \<and> max_ticks limits \<noteq> 0 \<and> act_target_time a > max_ticks limits
      then Some (errorf_v ErrBudgetExceeded (''target time '' @ format_uint (act_target_time a) @
             '' exceeds tick limit '' @ format_uint (max_ticks limits)))
      else if act_kind a = ActionDuplicate \<and> max_queued_messages limits \<noteq> 0
        \<and> int (network_len (rt_network r)) \<ge> max_queued_messages limits
      then Some (errorf_v ErrBudgetExceeded (''queued message limit '' @ show_int (max_queued_messages limits) @
             '' reached''))
      else None)"

definition unsupported_action :: "action_kind \<Rightarrow> capabilities \<Rightarrow> go_error option" where
  "unsupported_action k caps =
     (case k of
        ActionTimeout \<Rightarrow> if \<not> cap_force_timeout caps
          then Some (errorf_v ErrUnsupportedAction ''timeout'') else None
      | ActionCrash \<Rightarrow> if \<not> cap_crash_restart caps
          then Some (errorf_v ErrUnsupportedAction (action_kind_text k)) else None
      | ActionRestart \<Rightarrow> if \<not> cap_crash_restart caps
          then Some (errorf_v ErrUnsupportedAction (action_kind_text k)) else None
      | ActionRequest \<Rightarrow> if \<not> cap_client_request caps
          then Some (errorf_v ErrUnsupportedAction ''request'') else None
      | _ \<Rightarrow> None)"

definition require_status :: "'w runtime \<Rightarrow> node_id \<Rightarrow> node_status \<Rightarrow> string \<Rightarrow> string \<Rightarrow> go_error option" where
  "require_status r i wanted prefix adjective =
     (case node_status r i of
        None \<Rightarrow> Some (errorf_v ErrInvalidAction (prefix @ node_id_text i @ '' is not observable''))
      | Some status \<Rightarrow>
          if status \<noteq> wanted
          then Some (errorf_v ErrInvalidAction (prefix @ node_id_text i @ '' is not '' @ adjective))
          else None)"

definition action_precondition :: "action \<Rightarrow> 'w runtime \<Rightarrow> go_error option" where
  "action_precondition a r =
     (if is_message_kind (act_kind a) then
        (case network_resolve (rt_network r) (act_message a) (the (act_selector a)) of
           Inl e \<Rightarrow> Some (errorf_v ErrInvalidAction (err_text e))
         | Inr selected \<Rightarrow>
             if act_kind a = ActionDeliver
             then require_status r (msg_to (qm_message selected)) NodeRunning ''target node '' ''running''
             else None)
      else if act_kind a \<in> {ActionTimeout, ActionCrash, ActionRequest}
      then require_status r (act_node a) NodeRunning ''node '' ''running''
      else if act_kind a = ActionRestart
      then require_status r (act_node a) NodeCrashed ''node '' ''crashed''
      else None)"

definition validate_preconditions :: "action \<Rightarrow> 'w runtime \<Rightarrow> go_error option \<times> 'w runtime" where
  "validate_preconditions a r =
     (case call_sut ''capabilities'' (ad_capabilities (rt_adapter r)) r of
        (Inl e, r) \<Rightarrow> (Some (errorf_w ErrAdapter ''capabilities'' e), r)
      | (Inr caps, r) \<Rightarrow>
          (case unsupported_action (act_kind a) caps of
             Some e \<Rightarrow> (Some e, r)
           | None \<Rightarrow>
               if act_kind a = ActionAdvanceTime \<and> act_target_time a \<le> rt_time r
               then (Some (errorf_v ErrInvalidAction (''target time '' @ format_uint (act_target_time a) @
                       '' must be greater than current time '' @ format_uint (rt_time r))), r)
               else (action_precondition a r, r)))"

text \<open>A call of the adapter whose effects are then recorded: the shape four actions share.\<close>

definition apply_adapter_call ::
  "string \<Rightarrow> string \<Rightarrow> ('w \<Rightarrow> (effect list, 'w) outcome) \<Rightarrow> 'w runtime \<Rightarrow> (effect list, 'w) run_result" where
  "apply_adapter_call operation detail call r =
     (case call_sut operation call r of
        (Inl e, r) \<Rightarrow> (Inl (errorf_w ErrAdapter detail e), r)
      | (Inr effects, r) \<Rightarrow> process_adapter_effects effects (rt_time r) r)"

definition apply_deliver :: "action \<Rightarrow> 'w runtime \<Rightarrow> (effect list, 'w) run_result" where
  "apply_deliver a r =
     (case network_resolve (rt_network r) (act_message a) (the (act_selector a)) of
        Inl e \<Rightarrow> (Inl (errorf_v ErrInvalidAction (err_text e)), r)
      | Inr selected \<Rightarrow>
          (case call_sut ''deliver'' (ad_deliver (rt_adapter r) (rt_time r) (qm_message selected)) r of
             (Inl e, r) \<Rightarrow> (Inl (errorf_w ErrAdapter (''deliver '' @ message_id_text (act_message a)) e), r)
           | (Inr effects, r) \<Rightarrow>
               (case network_remove (rt_network r) (act_message a) (the (act_selector a)) of
                  Inl e \<Rightarrow> (Inl (errorf_v ErrAdapterContract (''remove delivered message: '' @ err_text e)), r)
                | Inr (_, n) \<Rightarrow>
                    process_adapter_effects effects (rt_time r) (r\<lparr>rt_network := n\<rparr>))))"

definition apply_action :: "action \<Rightarrow> 'w runtime \<Rightarrow> (effect list, 'w) run_result" where
  "apply_action a r =
     (case act_kind a of
        ActionDeliver \<Rightarrow> apply_deliver a r
      | ActionDrop \<Rightarrow>
          (case network_remove (rt_network r) (act_message a) (the (act_selector a)) of
             Inl e \<Rightarrow> (Inl (errorf_v ErrInvalidAction (err_text e)), r)
           | Inr (_, n) \<Rightarrow> (Inr [], r\<lparr>rt_network := n\<rparr>))
      | ActionDuplicate \<Rightarrow>
          (case network_duplicate (rt_network r) (act_message a) (the (act_selector a)) (rt_time r) of
             Inl e \<Rightarrow> (Inl (errorf_v ErrInvalidAction (err_text e)), r)
           | Inr (_, n) \<Rightarrow> (Inr [], r\<lparr>rt_network := n\<rparr>))
      | ActionAdvanceTime \<Rightarrow> advance_time (act_target_time a) r
      | ActionTimeout \<Rightarrow>
          (case apply_adapter_call ''force_timeout'' (''timeout node '' @ node_id_text (act_node a))
             (ad_force_timeout (rt_adapter r) (rt_time r) (act_node a)) r of
             (Inl e, r) \<Rightarrow> (Inl e, r)
           | (Inr concrete, r) \<Rightarrow>
               (case validate_forced_timeout_effects (act_node a) False 0 concrete of
                  Some e \<Rightarrow> (Inl e, r)
                | None \<Rightarrow> (Inr concrete, r)))
      | ActionCrash \<Rightarrow>
          apply_adapter_call ''crash'' (''crash node '' @ node_id_text (act_node a))
            (ad_crash (rt_adapter r) (rt_time r) (act_node a)) r
      | ActionRestart \<Rightarrow>
          apply_adapter_call ''restart'' (''restart node '' @ node_id_text (act_node a))
            (ad_restart (rt_adapter r) (rt_time r) (act_node a)) r
      | ActionRequest \<Rightarrow>
          apply_adapter_call ''request'' (''request node '' @ node_id_text (act_node a))
            (ad_request (rt_adapter r) (rt_time r) (act_node a) (act_request a)) r
      | ActionKindOther k \<Rightarrow>
          (Inl (errorf_v ErrInvalidAction (''unknown action kind '' @ go_quote k)), r))"

text \<open>The part of \<open>Execute\<close> after the checks, from \<open>beforeObservation\<close> on.\<close>

definition step_record_of :: "'w runtime \<Rightarrow> 'w runtime \<Rightarrow> action \<Rightarrow> effect list \<Rightarrow> observation \<Rightarrow> string \<Rightarrow> step_record"
  where
  "step_record_of r0 r a effects ob digest =
     \<lparr>sr_index = of_nat (length (tr_steps (rt_trace r))), sr_time_before = rt_time r0,
      sr_time_after = rt_time r, sr_action = a, sr_effects = effects,
      sr_nodes_before = obs_nodes (rt_observation r0), sr_nodes_after = obs_nodes ob,
      sr_observation_digest = digest\<rparr>"

definition execute_step :: "action \<Rightarrow> 'w runtime \<Rightarrow> (step_result, 'w) run_result" where
  "execute_step a r0 =
     (case apply_action a r0 of
        (Inl e, r) \<Rightarrow>
          (Inl e, record_failure ''execute'' (Some a) (rt_observation r0) e (r\<lparr>rt_terminated := True\<rparr>))
      | (Inr effects, r) \<Rightarrow>
          (case collect_observation (r\<lparr>rt_last_action := Some a\<rparr>) of
             (Inl e, r) \<Rightarrow>
               (Inl e, record_failure ''observe'' (Some a) (rt_observation r0) e (r\<lparr>rt_terminated := True\<rparr>))
           | (Inr ob, r) \<Rightarrow>
               (case observation_digest (rt_adapter r) ob of
                  Inl e \<Rightarrow> (Inl e, r\<lparr>rt_terminated := True\<rparr>)
                | Inr digest \<Rightarrow>
                    let step = step_record_of r0 r a effects ob digest in
                    (case trace_append (rt_trace r) step of
                       Inl e \<Rightarrow> (Inl (errorf_v ErrAdapterContract
                           (''invalid step record: '' @ validation_error_text e)), r\<lparr>rt_terminated := True\<rparr>)
                     | Inr t \<Rightarrow>
                         (Inr \<lparr>sres_record = step, sres_before_observation = rt_observation r0,
                            sres_observation = ob\<rparr>,
                          r\<lparr>rt_trace := t, rt_action_count := rt_action_count r + 1,
                            rt_observation := ob\<rparr>)))))"

definition runtime_execute :: "action \<Rightarrow> 'w runtime \<Rightarrow> (step_result, 'w) run_result" where
  "runtime_execute a r =
     (if \<not> rt_initialized r then (Inl (sentinel_error ErrNotInitialized), r)
      else if rt_terminated r then (Inl (sentinel_error ErrTerminated), r)
      else case check_context r of
        (Some e, r) \<Rightarrow> (Inl e, r)
      | (None, r) \<Rightarrow>
          (case action_validate a of
             Some e \<Rightarrow> (Inl (errorf_v ErrInvalidAction (validation_error_text e)), r)
           | None \<Rightarrow>
               (case validate_budget a r of
                  Some e \<Rightarrow> (Inl e, r)
                | None \<Rightarrow>
                    (case validate_preconditions a r of
                       (Some e, r) \<Rightarrow>
                         (Inl e, if errors_is e ErrSUTPanic
                                 then record_failure ''capabilities'' (Some a) (rt_observation r) e
                                        (r\<lparr>rt_terminated := True\<rparr>)
                                 else r)
                     | (None, r) \<Rightarrow> execute_step a r))))"

definition runtime_reset :: "'w runtime \<Rightarrow> (observation, 'w) run_result" where
  "runtime_reset r0 =
     (let r = r0\<lparr>rt_network := new_network, rt_time := 0,
            rt_trace := new_trace (cfg_execution_id (rt_config r0)) (cfg_seed (rt_config r0)),
            rt_last_action := None, rt_action_count := 0, rt_effect_count := 0,
            rt_initialized := True, rt_terminated := False, rt_failure := None\<rparr>
      in case call_sut ''reset'' (ad_reset (rt_adapter r) (cfg_seed (rt_config r))) r of
        (Inl e, r) \<Rightarrow>
          let wrapped = errorf_w ErrAdapter ''reset'' e
          in (Inl wrapped, record_failure ''reset'' None empty_observation wrapped (r\<lparr>rt_terminated := True\<rparr>))
      | (Inr _, r) \<Rightarrow>
          (case collect_observation r of
             (Inl e, r) \<Rightarrow>
               (Inl e, record_failure ''observe'' None empty_observation e (r\<lparr>rt_terminated := True\<rparr>))
           | (Inr ob, r) \<Rightarrow> (Inr ob, r\<lparr>rt_observation := ob\<rparr>)))"

definition current_observation :: "'w runtime \<Rightarrow> go_error + observation" where
  "current_observation r =
     (if \<not> rt_initialized r then Inl (sentinel_error ErrNotInitialized)
      else if rt_terminated r then Inl (sentinel_error ErrTerminated)
      else Inr (rt_observation r))"

definition runtime_trace :: "'w runtime \<Rightarrow> go_error + trace" where
  "runtime_trace r =
     (if \<not> rt_initialized r then Inl (sentinel_error ErrNotInitialized) else Inr (rt_trace r))"

section \<open>What each operation leaves alone\<close>

text \<open>Applying an action touches the network, the clock, the effect count and the world only.\<close>

definition runtime_frame :: "'w runtime \<Rightarrow> 'w runtime \<Rightarrow> bool" where
  "runtime_frame r r' \<longleftrightarrow>
     rt_adapter r' = rt_adapter r \<and> rt_config r' = rt_config r \<and> rt_trace r' = rt_trace r \<and>
     rt_last_action r' = rt_last_action r \<and> rt_observation r' = rt_observation r \<and>
     rt_action_count r' = rt_action_count r \<and> rt_initialized r' = rt_initialized r \<and>
     rt_terminated r' = rt_terminated r \<and> rt_failure r' = rt_failure r"

lemma runtime_frame_refl [simp]: "runtime_frame r r"
  by (simp add: runtime_frame_def)

lemma runtime_frame_trans [trans]: "runtime_frame r s \<Longrightarrow> runtime_frame s t \<Longrightarrow> runtime_frame r t"
  by (simp add: runtime_frame_def)

lemma runtime_frame_updates [simp]:
  "runtime_frame r (r\<lparr>rt_world := w\<rparr>)" "runtime_frame r (r\<lparr>rt_network := n\<rparr>)"
  "runtime_frame r (r\<lparr>rt_time := t\<rparr>)" "runtime_frame r (r\<lparr>rt_network := n, rt_effect_count := c\<rparr>)"
  by (simp_all add: runtime_frame_def)

text \<open>The network after a part of the effects has been registered: queues only grow, by at most
  \<open>k\<close> messages.\<close>

definition network_grows :: "nat \<Rightarrow> network \<Rightarrow> network \<Rightarrow> bool" where
  "network_grows k n n' \<longleftrightarrow> network_wf n' \<and> network_len n' \<le> network_len n + k \<and>
     (\<forall>l. \<exists>new. queue_at n' l = queue_at n l @ new)"

lemma network_grows_refl: "network_wf n \<Longrightarrow> network_grows k n n"
  by (simp add: network_grows_def)

lemma network_grows_trans:
  "network_grows j n n' \<Longrightarrow> network_grows k n' n'' \<Longrightarrow> network_grows (j + k) n n''"
proof (unfold network_grows_def, intro conjI allI; (elim conjE)?)
  fix l assume "\<forall>l. \<exists>new. queue_at n' l = queue_at n l @ new" "\<forall>l. \<exists>new. queue_at n'' l = queue_at n' l @ new"
  then show "\<exists>new. queue_at n'' l = queue_at n l @ new" by (metis append_assoc)
qed simp_all

lemma network_grows_mono: "network_grows j n n' \<Longrightarrow> j \<le> k \<Longrightarrow> network_grows k n n'"
  by (auto simp: network_grows_def)

lemma register_outbound_grows:
  assumes "network_wf n" "network_register_outbound n m now = Inr (m', n')"
  shows "network_grows 1 n n'"
proof -
  have "can_register n m 0" and n': "n' = after_register n m 0 now"
    using assms(2) by (auto simp: network_register_outbound_def network_register_Inr)
  moreover have "distinct (map fst (nw_queues n))" using assms(1) by (simp add: network_wf_def)
  ultimately show ?thesis using assms(1)
    by (simp add: network_grows_def after_register_wf network_len_after_register)
qed

lemma concretize_effect_grows:
  assumes "network_wf n" "concretize_effect now e n = Inr (e', n')"
  shows "network_grows (if is_send_message e then 1 else 0) n n'"
  using assms register_outbound_grows [OF assms(1)]
  by (auto simp: concretize_effect_def network_grows_refl split: if_splits sum.splits)

lemma concretize_effect_at: "concretize_effect now e n = Inr (e', n') \<Longrightarrow> eff_at e' = eff_at e"
  by (auto simp: concretize_effect_def split: if_splits sum.splits)

lemma concretize_effects_Cons_cases:
  assumes "concretize_effects now i (e # es) n = (x, n')"
  obtains (refused) err where "x = Inl err" "n' = n"
  | (invalid) err e' where "concretize_effect now e n = Inr (e', n')" "x = Inl err"
  | (stopped) err e' n1 where "concretize_effect now e n = Inr (e', n1)" "effect_validate e' = None"
      "concretize_effects now (Suc i) es n1 = (Inl err, n')" "x = Inl err"
  | (success) e' n1 cs where "concretize_effect now e n = Inr (e', n1)" "effect_validate e' = None"
      "concretize_effects now (Suc i) es n1 = (Inr cs, n')" "x = Inr (e' # cs)"
proof (cases "concretize_effect now e n")
  case (Inl err)
  then show ?thesis using assms refused [of err] by simp
next
  case (Inr p)
  obtain e' n1 where p: "concretize_effect now e n = Inr (e', n1)" using Inr by (cases p) simp
  show ?thesis
  proof (cases "effect_validate e'")
    case (Some err)
    then show ?thesis using assms p invalid [of e'] by auto
  next
    case None
    obtain y n2 where rest: "concretize_effects now (Suc i) es n1 = (y, n2)" by fastforce
    show ?thesis
    proof (cases y)
      case (Inl err)
      then have "x = Inl err" "n' = n2" using assms p None rest by simp_all
      then show ?thesis using p None rest Inl by (intro stopped [of e' n1 err]) simp_all
    next
      case (Inr cs)
      then have "x = Inr (e' # cs)" "n' = n2" using assms p None rest by simp_all
      then show ?thesis using p None rest Inr by (intro success [of e' n1 cs]) simp_all
    qed
  qed
qed

lemma concretize_effects_grows:
  "network_wf n \<Longrightarrow> concretize_effects now i es n = (x, n') \<Longrightarrow>
     network_grows (length (filter is_send_message es)) n n'"
proof (induction es arbitrary: i n x)
  case Nil
  then show ?case by (simp add: network_grows_refl)
next
  case (Cons e es)
  let ?k = "if is_send_message e then 1 else 0 :: nat"
  have k: "length (filter is_send_message (e # es)) = ?k + length (filter is_send_message es)" by simp
  note first = concretize_effect_grows [OF Cons.prems(1), of now e]
  have more: "network_grows (length (filter is_send_message (e # es))) n n'"
    if "concretize_effect now e n = Inr (e', n1)" "concretize_effects now (Suc i) es n1 = (y, n')" for e' n1 y
  proof -
    have "network_wf n1" using first [OF that(1)] by (simp add: network_grows_def)
    then show ?thesis unfolding k
      using network_grows_trans [OF first [OF that(1)] Cons.IH [OF _ that(2)]] by blast
  qed
  show ?case
  proof (rule concretize_effects_Cons_cases [OF Cons.prems(2)])
    fix err assume "n' = n"
    then show ?thesis using Cons.prems(1) by (simp add: network_grows_refl)
  next
    fix err e' assume "concretize_effect now e n = Inr (e', n')"
    then show ?thesis using network_grows_mono [OF first] k by fastforce
  qed (rule more; assumption)+
qed

lemma concretize_effects_Inr:
  "concretize_effects now i es n = (Inr cs, n') \<Longrightarrow>
     map eff_at cs = map eff_at es \<and> list_all (\<lambda>e. effect_validate e = None) cs"
proof (induction es arbitrary: i n cs)
  case Nil
  then show ?case by simp
next
  case (Cons e es)
  obtain e' n1 cs' where "concretize_effect now e n = Inr (e', n1)" "effect_validate e' = None"
      "concretize_effects now (Suc i) es n1 = (Inr cs', n')" "cs = e' # cs'"
    using Cons.prems by (cases rule: concretize_effects_Cons_cases) simp_all
  then show ?case using Cons.IH concretize_effect_at by simp
qed

lemma prepare_effects_at: "prepare_effects now i es = None \<Longrightarrow> \<forall>e \<in> set es. eff_at e = now"
proof (induction es arbitrary: i)
  case (Cons e es)
  have "eff_at e = now" using Cons.prems by (simp split: if_splits)
  moreover have "\<exists>j. prepare_effects now j es = None"
    using Cons.prems by (cases "is_send_message e"; cases "eff_message e") (auto split: if_splits)
  ultimately show ?case using Cons.IH by auto
qed simp

section \<open>The budgets\<close>

definition effects_budget_ok :: "'w runtime \<Rightarrow> bool" where
  "effects_budget_ok r \<longleftrightarrow>
     (max_effects (cfg_limits (rt_config r)) \<noteq> 0 \<longrightarrow>
        rt_effect_count r \<le> max_effects (cfg_limits (rt_config r)))"

definition queue_budget_ok :: "'w runtime \<Rightarrow> bool" where
  "queue_budget_ok r \<longleftrightarrow>
     (max_queued_messages (cfg_limits (rt_config r)) \<noteq> 0 \<longrightarrow>
        int (network_len (rt_network r)) \<le> max_queued_messages (cfg_limits (rt_config r)))"

definition resources_ok :: "'w runtime \<Rightarrow> bool" where
  "resources_ok r \<longleftrightarrow> network_wf (rt_network r) \<and> effects_budget_ok r \<and> queue_budget_ok r"

lemma resources_ok_cong [simp]:
  "resources_ok (r\<lparr>rt_world := w\<rparr>) = resources_ok r" "resources_ok (r\<lparr>rt_time := t\<rparr>) = resources_ok r"
  "resources_ok (r\<lparr>rt_last_action := la\<rparr>) = resources_ok r"
  "resources_ok (r\<lparr>rt_terminated := b\<rparr>) = resources_ok r"
  "resources_ok (r\<lparr>rt_failure := f\<rparr>) = resources_ok r"
  "resources_ok (r\<lparr>rt_observation := ob\<rparr>) = resources_ok r"
  "resources_ok (r\<lparr>rt_trace := tr, rt_action_count := c, rt_observation := ob\<rparr>) = resources_ok r"
  by (simp_all add: resources_ok_def effects_budget_ok_def queue_budget_ok_def)

text \<open>The subtraction \<open>MaxEffects - effectCount\<close> of the code does not wrap below the limit, and a
  list as long as the rest of the budget keeps the count below it.\<close>

lemma effect_count_within:
  fixes c m :: u64
  assumes "c \<le> m" and "k \<le> unat (m - c)"
  shows "unat (c + of_nat k) = unat c + k" and "c + of_nat k \<le> m"
proof -
  have "unat (m - c) = unat m - unat c" using assms(1) by (rule unat_sub)
  moreover have "unat c \<le> unat m" using assms(1) by (simp add: word_le_nat_alt)
  ultimately have le: "unat c + k \<le> unat m" using assms(2) by linarith
  moreover have "unat m < 2 ^ 64" using unsigned_less [of m] by simp
  ultimately show eq: "unat (c + of_nat k) = unat c + k"
    by (simp add: unat_word_ariths unat_of_nat mod_simps)
  show "c + of_nat k \<le> m" using le by (simp add: word_le_nat_alt eq)
qed

section \<open>Recording keeps the budgets\<close>

lemma effects_refused_None:
  "effects_refused es now r = None \<longleftrightarrow>
     (max_effects (cfg_limits (rt_config r)) \<noteq> 0 \<longrightarrow>
        length es \<le> unat (max_effects (cfg_limits (rt_config r)) - rt_effect_count r)) \<and>
     (max_queued_messages (cfg_limits (rt_config r)) \<noteq> 0 \<longrightarrow>
        int (network_len (rt_network r) + length (filter is_send_message es))
          \<le> max_queued_messages (cfg_limits (rt_config r))) \<and>
     prepare_effects now 0 es = None"
  by (auto simp: effects_refused_def Let_def not_less)

lemma process_adapter_effects_cases:
  assumes "process_adapter_effects es now r = (x, r')"
  obtains (refused) e where "x = Inl e" "r' = r"
  | (recorded) n where "effects_refused es now r = None"
      "concretize_effects now 0 es (rt_network r) = (x, n)"
      "r' = (case x of Inl _ \<Rightarrow> r\<lparr>rt_network := n\<rparr>
             | Inr cs \<Rightarrow> r\<lparr>rt_network := n, rt_effect_count := rt_effect_count r + of_nat (length cs)\<rparr>)"
proof (cases "effects_refused es now r")
  case (Some e)
  then show ?thesis using assms by (intro refused [of e]) (simp_all add: process_adapter_effects_def)
next
  case None
  obtain y n where y: "concretize_effects now 0 es (rt_network r) = (y, n)" by fastforce
  have p: "process_adapter_effects es now r = (y, case y of Inl _ \<Rightarrow> r\<lparr>rt_network := n\<rparr>
      | Inr cs \<Rightarrow> r\<lparr>rt_network := n, rt_effect_count := rt_effect_count r + of_nat (length cs)\<rparr>)"
    using None y by (cases y) (simp_all add: process_adapter_effects_def)
  then have "x = y" using assms by simp
  with p None y assms show ?thesis by (intro recorded [of n]) simp_all
qed

lemma process_adapter_effects_ok:
  assumes ok: "resources_ok r" and run: "process_adapter_effects es now r = (x, r')"
  shows "resources_ok r' \<and> runtime_frame r r' \<and> rt_time r' = rt_time r \<and>
    (\<forall>l. \<exists>new. queue_at (rt_network r') l = queue_at (rt_network r) l @ new)"
  using run
proof (cases rule: process_adapter_effects_cases)
  case refused
  then show ?thesis using ok by simp
next
  case (recorded n)
  note checks = recorded(1) [unfolded effects_refused_None]
  let ?k = "length (filter is_send_message es)" and ?limits = "cfg_limits (rt_config r)"
  have grows: "network_grows ?k (rt_network r) n"
    using concretize_effects_grows recorded(2) ok by (simp add: resources_ok_def)
  have queue: "max_queued_messages ?limits \<noteq> 0 \<longrightarrow> int (network_len n) \<le> max_queued_messages ?limits"
    using grows checks by (auto simp: network_grows_def)
  have count: "rt_effect_count r + of_nat (length cs) \<le> max_effects ?limits"
    if "x = Inr cs" "max_effects ?limits \<noteq> 0" for cs
  proof (rule effect_count_within(2))
    show "rt_effect_count r \<le> max_effects ?limits"
      using ok that(2) by (simp add: resources_ok_def effects_budget_ok_def)
    have "length cs = length es"
      using concretize_effects_Inr recorded(2) that(1) by (metis length_map)
    then show "length cs \<le> unat (max_effects ?limits - rt_effect_count r)"
      using checks that(2) by simp
  qed
  show ?thesis
  proof (cases x)
    case (Inl e)
    then show ?thesis using grows queue ok recorded
      by (auto simp: resources_ok_def queue_budget_ok_def effects_budget_ok_def network_grows_def)
  next
    case (Inr cs)
    then show ?thesis using grows queue count [OF Inr] recorded
      by (auto simp: resources_ok_def queue_budget_ok_def effects_budget_ok_def network_grows_def)
  qed
qed

lemma process_adapter_effects_Inr:
  assumes "process_adapter_effects es now r = (Inr cs, r')"
  shows "length cs = length es \<and> list_all (\<lambda>e. effect_validate e = None \<and> eff_at e = now) cs \<and>
    rt_effect_count r' = rt_effect_count r + of_nat (length cs)"
  using assms
proof (cases rule: process_adapter_effects_cases)
  case (recorded n)
  note c = recorded(2)
  have eq: "map eff_at cs = map eff_at es" and valid: "list_all (\<lambda>e. effect_validate e = None) cs"
    using concretize_effects_Inr [OF c] by simp_all
  moreover have "\<forall>t \<in> set (map eff_at es). t = now"
    using prepare_effects_at [of now 0 es] recorded(1) by (simp add: effects_refused_None)
  ultimately have "\<forall>t \<in> set (map eff_at cs). t = now" by (simp only: eq)
  moreover have "length cs = length es" using eq by (rule map_eq_imp_length_eq)
  moreover have "rt_effect_count r' = rt_effect_count r + of_nat (length cs)" using recorded(3) by simp
  ultimately show ?thesis using valid by (simp add: list_all_iff)
qed simp

text \<open>The count of effects, exact when there is a limit to keep.\<close>

definition effects_counted :: "'w runtime \<Rightarrow> nat \<Rightarrow> 'w runtime \<Rightarrow> bool" where
  "effects_counted r k r' \<longleftrightarrow>
     rt_effect_count r' = rt_effect_count r + of_nat k \<and>
     (max_effects (cfg_limits (rt_config r)) \<noteq> 0 \<longrightarrow>
        unat (rt_effect_count r') = unat (rt_effect_count r) + k)"

lemma effects_counted_0 [simp]: "rt_effect_count r' = rt_effect_count r \<Longrightarrow> effects_counted r 0 r'"
  by (simp add: effects_counted_def)

lemma effects_counted_trans:
  "effects_counted r j s \<Longrightarrow> effects_counted s k t \<Longrightarrow> rt_config s = rt_config r \<Longrightarrow>
     effects_counted r (j + k) t"
proof -
  assume a: "effects_counted r j s" "effects_counted s k t" "rt_config s = rt_config r"
  then have "rt_effect_count t = rt_effect_count r + of_nat (j + k)" by (simp add: effects_counted_def)
  moreover have "unat (rt_effect_count t) = unat (rt_effect_count r) + (j + k)"
    if "max_effects (cfg_limits (rt_config r)) \<noteq> 0"
    using a that unfolding effects_counted_def by (metis add.assoc)
  ultimately show ?thesis unfolding effects_counted_def by blast
qed

lemma effects_counted_cong:
  "rt_effect_count s = rt_effect_count r \<Longrightarrow> rt_config s = rt_config r \<Longrightarrow>
     effects_counted s k t = effects_counted r k t"
  by (simp add: effects_counted_def)

lemma process_effects_counted:
  assumes ok: "resources_ok r" and run: "process_adapter_effects es now r = (Inr cs, r')"
  shows "effects_counted r (length cs) r'"
proof (unfold effects_counted_def, intro conjI impI)
  show count: "rt_effect_count r' = rt_effect_count r + of_nat (length cs)"
    using process_adapter_effects_Inr [OF run] by simp
  assume lim: "max_effects (cfg_limits (rt_config r)) \<noteq> 0"
  have "rt_effect_count r \<le> max_effects (cfg_limits (rt_config r))"
    using ok lim by (simp add: resources_ok_def effects_budget_ok_def)
  moreover have "effects_refused es now r = None"
    using run by (cases rule: process_adapter_effects_cases) simp_all
  then have "length cs \<le> unat (max_effects (cfg_limits (rt_config r)) - rt_effect_count r)"
    using lim process_adapter_effects_Inr [OF run] unfolding effects_refused_None by metis
  ultimately show "unat (rt_effect_count r') = unat (rt_effect_count r) + length cs"
    unfolding count by (rule effect_count_within(1))
qed

section \<open>Advancing time\<close>

lemma call_sut_cases:
  assumes "call_sut op f r = (x, r')"
  obtains w where "r' = r\<lparr>rt_world := w\<rparr>" "outcome_result op (f (rt_world r)) = (x, w)"
  using assms by (auto simp: call_sut_def split: prod.splits)

text \<open>What a successful part of an action guarantees of the effects it recorded.\<close>

definition effects_recorded :: "'w runtime \<Rightarrow> effect list \<Rightarrow> 'w runtime \<Rightarrow> bool" where
  "effects_recorded r es r' \<longleftrightarrow>
     list_all (\<lambda>e. effect_validate e = None \<and> rt_time r \<le> eff_at e \<and> eff_at e \<le> rt_time r') es \<and>
     sorted (map eff_at es) \<and> effects_counted r (length es) r'"

lemma sorted_const: "(\<And>x. x \<in> set xs \<Longrightarrow> f x = c) \<Longrightarrow> sorted (map f xs)"
  by (induction xs) auto

lemma process_adapter_effects_recorded:
  assumes "process_adapter_effects es (rt_time r) r = (Inr cs, r')" and "rt_time r' = rt_time r"
    and "resources_ok r"
  shows "effects_recorded r cs r'"
  using process_adapter_effects_Inr [OF assms(1)] process_effects_counted [OF assms(3,1)] assms(2)
    sorted_const [of cs eff_at "rt_time r"]
  by (simp add: effects_recorded_def list_all_iff)

lemma advance_tick_cases:
  assumes "advance_tick r = (x, r')"
  obtains (canceled) e w where "x = Inl e" "r' = r\<lparr>rt_world := w\<rparr>"
  | (failed) e w where "x = Inl e" "r' = r\<lparr>rt_time := rt_time r + 1, rt_world := w\<rparr>"
  | (recorded) es w y where
      "process_adapter_effects es (rt_time r + 1) (r\<lparr>rt_time := rt_time r + 1, rt_world := w\<rparr>) = (y, r')"
      "\<And>cs. x = Inr cs \<Longrightarrow> y = Inr cs \<and> validate_natural_timeout_effects 0 cs = None"
proof -
  obtain ec w where c: "check_context r = (ec, r\<lparr>rt_world := w\<rparr>)"
    using check_context_frame by (metis prod.collapse)
  show ?thesis
  proof (cases ec)
    case (Some e)
    then have "x = Inl e" "r' = r\<lparr>rt_world := w\<rparr>" using assms c by (simp_all add: advance_tick_def)
    then show ?thesis by (rule canceled)
  next
    case None
    let ?r = "r\<lparr>rt_world := w, rt_time := rt_time r + 1\<rparr>"
    obtain t w' where t: "call_sut ''tick'' (ad_tick (rt_adapter r) (rt_time r + 1)) ?r = (t, ?r\<lparr>rt_world := w'\<rparr>)"
      by (metis call_sut_frame prod.collapse)
    show ?thesis
    proof (cases t)
      case (Inl e)
      then have "\<exists>e'. x = Inl e'" and "r' = r\<lparr>rt_time := rt_time r + 1, rt_world := w'\<rparr>"
        using assms c None t by (auto simp: advance_tick_def Let_def)
      then show ?thesis using failed by blast
    next
      case (Inr es)
      let ?r2 = "r\<lparr>rt_time := rt_time r + 1, rt_world := w'\<rparr>"
      obtain y s where y: "process_adapter_effects es (rt_time r + 1) ?r2 = (y, s)" by fastforce
      have "(x, r') = (case y of Inl e \<Rightarrow> (Inl e, s) | Inr concrete \<Rightarrow>
          (case validate_natural_timeout_effects 0 concrete of Some e \<Rightarrow> (Inl e, s) | None \<Rightarrow> (Inr concrete, s)))"
        using assms c None t Inr y by (simp add: advance_tick_def Let_def split: sum.splits)
      then have "r' = s" and "x = Inr cs \<Longrightarrow> y = Inr cs \<and> validate_natural_timeout_effects 0 cs = None" for cs
        by (cases y; simp split: option.splits)+
      with y show ?thesis using recorded [of es w' y] by simp
    qed
  qed
qed

definition all_natural :: "effect list \<Rightarrow> bool" where
  "all_natural es \<longleftrightarrow>
     list_all (\<lambda>e. eff_kind e = EffectTimerFired \<longrightarrow> tf_source (the (eff_timer_fired e)) = TimerFireNatural) es"

lemma validate_natural_None: "validate_natural_timeout_effects i es = None \<longleftrightarrow> all_natural es"
  by (induction es arbitrary: i) (simp_all add: all_natural_def)

lemma advance_tick_ok:
  assumes ok: "resources_ok r" and run: "advance_tick r = (x, r')"
  shows "resources_ok r' \<and> runtime_frame r r'"
  using run
proof (cases rule: advance_tick_cases)
  case (recorded es w y)
  let ?r = "r\<lparr>rt_time := rt_time r + 1, rt_world := w\<rparr>"
  have "resources_ok ?r" using ok by (simp add: resources_ok_def effects_budget_ok_def queue_budget_ok_def)
  then show ?thesis using process_adapter_effects_ok [OF _ recorded(1)]
    by (simp add: runtime_frame_def)
qed (use ok in \<open>simp_all add: resources_ok_def effects_budget_ok_def queue_budget_ok_def runtime_frame_def\<close>)

lemma advance_tick_Inr:
  assumes ok: "resources_ok r" and run: "advance_tick r = (Inr es, r')"
  shows "rt_time r' = rt_time r + 1 \<and> all_natural es \<and>
    list_all (\<lambda>e. effect_validate e = None \<and> eff_at e = rt_time r + 1) es \<and>
    effects_counted r (length es) r'"
  using run
proof (cases rule: advance_tick_cases)
  case (recorded es' w y)
  let ?r = "r\<lparr>rt_time := rt_time r + 1, rt_world := w\<rparr>"
  have y: "y = Inr es" and nat: "all_natural es"
    using recorded(2) [OF refl] by (simp_all add: validate_natural_None)
  have r: "resources_ok ?r" using ok by (simp add: resources_ok_def effects_budget_ok_def queue_budget_ok_def)
  then have "rt_time r' = rt_time r + 1" using process_adapter_effects_ok [OF _ recorded(1)] by simp
  moreover have "effects_counted r (length es) r'"
    using process_effects_counted [OF r recorded(1) [unfolded y]] effects_counted_cong [of ?r r] by simp
  ultimately show ?thesis using nat process_adapter_effects_Inr [OF recorded(1) [unfolded y]] by simp
qed simp_all

lemma advance_loop_ok:
  assumes "resources_ok r" "advance_loop target acc r = (x, r')"
  shows "resources_ok r' \<and> runtime_frame r r'"
  using assms
proof (induction target acc r rule: advance_loop.induct)
  case (1 target acc r)
  show ?case
  proof (cases "rt_time r < target")
    case False
    then show ?thesis using 1 by (simp add: advance_loop.simps [of target acc r])
  next
    case True
    obtain y r1 where t: "advance_tick r = (y, r1)" by fastforce
    have ok: "resources_ok r1" "runtime_frame r r1" using advance_tick_ok [OF 1(2) t] by simp_all
    show ?thesis
    proof (cases y)
      case (Inl e)
      then show ?thesis using 1(3) True t ok by (simp add: advance_loop.simps [of target acc r])
    next
      case (Inr es)
      then have "advance_loop target (acc @ es) r1 = (x, r')"
        using 1(3) True t by (simp add: advance_loop.simps [of target acc r])
      then have "resources_ok r' \<and> runtime_frame r1 r'"
        using 1(1) [OF _ t [symmetric] Inr] True ok by simp
      then show ?thesis using ok runtime_frame_trans by blast
    qed
  qed
qed

lemma advance_loop_Inr:
  assumes "resources_ok r" "rt_time r \<le> target" "advance_loop target acc r = (Inr es, r')"
  shows "rt_time r' = target \<and> (\<exists>new. es = acc @ new \<and> effects_recorded r new r' \<and> all_natural new)"
  using assms
proof (induction target acc r rule: advance_loop.induct)
  case (1 target acc r)
  show ?case
  proof (cases "rt_time r < target")
    case False
    then have "r' = r" "es = acc" "rt_time r = target"
      using 1(3,4) by (auto simp: advance_loop.simps [of target acc r])
    then show ?thesis by (simp add: effects_recorded_def all_natural_def)
  next
    case True
    obtain y r1 where t: "advance_tick r = (y, r1)" by fastforce
    have "rt_time r \<noteq> - 1" using True by (auto simp: not_less [symmetric])
    then have next_le: "rt_time r + 1 \<le> target" and less: "rt_time r \<le> rt_time r + 1"
      using True by (simp_all add: word_less_nat_alt word_le_nat_alt unat_less_max_Suc)
    obtain now where y: "y = Inr now" and rest: "advance_loop target (acc @ now) r1 = (Inr es, r')"
      using 1(4) True t by (cases y) (auto simp: advance_loop.simps [of target acc r])
    have ok: "resources_ok r1" using advance_tick_ok [OF 1(2) t] by simp
    have tick: "rt_time r1 = rt_time r + 1" "all_natural now"
      "list_all (\<lambda>e. effect_validate e = None \<and> eff_at e = rt_time r + 1) now"
      "effects_counted r (length now) r1"
      using advance_tick_Inr [OF 1(2) t [unfolded y]] by simp_all
    obtain new where t': "rt_time r' = target" and es: "es = (acc @ now) @ new"
      and new: "effects_recorded r1 new r'" "all_natural new"
      using 1(1) [OF _ t [symmetric] y ok _ rest] True tick(1) next_le by auto
    have at_now: "eff_at e = rt_time r + 1" if "e \<in> set now" for e
      using tick(3) that by (simp add: list_all_iff)
    have "sorted (map eff_at (now @ new))"
      using new(1) tick(1) at_now sorted_const [of now eff_at "rt_time r + 1"]
      by (auto simp: effects_recorded_def sorted_append list_all_iff)
    moreover have "list_all (\<lambda>e. effect_validate e = None \<and> rt_time r \<le> eff_at e \<and> eff_at e \<le> target) (now @ new)"
      using new(1) tick(1,3) t' less next_le by (auto simp: effects_recorded_def list_all_iff)
    moreover have "effects_counted r (length (now @ new)) r'"
      using effects_counted_trans [OF tick(4), of "length new" r'] new(1) advance_tick_ok [OF 1(2) t]
      by (simp add: effects_recorded_def runtime_frame_def)
    ultimately have "effects_recorded r (now @ new) r'"
      using t' by (simp add: effects_recorded_def)
    then show ?thesis using t' es new(2) tick(2) by (auto simp: all_natural_def)
  qed
qed

section \<open>Applying an action\<close>

lemma resources_ok_remove:
  assumes ok: "resources_ok r" and rm: "network_remove (rt_network r) i sel = Inr (m, n)"
  shows "resources_ok (r\<lparr>rt_network := n\<rparr>)"
proof -
  obtain q :: queued_message where "network_resolve (rt_network r) i sel = Inr q"
    and n: "n = after_remove (rt_network r) sel"
    using rm unfolding network_remove_Inr by blast
  then have pos: "nat (sel_position sel) < length (queue_at (rt_network r) (sel_link sel))"
    unfolding network_resolve_Inr by blast
  have wf: "network_wf (rt_network r)" using ok by (simp add: resources_ok_def)
  have "network_len (rt_network r) = Suc (network_len n)"
    unfolding n by (rule network_len_after_remove [OF wf pos])
  then show ?thesis using ok after_remove_wf [OF wf pos] n
    by (auto simp: resources_ok_def effects_budget_ok_def queue_budget_ok_def)
qed

lemma resources_ok_duplicate:
  assumes ok: "resources_ok r" and dup: "network_duplicate (rt_network r) i sel now = Inr (m, n)"
    and budget: "validate_budget a r = None" "act_kind a = ActionDuplicate"
  shows "resources_ok (r\<lparr>rt_network := n\<rparr>)"
proof -
  obtain q :: queued_message where can: "can_register (rt_network r) (duplicated_message (qm_message q)) i"
    and n: "n = after_register (rt_network r) (duplicated_message (qm_message q)) i now"
    using dup unfolding network_duplicate_Inr by blast
  have wf: "network_wf (rt_network r)" using ok by (simp add: resources_ok_def)
  then have "distinct (map fst (nw_queues (rt_network r)))" by (simp add: network_wf_def)
  then have "network_len n = Suc (network_len (rt_network r))"
    using network_len_after_register n by simp
  then show ?thesis using ok after_register_wf [OF wf can] n budget
    by (auto simp: resources_ok_def effects_budget_ok_def queue_budget_ok_def validate_budget_def Let_def
        split: if_splits)
qed

lemma apply_adapter_call_cases:
  assumes "apply_adapter_call op detail f r = (x, r')"
  obtains (failed) e w where "x = Inl e" "r' = r\<lparr>rt_world := w\<rparr>"
  | (recorded) es w where "process_adapter_effects es (rt_time r) (r\<lparr>rt_world := w\<rparr>) = (x, r')"
proof -
  obtain y w where y: "call_sut op f r = (y, r\<lparr>rt_world := w\<rparr>)"
    by (metis call_sut_frame prod.collapse)
  show ?thesis
  proof (cases y)
    case (Inl e)
    then have "x = Inl (errorf_w ErrAdapter detail e)" "r' = r\<lparr>rt_world := w\<rparr>"
      using assms y by (simp_all add: apply_adapter_call_def)
    then show ?thesis by (rule failed)
  next
    case (Inr es)
    then show ?thesis using assms y recorded by (simp add: apply_adapter_call_def)
  qed
qed

definition applied_ok :: "'w runtime \<Rightarrow> 'w runtime \<Rightarrow> bool" where
  "applied_ok r r' \<longleftrightarrow> resources_ok r' \<and> runtime_frame r r'"

definition applied_in_place :: "'w runtime \<Rightarrow> effect list \<Rightarrow> 'w runtime \<Rightarrow> bool" where
  "applied_in_place r es r' \<longleftrightarrow> rt_time r' = rt_time r \<and> effects_recorded r es r'"

lemma applied_ok_world [simp]: "resources_ok r \<Longrightarrow> applied_ok r (r\<lparr>rt_world := w\<rparr>)"
  by (simp add: applied_ok_def)

lemma applied_in_place_Nil [simp]:
  "applied_in_place r [] (r\<lparr>rt_network := n\<rparr>)"
  by (simp add: applied_in_place_def effects_recorded_def)

lemma process_applied:
  assumes "resources_ok s" and "process_adapter_effects es (rt_time s) s = (x, r')"
    and "s = r\<lparr>rt_world := w\<rparr> \<or> s = r\<lparr>rt_world := w, rt_network := n\<rparr>"
  shows "applied_ok r r'" and "x = Inr cs \<Longrightarrow> applied_in_place r cs r'"
proof -
  have ok: "resources_ok r' \<and> runtime_frame s r' \<and> rt_time r' = rt_time s"
    using process_adapter_effects_ok [OF assms(1,2)] by simp
  have "runtime_frame r s" using assms(3) by (auto simp: runtime_frame_def)
  then show "applied_ok r r'" using ok runtime_frame_trans by (auto simp: applied_ok_def)
  have same: "rt_time s = rt_time r" "rt_effect_count s = rt_effect_count r" using assms(3) by auto
  show "applied_in_place r cs r'" if "x = Inr cs"
    using process_adapter_effects_recorded [of es s cs r'] assms that ok same
    by (auto simp: applied_in_place_def effects_recorded_def effects_counted_def)
qed

lemma apply_adapter_call_ok:
  assumes ok: "resources_ok r" and run: "apply_adapter_call op detail f r = (x, r')"
  shows "applied_ok r r'" and "x = Inr cs \<Longrightarrow> applied_in_place r cs r'"
proof -
  have "applied_ok r r' \<and> (x = Inr cs \<longrightarrow> applied_in_place r cs r')"
    using run
  proof (cases rule: apply_adapter_call_cases)
    case (failed e w)
    then show ?thesis using ok by simp
  next
    case (recorded es w)
    have s: "resources_ok (r\<lparr>rt_world := w\<rparr>)" using ok by simp
    have "process_adapter_effects es (rt_time (r\<lparr>rt_world := w\<rparr>)) (r\<lparr>rt_world := w\<rparr>) = (x, r')"
      using recorded by simp
    from process_applied [OF s this] show ?thesis by blast
  qed
  then show "applied_ok r r'" and "x = Inr cs \<Longrightarrow> applied_in_place r cs r'" by auto
qed

lemma apply_deliver_ok:
  assumes ok: "resources_ok r" and run: "apply_deliver a r = (x, r')"
  shows "applied_ok r r'" and "x = Inr cs \<Longrightarrow> applied_in_place r cs r'"
proof -
  have "applied_ok r r' \<and> (x = Inr cs \<longrightarrow> applied_in_place r cs r')"
  proof (cases "network_resolve (rt_network r) (act_message a) (the (act_selector a))")
    case (Inl e)
    then show ?thesis using run ok by (auto simp: apply_deliver_def applied_ok_def)
  next
    case (Inr q)
    obtain y w where y: "call_sut ''deliver'' (ad_deliver (rt_adapter r) (rt_time r) (qm_message q)) r
        = (y, r\<lparr>rt_world := w\<rparr>)"
      by (metis call_sut_frame prod.collapse)
    show ?thesis
    proof (cases y)
      case (Inl e)
      then show ?thesis using run ok Inr y by (auto simp: apply_deliver_def)
    next
      case (Inr es)
      define sel where "sel = the (act_selector a)"
      have rm: "network_remove (rt_network r) (act_message a) sel =
          Inr (qm_message q, after_remove (rt_network r) sel)"
        using \<open>network_resolve _ _ _ = Inr q\<close> by (simp add: network_remove_Inr sel_def)
      let ?s = "r\<lparr>rt_world := w, rt_network := after_remove (rt_network r) sel\<rparr>"
      have run': "process_adapter_effects es (rt_time ?s) ?s = (x, r')"
        using run y Inr \<open>network_resolve _ _ _ = Inr q\<close> rm by (simp add: apply_deliver_def sel_def)
      have ok': "resources_ok ?s"
        using resources_ok_remove [of "r\<lparr>rt_world := w\<rparr>" "act_message a" sel] rm ok by simp
      from process_applied [OF ok' run'] show ?thesis by blast
    qed
  qed
  then show "applied_ok r r'" and "x = Inr cs \<Longrightarrow> applied_in_place r cs r'" by auto
qed

text \<open>Whatever the outcome, an action keeps the network well-formed and the budgets respected.\<close>

lemma apply_action_ok:
  assumes ok: "resources_ok r" and budget: "validate_budget a r = None"
    and run: "apply_action a r = (x, r')"
  shows "applied_ok r r'"
proof (cases "act_kind a")
  case ActionDeliver
  then show ?thesis using run apply_deliver_ok(1) [OF ok] by (simp add: apply_action_def)
next
  case ActionDrop
  then show ?thesis
    using run ok resources_ok_remove [OF ok]
    by (auto simp: apply_action_def applied_ok_def split: sum.splits)
next
  case ActionDuplicate
  then show ?thesis
    using run ok resources_ok_duplicate [OF ok _ budget]
    by (auto simp: apply_action_def applied_ok_def split: sum.splits)
next
  case ActionAdvanceTime
  then show ?thesis using run ok advance_loop_ok [OF ok]
    by (auto simp: apply_action_def advance_time_def applied_ok_def split: if_splits)
next
  case ActionTimeout
  obtain y s where "apply_adapter_call ''force_timeout'' (''timeout node '' @ node_id_text (act_node a))
             (ad_force_timeout (rt_adapter r) (rt_time r) (act_node a)) r = (y, s)" by fastforce
  moreover from this have "applied_ok r s" by (rule apply_adapter_call_ok(1) [OF ok])
  ultimately show ?thesis using run ActionTimeout
    by (cases y) (auto simp: apply_action_def split: option.splits)
next
  case (ActionKindOther k)
  then show ?thesis using run ok by (simp add: apply_action_def applied_ok_def)
qed (use run apply_adapter_call_ok(1) [OF ok] in \<open>simp_all add: apply_action_def\<close>)

text \<open>A successful action has moved the clock to its target, or not at all.\<close>

lemma apply_action_Inr:
  assumes ok: "resources_ok r" and run: "apply_action a r = (Inr es, r')"
  shows "effects_recorded r es r' \<and>
    (if act_kind a = ActionAdvanceTime then rt_time r < rt_time r' \<and> rt_time r' = act_target_time a
     else rt_time r' = rt_time r)"
proof (cases "act_kind a")
  case ActionDeliver
  then show ?thesis using run apply_deliver_ok(2) [OF ok] by (simp add: apply_action_def applied_in_place_def)
next
  case ActionDrop
  then show ?thesis using run
    by (auto simp: apply_action_def effects_recorded_def split: sum.splits)
next
  case ActionDuplicate
  then show ?thesis using run
    by (auto simp: apply_action_def effects_recorded_def split: sum.splits)
next
  case ActionAdvanceTime
  then have "rt_time r < act_target_time a" "advance_loop (act_target_time a) [] r = (Inr es, r')"
    using run by (auto simp: apply_action_def advance_time_def split: if_splits)
  then show ?thesis using advance_loop_Inr [OF ok, of "act_target_time a" "[]" es r'] ActionAdvanceTime by simp
next
  case ActionTimeout
  obtain y s where y: "apply_adapter_call ''force_timeout'' (''timeout node '' @ node_id_text (act_node a))
             (ad_force_timeout (rt_adapter r) (rt_time r) (act_node a)) r = (y, s)" by fastforce
  then have "y = Inr es" "s = r'"
    using run ActionTimeout by (cases y; simp add: apply_action_def split: option.splits)+
  then show ?thesis using apply_adapter_call_ok(2) [OF ok y] ActionTimeout by (simp add: applied_in_place_def)
next
  case (ActionKindOther k)
  then show ?thesis using run by (simp add: apply_action_def)
qed (use run apply_adapter_call_ok(2) [OF ok] in \<open>simp_all add: apply_action_def applied_in_place_def\<close>)

section \<open>Observing and recording a step\<close>

definition observation_of :: "'w runtime \<Rightarrow> observation \<Rightarrow> bool" where
  "observation_of r ob \<longleftrightarrow>
     observation_validate ob = None \<and> obs_time ob = rt_time r \<and>
     obs_messages ob = sort_key mo_id (network_observations (rt_network r)) \<and>
     obs_last_action ob = rt_last_action r"

lemma collect_observation_ok:
  assumes "collect_observation r = (x, r')"
  shows "\<exists>w. r' = r\<lparr>rt_world := w\<rparr>" and "x = Inr ob \<Longrightarrow> observation_of r ob"
proof -
  obtain y w where y: "call_sut ''observe'' (ad_observe (rt_adapter r) (rt_time r)) r = (y, r\<lparr>rt_world := w\<rparr>)"
    by (metis call_sut_frame prod.collapse)
  have "r' = r\<lparr>rt_world := w\<rparr> \<and> (x = Inr ob \<longrightarrow> observation_of r ob)"
  proof (cases y)
    case (Inl e)
    then show ?thesis using assms y by (auto simp: collect_observation_def)
  next
    case (Inr raw)
    then show ?thesis using assms y
      by (auto simp: collect_observation_def Let_def observation_of_def observation_normalized_def
          split: if_splits option.splits)
  qed
  then show "\<exists>w. r' = r\<lparr>rt_world := w\<rparr>" and "x = Inr ob \<Longrightarrow> observation_of r ob" by auto
qed

text \<open>A valid observation can always be serialized, so the digest never fails after \<open>Validate\<close>.\<close>

lemma observation_digest_total:
  assumes "observation_validate ob = None"
  shows "\<exists>d. observation_digest env ob = Inr d"
proof -
  have "observation_json_error (observation_normalized ob) = None"
    using assms
    by (auto simp: observation_json_error_def first_some_None_iff observation_validate_None
        node_observation_validate_def split: option.splits if_splits)
  then show ?thesis by (simp add: observation_digest_def Let_def)
qed

lemma validate_node_snapshot_of_observation:
  "observation_validate ob = None \<Longrightarrow> validate_node_snapshot (obs_nodes ob) = None"
  by (simp add: validate_node_snapshot_None observation_validate_None)

section \<open>The invariant of an execution\<close>

definition trace_effects :: "trace \<Rightarrow> nat" where
  "trace_effects t = sum_list (map (\<lambda>s. length (sr_effects s)) (tr_steps t))"

text \<open>What the trace says of the state it has led to.\<close>

definition follows_trace :: "'w runtime \<Rightarrow> bool" where
  "follows_trace r \<longleftrightarrow>
     (case last_step None (tr_steps (rt_trace r)) of
        None \<Rightarrow> rt_time r = 0 \<and> rt_last_action r = None
      | Some s \<Rightarrow> rt_time r = sr_time_after s \<and> rt_last_action r = Some (sr_action s) \<and>
          obs_nodes (rt_observation r) = sr_nodes_after s)"

definition running_ok :: "'w runtime \<Rightarrow> bool" where
  "running_ok r \<longleftrightarrow>
     observation_of r (rt_observation r) \<and> follows_trace r \<and> rt_failure r = None \<and>
     (max_effects (cfg_limits (rt_config r)) \<noteq> 0 \<longrightarrow>
        trace_effects (rt_trace r) = unat (rt_effect_count r))"

definition recording_ok :: "'w runtime \<Rightarrow> bool" where
  "recording_ok r \<longleftrightarrow>
     trace_validate (rt_trace r) = None \<and> tr_version (rt_trace r) = current_trace_version \<and>
     rt_action_count r = of_nat (length (tr_steps (rt_trace r))) \<and>
     (max_actions (cfg_limits (rt_config r)) \<noteq> 0 \<longrightarrow>
        length (tr_steps (rt_trace r)) \<le> unat (max_actions (cfg_limits (rt_config r)))) \<and>
     (max_effects (cfg_limits (rt_config r)) \<noteq> 0 \<longrightarrow>
        trace_effects (rt_trace r) \<le> unat (max_effects (cfg_limits (rt_config r))))"

definition runtime_ok :: "'w runtime \<Rightarrow> bool" where
  "runtime_ok r \<longleftrightarrow>
     cfg_execution_id (rt_config r) \<noteq> [] \<and> resources_ok r \<and>
     (rt_initialized r \<longrightarrow> recording_ok r \<and> (\<not> rt_terminated r \<longrightarrow> running_ok r))"

lemma runtime_ok_world [simp]: "runtime_ok (r\<lparr>rt_world := w\<rparr>) = runtime_ok r"
  by (simp add: runtime_ok_def recording_ok_def running_ok_def observation_of_def follows_trace_def
      split: option.split)

lemma record_failure_frame [simp]:
  "rt_adapter (record_failure op a ob e r) = rt_adapter r"
  "rt_config (record_failure op a ob e r) = rt_config r"
  "rt_trace (record_failure op a ob e r) = rt_trace r"
  "rt_network (record_failure op a ob e r) = rt_network r"
  "rt_effect_count (record_failure op a ob e r) = rt_effect_count r"
  "rt_action_count (record_failure op a ob e r) = rt_action_count r"
  "rt_initialized (record_failure op a ob e r) = rt_initialized r"
  "rt_terminated (record_failure op a ob e r) = rt_terminated r"
  "\<exists>f. rt_failure (record_failure op a ob e r) = Some f"
  by (simp_all add: record_failure_def Let_def)

lemma runtime_ok_terminated:
  assumes "runtime_ok r" "resources_ok s" "rt_config s = rt_config r" "rt_trace s = rt_trace r"
    "rt_action_count s = rt_action_count r" "rt_initialized s = rt_initialized r" "rt_terminated s"
  shows "runtime_ok s"
  using assms by (auto simp: runtime_ok_def recording_ok_def)

lemma new_runtime_ok: "runtime_new ad c w = Inr r \<Longrightarrow> runtime_ok r"
  by (auto simp: runtime_new_def runtime_ok_def config_validate_def resources_ok_def effects_budget_ok_def
      queue_budget_ok_def new_network_wf split: option.splits if_splits)

lemma collect_observation_world:
  obtains x w where "collect_observation r = (x, r\<lparr>rt_world := w\<rparr>)"
  using collect_observation_ok(1) by (metis prod.collapse)

text \<open>A reset that succeeds leaves an empty trace at time zero.\<close>

lemma runtime_reset_ok:
  assumes ok: "runtime_ok r" and run: "runtime_reset r = (x, r')"
  shows "runtime_ok r'" and "x = Inr ob \<Longrightarrow> rt_observation r' = ob \<and> rt_time r' = 0 \<and>
    tr_steps (rt_trace r') = [] \<and> rt_network r' = new_network \<and> rt_initialized r' \<and> \<not> rt_terminated r'"
    and "x = Inl e \<Longrightarrow> rt_initialized r' \<and> rt_terminated r' \<and> rt_failure r' \<noteq> None"
proof -
  define s where "s = r\<lparr>rt_network := new_network, rt_time := 0,
            rt_trace := new_trace (cfg_execution_id (rt_config r)) (cfg_seed (rt_config r)),
            rt_last_action := None, rt_action_count := 0, rt_effect_count := 0,
            rt_initialized := True, rt_terminated := False, rt_failure := None\<rparr>"
  have id: "cfg_execution_id (rt_config r) \<noteq> []" using ok by (simp add: runtime_ok_def)
  have "max_queued_messages (cfg_limits (rt_config r)) \<noteq> 0 \<longrightarrow> 0 \<le> max_queued_messages (cfg_limits (rt_config r))"
    using ok by (auto simp: runtime_ok_def resources_ok_def queue_budget_ok_def)
  then have res: "resources_ok s"
    by (simp add: s_def resources_ok_def effects_budget_ok_def queue_budget_ok_def new_network_wf)
  have rec: "recording_ok s"
    using id by (simp add: s_def recording_ok_def new_trace_valid trace_effects_def)
       (simp add: new_trace_def)
  obtain y w where y: "call_sut ''reset'' (ad_reset (rt_adapter s) (cfg_seed (rt_config s))) s = (y, s\<lparr>rt_world := w\<rparr>)"
    by (metis call_sut_frame prod.collapse)
  have unfold: "runtime_reset r = (case y of Inl e \<Rightarrow>
          (Inl (errorf_w ErrAdapter ''reset'' e), record_failure ''reset'' None empty_observation
             (errorf_w ErrAdapter ''reset'' e) (s\<lparr>rt_world := w, rt_terminated := True\<rparr>))
      | Inr _ \<Rightarrow> (case collect_observation (s\<lparr>rt_world := w\<rparr>) of
             (Inl e, r) \<Rightarrow>
               (Inl e, record_failure ''observe'' None empty_observation e (r\<lparr>rt_terminated := True\<rparr>))
           | (Inr ob, r) \<Rightarrow> (Inr ob, r\<lparr>rt_observation := ob\<rparr>)))"
    using y unfolding runtime_reset_def s_def [symmetric] Let_def by (cases y) simp_all
  have fail: "runtime_ok (record_failure op None empty_observation e (s\<lparr>rt_world := v, rt_terminated := True\<rparr>))"
    for op e v
    using id res rec
    by (simp add: runtime_ok_def recording_ok_def resources_ok_def effects_budget_ok_def queue_budget_ok_def s_def)
  have "runtime_ok r' \<and> (\<forall>ob. x = Inr ob \<longrightarrow> rt_observation r' = ob \<and> rt_time r' = 0 \<and>
    tr_steps (rt_trace r') = [] \<and> rt_network r' = new_network \<and> rt_initialized r' \<and> \<not> rt_terminated r') \<and>
    (\<forall>e. x = Inl e \<longrightarrow> rt_initialized r' \<and> rt_terminated r' \<and> rt_failure r' \<noteq> None)"
  proof (cases y)
    case (Inl e)
    then show ?thesis using run unfold fail by (auto simp: s_def)
  next
    case (Inr u)
    obtain z v where z: "collect_observation (s\<lparr>rt_world := w\<rparr>) = (z, s\<lparr>rt_world := v\<rparr>)"
      using collect_observation_world [of "s\<lparr>rt_world := w\<rparr>"] by fastforce
    show ?thesis
    proof (cases z)
      case (Inl e)
      then show ?thesis using run unfold Inr z fail [of "''observe''" e v] by (auto simp: s_def)
    next
      case (Inr ob)
      let ?t = "s\<lparr>rt_world := v, rt_observation := ob\<rparr>"
      have r': "r' = ?t" "x = Inr ob" using run unfold \<open>y = Inr u\<close> z Inr by simp_all
      have "observation_of (s\<lparr>rt_world := w\<rparr>) ob" using collect_observation_ok(2) [OF z Inr] .
      then have "running_ok ?t"
        by (simp add: running_ok_def observation_of_def follows_trace_def s_def new_trace_def
            last_step_def trace_effects_def)
      moreover have "recording_ok ?t" using rec by (simp add: recording_ok_def)
      ultimately have "runtime_ok ?t" using id res
        by (simp add: runtime_ok_def) (simp add: s_def)
      then show ?thesis using r' by (simp add: s_def new_trace_def)
    qed
  qed
  then show "runtime_ok r'" and "x = Inr ob \<Longrightarrow> rt_observation r' = ob \<and> rt_time r' = 0 \<and>
    tr_steps (rt_trace r') = [] \<and> rt_network r' = new_network \<and> rt_initialized r' \<and> \<not> rt_terminated r'"
    and "x = Inl e \<Longrightarrow> rt_initialized r' \<and> rt_terminated r' \<and> rt_failure r' \<noteq> None"
    by auto
qed

section \<open>Executing an action\<close>

lemma execute_step_cases:
  assumes "execute_step a r0 = (x, r')"
  obtains (failed) e r1 where "apply_action a r0 = (Inl e, r1)" "x = Inl e"
      "r' = record_failure ''execute'' (Some a) (rt_observation r0) e (r1\<lparr>rt_terminated := True\<rparr>)"
  | (unobserved) es r1 w e where "apply_action a r0 = (Inr es, r1)" "x = Inl e"
      "r' = record_failure ''observe'' (Some a) (rt_observation r0) e
              (r1\<lparr>rt_last_action := Some a, rt_world := w, rt_terminated := True\<rparr>)"
  | (unrecorded) es r1 w ob e where "apply_action a r0 = (Inr es, r1)"
      "observation_of (r1\<lparr>rt_last_action := Some a\<rparr>) ob"
      "\<And>d. \<not> step_ok (tr_version (rt_trace r1)) (length (tr_steps (rt_trace r1)))
         (last_step None (tr_steps (rt_trace r1))) (step_record_of r0 r1 a es ob d)"
      "x = Inl e" "r' = r1\<lparr>rt_last_action := Some a, rt_world := w, rt_terminated := True\<rparr>"
  | (executed) es r1 w ob d t where "apply_action a r0 = (Inr es, r1)"
      "observation_of (r1\<lparr>rt_last_action := Some a\<rparr>) ob"
      "trace_append (rt_trace r1) (step_record_of r0 r1 a es ob d) = Inr t"
      "x = Inr \<lparr>sres_record = step_record_of r0 r1 a es ob d, sres_before_observation = rt_observation r0,
                sres_observation = ob\<rparr>"
      "r' = r1\<lparr>rt_last_action := Some a, rt_world := w, rt_trace := t,
              rt_action_count := rt_action_count r1 + 1, rt_observation := ob\<rparr>"
proof (cases "apply_action a r0")
  case (Pair y r1)
  show ?thesis
  proof (cases y)
    case (Inl e)
    then show ?thesis using assms Pair failed [of e r1] by (simp add: execute_step_def)
  next
    case (Inr es)
    let ?s = "r1\<lparr>rt_last_action := Some a\<rparr>"
    obtain z w where z: "collect_observation ?s = (z, ?s\<lparr>rt_world := w\<rparr>)"
      by (rule collect_observation_world [of ?s])
    show ?thesis
    proof (cases z)
      case (Inl e)
      then show ?thesis using assms Pair \<open>y = Inr es\<close> z unobserved [of es r1 e w]
        by (simp add: execute_step_def)
    next
      case ob: (Inr ob)
      have ok: "observation_of ?s ob" using collect_observation_ok(2) [OF z ob] .
      have "observation_validate ob = None" using ok by (simp add: observation_of_def)
      then obtain d where d: "observation_digest (rt_adapter r1) ob = Inr d"
        using observation_digest_total by blast
      have rec: "step_record_of r0 (?s\<lparr>rt_world := w\<rparr>) a es ob d = step_record_of r0 r1 a es ob d"
        by (simp add: step_record_of_def)
      show ?thesis
      proof (cases "trace_append (rt_trace r1) (step_record_of r0 r1 a es ob d)")
        case (Inr t)
        then show ?thesis using assms Pair \<open>y = Inr es\<close> z ob d rec executed [of es r1 ob d t w] ok
          by (simp add: execute_step_def Let_def)
      next
        case (Inl e)
        have refused: "\<not> step_ok (tr_version (rt_trace r1)) (length (tr_steps (rt_trace r1)))
            (last_step None (tr_steps (rt_trace r1))) (step_record_of r0 r1 a es ob d')" for d'
        proof -
          have "step_ok v i p (step_record_of r0 r1 a es ob d') = step_ok v i p (step_record_of r0 r1 a es ob d)" for v i p
            by (simp add: step_ok_def step_record_of_def step_record_validate_None)
          then show ?thesis using Inl trace_append_Inr by (metis sum.distinct(1))
        qed
        have "\<exists>e'. x = Inl e'" and "r' = r1\<lparr>rt_last_action := Some a, rt_world := w, rt_terminated := True\<rparr>"
          using assms Pair \<open>y = Inr es\<close> z ob d rec Inl by (auto simp: execute_step_def Let_def)
        then show ?thesis using Pair \<open>y = Inr es\<close> ok refused unrecorded by blast
      qed
    qed
  qed
qed

text \<open>A step of a running execution is refused by the trace only for want of node snapshots.\<close>

lemma step_of_running_ok:
  assumes ok: "runtime_ok r0" and run: "rt_initialized r0" "\<not> rt_terminated r0"
    and valid: "action_validate a = None"
    and app: "apply_action a r0 = (Inr es, r1)" and ob: "observation_of (r1\<lparr>rt_last_action := Some a\<rparr>) ob"
    and tr: "rt_trace r1 = rt_trace r0"
    and nodes: "obs_nodes (rt_observation r0) \<noteq> []" "obs_nodes ob \<noteq> []"
  shows "step_ok (tr_version (rt_trace r1)) (length (tr_steps (rt_trace r1)))
    (last_step None (tr_steps (rt_trace r1))) (step_record_of r0 r1 a es ob d)"
proof -
  have res: "resources_ok r0" and running: "running_ok r0" using ok run by (simp_all add: runtime_ok_def)
  have app': "effects_recorded r0 es r1" and time: "if act_kind a = ActionAdvanceTime
      then rt_time r0 < rt_time r1 \<and> rt_time r1 = act_target_time a else rt_time r1 = rt_time r0"
    using apply_action_Inr [OF res app] by blast+
  have "validate_node_snapshot (obs_nodes (rt_observation r0)) = None"
    and "validate_node_snapshot (obs_nodes ob) = None"
    using running ob validate_node_snapshot_of_observation
    by (simp_all add: running_ok_def observation_of_def)
  then have "step_record_validate (step_record_of r0 r1 a es ob d) = None"
    using app' time valid
    by (cases "act_kind a = ActionAdvanceTime")
       (auto simp: step_record_validate_None step_record_of_def effects_recorded_def list_all_iff)
  moreover have "\<forall>p. last_step None (tr_steps (rt_trace r1)) = Some p \<longrightarrow> rt_time r0 = sr_time_after p"
    using running tr by (auto simp: running_ok_def follows_trace_def)
  ultimately show ?thesis using nodes by (simp add: step_ok_def step_record_of_def)
qed

text \<open>What a successful step has done, and how a step can fail.\<close>

definition time_step :: "action \<Rightarrow> logical_time \<Rightarrow> logical_time \<Rightarrow> bool" where
  "time_step a before after \<longleftrightarrow>
     (if act_kind a = ActionAdvanceTime then before < after \<and> after = act_target_time a else after = before)"

definition step_executed :: "action \<Rightarrow> 'w runtime \<Rightarrow> step_result \<Rightarrow> 'w runtime \<Rightarrow> bool" where
  "step_executed a r res r' \<longleftrightarrow>
     sr_action (sres_record res) = a \<and>
     sr_time_before (sres_record res) = rt_time r \<and> sr_time_after (sres_record res) = rt_time r' \<and>
     time_step a (rt_time r) (rt_time r') \<and>
     tr_steps (rt_trace r') = tr_steps (rt_trace r) @ [sres_record res] \<and>
     sres_before_observation res = rt_observation r \<and> sres_observation res = rt_observation r' \<and>
     rt_initialized r' \<and> \<not> rt_terminated r' \<and> rt_config r' = rt_config r \<and> rt_adapter r' = rt_adapter r"

definition step_failed :: "'w runtime \<Rightarrow> 'w runtime \<Rightarrow> bool" where
  "step_failed r r' \<longleftrightarrow>
     rt_initialized r' \<and> rt_terminated r' \<and> rt_trace r' = rt_trace r \<and>
     rt_config r' = rt_config r \<and> rt_adapter r' = rt_adapter r"

lemma action_budget_step:
  fixes c m :: u64
  assumes "c = of_nat k" "k \<le> unat m" "\<not> c \<ge> m"
  shows "Suc k \<le> unat m"
proof -
  have "unat m < 2 ^ 64" using unsigned_less [of m] by simp
  then have "unat c = k" using assms(1,2) by (simp add: unat_of_nat)
  then show ?thesis using assms(3) by (simp add: not_le word_less_nat_alt)
qed

lemma execute_step_ok:
  assumes ok: "runtime_ok r0" and run: "rt_initialized r0" "\<not> rt_terminated r0"
    and valid: "action_validate a = None" and budget: "validate_budget a r0 = None"
    and step: "execute_step a r0 = (x, r')"
  shows "runtime_ok r'" and "x = Inr res \<Longrightarrow> step_executed a r0 res r'"
    and "x = Inl e \<Longrightarrow> step_failed r0 r'"
proof -
  have res: "resources_ok r0" and rec: "recording_ok r0" and running: "running_ok r0"
    using ok run by (simp_all add: runtime_ok_def)
  have applied: "resources_ok r1" "runtime_frame r0 r1" if "apply_action a r0 = (y, r1)" for y r1
    using apply_action_ok [OF res budget that] by (simp_all add: applied_ok_def)
  have failed0: "runtime_ok s \<and> step_failed r0 s"
    if "apply_action a r0 = (y, r1)" "s = record_failure op (Some a) ob e (r1\<lparr>rt_terminated := True\<rparr>) \<or>
        s = record_failure op (Some a) ob e (r1\<lparr>rt_last_action := Some a, rt_world := w, rt_terminated := True\<rparr>) \<or>
        s = r1\<lparr>rt_last_action := Some a, rt_world := w, rt_terminated := True\<rparr>" for y r1 s op ob e w
  proof -
    have "rt_config s = rt_config r1 \<and> rt_trace s = rt_trace r1 \<and> rt_action_count s = rt_action_count r1 \<and>
        rt_initialized s = rt_initialized r1 \<and> rt_terminated s \<and> rt_adapter s = rt_adapter r1 \<and>
        rt_network s = rt_network r1 \<and> rt_effect_count s = rt_effect_count r1"
      using that(2) by auto
    then show ?thesis using applied [OF that(1)] run rec ok
      by (auto simp: runtime_ok_def step_failed_def runtime_frame_def resources_ok_def recording_ok_def
          effects_budget_ok_def queue_budget_ok_def)
  qed
  have "runtime_ok r' \<and> (\<forall>res. x = Inr res \<longrightarrow> step_executed a r0 res r') \<and> (\<forall>e. x = Inl e \<longrightarrow> step_failed r0 r')"
    using step
  proof (cases rule: execute_step_cases)
    case (failed e r1)
    then show ?thesis using failed0 [of "Inl e" r1 r'] by blast
  next
    case (unobserved es r1 w e)
    then show ?thesis using failed0 [of "Inr es" r1 r'] by blast
  next
    case (unrecorded es r1 w ob e)
    then show ?thesis using failed0 [of "Inr es" r1 r'] by blast
  next
    case (executed es r1 w ob d t)
    have r1: "resources_ok r1" "runtime_frame r0 r1" using applied executed(1) by blast+
    have time: "time_step a (rt_time r0) (rt_time r1)" and eff: "effects_recorded r0 es r1"
      using apply_action_Inr [OF res executed(1)] unfolding time_step_def by blast+
    let ?s = "step_record_of r0 r1 a es ob d"
    have t: "t = (rt_trace r0)\<lparr>tr_steps := tr_steps (rt_trace r0) @ [?s]\<rparr>"
      using executed(3) r1(2) by (simp add: trace_append_Inr runtime_frame_def)
    have valid': "trace_validate t = None"
      using trace_append_valid [OF _ executed(3)] rec r1(2) by (simp add: recording_ok_def runtime_frame_def)
    have total: "trace_effects t = trace_effects (rt_trace r0) + length es"
      by (simp add: t trace_effects_def step_record_of_def)
    have count: "trace_effects t = unat (rt_effect_count r1)"
      if "max_effects (cfg_limits (rt_config r0)) \<noteq> 0"
    proof -
      have "unat (rt_effect_count r1) = unat (rt_effect_count r0) + length es"
        using that eff unfolding effects_recorded_def effects_counted_def by blast
      moreover have "trace_effects (rt_trace r0) = unat (rt_effect_count r0)"
        using that running unfolding running_ok_def by blast
      ultimately show ?thesis using total by linarith
    qed
    have within: "rt_effect_count r1 \<le> max_effects (cfg_limits (rt_config r0))"
      if "max_effects (cfg_limits (rt_config r0)) \<noteq> 0"
      using that r1 by (simp add: resources_ok_def effects_budget_ok_def runtime_frame_def)
    have steps: "length (tr_steps t) \<le> unat (max_actions (cfg_limits (rt_config r0)))"
      if "max_actions (cfg_limits (rt_config r0)) \<noteq> 0"
      using that rec budget action_budget_step [of "rt_action_count r0" "length (tr_steps (rt_trace r0))"]
      by (simp add: t recording_ok_def validate_budget_def Let_def split: if_splits)
    have "recording_ok r'"
      using executed(5) r1(2) rec valid' count within steps t
      by (simp add: recording_ok_def runtime_frame_def word_le_nat_alt)
    moreover have "running_ok r'"
      using executed(5) r1(2) running t count executed(2)
      by (simp add: running_ok_def runtime_frame_def follows_trace_def last_step_def observation_of_def
          step_record_of_def)
    moreover have "resources_ok r'"
      using executed(5) r1 by (simp add: resources_ok_def effects_budget_ok_def queue_budget_ok_def)
    moreover have "step_executed a r0 res r'" if "x = Inr res" for res
    proof -
      have "res = \<lparr>sres_record = ?s, sres_before_observation = rt_observation r0, sres_observation = ob\<rparr>"
        using that executed(4) by simp
      moreover have "sr_action ?s = a" "sr_time_before ?s = rt_time r0" "sr_time_after ?s = rt_time r1"
        by (simp_all add: step_record_of_def)
      ultimately show ?thesis
        using executed(5) r1(2) run time unfolding t step_executed_def runtime_frame_def by simp
    qed
    ultimately show ?thesis using executed(4,5) ok r1(2) by (simp add: runtime_ok_def runtime_frame_def)
  qed
  then show "runtime_ok r'" and "x = Inr res \<Longrightarrow> step_executed a r0 res r'"
    and "x = Inl e \<Longrightarrow> step_failed r0 r'" by auto
qed

lemma validate_preconditions_frame: "validate_preconditions a r = (e, r') \<Longrightarrow> \<exists>w. r' = r\<lparr>rt_world := w\<rparr>"
proof -
  assume run: "validate_preconditions a r = (e, r')"
  obtain y w where "call_sut ''capabilities'' (ad_capabilities (rt_adapter r)) r = (y, r\<lparr>rt_world := w\<rparr>)"
    by (metis call_sut_frame prod.collapse)
  then show ?thesis using run
    by (cases y) (auto simp: validate_preconditions_def split: option.splits if_splits)
qed

lemma validate_budget_world [simp]: "validate_budget a (r\<lparr>rt_world := w\<rparr>) = validate_budget a r"
  by (simp add: validate_budget_def Let_def)

text \<open>\<open>Execute\<close> rejects an action before anything has happened, dies, or performs a whole step.\<close>

lemma runtime_execute_cases:
  assumes "runtime_execute a r = (x, r')"
  obtains (rejected) e w where "x = Inl e" "r' = r\<lparr>rt_world := w\<rparr>"
  | (panicked) e w where "x = Inl e" "rt_initialized r" "\<not> rt_terminated r" "errors_is e ErrSUTPanic"
      "r' = record_failure ''capabilities'' (Some a) (rt_observation r) e (r\<lparr>rt_world := w, rt_terminated := True\<rparr>)"
  | (stepped) w where "rt_initialized r" "\<not> rt_terminated r" "action_validate a = None"
      "validate_budget a r = None" "execute_step a (r\<lparr>rt_world := w\<rparr>) = (x, r')"
proof -
  have world: "r = r\<lparr>rt_world := rt_world r\<rparr>" by simp
  show ?thesis
  proof (cases "rt_initialized r \<and> \<not> rt_terminated r")
    case False
    then have "r' = r" "\<exists>e. x = Inl e" using assms by (auto simp: runtime_execute_def split: if_splits)
    then show ?thesis using rejected world by metis
  next
    case True
    obtain ec w where c: "check_context r = (ec, r\<lparr>rt_world := w\<rparr>)"
      using check_context_frame by (metis prod.collapse)
    show ?thesis
    proof (cases "ec \<noteq> None \<or> action_validate a \<noteq> None \<or> validate_budget a r \<noteq> None")
      case bad: True
      then have "r' = r\<lparr>rt_world := w\<rparr>" "\<exists>e. x = Inl e"
        using assms True c by (auto simp: runtime_execute_def split: option.splits)
      then show ?thesis using rejected by blast
    next
      case good: False
      obtain p s where ps: "validate_preconditions a (r\<lparr>rt_world := w\<rparr>) = (p, s)" by fastforce
      then obtain v where "s = r\<lparr>rt_world := v\<rparr>" using validate_preconditions_frame by fastforce
      with ps have p: "validate_preconditions a (r\<lparr>rt_world := w\<rparr>) = (p, r\<lparr>rt_world := v\<rparr>)" by simp
      show ?thesis
      proof (cases p)
        case None
        then show ?thesis using assms True c good p stepped [of v]
          by (simp add: runtime_execute_def)
      next
        case (Some e)
        then have x: "x = Inl e" and r': "r' = (if errors_is e ErrSUTPanic
            then record_failure ''capabilities'' (Some a) (rt_observation r) e
                (r\<lparr>rt_world := v, rt_terminated := True\<rparr>) else r\<lparr>rt_world := v\<rparr>)"
          using assms True c good p by (auto simp: runtime_execute_def)
        show ?thesis
        proof (cases "errors_is e ErrSUTPanic")
          case True
          then show ?thesis using panicked x r' \<open>rt_initialized r \<and> _\<close> by simp
        next
          case False
          then show ?thesis using rejected x r' by simp
        qed
      qed
    qed
  qed
qed

section \<open>Runs of the runtime\<close>

text \<open>Any sequence of calls of the two operations that change a runtime.\<close>

datatype runtime_call = CallReset | CallExecute action

fun runtime_call_apply :: "'w runtime \<Rightarrow> runtime_call \<Rightarrow> 'w runtime" where
  "runtime_call_apply r CallReset = snd (runtime_reset r)"
| "runtime_call_apply r (CallExecute a) = snd (runtime_execute a r)"

definition runtime_run :: "'w runtime \<Rightarrow> runtime_call list \<Rightarrow> 'w runtime" where
  "runtime_run r calls = foldl runtime_call_apply r calls"

lemma runtime_execute_ok:
  assumes ok: "runtime_ok r" and run: "runtime_execute a r = (x, r')"
  shows "runtime_ok r'" and "x = Inr res \<Longrightarrow> step_executed a r res r'"
    and "x = Inl e \<Longrightarrow> (\<exists>w. r' = r\<lparr>rt_world := w\<rparr>) \<or> step_failed r r'"
proof -
  have "runtime_ok r' \<and> (x = Inr res \<longrightarrow> step_executed a r res r') \<and>
      (x = Inl e \<longrightarrow> (\<exists>w. r' = r\<lparr>rt_world := w\<rparr>) \<or> step_failed r r')"
    using run
  proof (cases rule: runtime_execute_cases)
    case (rejected e' w)
    then show ?thesis using ok by auto
  next
    case (panicked e' w)
    have "runtime_ok r'"
      by (rule runtime_ok_terminated [OF ok]) (use ok panicked in \<open>simp_all add: runtime_ok_def resources_ok_def
          effects_budget_ok_def queue_budget_ok_def\<close>)
    moreover have "step_failed r r'" using panicked by (simp add: step_failed_def)
    ultimately show ?thesis using panicked(1) by simp
  next
    case (stepped w)
    let ?r = "r\<lparr>rt_world := w\<rparr>"
    have "runtime_ok ?r" "rt_initialized ?r" "\<not> rt_terminated ?r" "validate_budget a ?r = None"
      using ok stepped by simp_all
    note step = execute_step_ok [OF this(1-3) stepped(3) this(4) stepped(5)]
    have "runtime_ok r'" by (rule step(1))
    moreover have "step_executed a r res r'" if "x = Inr res"
      using step(2) [OF that] by (simp add: step_executed_def)
    moreover have "step_failed r r'" if "x = Inl e" using step(3) [OF that] by (simp add: step_failed_def)
    ultimately show ?thesis by blast
  qed
  then show "runtime_ok r'" and "x = Inr res \<Longrightarrow> step_executed a r res r'"
    and "x = Inl e \<Longrightarrow> (\<exists>w. r' = r\<lparr>rt_world := w\<rparr>) \<or> step_failed r r'" by auto
qed

lemma runtime_call_ok: "runtime_ok r \<Longrightarrow> runtime_ok (runtime_call_apply r c)"
  by (cases c) (auto intro: runtime_reset_ok(1) runtime_execute_ok(1) prod.collapse [symmetric])

lemma runtime_run_ok: "runtime_ok r \<Longrightarrow> runtime_ok (runtime_run r calls)"
  unfolding runtime_run_def by (induction calls arbitrary: r) (simp_all add: runtime_call_ok)

section \<open>The clock stays within the tick budget\<close>

lemma advance_tick_time_le:
  assumes "advance_tick r = (x, r')"
  shows "rt_time r' = rt_time r \<or> rt_time r' = rt_time r + 1"
  using assms
proof (cases rule: advance_tick_cases)
  case (recorded es w y)
  then show ?thesis using process_adapter_effects_frame [OF recorded(1)] by auto
qed auto

lemma advance_loop_time_le:
  "rt_time r \<le> target \<Longrightarrow> advance_loop target acc r = (x, r') \<Longrightarrow> rt_time r' \<le> target"
proof (induction target acc r rule: advance_loop.induct)
  case (1 target acc r)
  show ?case
  proof (cases "rt_time r < target")
    case False
    then show ?thesis using 1 by (simp add: advance_loop.simps [of target acc r])
  next
    case True
    obtain y r1 where t: "advance_tick r = (y, r1)" by fastforce
    have "rt_time r \<noteq> - 1" using True by (auto simp: not_less [symmetric])
    then have "rt_time r + 1 \<le> target"
      using True by (simp add: word_less_nat_alt word_le_nat_alt unat_less_max_Suc)
    then have le: "rt_time r1 \<le> target" using advance_tick_time_le [OF t] 1(2) by auto
    show ?thesis
    proof (cases y)
      case (Inl e)
      then show ?thesis using 1(3) True t le by (simp add: advance_loop.simps [of target acc r])
    next
      case (Inr es)
      then have "advance_loop target (acc @ es) r1 = (x, r')"
        using 1(3) True t by (simp add: advance_loop.simps [of target acc r])
      then show ?thesis using 1(1) [OF _ t [symmetric] Inr le] True by simp
    qed
  qed
qed

lemma apply_adapter_call_time:
  "apply_adapter_call op detail f r = (x, r') \<Longrightarrow> rt_time r' = rt_time r"
  by (erule apply_adapter_call_cases) (auto dest: process_adapter_effects_frame)

lemma apply_deliver_time:
  assumes "apply_deliver a r = (x, r')"
  shows "rt_time r' = rt_time r"
proof (cases "network_resolve (rt_network r) (act_message a) (the (act_selector a))")
  case (Inl e)
  then show ?thesis using assms by (simp add: apply_deliver_def)
next
  case (Inr q)
  obtain y w where "call_sut ''deliver'' (ad_deliver (rt_adapter r) (rt_time r) (qm_message q)) r
      = (y, r\<lparr>rt_world := w\<rparr>)"
    by (metis call_sut_frame prod.collapse)
  then show ?thesis using assms Inr
    by (auto simp: apply_deliver_def split: sum.splits prod.splits dest!: process_adapter_effects_frame)
qed

lemma apply_action_time:
  assumes "apply_action a r = (x, r')"
  shows "rt_time r' = rt_time r \<or> (act_kind a = ActionAdvanceTime \<and> rt_time r' \<le> act_target_time a)"
proof (cases "act_kind a")
  case ActionAdvanceTime
  then show ?thesis using assms
    by (auto simp: apply_action_def advance_time_def not_le split: if_splits
        dest: advance_loop_time_le [OF order.strict_implies_order])
next
  case ActionTimeout
  obtain y s where "apply_adapter_call ''force_timeout'' (''timeout node '' @ node_id_text (act_node a))
             (ad_force_timeout (rt_adapter r) (rt_time r) (act_node a)) r = (y, s)" by fastforce
  then show ?thesis using assms ActionTimeout apply_adapter_call_time
    by (cases y) (fastforce simp: apply_action_def split: option.splits)+
qed (use assms apply_adapter_call_time apply_deliver_time in
      \<open>auto simp: apply_action_def split: sum.splits\<close>)

definition ticks_ok :: "'w runtime \<Rightarrow> bool" where
  "ticks_ok r \<longleftrightarrow> (max_ticks (cfg_limits (rt_config r)) \<noteq> 0 \<longrightarrow> rt_time r \<le> max_ticks (cfg_limits (rt_config r)))"

lemma record_failure_time [simp]: "rt_time (record_failure op a ob e r) = rt_time r"
  by (simp add: record_failure_def Let_def)

lemma runtime_execute_ticks:
  assumes rok: "runtime_ok r" and ok: "ticks_ok r" and run: "runtime_execute a r = (x, r')"
  shows "ticks_ok r'"
  using run
proof (cases rule: runtime_execute_cases)
  case (rejected e w)
  then show ?thesis using ok by (simp add: ticks_ok_def)
next
  case (panicked e w)
  then show ?thesis using ok by (simp add: ticks_ok_def)
next
  case (stepped w)
  let ?r = "r\<lparr>rt_world := w\<rparr>"
  obtain y r1 where app: "apply_action a ?r = (y, r1)" by fastforce
  have "rt_config r' = rt_config r1 \<and> rt_time r' = rt_time r1"
    using stepped(5) by (cases rule: execute_step_cases) (use app in auto)
  moreover have "rt_config r1 = rt_config r"
    using apply_action_ok [OF _ _ app] rok stepped(4)
    by (simp add: runtime_ok_def applied_ok_def runtime_frame_def)
  moreover have "rt_time r1 = rt_time r \<or> (act_kind a = ActionAdvanceTime \<and> rt_time r1 \<le> act_target_time a)"
    using apply_action_time [OF app] by simp
  ultimately show ?thesis using ok stepped(4)
    by (auto simp: ticks_ok_def validate_budget_def Let_def not_less split: if_splits)
qed

lemma runtime_reset_frame:
  assumes "runtime_reset r = (x, r')"
  shows "rt_time r' = 0 \<and> rt_config r' = rt_config r \<and> rt_adapter r' = rt_adapter r"
proof -
  let ?s = "r\<lparr>rt_network := new_network, rt_time := 0,
            rt_trace := new_trace (cfg_execution_id (rt_config r)) (cfg_seed (rt_config r)),
            rt_last_action := None, rt_action_count := 0, rt_effect_count := 0,
            rt_initialized := True, rt_terminated := False, rt_failure := None\<rparr>"
  obtain y w where y: "call_sut ''reset'' (ad_reset (rt_adapter ?s) (cfg_seed (rt_config ?s))) ?s = (y, ?s\<lparr>rt_world := w\<rparr>)"
    by (metis call_sut_frame prod.collapse)
  obtain z v where z: "collect_observation (?s\<lparr>rt_world := w\<rparr>) = (z, (?s\<lparr>rt_world := w\<rparr>)\<lparr>rt_world := v\<rparr>)"
    by (rule collect_observation_world [of "?s\<lparr>rt_world := w\<rparr>"])
  show ?thesis using assms y z by (cases y; cases z) (auto simp: runtime_reset_def Let_def)
qed

lemma runtime_call_ticks:
  assumes "runtime_ok r" "ticks_ok r"
  shows "ticks_ok (runtime_call_apply r c)"
proof (cases c)
  case CallReset
  obtain x r' where run: "runtime_reset r = (x, r')" by fastforce
  then have "rt_time r' = 0" using runtime_reset_frame by blast
  then show ?thesis using CallReset run by (simp add: ticks_ok_def)
next
  case (CallExecute a)
  then show ?thesis using runtime_execute_ticks [OF assms] by (cases "runtime_execute a r") simp
qed

lemma runtime_run_ticks: "runtime_ok r \<Longrightarrow> ticks_ok r \<Longrightarrow> ticks_ok (runtime_run r calls)"
  unfolding runtime_run_def
  by (induction calls arbitrary: r) (simp_all add: runtime_call_ok runtime_call_ticks)


lemma runtime_execute_frame:
  assumes "runtime_ok r" "runtime_execute a r = (x, r')"
  shows "rt_config r' = rt_config r \<and> rt_adapter r' = rt_adapter r"
proof (cases x)
  case (Inl e)
  then show ?thesis using runtime_execute_ok(3) [OF assms Inl] by (auto simp: step_failed_def)
next
  case (Inr res)
  then show ?thesis using runtime_execute_ok(2) [OF assms Inr] by (simp add: step_executed_def)
qed

lemma runtime_call_frame:
  "runtime_ok r \<Longrightarrow> rt_config (runtime_call_apply r c) = rt_config r \<and> rt_adapter (runtime_call_apply r c) = rt_adapter r"
  by (cases c) (auto dest: runtime_reset_frame runtime_execute_frame [OF _ prod.collapse [symmetric]]
      intro: prod.collapse [symmetric] simp: runtime_reset_frame [OF prod.collapse [symmetric]])

lemma runtime_run_frame:
  "runtime_ok r \<Longrightarrow> rt_config (runtime_run r calls) = rt_config r \<and> rt_adapter (runtime_run r calls) = rt_adapter r"
  unfolding runtime_run_def
  by (induction calls arbitrary: r) (simp_all add: runtime_call_ok runtime_call_frame)

section \<open>What the runtime guarantees\<close>

lemma new_runtime_fields:
  "runtime_new ad c w = Inr r \<Longrightarrow> rt_config r = c \<and> rt_time r = 0 \<and> ticks_ok r \<and> \<not> rt_initialized r"
  by (auto simp: runtime_new_def ticks_ok_def split: option.splits)

text \<open>C2: After any sequence of calls on a new runtime, its trace passes \<open>Trace.Validate\<close>; and as long
  as it is running, the current observation is valid, carries the clock, lists exactly the messages
  of the network in ID order and the action of the last step, and the clock is where the last
  recorded step has left it.\<close>

theorem runtime_run_consistent:
  "(case runtime_new ad c w of
      Inl _ \<Rightarrow> True
    | Inr r0 \<Rightarrow>
        (let r = runtime_run r0 calls in
          network_wf (rt_network r) \<and>
          (case runtime_trace r of Inl _ \<Rightarrow> True | Inr t \<Rightarrow> trace_validate t = None) \<and>
          (case current_observation r of
             Inl _ \<Rightarrow> True
           | Inr ob \<Rightarrow> observation_validate ob = None \<and> obs_time ob = rt_time r \<and>
               obs_messages ob = sort_key mo_id (network_observations (rt_network r)) \<and>
               obs_last_action ob = map_option sr_action (last_step None (tr_steps (rt_trace r))) \<and>
               rt_time r = (case last_step None (tr_steps (rt_trace r)) of None \<Rightarrow> 0 | Some s \<Rightarrow> sr_time_after s))))"
proof (cases "runtime_new ad c w")
  case (Inr r0)
  let ?r = "runtime_run r0 calls"
  have ok: "runtime_ok ?r" using runtime_run_ok [OF new_runtime_ok [OF Inr]] .
  show ?thesis
  proof (cases "rt_initialized ?r \<and> \<not> rt_terminated ?r")
    case True
    then have "recording_ok ?r" "running_ok ?r" using ok by (simp_all add: runtime_ok_def)
    then show ?thesis using Inr True ok
      by (cases "last_step None (tr_steps (rt_trace ?r))")
         (simp_all add: Let_def runtime_trace_def current_observation_def runtime_ok_def recording_ok_def
            running_ok_def observation_of_def follows_trace_def resources_ok_def)
  next
    case False
    then show ?thesis using Inr ok
      by (auto simp: Let_def runtime_trace_def current_observation_def runtime_ok_def recording_ok_def
          resources_ok_def)
  qed
qed simp

text \<open>C26: No sequence of calls ever exceeds a budget that is set: not the number of recorded steps, not
  the number of recorded effects, not the clock and not the number of queued messages.\<close>

theorem runtime_run_within_budgets:
  "(case runtime_new ad c w of
      Inl _ \<Rightarrow> True
    | Inr r0 \<Rightarrow>
        (let r = runtime_run r0 calls; limits = cfg_limits c in
          (max_ticks limits = 0 \<or> rt_time r \<le> max_ticks limits) \<and>
          (max_queued_messages limits = 0 \<or> int (network_len (rt_network r)) \<le> max_queued_messages limits) \<and>
          (case runtime_trace r of
             Inl _ \<Rightarrow> True
           | Inr t \<Rightarrow>
               (max_actions limits = 0 \<or> length (tr_steps t) \<le> unat (max_actions limits)) \<and>
               (max_effects limits = 0 \<or> trace_effects t \<le> unat (max_effects limits)))))"
proof (cases "runtime_new ad c w")
  case (Inr r0)
  let ?r = "runtime_run r0 calls"
  have ok0: "runtime_ok r0" by (rule new_runtime_ok [OF Inr])
  have ok: "runtime_ok ?r" and cfg: "rt_config ?r = c" and ticks: "ticks_ok ?r"
    using runtime_run_ok [OF ok0] runtime_run_frame [OF ok0] runtime_run_ticks [OF ok0] new_runtime_fields [OF Inr]
    by simp_all
  show ?thesis using Inr ok ticks
    by (auto simp: Let_def runtime_trace_def runtime_ok_def recording_ok_def resources_ok_def queue_budget_ok_def
        ticks_ok_def cfg)
qed simp

text \<open>C12: Every call of \<open>Execute\<close>, in any reachable state, does one of three things. It performs a whole
  step, recorded as the next step of the trace, whose action, clock interval and observations are
  those before and after the call, the clock moving only for an advance-time action and then to
  its target. Or it refuses without any change of the runtime. Or it fails: then the trace is as
  it was, and the execution is over, every later action being refused with \<open>ErrTerminated\<close>.\<close>

theorem runtime_execute_contract:
  "(case runtime_new ad c w of
      Inl _ \<Rightarrow> True
    | Inr r0 \<Rightarrow>
        (let r = runtime_run r0 calls in
          case runtime_execute a r of
            (Inr res, r') \<Rightarrow> step_executed a r res r'
          | (Inl e, r') \<Rightarrow> (\<exists>w. r' = r\<lparr>rt_world := w\<rparr>) \<or>
              (rt_trace r' = rt_trace r \<and> (\<forall>b. runtime_execute b r' = (Inl (sentinel_error ErrTerminated), r')))))"
proof (cases "runtime_new ad c w")
  case (Inr r0)
  obtain x r' where run: "runtime_execute a (runtime_run r0 calls) = (x, r')" by fastforce
  note execute = runtime_execute_ok [OF runtime_run_ok [OF new_runtime_ok [OF Inr]] run]
  show ?thesis
  proof (cases x)
    case (Inl e)
    then show ?thesis using execute(3) [OF Inl] Inr run
      by (auto simp: Let_def step_failed_def runtime_execute_def)
  next
    case x: (Inr res)
    then show ?thesis using execute(2) [OF x] Inr run by (simp add: Let_def)
  qed
qed simp

section \<open>Time advances tick by tick\<close>

fun run_ticks :: "nat \<Rightarrow> 'w runtime \<Rightarrow> (effect list, 'w) run_result" where
  "run_ticks 0 r = (Inr [], r)"
| "run_ticks (Suc n) r =
     (case advance_tick r of
        (Inl e, r') \<Rightarrow> (Inl e, r')
      | (Inr es, r') \<Rightarrow>
          (case run_ticks n r' of
             (Inl e, r'') \<Rightarrow> (Inl e, r'')
           | (Inr es', r'') \<Rightarrow> (Inr (es @ es'), r'')))"

lemma advance_loop_run_ticks:
  "unat target - unat (rt_time r) = n \<Longrightarrow>
     advance_loop target acc r =
       (case run_ticks n r of (Inl e, r') \<Rightarrow> (Inl e, r') | (Inr es, r') \<Rightarrow> (Inr (acc @ es), r'))"
proof (induction n arbitrary: acc r)
  case 0
  then have "\<not> rt_time r < target" by (simp add: word_less_nat_alt)
  then show ?case by (simp add: advance_loop.simps [of target acc r])
next
  case (Suc n)
  then have less: "rt_time r < target" by (simp add: word_less_nat_alt)
  obtain y r1 where t: "advance_tick r = (y, r1)" by fastforce
  show ?case
  proof (cases y)
    case (Inl e)
    then show ?thesis using less t by (simp add: advance_loop.simps [of target acc r])
  next
    case (Inr es)
    have "rt_time r \<noteq> - 1" using less by (auto simp: not_less [symmetric])
    then have "unat (rt_time r1) = Suc (unat (rt_time r))"
      using advance_tick_time [of r es r1] t Inr by (simp add: unat_less_max_Suc)
    then have "unat target - unat (rt_time r1) = n" using Suc.prems by simp
    from Suc.IH [OF this, of "acc @ es"] show ?thesis using less t Inr
      by (simp add: advance_loop.simps [of target acc r] split: prod.splits sum.splits)
  qed
qed

text \<open>C29: Advancing the clock to a target is, in every state, the same as performing exactly
  \<open>target - time\<close> single ticks, the effects of the ticks being joined in order and the first tick
  that fails ending the action with its error; a target that is not in the future is refused
  without any tick.\<close>

theorem advance_time_is_ticks:
  "advance_time target r =
     (if rt_time r < target then run_ticks (unat target - unat (rt_time r)) r
      else (Inl (errorf_v ErrInvalidAction (''target time '' @ format_uint target @
              '' must be greater than current time '' @ format_uint (rt_time r))), r))"
  using advance_loop_run_ticks [of target r "unat target - unat (rt_time r)" "[]"]
  by (cases "rt_time r < target")
     (auto simp: advance_time_def not_le not_less split: prod.splits sum.splits)

section \<open>Failure records\<close>

definition observes_nodes :: "'w sut_env \<Rightarrow> bool" where
  "observes_nodes env \<longleftrightarrow> (\<forall>t w ob w'. ad_observe env t w = Returns ob w' \<longrightarrow> obs_nodes ob \<noteq> [])"

text \<open>A terminated execution can name its failure.\<close>

definition failure_kept :: "'w runtime \<Rightarrow> bool" where
  "failure_kept r \<longleftrightarrow> (rt_terminated r \<longrightarrow> rt_failure r \<noteq> None) \<and>
     (rt_initialized r \<and> \<not> rt_terminated r \<longrightarrow> obs_nodes (rt_observation r) \<noteq> [])"

lemma collect_observation_nodes:
  assumes "observes_nodes (rt_adapter r)" "collect_observation r = (Inr ob, r')"
  shows "obs_nodes ob \<noteq> []"
proof -
  obtain y w where y: "call_sut ''observe'' (ad_observe (rt_adapter r) (rt_time r)) r = (y, r\<lparr>rt_world := w\<rparr>)"
    by (metis call_sut_frame prod.collapse)
  then obtain raw where raw: "y = Inr raw" using assms(2) by (cases y) (auto simp: collect_observation_def)
  have "obs_nodes raw \<noteq> []"
    using y raw assms(1)
    by (cases "ad_observe (rt_adapter r) (rt_time r) (rt_world r)")
       (auto simp: call_sut_def observes_nodes_def)
  then show ?thesis using assms(2) y raw
    by (auto simp: collect_observation_def Let_def observation_normalized_def
        split: if_splits option.splits dest: arg_cong [where f = length])
qed

lemma reset_failure_kept:
  assumes env: "observes_nodes (rt_adapter r)" and run: "runtime_reset r = (x, r')"
  shows "failure_kept r'"
proof -
  let ?s = "r\<lparr>rt_network := new_network, rt_time := 0,
            rt_trace := new_trace (cfg_execution_id (rt_config r)) (cfg_seed (rt_config r)),
            rt_last_action := None, rt_action_count := 0, rt_effect_count := 0,
            rt_initialized := True, rt_terminated := False, rt_failure := None\<rparr>"
  obtain y w where y: "call_sut ''reset'' (ad_reset (rt_adapter ?s) (cfg_seed (rt_config ?s))) ?s = (y, ?s\<lparr>rt_world := w\<rparr>)"
    by (metis call_sut_frame prod.collapse)
  obtain z v where z: "collect_observation (?s\<lparr>rt_world := w\<rparr>) = (z, (?s\<lparr>rt_world := w\<rparr>)\<lparr>rt_world := v\<rparr>)"
    by (rule collect_observation_world [of "?s\<lparr>rt_world := w\<rparr>"])
  have nodes: "obs_nodes ob \<noteq> []" if "z = Inr ob" for ob
    using collect_observation_nodes [of "?s\<lparr>rt_world := w\<rparr>" ob] env z that by simp
  show ?thesis using run y z nodes
    by (cases y; cases z) (auto simp: runtime_reset_def Let_def failure_kept_def)
qed

lemma execute_failure_kept:
  assumes env: "observes_nodes (rt_adapter r)" and ok: "runtime_ok r" "failure_kept r"
    and run: "runtime_execute a r = (x, r')"
  shows "failure_kept r'"
  using run
proof (cases rule: runtime_execute_cases)
  case (rejected e w)
  then show ?thesis using ok by (simp add: failure_kept_def)
next
  case (panicked e w)
  then show ?thesis by (simp add: failure_kept_def)
next
  case (stepped w)
  let ?r = "r\<lparr>rt_world := w\<rparr>"
  have before: "obs_nodes (rt_observation ?r) \<noteq> []" using ok(2) stepped(1,2) by (simp add: failure_kept_def)
  have rok: "runtime_ok ?r" using ok by simp
  then have res: "resources_ok ?r" by (simp add: runtime_ok_def)
  have budget: "validate_budget a ?r = None" using stepped(4) by simp
  have frame: "runtime_frame ?r r1" if "apply_action a ?r = (y, r1)" for y r1
    using apply_action_ok [OF res budget that] by (simp add: applied_ok_def)
  show ?thesis
  proof (cases "\<exists>es r1 ob u. apply_action a ?r = (Inr es, r1) \<and>
      collect_observation (r1\<lparr>rt_last_action := Some a\<rparr>) = (Inr ob, r1\<lparr>rt_last_action := Some a, rt_world := u\<rparr>)")
    case True
    then obtain es r1 ob u where app: "apply_action a ?r = (Inr es, r1)"
      and coll: "collect_observation (r1\<lparr>rt_last_action := Some a\<rparr>) = (Inr ob, r1\<lparr>rt_last_action := Some a, rt_world := u\<rparr>)"
      by blast
    have fr: "runtime_frame ?r r1" by (rule frame [OF app])
    have nodes: "obs_nodes ob \<noteq> []"
      using collect_observation_nodes [OF _ coll] env fr by (simp add: runtime_frame_def)
    have obs: "observation_of (r1\<lparr>rt_last_action := Some a\<rparr>) ob" using collect_observation_ok(2) [OF coll refl] .
    have accepted: "\<exists>t. trace_append (rt_trace r1) (step_record_of ?r r1 a es ob d) = Inr t" for d
      using step_of_running_ok [OF rok _ _ stepped(3) app obs _ before nodes] stepped(1,2) fr
      by (simp add: trace_append_Inr runtime_frame_def)
    obtain d where d: "observation_digest (rt_adapter r1) ob = Inr d"
      using observation_digest_total obs unfolding observation_of_def by blast
    obtain t where t: "trace_append (rt_trace r1) (step_record_of ?r r1 a es ob d) = Inr t"
      using accepted by blast
    have "step_record_of ?r (r1\<lparr>rt_last_action := Some a, rt_world := u\<rparr>) a es ob d = step_record_of ?r r1 a es ob d"
      by (simp add: step_record_of_def)
    then have "r' = r1\<lparr>rt_last_action := Some a, rt_world := u, rt_trace := t,
              rt_action_count := rt_action_count r1 + 1, rt_observation := ob\<rparr>"
      using stepped(5) app coll d t by (simp add: execute_step_def Let_def)
    then show ?thesis using nodes fr stepped(2) by (simp add: failure_kept_def runtime_frame_def)
  next
    case False
    have "rt_terminated r' \<and> rt_failure r' \<noteq> None"
    proof (cases "apply_action a ?r")
      case (Pair y r1)
      show ?thesis
      proof (cases y)
        case (Inl e)
        then show ?thesis using stepped(5) Pair by (auto simp: execute_step_def)
      next
        case (Inr es)
        obtain z u where z: "collect_observation (r1\<lparr>rt_last_action := Some a\<rparr>)
            = (z, (r1\<lparr>rt_last_action := Some a\<rparr>)\<lparr>rt_world := u\<rparr>)"
          by (rule collect_observation_world [of "r1\<lparr>rt_last_action := Some a\<rparr>"])
        have "z \<noteq> Inr ob" for ob
        proof
          assume "z = Inr ob"
          then have "apply_action a ?r = (Inr es, r1) \<and> collect_observation (r1\<lparr>rt_last_action := Some a\<rparr>)
              = (Inr ob, r1\<lparr>rt_last_action := Some a, rt_world := u\<rparr>)" using z Pair Inr by simp
          with False show False by blast
        qed
        then obtain e where "z = Inl e" by (cases z) blast+
        then show ?thesis using stepped(5) Pair Inr z by (auto simp: execute_step_def)
      qed
    qed
    then show ?thesis by (simp add: failure_kept_def)
  qed
qed

lemma runtime_run_failure_kept:
  "observes_nodes (rt_adapter r) \<Longrightarrow> runtime_ok r \<Longrightarrow> failure_kept r \<Longrightarrow> failure_kept (runtime_run r calls)"
  unfolding runtime_run_def
proof (induction calls arbitrary: r)
  case (Cons c calls)
  have "failure_kept (runtime_call_apply r c)"
  proof (cases c)
    case CallReset
    then show ?thesis using reset_failure_kept [OF Cons.prems(1)] by (cases "runtime_reset r") simp
  next
    case (CallExecute a)
    then show ?thesis using execute_failure_kept [OF Cons.prems] by (cases "runtime_execute a r") simp
  qed
  moreover have "observes_nodes (rt_adapter (runtime_call_apply r c))"
    using Cons.prems(1) runtime_call_frame [OF Cons.prems(2)] by simp
  ultimately show ?case using Cons.IH [OF _ runtime_call_ok [OF Cons.prems(2)]] by simp
qed simp

text \<open>The smallest adapter: a system of the given nodes, in which nothing ever happens.\<close>

definition idle_adapter :: "node_observation list \<Rightarrow> unit sut_env" where
  "idle_adapter nodes = \<lparr>ad_capabilities = Returns \<lparr>cap_force_timeout = False, cap_crash_restart = True,
       cap_client_request = True\<rparr>,
     ad_reset = (\<lambda>_. Returns ()), ad_tick = (\<lambda>_. Returns []), ad_deliver = (\<lambda>_ _. Returns []),
     ad_force_timeout = (\<lambda>_ _. Returns []), ad_crash = (\<lambda>_ _. Returns []),
     ad_restart = (\<lambda>_ _. Returns []), ad_request = (\<lambda>_ _ _. Returns []),
     ad_observe = (\<lambda>t. Returns (empty_observation\<lparr>obs_time := t, obs_nodes := nodes\<rparr>)),
     env_ctx_err = (\<lambda>w. (None, w)), env_json_sha256 = (\<lambda>_. ''digest'')\<rparr>"

definition example_node :: node_observation where
  "example_node = \<lparr>no_id = 1, no_epoch = 1, no_status = NodeRunning, no_digest = [], no_semantic = []\<rparr>"

definition example_config :: config where
  "example_config = \<lparr>cfg_execution_id = ''e'', cfg_seed = 1,
     cfg_limits = \<lparr>max_actions = 0, max_ticks = 0, max_effects = 0, max_queued_messages = 0\<rparr>\<rparr>"

definition example_runtime :: "node_observation list \<Rightarrow> unit runtime" where
  "example_runtime nodes = projr (runtime_new (Some (idle_adapter nodes)) example_config ())"

text \<open>If the adapter never observes an empty cluster, an execution that has ended always has a
  failure record.\<close>

theorem runtime_failure_recorded:
  assumes "runtime_new (Some ad) c w = Inr r0" and "observes_nodes ad"
    and "rt_terminated (runtime_run r0 calls)"
  shows "rt_failure (runtime_run r0 calls) \<noteq> None"
proof -
  have "failure_kept r0" and "rt_adapter r0 = ad"
    using assms(1) by (auto simp: runtime_new_def failure_kept_def split: option.splits)
  then have "failure_kept (runtime_run r0 calls)"
    using runtime_run_failure_kept [OF _ new_runtime_ok [OF assms(1)]] assms(2) by simp
  then show ?thesis using assms(3) by (simp add: failure_kept_def)
qed

definition panicking_adapter :: "unit sut_env" where
  "panicking_adapter = (idle_adapter [example_node])\<lparr>ad_reset := \<lambda>_. Panics ''boom'' ''stack''\<rparr>"

theorem runtime_failure_recorded_witness:
  "rt_failure (runtime_run (projr (runtime_new (Some panicking_adapter) example_config ())) [CallReset]) \<noteq> None"
proof -
  obtain r0 where r0: "runtime_new (Some panicking_adapter) example_config () = Inr r0"
    by (simp add: runtime_new_def config_validate_def example_config_def)
  have "observes_nodes panicking_adapter"
    by (simp add: observes_nodes_def panicking_adapter_def idle_adapter_def empty_observation_def)
  moreover have "rt_terminated (runtime_run r0 [CallReset])"
    using r0 by (auto simp: runtime_new_def config_validate_def example_config_def runtime_run_def
        runtime_reset_def call_sut_def panicking_adapter_def idle_adapter_def Let_def)
  ultimately have "rt_failure (runtime_run r0 [CallReset]) \<noteq> None" by (rule runtime_failure_recorded [OF r0])
  then show ?thesis unfolding r0 sum.sel .
qed

definition advance_to :: "logical_time \<Rightarrow> action" where
  "advance_to t = (action_of_kind ActionAdvanceTime)\<lparr>act_target_time := t\<rparr>"

definition started :: "node_observation list \<Rightarrow> unit runtime" where
  "started nodes = (example_runtime nodes)\<lparr>rt_trace := new_trace ''e'' 1, rt_initialized := True\<rparr>"

lemma example_runtime_eq:
  "example_runtime nodes = \<lparr>rt_adapter = idle_adapter nodes, rt_config = example_config,
     rt_network = new_network, rt_time = 0, rt_trace = new_trace [] 0, rt_last_action = None,
     rt_observation = empty_observation, rt_action_count = 0, rt_effect_count = 0,
     rt_initialized = False, rt_terminated = False, rt_failure = None, rt_world = ()\<rparr>"
  by (simp add: example_runtime_def runtime_new_def config_validate_def example_config_def)

lemma started_eq:
  "started nodes = \<lparr>rt_adapter = idle_adapter nodes, rt_config = example_config,
     rt_network = new_network, rt_time = 0, rt_trace = new_trace ''e'' 1, rt_last_action = None,
     rt_observation = empty_observation, rt_action_count = 0, rt_effect_count = 0,
     rt_initialized = True, rt_terminated = False, rt_failure = None, rt_world = ()\<rparr>"
  by (simp add: started_def example_runtime_eq)

lemmas idle_observing =
  call_sut_def collect_observation_def observation_normalized_def observation_validate_def
  network_observations_def new_network_def empty_observation_def Let_def idle_adapter_def

lemma example_reset: "runtime_reset (example_runtime []) = (Inr empty_observation, started [])"
  by (simp add: runtime_reset_def example_runtime_eq started_eq example_config_def idle_observing)

lemma example_advance:
  "advance_loop 1 [] (started []) = (Inr [], (started [])\<lparr>rt_time := 1\<rparr>)"
  by (simp add: advance_loop.simps advance_tick_def check_context_def call_sut_def started_eq
      idle_adapter_def process_adapter_effects_def effects_refused_def example_config_def Let_def)

text \<open>Without that assumption it fails: \<open>Execute\<close> accepts an observation without nodes, acts, and
  is then refused by \<open>Trace.Append\<close>; the execution ends without a failure record.\<close>

theorem runtime_empty_observation_unrecorded:
  "(let r = runtime_run (example_runtime []) [CallReset, CallExecute (advance_to 1)] in
      rt_initialized r \<and> rt_terminated r \<and> rt_failure r = None \<and> rt_time r = 1)"
proof -
  let ?a = "advance_to 1"
  have a: "act_kind ?a = ActionAdvanceTime" "act_target_time ?a = 1" "action_validate ?a = None"
    by (simp_all add: advance_to_def action_of_kind_def action_validate_def validate_time_action_def)
  have app: "apply_action ?a (started []) = (Inr [], (started [])\<lparr>rt_time := 1\<rparr>)"
    using example_advance by (simp add: apply_action_def a advance_time_def started_eq)
  have exec: "runtime_execute ?a (started []) = execute_step ?a (started [])"
    by (simp add: runtime_execute_def a check_context_def validate_budget_def validate_preconditions_def
      unsupported_action_def action_precondition_def is_message_kind_def started_eq example_config_def idle_observing)
  have "rt_initialized r \<and> rt_terminated r \<and> rt_failure r = None \<and> rt_time r = 1"
    if "r = snd (execute_step ?a (started []))" for r
    unfolding that execute_step_def app
    by (simp add: started_eq idle_observing trace_append_def step_record_of_def new_trace_def
        observation_digest_def observation_json_error_def first_some_def current_trace_version_def
        step_record_validate_None a split: option.splits)
  then show ?thesis by (simp add: runtime_run_def example_reset exec Let_def)
qed

end
