(* ===== verification/Model.thy ===== *)
theory Model
  imports Core_Trace
begin

text \<open>
  internal/model: the events sent to the model executor (event.go), the transitions they are mapped
  from (transition.go), the decisions a profile takes before an action (profile.go), and the mapping
  of a list of transitions (mapper.go). A profile decision is a Go error with a code; \<open>err_decision\<close>
  holds the code.
\<close>

section \<open>Events (event.go)\<close>

record event =
  ev_name :: string
  ev_params :: any_map
  ev_reset :: bool

definition new_event :: "string \<Rightarrow> any_map \<Rightarrow> event" where
  "new_event name params = \<lparr>ev_name = name, ev_params = params, ev_reset = False\<rparr>"

definition reset_event :: event where
  "reset_event = \<lparr>ev_name = [], ev_params = [], ev_reset = True\<rparr>"

definition event_validate :: "event \<Rightarrow> go_error option" where
  "event_validate e =
     (if ev_reset e then
        (if ev_name e \<noteq> [] \<or> ev_params e \<noteq> []
         then Some (errorf_v ErrInvalidEvent ''reset event must not contain name or params'') else None)
      else if ev_name e = []
      then Some (errorf_v ErrInvalidEvent ''name must not be empty'')
      else case json_map_error (ev_params e) of
        Some t \<Rightarrow> Some (errorf_v ErrInvalidEvent (''params are not JSON serializable: '' @ t))
      | None \<Rightarrow> None)"

lemma new_event_valid [simp]:
  "event_validate (new_event name params) = None \<longleftrightarrow> name \<noteq> [] \<and> json_map_error params = None"
  by (simp add: event_validate_def new_event_def)

lemma reset_event_valid [simp]: "event_validate reset_event = None"
  by (simp add: event_validate_def reset_event_def)

lemma new_event_sel [simp]: "ev_name (new_event n p) = n" "ev_params (new_event n p) = p" "\<not> ev_reset (new_event n p)"
  by (simp_all add: new_event_def)

section \<open>Transitions (transition.go)\<close>

record transition =
  tn_before :: observation
  tn_record :: step_record
  tn_after :: observation

definition transition_validate :: "transition \<Rightarrow> go_error option" where
  "transition_validate t =
     (case step_record_validate (tn_record t) of
        Some e \<Rightarrow> Some (errorf_v ErrInvalidTransition (''record: '' @ validation_error_text e))
      | None \<Rightarrow>
        (case observation_validate (tn_before t) of
           Some e \<Rightarrow> Some (errorf_v ErrInvalidTransition (''before observation: '' @ validation_error_text e))
         | None \<Rightarrow>
           (case observation_validate (tn_after t) of
              Some e \<Rightarrow> Some (errorf_v ErrInvalidTransition (''after observation: '' @ validation_error_text e))
            | None \<Rightarrow>
                if obs_time (tn_before t) \<noteq> sr_time_before (tn_record t)
                then Some (errorf_v ErrInvalidTransition (''before time is '' @ format_uint (obs_time (tn_before t)) @
                       '', want '' @ format_uint (sr_time_before (tn_record t))))
                else if obs_time (tn_after t) \<noteq> sr_time_after (tn_record t)
                then Some (errorf_v ErrInvalidTransition (''after time is '' @ format_uint (obs_time (tn_after t)) @
                       '', want '' @ format_uint (sr_time_after (tn_record t))))
                else None)))"

definition transition_from_record :: "step_record \<Rightarrow> go_error + transition" where
  "transition_from_record s =
     (if sr_nodes_before s = [] \<or> sr_nodes_after s = []
      then Inl (errorf_v ErrInvalidTransition ''step record does not contain node snapshots'')
      else
        let t = \<lparr>tn_before = empty_observation\<lparr>obs_time := sr_time_before s, obs_nodes := sr_nodes_before s\<rparr>,
                 tn_record = s,
                 tn_after = empty_observation\<lparr>obs_time := sr_time_after s, obs_nodes := sr_nodes_after s\<rparr>\<rparr>
        in case transition_validate t of Some e \<Rightarrow> Inl e | None \<Rightarrow> Inr t)"

lemma transition_validate_None [validate_simps]:
  "transition_validate t = None \<longleftrightarrow>
     step_record_validate (tn_record t) = None \<and> observation_validate (tn_before t) = None \<and>
     observation_validate (tn_after t) = None \<and> obs_time (tn_before t) = sr_time_before (tn_record t) \<and>
     obs_time (tn_after t) = sr_time_after (tn_record t)"
  by (simp add: transition_validate_def)

text \<open>A recorded step always gives a transition, and its validation cannot fail.\<close>

lemma transition_from_record_valid:
  "step_record_validate s = None \<Longrightarrow> sr_nodes_before s \<noteq> [] \<Longrightarrow> sr_nodes_after s \<noteq> [] \<Longrightarrow>
     \<exists>t. transition_from_record s = Inr t \<and> tn_record t = s \<and> transition_validate t = None"
proof -
  assume a: "step_record_validate s = None" "sr_nodes_before s \<noteq> []" "sr_nodes_after s \<noteq> []"
  then have "validate_node_snapshot (sr_nodes_before s) = None" "validate_node_snapshot (sr_nodes_after s) = None"
    by (simp_all add: step_record_validate_None)
  with a have valid: "transition_validate
      \<lparr>tn_before = empty_observation\<lparr>obs_time := sr_time_before s, obs_nodes := sr_nodes_before s\<rparr>, tn_record = s,
       tn_after = empty_observation\<lparr>obs_time := sr_time_after s, obs_nodes := sr_nodes_after s\<rparr>\<rparr> = None"
    by (simp add: transition_validate_None validate_node_snapshot_None observation_validate_None
        empty_observation_def)
  then show ?thesis using a by (simp add: transition_from_record_def)
qed

section \<open>Profile decisions (profile.go)\<close>

definition decision_error :: "sentinel \<Rightarrow> action \<Rightarrow> string \<Rightarrow> string \<Rightarrow> go_error" where
  "decision_error category a code reason =
     (let code = (if code = [] then ''unspecified'' else code)
      in \<lparr>err_is = [category],
          err_text = sentinel_text category @ '': '' @ code @ '': '' @ action_kind_text (act_kind a) @ '': '' @ reason,
          err_panic = None, err_decision = Some code\<rparr>)"

definition unsupported_code :: "action \<Rightarrow> string \<Rightarrow> string \<Rightarrow> go_error" where
  "unsupported_code a code reason = decision_error ErrUnsupportedByProfile a code reason"

definition inapplicable_code :: "action \<Rightarrow> string \<Rightarrow> string \<Rightarrow> go_error" where
  "inapplicable_code a code reason = decision_error ErrActionInapplicable a code reason"

definition bound_reached_code :: "action \<Rightarrow> string \<Rightarrow> string \<Rightarrow> go_error" where
  "bound_reached_code a code reason = decision_error ErrModelBoundReached a code reason"

definition code_of :: "go_error \<Rightarrow> string" where
  "code_of e = (case err_decision e of Some c \<Rightarrow> c | None \<Rightarrow> ''unspecified'')"

lemma errors_is_decision [simp]:
  "errors_is (unsupported_code a c r) s \<longleftrightarrow> s = ErrUnsupportedByProfile"
  "errors_is (inapplicable_code a c r) s \<longleftrightarrow> s = ErrActionInapplicable"
  "errors_is (bound_reached_code a c r) s \<longleftrightarrow> s = ErrModelBoundReached"
  by (auto simp: errors_is_def unsupported_code_def inapplicable_code_def bound_reached_code_def
      decision_error_def Let_def)

text \<open>A decision is one of the three categories, with a code.\<close>

definition is_decision :: "go_error \<Rightarrow> bool" where
  "is_decision e \<longleftrightarrow>
     (\<exists>category \<in> {ErrUnsupportedByProfile, ErrActionInapplicable, ErrModelBoundReached}. err_is e = [category]) \<and>
     (\<exists>c. err_decision e = Some c \<and> c \<noteq> []) \<and> err_text e \<noteq> []"

lemma is_decision_codes [simp]:
  "is_decision (unsupported_code a c r)" "is_decision (inapplicable_code a c r)" "is_decision (bound_reached_code a c r)"
  by (auto simp: is_decision_def unsupported_code_def inapplicable_code_def bound_reached_code_def
      decision_error_def Let_def)

section \<open>Mapping (mapper.go, executor.go)\<close>

text \<open>A mapper turns a transition into events, or fails. A model state is a text and a key.\<close>

type_synonym event_mapper = "transition \<Rightarrow> go_error + event list"

record model_state =
  ms_text :: string
  ms_key :: int

text \<open>\<open>fmt.Errorf\<close> without a wrapped error, and with one.\<close>

definition plain_error :: "string \<Rightarrow> go_error" where
  "plain_error t = \<lparr>err_is = [], err_text = t, err_panic = None, err_decision = None\<rparr>"

definition wrap_text :: "string \<Rightarrow> go_error \<Rightarrow> go_error" where
  "wrap_text prefix e = e\<lparr>err_text := prefix @ '': '' @ err_text e\<rparr>"

fun check_events :: "nat \<Rightarrow> nat \<Rightarrow> event list \<Rightarrow> go_error option" where
  "check_events i j [] = None"
| "check_events i j (e # es) =
     (case event_validate e of
        Some err \<Rightarrow> Some (wrap_text (''map transition '' @ show_nat i @ '' event '' @ show_nat j) err)
      | None \<Rightarrow> check_events i (Suc j) es)"

fun map_all_from :: "event_mapper \<Rightarrow> nat \<Rightarrow> transition list \<Rightarrow> go_error + event list" where
  "map_all_from mapper i [] = Inr []"
| "map_all_from mapper i (t # ts) =
     (case mapper t of
        Inl e \<Rightarrow> Inl (wrap_text (''map transition '' @ show_nat i) e)
      | Inr events \<Rightarrow>
          (case check_events i 0 events of
             Some e \<Rightarrow> Inl e
           | None \<Rightarrow>
               (case map_all_from mapper (Suc i) ts of
                  Inl e \<Rightarrow> Inl e
                | Inr rest \<Rightarrow> Inr (events @ rest))))"

definition map_all :: "event_mapper option \<Rightarrow> transition list \<Rightarrow> go_error + event list" where
  "map_all mapper ts =
     (case mapper of
        None \<Rightarrow> Inl (plain_error ''mapper must not be nil'')
      | Some m \<Rightarrow> map_all_from m 0 ts)"

lemma check_events_None: "check_events i j es = None \<longleftrightarrow> (\<forall>e \<in> set es. event_validate e = None)"
  by (induction es arbitrary: j) simp_all

lemma map_all_from_Inr:
  "map_all_from mapper i ts = Inr events \<longleftrightarrow>
     (\<exists>ess. list_all2 (\<lambda>t es. mapper t = Inr es \<and> (\<forall>e \<in> set es. event_validate e = None)) ts ess \<and>
        events = concat ess)"
proof (induction ts arbitrary: i events)
  case Nil
  then show ?case by auto
next
  case (Cons t ts)
  have "map_all_from mapper i (t # ts) = Inr events \<longleftrightarrow>
      (\<exists>es rest. mapper t = Inr es \<and> (\<forall>e \<in> set es. event_validate e = None) \<and>
        map_all_from mapper (Suc i) ts = Inr rest \<and> events = es @ rest)"
  proof (cases "mapper t")
    case (Inr es)
    then show ?thesis using check_events_None [of i 0 es]
      by (cases "check_events i 0 es") (auto split: sum.splits)
  qed simp
  then show ?case by (force simp: Cons.IH list_all2_Cons1)
qed

section \<open>The contract of a mapper and a profile\<close>

text \<open>What the engine relies on: the events of a mapper are accepted by the model and well formed, and
  the refusals of a profile are decisions. The model's own acceptance of events is a parameter.\<close>

locale sound_mapper =
  fixes mapper :: event_mapper and accepts :: "event \<Rightarrow> bool"
  assumes maps_accepted: "mapper t = Inr es \<Longrightarrow> e \<in> set es \<Longrightarrow> accepts e"
    and accepted_valid: "accepts e \<Longrightarrow> event_validate e = None \<and> \<not> ev_reset e"
begin

lemma events_valid: "mapper t = Inr es \<Longrightarrow> \<forall>e \<in> set es. event_validate e = None"
  using maps_accepted accepted_valid by blast

lemma check_events_silent: "mapper t = Inr es \<Longrightarrow> check_events i j es = None"
  using events_valid by (simp add: check_events_None)

text \<open>Mapping a list of transitions fails only where the mapper refuses one.\<close>

lemma map_all_iff:
  "map_all (Some mapper) ts = Inr events \<longleftrightarrow>
     (\<exists>ess. list_all2 (\<lambda>t es. mapper t = Inr es) ts ess \<and> events = concat ess)"
proof -
  have "list_all2 (\<lambda>t es. mapper t = Inr es \<and> (\<forall>e \<in> set es. event_validate e = None)) ts ess \<longleftrightarrow>
      list_all2 (\<lambda>t es. mapper t = Inr es) ts ess" for ess
    using events_valid by (auto intro: list_all2_mono)
  then show ?thesis by (simp add: map_all_def map_all_from_Inr)
qed

lemma map_all_accepted: "map_all (Some mapper) ts = Inr events \<Longrightarrow> list_all accepts events"
proof -
  have "list_all2 (\<lambda>t es. mapper t = Inr es) ts ess \<Longrightarrow> list_all accepts (concat ess)" for ess
    by (induction ts ess rule: list_all2_induct) (auto simp: list_all_iff dest: maps_accepted)
  then show "map_all (Some mapper) ts = Inr events \<Longrightarrow> list_all accepts events"
    by (auto simp only: map_all_iff)
qed

definition refused_at :: "transition list \<Rightarrow> go_error \<Rightarrow> bool" where
  "refused_at ts err \<longleftrightarrow> (\<exists>t \<in> set ts. \<exists>e i. mapper t = Inl e \<and> err = wrap_text (''map transition '' @ show_nat i) e)"

lemma map_all_from_refused: "map_all_from mapper i ts = Inl err \<Longrightarrow> refused_at ts err"
proof (induction ts arbitrary: i)
  case (Cons t ts)
  show ?case
  proof (cases "mapper t")
    case (Inl e)
    with Cons.prems show ?thesis by (auto simp: refused_at_def)
  next
    case (Inr es)
    with Cons.prems have "map_all_from mapper (Suc i) ts = Inl err"
      by (cases "map_all_from mapper (Suc i) ts") (simp_all add: check_events_silent)
    then have "refused_at ts err" by (rule Cons.IH)
    then show ?thesis by (auto simp: refused_at_def)
  qed
qed simp

lemma map_all_refused: "map_all (Some mapper) ts = Inl err \<Longrightarrow> refused_at ts err"
  by (simp add: map_all_def map_all_from_refused)

end

locale profiled_mapper = sound_mapper +
  fixes profile :: "action \<Rightarrow> observation \<Rightarrow> go_error option"
  assumes profile_decides: "profile a ob = Some e \<Longrightarrow> is_decision e"
begin

lemma profile_code: "profile a ob = Some e \<Longrightarrow> code_of e \<noteq> [] \<and> err_text e \<noteq> []"
  using profile_decides [of a ob e] by (auto simp: is_decision_def code_of_def)

text \<open>The three branches the engine takes on a refusal are exclusive and complete.\<close>

lemma profile_branches:
  "profile a ob = Some e \<Longrightarrow>
     errors_is e ErrActionInapplicable \<and> \<not> errors_is e ErrModelBoundReached \<or>
     errors_is e ErrModelBoundReached \<and> \<not> errors_is e ErrActionInapplicable \<or>
     errors_is e ErrUnsupportedByProfile \<and> \<not> errors_is e ErrActionInapplicable \<and> \<not> errors_is e ErrModelBoundReached"
  using profile_decides [of a ob e] by (auto simp: is_decision_def errors_is_def)

end

end
