(* ===== verification/Raft_Oracle.thy ===== *)
theory Raft_Oracle
  imports Model
begin

text \<open>
  internal/oracle/oracle.go and internal/oracle/raft/checker.go: the online checks of the Raft safety
  conditions. The history of the checker is its map from terms to the first leader seen in the term,
  an association list; a nil map behaves as an empty one in every operation, so it is one.
\<close>

section \<open>Findings (oracle.go)\<close>

record finding =
  fd_oracle :: string
  fd_code :: string
  fd_message :: string
  fd_step :: int
  fd_node :: node_id
  fd_term :: u64

text \<open>A checker is its two methods over a state of its own.\<close>

record 'k checker =
  ck_reset :: "observation \<Rightarrow> 'k \<Rightarrow> finding list \<times> 'k"
  ck_check :: "transition \<Rightarrow> 'k \<Rightarrow> finding list \<times> 'k"

section \<open>Reading values\<close>

definition raft_finding :: "string \<Rightarrow> node_id \<Rightarrow> u64 \<Rightarrow> string \<Rightarrow> finding" where
  "raft_finding code node trm message = \<lparr>fd_oracle = ''raft.basic'', fd_code = code, fd_message = message,
     fd_step = 0, fd_node = node, fd_term = trm\<rparr>"

lemma raft_finding_code [simp]: "fd_code (raft_finding code node trm message) = code"
  by (simp add: raft_finding_def)

text \<open>\<open>unsigned\<close>; a float beyond the range of \<open>uint64\<close> is converted to a different number and refused.\<close>

fun unsigned_value :: "goval \<Rightarrow> u64 option" where
  "unsigned_value (VUint64 w) = Some w"
| "unsigned_value (VUint32 w) = Some (ucast w)"
| "unsigned_value (VInt i) = (if 0 \<le> i then Some (of_int i) else None)"
| "unsigned_value (VInt64 i) = (if 0 \<le> i then Some (of_int i) else None)"
| "unsigned_value (VFloat (FFin q)) =
     (if 0 \<le> q \<and> q < 2 ^ 64 \<and> of_int \<lfloor>q\<rfloor> = q then Some (of_int \<lfloor>q\<rfloor>) else None)"
| "unsigned_value _ = None"

definition semantic_value :: "node_observation \<Rightarrow> string \<Rightarrow> u64 option" where
  "semantic_value n field = unsigned_value (any_at (no_semantic n) field)"

text \<open>The zero value of a failed conversion.\<close>

definition or_zero :: "u64 option \<Rightarrow> u64" where
  "or_zero v = (case v of Some w \<Rightarrow> w | None \<Rightarrow> 0)"

definition add_digest :: "string \<Rightarrow> string \<Rightarrow> (u64 \<times> string) list \<Rightarrow> (u64 \<times> string) list" where
  "add_digest index digest result =
     (case parse_uint index of
        Some parsed \<Rightarrow> if digest \<noteq> [] then AList.update parsed digest result else result
      | None \<Rightarrow> result)"

text \<open>Go iterates its maps in no particular order; only keys that parse to the same number could tell.\<close>

fun prefix_digest_map :: "goval \<Rightarrow> (u64 \<times> string) list" where
  "prefix_digest_map (VStrMap m) = fold (\<lambda>(index, digest). add_digest index digest) m []"
| "prefix_digest_map (VMap m) =
     fold (\<lambda>(index, raw). case as_string raw of Some digest \<Rightarrow> add_digest index digest | None \<Rightarrow> id) m []"
| "prefix_digest_map _ = []"

record committed_node =
  cn_id :: node_id
  cn_commit :: u64
  cn_digests :: "(u64 \<times> string) list"

section \<open>Checking one observation\<close>

definition committed_log :: "node_observation \<Rightarrow> committed_node option" where
  "committed_log n =
     (case semantic_value n ''commit'' of
        Some commit \<Rightarrow>
          if as_bool (any_at (no_semantic n) ''committed_prefix_available'') = Some True
          then Some \<lparr>cn_id = no_id n, cn_commit = commit,
                     cn_digests = prefix_digest_map (any_at (no_semantic n) ''committed_prefix_digests'')\<rparr>
          else None
      | None \<Rightarrow> None)"

definition prefix_findings :: "node_observation \<Rightarrow> finding list" where
  "prefix_findings n =
     (case committed_log n of
        Some m \<Rightarrow>
          if cn_commit m > 0 \<and> map_of (cn_digests m) (cn_commit m) = None
          then [raft_finding ''committed_prefix_incomplete'' (no_id n) 0
                 (''node '' @ node_id_text (no_id n) @ '' does not expose its committed prefix digest at index '' @
                  format_uint (cn_commit m))]
          else []
      | None \<Rightarrow> [])"

definition exceeds_findings ::
  "string \<Rightarrow> node_observation \<Rightarrow> u64 option \<Rightarrow> string \<Rightarrow> u64 option \<Rightarrow> string \<Rightarrow> finding list" where
  "exceeds_findings code n value1 name1 value2 name2 =
     (case (value1, value2) of
        (Some v, Some w) \<Rightarrow>
          if v > w
          then [raft_finding code (no_id n) (or_zero (semantic_value n ''term''))
                 (''node '' @ node_id_text (no_id n) @ '' '' @ name1 @ ''='' @ format_uint v @ '' exceeds '' @
                  name2 @ ''='' @ format_uint w)]
          else []
      | _ \<Rightarrow> [])"

definition node_findings :: "node_observation \<Rightarrow> finding list" where
  "node_findings n =
     prefix_findings n
     @ exceeds_findings ''applied_exceeds_commit'' n (semantic_value n ''applied'') ''applied''
         (semantic_value n ''commit'') ''commit''
     @ exceeds_findings ''commit_exceeds_log'' n (semantic_value n ''commit'') ''commit''
         (semantic_value n ''last_index'') ''last_index''"

text \<open>The term in which a running node presents itself as the leader.\<close>

definition leader_term :: "node_observation \<Rightarrow> u64 option" where
  "leader_term n =
     (if no_status n = NodeRunning \<and> as_string (any_at (no_semantic n) ''role'') = Some ''leader''
      then semantic_value n ''term'' else None)"

definition leader_findings :: "node_observation \<Rightarrow> (u64 \<times> node_id) list \<Rightarrow> finding list \<times> (u64 \<times> node_id) list" where
  "leader_findings n leaders =
     (case leader_term n of
        None \<Rightarrow> ([], leaders)
      | Some trm \<Rightarrow>
          (case map_of leaders trm of
             Some leader \<Rightarrow>
               if leader \<noteq> no_id n
               then ([raft_finding ''multiple_leaders_same_term'' (no_id n) trm
                       (''term '' @ format_uint trm @ '' has leaders '' @ node_id_text leader @ '' and '' @
                        node_id_text (no_id n))], leaders)
               else ([], AList.update trm (no_id n) leaders)
           | None \<Rightarrow> ([], AList.update trm (no_id n) leaders)))"

fun check_nodes :: "node_observation list \<Rightarrow> (u64 \<times> node_id) list \<Rightarrow> finding list \<times> (u64 \<times> node_id) list" where
  "check_nodes [] leaders = ([], leaders)"
| "check_nodes (n # ns) leaders =
     (let (fs, leaders') = leader_findings n leaders; (rest, leaders'') = check_nodes ns leaders'
      in (node_findings n @ fs @ rest, leaders''))"

definition compare_committed :: "committed_node \<Rightarrow> committed_node \<Rightarrow> finding list" where
  "compare_committed left right =
     (let common = min (cn_commit left) (cn_commit right) in
      if common = 0 then []
      else
        case (map_of (cn_digests left) common, map_of (cn_digests right) common) of
          (Some l, Some r) \<Rightarrow>
            if l \<noteq> r
            then [raft_finding ''committed_log_conflict'' (cn_id right) 0
                   (''nodes '' @ node_id_text (cn_id left) @ '' and '' @ node_id_text (cn_id right) @
                    '' have different committed log prefixes through index '' @ format_uint common)]
            else []
        | (l, _) \<Rightarrow>
            let missing = (if l \<noteq> None then cn_id right else cn_id left) in
            [raft_finding ''committed_prefix_incomplete'' missing 0
              (''node '' @ node_id_text missing @ '' does not expose committed prefix digest at comparison index '' @
               format_uint common)])"

fun compare_all :: "committed_node list \<Rightarrow> finding list" where
  "compare_all [] = []"
| "compare_all (left # rest) = concat (map (compare_committed left) rest) @ compare_all rest"

definition check_observation ::
  "observation \<Rightarrow> (u64 \<times> node_id) list \<Rightarrow> finding list \<times> (u64 \<times> node_id) list" where
  "check_observation ob leaders =
     (let (fs, leaders') = check_nodes (obs_nodes ob) leaders;
          committed = sort_key cn_id (List.map_filter committed_log (obs_nodes ob))
      in (fs @ compare_all committed, leaders'))"

section \<open>Checking a transition\<close>

definition regressed_finding :: "node_observation \<Rightarrow> node_observation \<Rightarrow> string \<Rightarrow> string \<Rightarrow> finding list" where
  "regressed_finding before after field code =
     (case (semantic_value before field, semantic_value after field) of
        (Some previous, Some current) \<Rightarrow>
          if current < previous
          then [raft_finding code (no_id after) (or_zero (semantic_value after ''term''))
                 (''node '' @ node_id_text (no_id after) @ '' '' @ field @ '' regressed from '' @
                  format_uint previous @ '' to '' @ format_uint current)]
          else []
      | _ \<Rightarrow> [])"

definition monotonic_findings :: "node_observation \<Rightarrow> node_observation \<Rightarrow> finding list" where
  "monotonic_findings before after =
     regressed_finding before after ''term'' ''term_regressed''
     @ regressed_finding before after ''commit'' ''commit_regressed''
     @ regressed_finding before after ''applied'' ''applied_regressed''"

text \<open>\<open>nodesByID\<close>: a later node of the same ID replaces an earlier one.\<close>

definition nodes_by_id :: "observation \<Rightarrow> node_id \<Rightarrow> node_observation option" where
  "nodes_by_id ob = map_of (rev (map (\<lambda>n. (no_id n, n)) (obs_nodes ob)))"

definition step_findings :: "observation \<Rightarrow> node_observation \<Rightarrow> finding list" where
  "step_findings before after =
     (case nodes_by_id before (no_id after) of
        None \<Rightarrow> []
      | Some previous \<Rightarrow> if no_epoch previous \<noteq> no_epoch after then [] else monotonic_findings previous after)"

definition raft_check :: "transition \<Rightarrow> (u64 \<times> node_id) list \<Rightarrow> finding list \<times> (u64 \<times> node_id) list" where
  "raft_check t leaders =
     (let (fs, leaders') = check_observation (tn_after t) leaders
      in (concat (map (step_findings (tn_before t)) (obs_nodes (tn_after t))) @ fs, leaders'))"

definition raft_reset :: "observation \<Rightarrow> (u64 \<times> node_id) list \<Rightarrow> finding list \<times> (u64 \<times> node_id) list" where
  "raft_reset ob leaders = check_observation ob []"

definition raft_checker :: "(u64 \<times> node_id) list checker" where
  "raft_checker = \<lparr>ck_reset = raft_reset, ck_check = raft_check\<rparr>"

section \<open>Election safety over a history\<close>

definition no_code :: "string \<Rightarrow> finding list \<Rightarrow> bool" where
  "no_code code fs \<longleftrightarrow> list_all (\<lambda>f. fd_code f \<noteq> code) fs"

lemma no_code_simps [simp]:
  "no_code code []" "no_code code (f # fs) \<longleftrightarrow> fd_code f \<noteq> code \<and> no_code code fs"
  "no_code code (fs @ gs) \<longleftrightarrow> no_code code fs \<and> no_code code gs"
  by (simp_all add: no_code_def)

lemma no_code_concat [simp]: "no_code code (concat fss) \<longleftrightarrow> (\<forall>fs \<in> set fss. no_code code fs)"
  by (induction fss) auto

text \<open>The claims of leadership in an observation.\<close>

definition claims_of :: "node_observation list \<Rightarrow> (u64 \<times> node_id) list" where
  "claims_of ns = List.map_filter (\<lambda>n. map_option (\<lambda>trm. (trm, no_id n)) (leader_term n)) ns"

definition leader_claims :: "observation \<Rightarrow> (u64 \<times> node_id) list" where
  "leader_claims ob = claims_of (obs_nodes ob)"

definition one_leader_per_term :: "(u64 \<times> node_id) list \<Rightarrow> bool" where
  "one_leader_per_term claims \<longleftrightarrow> (\<forall>(t, i) \<in> set claims. \<forall>(t', j) \<in> set claims. t = t' \<longrightarrow> i = j)"

text \<open>The map of the checker holds exactly the claims so far.\<close>

definition holds_claims :: "(u64 \<times> node_id) list \<Rightarrow> (u64 \<times> node_id) list \<Rightarrow> bool" where
  "holds_claims leaders claims \<longleftrightarrow> (\<forall>t i. map_of leaders t = Some i \<longleftrightarrow> (t, i) \<in> set claims)"

lemma holds_claims_unique: "holds_claims leaders claims \<Longrightarrow> one_leader_per_term claims"
  unfolding holds_claims_def one_leader_per_term_def by (clarsimp, metis option.inject)

lemma node_findings_codes [simp]:
  "no_code ''multiple_leaders_same_term'' (node_findings n)"
  by (auto simp: node_findings_def prefix_findings_def exceeds_findings_def split: option.split)

lemma compare_all_codes [simp]: "no_code ''multiple_leaders_same_term'' (compare_all cs)"
  by (induction cs) (auto simp: compare_committed_def Let_def split: option.split)

lemma step_findings_codes [simp]: "no_code ''multiple_leaders_same_term'' (step_findings ob n)"
  by (auto simp: step_findings_def monotonic_findings_def regressed_finding_def split: option.split)

lemma check_nodes_claims:
  "holds_claims leaders claims \<Longrightarrow> check_nodes ns leaders = (fs, leaders') \<Longrightarrow>
     (no_code ''multiple_leaders_same_term'' fs \<longleftrightarrow> one_leader_per_term (claims @ claims_of ns)) \<and>
     (no_code ''multiple_leaders_same_term'' fs \<longrightarrow> holds_claims leaders' (claims @ claims_of ns))"
proof (induction ns arbitrary: leaders claims fs leaders')
  case Nil
  then show ?case by (auto simp: claims_of_def map_filter_simps dest: holds_claims_unique)
next
  case (Cons n ns)
  note held = Cons.prems(1)
  obtain gs mid rest where lf: "leader_findings n leaders = (gs, mid)"
    and cn: "check_nodes ns mid = (rest, leaders')" and fs: "fs = node_findings n @ gs @ rest"
    using Cons.prems(2) by (auto simp: Let_def split: prod.splits)
  show ?case
  proof (cases "leader_term n")
    case None
    with lf have "gs = []" "mid = leaders" by (simp_all add: leader_findings_def)
    then show ?thesis using Cons.IH [OF held] cn None by (simp add: fs claims_of_def map_filter_simps)
  next
    case (Some trm)
    show ?thesis
    proof (cases "\<exists>leader. map_of leaders trm = Some leader \<and> leader \<noteq> no_id n")
      case True
      then obtain leader where l: "map_of leaders trm = Some leader" "leader \<noteq> no_id n" by blast
      with held have "(trm, leader) \<in> set claims" by (simp add: holds_claims_def)
      then have "\<not> one_leader_per_term (claims @ (trm, no_id n) # claims_of ns)"
        using l(2) by (force simp: one_leader_per_term_def)
      then show ?thesis using lf l Some by (auto simp: fs leader_findings_def claims_of_def map_filter_simps)
    next
      case False
      then have gs: "gs = []" and mid: "mid = AList.update trm (no_id n) leaders"
        using lf Some by (auto simp: leader_findings_def split: option.splits)
      have old: "map_of leaders trm = None \<or> map_of leaders trm = Some (no_id n)"
        using False by (cases "map_of leaders trm") auto
      have "holds_claims mid (claims @ [(trm, no_id n)])"
      proof -
        have "(map_of mid t = Some i) = ((t, i) \<in> set (claims @ [(trm, no_id n)]))" for t i
        proof (cases "t = trm")
          case True
          have "(trm, i) \<in> set claims \<Longrightarrow> i = no_id n"
            using held old unfolding holds_claims_def by (metis option.distinct(1) option.inject)
          with True show ?thesis by (auto simp: mid update_conv')
        next
          case False
          with held show ?thesis by (simp add: holds_claims_def mid update_conv')
        qed
        then show ?thesis by (simp add: holds_claims_def)
      qed
      from Cons.IH [OF this cn] show ?thesis by (simp add: fs gs Some claims_of_def map_filter_simps)
    qed
  qed
qed

lemma check_observation_claims:
  assumes "holds_claims leaders claims" and "check_observation ob leaders = (fs, leaders')"
  shows "no_code ''multiple_leaders_same_term'' fs \<longleftrightarrow> one_leader_per_term (claims @ leader_claims ob)"
    and "no_code ''multiple_leaders_same_term'' fs \<Longrightarrow> holds_claims leaders' (claims @ leader_claims ob)"
proof -
  obtain gs where gs: "check_nodes (obs_nodes ob) leaders = (gs, leaders')"
    and "fs = gs @ compare_all (sort_key cn_id (List.map_filter committed_log (obs_nodes ob)))"
    using assms(2) by (auto simp: check_observation_def Let_def split: prod.splits)
  then have same: "no_code ''multiple_leaders_same_term'' fs = no_code ''multiple_leaders_same_term'' gs" by simp
  show "no_code ''multiple_leaders_same_term'' fs \<longleftrightarrow> one_leader_per_term (claims @ leader_claims ob)"
    using check_nodes_claims [OF assms(1) gs] same by (simp add: leader_claims_def)
  show "no_code ''multiple_leaders_same_term'' fs \<Longrightarrow> holds_claims leaders' (claims @ leader_claims ob)"
    using check_nodes_claims [OF assms(1) gs] same by (simp add: leader_claims_def)
qed

text \<open>The findings of a run of the checker: a reset, then a check of every transition.\<close>

fun check_transitions :: "transition list \<Rightarrow> (u64 \<times> node_id) list \<Rightarrow> finding list" where
  "check_transitions [] leaders = []"
| "check_transitions (t # ts) leaders =
     (let (fs, leaders') = raft_check t leaders in fs @ check_transitions ts leaders')"

definition oracle_run :: "observation \<Rightarrow> transition list \<Rightarrow> finding list" where
  "oracle_run ob ts = (let (fs, leaders) = raft_reset ob [] in fs @ check_transitions ts leaders)"

lemma check_transitions_claims:
  "holds_claims leaders claims \<Longrightarrow>
     no_code ''multiple_leaders_same_term'' (check_transitions ts leaders) \<longleftrightarrow>
     one_leader_per_term (claims @ concat (map (leader_claims \<circ> tn_after) ts))"
proof (induction ts arbitrary: leaders claims)
  case Nil
  then show ?case by (auto dest: holds_claims_unique)
next
  case (Cons t ts)
  obtain gs leaders' where gs: "check_observation (tn_after t) leaders = (gs, leaders')" by fastforce
  note step = check_observation_claims [OF Cons.prems gs]
  show ?case
  proof (cases "no_code ''multiple_leaders_same_term'' gs")
    case True
    with step Cons.IH [of leaders' "claims @ leader_claims (tn_after t)"] gs show ?thesis
      by (simp add: raft_check_def Let_def)
  next
    case False
    with step have "\<not> one_leader_per_term (claims @ leader_claims (tn_after t))" by simp
    then have "\<not> one_leader_per_term (claims @ leader_claims (tn_after t) @ rest)" for rest
      unfolding one_leader_per_term_def by fastforce
    with False gs show ?thesis by (simp add: raft_check_def Let_def)
  qed
qed

lemma oracle_run_claims:
  "no_code ''multiple_leaders_same_term'' (oracle_run ob ts) \<longleftrightarrow>
     one_leader_per_term (leader_claims ob @ concat (map (leader_claims \<circ> tn_after) ts))"
proof -
  obtain gs leaders where gs: "check_observation ob [] = (gs, leaders)" by fastforce
  have "holds_claims [] []" by (simp add: holds_claims_def)
  note step = check_observation_claims [OF this gs]
  show ?thesis
  proof (cases "no_code ''multiple_leaders_same_term'' gs")
    case True
    with step check_transitions_claims [of leaders "leader_claims ob" ts] gs show ?thesis
      by (simp add: oracle_run_def raft_reset_def)
  next
    case False
    with step have "\<not> one_leader_per_term (leader_claims ob)" by simp
    then have "\<not> one_leader_per_term (leader_claims ob @ rest)" for rest
      unfolding one_leader_per_term_def by fastforce
    with False gs show ?thesis by (simp add: oracle_run_def raft_reset_def)
  qed
qed
text \<open>the online election check is exact over the whole history of an execution: the checker
  reports two leaders of one term, at the reset or at some step, if and only if somewhere in the
  initial observation and the observations after the steps two different running nodes presented
  themselves as leader of the same term, even at different times.\<close>
theorem oracle_election_safety_exact:
  "no_code ''multiple_leaders_same_term'' (oracle_run ob ts) \<longleftrightarrow>
     one_leader_per_term (leader_claims ob @ concat (map (leader_claims \<circ> tn_after) ts))"
  by (rule oracle_run_claims)

section \<open>Committed prefixes\<close>

text \<open>What two nodes have to agree on: the digest at the smaller of their commit indices.\<close>

definition prefixes_agree :: "committed_node \<Rightarrow> committed_node \<Rightarrow> bool" where
  "prefixes_agree m n \<longleftrightarrow>
     (let common = min (cn_commit m) (cn_commit n) in
      common = 0 \<or> (\<exists>d. map_of (cn_digests m) common = Some d \<and> map_of (cn_digests n) common = Some d))"

definition committed_nodes :: "observation \<Rightarrow> committed_node list" where
  "committed_nodes ob = List.map_filter committed_log (obs_nodes ob)"

definition prefix_clean :: "finding list \<Rightarrow> bool" where
  "prefix_clean fs \<longleftrightarrow> no_code ''committed_log_conflict'' fs \<and> no_code ''committed_prefix_incomplete'' fs"

lemma prefix_clean_simps [simp]:
  "prefix_clean []" "prefix_clean (fs @ gs) \<longleftrightarrow> prefix_clean fs \<and> prefix_clean gs"
  by (auto simp: prefix_clean_def)

lemma prefixes_agree_sym: "prefixes_agree m n \<longleftrightarrow> prefixes_agree n m"
  by (auto simp: prefixes_agree_def min.commute Let_def)

lemma compare_committed_clean: "prefix_clean (compare_committed m n) \<longleftrightarrow> prefixes_agree m n"
  by (auto simp: compare_committed_def prefixes_agree_def prefix_clean_def Let_def split: option.split)

lemma compare_all_clean:
  "prefix_clean (compare_all ms) \<and> (\<forall>m \<in> set ms. prefixes_agree m m) \<longleftrightarrow>
     (\<forall>m \<in> set ms. \<forall>n \<in> set ms. prefixes_agree m n)"
proof (induction ms)
  case (Cons m ms)
  have "prefix_clean (concat (map (compare_committed m) ms)) \<longleftrightarrow> (\<forall>n \<in> set ms. prefixes_agree m n)"
    by (induction ms) (auto simp: compare_committed_clean)
  with Cons show ?case by (auto simp: prefixes_agree_sym)
qed simp

lemma node_findings_clean:
  "prefix_clean (node_findings n) \<longleftrightarrow> (\<forall>m. committed_log n = Some m \<longrightarrow> prefixes_agree m m)"
  by (cases "committed_log n")
    (auto simp: node_findings_def prefix_findings_def exceeds_findings_def prefix_clean_def prefixes_agree_def Let_def
      word_neq_0_conv split: option.split)

lemma leader_findings_clean: "leader_findings n leaders = (fs, leaders') \<Longrightarrow> prefix_clean fs"
  by (auto simp: leader_findings_def prefix_clean_def split: option.splits if_splits)

lemma check_nodes_clean:
  "check_nodes ns leaders = (fs, leaders') \<Longrightarrow>
     prefix_clean fs \<longleftrightarrow> (\<forall>m \<in> set (List.map_filter committed_log ns). prefixes_agree m m)"
proof (induction ns arbitrary: leaders fs)
  case (Cons n ns)
  obtain gs mid rest where "leader_findings n leaders = (gs, mid)" and cn: "check_nodes ns mid = (rest, leaders')"
    and fs: "fs = node_findings n @ gs @ rest"
    using Cons.prems by (auto simp: Let_def split: prod.splits)
  with Cons.IH [OF cn] leader_findings_clean show ?case
    by (auto simp: fs node_findings_clean map_filter_simps split: option.splits)
qed (simp add: map_filter_simps)

text \<open>the committed-prefix check is exact: an observation yields no conflict and no missing digest
  if and only if any two nodes that expose a commit index and a committed prefix (a node with itself
  included) show the same digest at the smaller of their commit indices, unless that index is 0.\<close>
theorem oracle_committed_prefix_exact:
  "prefix_clean (fst (check_observation ob leaders)) \<longleftrightarrow>
     list_all (\<lambda>m. list_all (prefixes_agree m) (committed_nodes ob)) (committed_nodes ob)"
proof -
  obtain gs leaders' where gs: "check_nodes (obs_nodes ob) leaders = (gs, leaders')" by fastforce
  let ?sorted = "sort_key cn_id (committed_nodes ob)"
  have "prefix_clean (fst (check_observation ob leaders)) \<longleftrightarrow>
      (\<forall>m \<in> set ?sorted. prefixes_agree m m) \<and> prefix_clean (compare_all ?sorted)"
    using check_nodes_clean [OF gs] by (simp add: check_observation_def gs committed_nodes_def)
  then show ?thesis using compare_all_clean [of ?sorted] by (auto simp: list_all_iff)
qed

section \<open>Monotonic state\<close>

definition not_regressed :: "node_observation \<Rightarrow> node_observation \<Rightarrow> string \<Rightarrow> bool" where
  "not_regressed before after field \<longleftrightarrow>
     (case (semantic_value before field, semantic_value after field) of
        (Some previous, Some current) \<Rightarrow> previous \<le> current
      | _ \<Rightarrow> True)"

definition step_monotonic :: "transition \<Rightarrow> bool" where
  "step_monotonic t \<longleftrightarrow>
     list_all (\<lambda>after. case nodes_by_id (tn_before t) (no_id after) of
         None \<Rightarrow> True
       | Some before \<Rightarrow> no_epoch before \<noteq> no_epoch after \<or>
           list_all (not_regressed before after) [''term'', ''commit'', ''applied''])
       (obs_nodes (tn_after t))"

definition node_consistent :: "node_observation \<Rightarrow> bool" where
  "node_consistent n \<longleftrightarrow>
     (case (semantic_value n ''applied'', semantic_value n ''commit'') of (Some a, Some c) \<Rightarrow> a \<le> c | _ \<Rightarrow> True) \<and>
     (case (semantic_value n ''commit'', semantic_value n ''last_index'') of (Some c, Some l) \<Rightarrow> c \<le> l | _ \<Rightarrow> True)"

lemma regressed_finding_Nil: "regressed_finding before after field code = [] \<longleftrightarrow> not_regressed before after field"
  by (auto simp: regressed_finding_def not_regressed_def not_less split: option.split)

lemma step_findings_Nil:
  "concat (map (step_findings (tn_before t)) (obs_nodes (tn_after t))) = [] \<longleftrightarrow> step_monotonic t"
  by (auto simp: step_monotonic_def step_findings_def monotonic_findings_def regressed_finding_Nil
      list_all_iff split: option.splits)

lemma prefix_findings_Nil: "prefix_findings n = [] \<longleftrightarrow> prefix_clean (prefix_findings n)"
  by (auto simp: prefix_findings_def prefix_clean_def split: option.split)

lemma exceeds_findings_clean [simp]:
  "code \<in> {''applied_exceeds_commit'', ''commit_exceeds_log''} \<Longrightarrow> prefix_clean (exceeds_findings code n v x w y)"
  by (auto simp: exceeds_findings_def prefix_clean_def split: option.split)

lemma node_findings_Nil: "node_findings n = [] \<longleftrightarrow> node_consistent n \<and> prefix_clean (node_findings n)"
proof -
  have "exceeds_findings ''applied_exceeds_commit'' n (semantic_value n ''applied'') ''applied'' (semantic_value n ''commit'') ''commit'' = []
      \<and> exceeds_findings ''commit_exceeds_log'' n (semantic_value n ''commit'') ''commit'' (semantic_value n ''last_index'') ''last_index'' = []
      \<longleftrightarrow> node_consistent n"
    by (auto simp: node_consistent_def exceeds_findings_def not_less split: option.split)
  then show ?thesis using prefix_findings_Nil [of n] by (simp add: node_findings_def) blast
qed

lemma compare_all_Nil: "compare_all ms = [] \<longleftrightarrow> prefix_clean (compare_all ms)"
proof (induction ms)
  case (Cons m ms)
  have one: "compare_committed m n = [] \<longleftrightarrow> prefix_clean (compare_committed m n)" for n
    by (auto simp: compare_committed_def prefix_clean_def Let_def split: option.split)
  have "concat (map (compare_committed m) ns) = [] \<longleftrightarrow> prefix_clean (concat (map (compare_committed m) ns))" for ns
    by (induction ns) (simp_all add: one)
  with Cons show ?case by simp
qed simp

lemma check_nodes_Nil:
  "check_nodes ns leaders = (fs, leaders') \<Longrightarrow>
     fs = [] \<longleftrightarrow> list_all node_consistent ns \<and> prefix_clean fs \<and> no_code ''multiple_leaders_same_term'' fs"
proof (induction ns arbitrary: leaders fs)
  case (Cons n ns)
  obtain gs mid rest where lf: "leader_findings n leaders = (gs, mid)" and cn: "check_nodes ns mid = (rest, leaders')"
    and fs: "fs = node_findings n @ gs @ rest"
    using Cons.prems by (auto simp: Let_def split: prod.splits)
  have "gs = [] \<longleftrightarrow> no_code ''multiple_leaders_same_term'' gs"
    using lf by (auto simp: leader_findings_def split: option.splits if_splits)
  with Cons.IH [OF cn] leader_findings_clean [OF lf] node_findings_Nil [of n] show ?case by (auto simp: fs)
qed simp

definition observation_safe :: "observation \<Rightarrow> bool" where
  "observation_safe ob \<longleftrightarrow> list_all node_consistent (obs_nodes ob) \<and>
     list_all (\<lambda>m. list_all (prefixes_agree m) (committed_nodes ob)) (committed_nodes ob)"

lemma check_observation_Nil:
  assumes "check_observation ob leaders = (fs, leaders')"
  shows "fs = [] \<longleftrightarrow> observation_safe ob \<and> no_code ''multiple_leaders_same_term'' fs"
proof -
  obtain gs where gs: "check_nodes (obs_nodes ob) leaders = (gs, leaders')"
    and fs: "fs = gs @ compare_all (sort_key cn_id (committed_nodes ob))"
    using assms by (auto simp: check_observation_def committed_nodes_def Let_def split: prod.splits)
  let ?sorted = "sort_key cn_id (committed_nodes ob)"
  have "prefix_clean gs \<and> prefix_clean (compare_all ?sorted) \<longleftrightarrow>
      list_all (\<lambda>m. list_all (prefixes_agree m) (committed_nodes ob)) (committed_nodes ob)"
    using check_nodes_clean [OF gs] compare_all_clean [of ?sorted] by (auto simp: list_all_iff committed_nodes_def)
  then show ?thesis
    using check_nodes_Nil [OF gs] compare_all_Nil [of ?sorted] by (auto simp: fs observation_safe_def)
qed

lemma check_transitions_Nil:
  "check_transitions ts leaders = [] \<longleftrightarrow>
     list_all (\<lambda>t. step_monotonic t \<and> observation_safe (tn_after t)) ts \<and>
     no_code ''multiple_leaders_same_term'' (check_transitions ts leaders)"
proof (induction ts arbitrary: leaders)
  case (Cons t ts)
  obtain gs leaders' where gs: "check_observation (tn_after t) leaders = (gs, leaders')" by fastforce
  show ?case
    using Cons.IH [of leaders'] check_observation_Nil [OF gs] step_findings_Nil [of t]
    by (auto simp: raft_check_def gs Let_def)
qed simp

lemma oracle_run_Nil_no_code:
  "oracle_run ob ts = [] \<longleftrightarrow>
     observation_safe ob \<and> list_all (\<lambda>t. step_monotonic t \<and> observation_safe (tn_after t)) ts \<and>
     no_code ''multiple_leaders_same_term'' (oracle_run ob ts)"
proof -
  obtain gs leaders where gs: "check_observation ob [] = (gs, leaders)" by fastforce
  show ?thesis
    using check_observation_Nil [OF gs] check_transitions_Nil [of ts leaders]
    by (auto simp: oracle_run_def raft_reset_def gs)
qed
definition safe_history :: "observation \<Rightarrow> transition list \<Rightarrow> bool" where
  "safe_history ob ts \<longleftrightarrow>
     observation_safe ob \<and> list_all (\<lambda>t. step_monotonic t \<and> observation_safe (tn_after t)) ts \<and>
     one_leader_per_term (leader_claims ob @ concat (map (leader_claims \<circ> tn_after) ts))"

lemma oracle_run_Nil: "oracle_run ob ts = [] \<longleftrightarrow> safe_history ob ts"
  using oracle_run_Nil_no_code [of ob ts] by (simp add: safe_history_def oracle_run_claims)

text \<open>C11: a run of the checker stays silent exactly on the safe histories: in every observation applied
  is at most commit and commit at most the last index, committed prefixes agree; at every step term,
  commit and applied of a node in the same epoch do not go back; and over the whole history a term has
  at most one leader.\<close>
theorem oracle_silent_iff_safe_history:
  "oracle_run ob ts = [] \<longleftrightarrow>
     observation_safe ob \<and> list_all (\<lambda>t. step_monotonic t \<and> observation_safe (tn_after t)) ts \<and>
     one_leader_per_term (leader_claims ob @ concat (map (leader_claims \<circ> tn_after) ts))"
  by (simp add: oracle_run_Nil safe_history_def)

end
