(* ===== verification/Engine.thy ===== *)
theory Engine
  imports Runtime Plan Model Raft_Oracle
begin

text \<open>
  internal/engine (engine.go, result.go, error.go): the execution of one sequence of planned actions, or
  of the actions of an online source, on a runtime, with the mapping of every step to model events, the
  online checkers, the profile and the model executor. The interfaces the engine calls are functions:
  the resolver (\<open>None\<close> when it panics, which the engine does not catch), the mapper, the profile, the
  executor (over the world of the runtime, which also holds the context), a list of checkers with their
  states, and the source of actions with its state.
\<close>

section \<open>Results (result.go)\<close>

datatype engine_status =
    StatusNone | StatusCompleted | StatusCanceled | StatusInvalidPlan | StatusResolutionFailed | StatusRuntimeFailed
  | StatusMappingFailed | StatusUnsupported | StatusOracleFailed | StatusPolicyFailed | StatusModelFailed

datatype termination_reason =
    TerminationNone | TerminationPlanComplete | TerminationPolicyComplete | TerminationPlanActionBudget
  | TerminationRuntimeBudget | TerminationConsecutiveNoops | TerminationModelBound

record engine_result =
  er_status :: engine_status
  er_error :: string
  er_model_executed :: bool
  er_budget_exhausted :: bool
  er_termination :: termination_reason
  er_termination_code :: string
  er_termination_detail :: string
  er_resolutions :: "resolution list"
  er_actions :: "action list"
  er_trace :: trace
  er_events :: "event list"
  er_states :: "model_state list"
  er_findings :: "finding list"
  er_failure :: "failure_record option"
  er_initial :: observation
  er_final :: observation

definition zero_trace :: trace where
  "zero_trace = \<lparr>tr_version = 0, tr_execution_id = [], tr_seed = 0, tr_steps = [], tr_metadata = []\<rparr>"

definition new_result :: engine_result where
  "new_result = \<lparr>er_status = StatusNone, er_error = [], er_model_executed = False, er_budget_exhausted = False,
     er_termination = TerminationNone, er_termination_code = [], er_termination_detail = [], er_resolutions = [],
     er_actions = [], er_trace = zero_trace, er_events = [], er_states = [], er_findings = [], er_failure = None,
     er_initial = empty_observation, er_final = empty_observation\<rparr>"

section \<open>The engine\<close>

record engine_config =
  ec_fail_on_partial :: bool
  ec_fail_on_skipped :: bool
  ec_fail_on_empty_queue :: bool
  ec_max_plan_actions :: int
  ec_max_consecutive_noops :: int

record ('w, 'k) engine =
  eg_resolver :: "plan_action \<Rightarrow> observation \<Rightarrow> resolution option"
  eg_mapper :: event_mapper
  eg_profile :: "(action \<Rightarrow> observation \<Rightarrow> go_error option) option"
  eg_executor :: "(event list \<Rightarrow> 'w \<Rightarrow> (go_error + model_state list) \<times> 'w) option"
  eg_checkers :: "'k checker list"
  eg_config :: engine_config

text \<open>\<open>New\<close>, with \<open>None\<close> for a nil argument. The runtime is part of the state below; whether the mapper
  is also a profile is the caller's choice of \<open>profile\<close>.\<close>

definition engine_new ::
  "'w runtime option \<Rightarrow> (plan_action \<Rightarrow> observation \<Rightarrow> resolution option) option \<Rightarrow> event_mapper option \<Rightarrow>
   (action \<Rightarrow> observation \<Rightarrow> go_error option) option \<Rightarrow>
   (event list \<Rightarrow> 'w \<Rightarrow> (go_error + model_state list) \<times> 'w) option \<Rightarrow> engine_config \<Rightarrow> 'k checker option list \<Rightarrow>
   go_error + ('w, 'k) engine \<times> 'w runtime" where
  "engine_new r resolver mapper profile executor cfg checkers =
     (case (r, resolver, mapper) of
        (None, _, _) \<Rightarrow> Inl (errorf_v ErrEngineConfig ''runtime is nil'')
      | (_, None, _) \<Rightarrow> Inl (errorf_v ErrEngineConfig ''resolver is nil'')
      | (_, _, None) \<Rightarrow> Inl (errorf_v ErrEngineConfig ''mapper is nil'')
      | (Some r, Some resolver, Some mapper) \<Rightarrow>
          if ec_max_plan_actions cfg < 0 \<or> ec_max_consecutive_noops cfg < 0
          then Inl (errorf_v ErrEngineConfig ''engine budgets must not be negative'')
          else if None \<in> set checkers
          then Inl (errorf_v ErrEngineConfig
                 (''oracle '' @ show_nat (length (takeWhile (\<lambda>k. k \<noteq> None) checkers)) @ '' is nil''))
          else Inr (\<lparr>eg_resolver = resolver, eg_mapper = mapper, eg_profile = profile, eg_executor = executor,
                 eg_checkers = map the checkers, eg_config = cfg\<rparr>, r))"

text \<open>The variables of a run: the runtime, the states of the checkers and of the source, the latest
  observation, the result so far and the two counters.\<close>

record ('w, 'k, 's) engine_state =
  es_runtime :: "'w runtime"
  es_checkers :: "'k list"
  es_source :: 's
  es_observation :: observation
  es_result :: engine_result
  es_processed :: int
  es_noops :: int

definition capture :: "observation \<Rightarrow> ('w, 'k, 's) engine_state \<Rightarrow> ('w, 'k, 's) engine_state" where
  "capture ob st =
     (let r = es_result st in
      st\<lparr>es_result := r\<lparr>er_trace := (case runtime_trace (es_runtime st) of Inr t \<Rightarrow> t | Inl _ \<Rightarrow> er_trace r),
                         er_failure := rt_failure (es_runtime st), er_final := ob\<rparr>\<rparr>)"

text \<open>How the loop ends: \<open>Failed\<close> is a \<open>return fail(...)\<close>, \<open>Crashed\<close> a panic of the resolver.\<close>

datatype 'st engine_exit = Finished 'st | Failed engine_status go_error 'st | Crashed

definition is_cancellation :: "go_error \<Rightarrow> bool" where
  "is_cancellation e \<longleftrightarrow> errors_is e ErrCanceled \<or> errors_is e ErrDeadlineExceeded"

definition rejection_reason :: "engine_config \<Rightarrow> resolution \<Rightarrow> string" where
  "rejection_reason cfg r =
     (case rs_status r of
        ResolutionInvalid \<Rightarrow> rs_reason r
      | ResolutionPartial \<Rightarrow> if ec_fail_on_partial cfg then ''partial resolution: '' @ rs_reason r else []
      | ResolutionSkipped \<Rightarrow> if ec_fail_on_skipped cfg then ''skipped resolution: '' @ rs_reason r else []
      | ResolutionEmptyQueue \<Rightarrow> if ec_fail_on_empty_queue cfg then ''empty queue: '' @ rs_reason r else []
      | _ \<Rightarrow> [])"

definition mark_stopped :: "resolution_status \<Rightarrow> reason_code \<Rightarrow> string \<Rightarrow> resolution \<Rightarrow> resolution" where
  "mark_stopped status code reason r =
     r\<lparr>rs_status := status, rs_resolved := 0, rs_reason_code := code, rs_reason := reason, rs_actions := []\<rparr>"

definition combined_code :: "reason_code list \<Rightarrow> reason_code" where
  "combined_code codes =
     (case codes of
        [] \<Rightarrow> []
      | first # rest \<Rightarrow> if list_all (\<lambda>c. c = first) rest then first else ''multiple_profile_decisions'')"

fun join_with :: "string \<Rightarrow> string list \<Rightarrow> string" where
  "join_with sep [] = []"
| "join_with sep [s] = s"
| "join_with sep (s # t # ss) = s @ sep @ join_with sep (t # ss)"

definition mark_inapplicable :: "action list \<Rightarrow> reason_code list \<Rightarrow> string list \<Rightarrow> resolution \<Rightarrow> resolution" where
  "mark_inapplicable executed codes reasons r =
     r\<lparr>rs_status := (if executed = [] then ResolutionInapplicable
                      else if int (length executed) < rs_requested r then ResolutionPartial
                      else rs_status r),
        rs_resolved := int (length executed), rs_reason_code := combined_code codes,
        rs_reason := join_with ''; '' reasons, rs_actions := executed\<rparr>"

text \<open>The last resolution of the result, changed in place.\<close>

definition mark_last :: "(resolution \<Rightarrow> resolution) \<Rightarrow> engine_result \<Rightarrow> engine_result" where
  "mark_last f r = r\<lparr>er_resolutions := butlast (er_resolutions r) @ [f (last (er_resolutions r))]\<rparr>"

definition append_findings :: "int \<Rightarrow> finding list \<Rightarrow> engine_result \<Rightarrow> engine_result" where
  "append_findings step fs r = r\<lparr>er_findings := er_findings r @ map (\<lambda>f. f\<lparr>fd_step := step\<rparr>) fs\<rparr>"

text \<open>Every checker is reset, or checks the transition, in order; a finding does not stop the others.\<close>

fun run_checkers ::
  "('k checker \<Rightarrow> 'k \<Rightarrow> finding list \<times> 'k) \<Rightarrow> 'k checker list \<Rightarrow> 'k list \<Rightarrow> finding list \<times> 'k list" where
  "run_checkers call (c # cs) (k # ks) =
     (let (fs, k') = call c k; (rest, ks') = run_checkers call cs ks in (fs @ rest, k' # ks'))"
| "run_checkers call _ ks = ([], ks)"

section \<open>One concrete action\<close>

text \<open>The events of a step are appended one by one, up to the first that does not validate.\<close>

fun append_events_from :: "nat \<Rightarrow> event list \<Rightarrow> event list \<Rightarrow> event list \<times> (nat \<times> go_error) option" where
  "append_events_from j acc [] = (acc, None)"
| "append_events_from j acc (e # es) =
     (case event_validate e of
        Some err \<Rightarrow> (acc, Some (j, err))
      | None \<Rightarrow> append_events_from (Suc j) (acc @ [e]) es)"

definition action_name :: "nat \<Rightarrow> nat \<Rightarrow> string" where
  "action_name i j = ''plan action '' @ show_nat i @ '' concrete action '' @ show_nat j"

definition step_transition :: "step_result \<Rightarrow> transition" where
  "step_transition step = \<lparr>tn_before = sres_before_observation step, tn_record = sres_record step,
     tn_after = sres_observation step\<rparr>"

text \<open>Everything that follows a successful \<open>Execute\<close>.\<close>

definition after_step ::
  "('w, 'k) engine \<Rightarrow> nat \<Rightarrow> nat \<Rightarrow> action \<Rightarrow> step_result \<Rightarrow> ('w, 'k, 's) engine_state \<Rightarrow>
   (engine_status \<times> go_error \<times> ('w, 'k, 's) engine_state) + ('w, 'k, 's) engine_state" where
  "after_step e i j a step st0 =
     (let ob = sres_observation step; t = step_transition step; r0 = es_result st0;
          st = st0\<lparr>es_observation := ob, es_result := r0\<lparr>er_actions := er_actions r0 @ [a], er_final := ob\<rparr>\<rparr>
      in case eg_mapper e t of
        Inl err \<Rightarrow> Inl (StatusMappingFailed, errorf_v ErrMapping (action_name i j @ '': '' @ err_text err), capture ob st)
      | Inr events \<Rightarrow>
          (let (appended, bad) = append_events_from 0 (er_events (es_result st)) events;
               st = st\<lparr>es_result := (es_result st)\<lparr>er_events := appended\<rparr>\<rparr>
           in case bad of
             Some (k, err) \<Rightarrow> Inl (StatusMappingFailed,
               errorf_v ErrMapping (action_name i j @ '' event '' @ show_nat k @ '': '' @ err_text err), capture ob st)
           | None \<Rightarrow>
               (let (fs, ks) = run_checkers (\<lambda>c k. ck_check c t k) (eg_checkers e) (es_checkers st);
                    st = st\<lparr>es_checkers := ks,
                      es_result := append_findings (int (length (er_actions (es_result st)))) fs (es_result st)\<rparr>
                in if er_findings (es_result st) \<noteq> []
                   then Inl (StatusOracleFailed,
                          errorf_v ErrOracle (action_name i j @ '': '' @ fd_message (hd (er_findings (es_result st)))),
                          capture ob st)
                   else Inr st)))"

section \<open>The actions of one resolution\<close>

text \<open>The actions executed, and the reasons and codes of those that did not apply.\<close>

record batch_log =
  bl_executed :: "action list"
  bl_reasons :: "string list"
  bl_codes :: "reason_code list"

datatype 'st batch_exit = BatchDone batch_log 'st | BatchStopped 'st | BatchFailed engine_status go_error 'st

definition model_bound_stop ::
  "go_error \<Rightarrow> batch_log \<Rightarrow> ('w, 'k, 's) engine_state \<Rightarrow> ('w, 'k, 's) engine_state" where
  "model_bound_stop err bl st =
     st\<lparr>es_result := mark_last
         (if bl_executed bl = [] then mark_stopped ResolutionModelBound (code_of err) (err_text err)
          else mark_inapplicable (bl_executed bl) [code_of err] [err_text err])
         ((es_result st)\<lparr>er_termination := TerminationModelBound, er_termination_code := code_of err,
            er_termination_detail := err_text err\<rparr>)\<rparr>"

definition profile_error :: "('w, 'k) engine \<Rightarrow> action \<Rightarrow> observation \<Rightarrow> go_error option" where
  "profile_error e a ob = (case eg_profile e of None \<Rightarrow> None | Some p \<Rightarrow> p a ob)"

definition execute_failed ::
  "nat \<Rightarrow> nat \<Rightarrow> go_error \<Rightarrow> ('w, 'k, 's) engine_state \<Rightarrow> ('w, 'k, 's) engine_state batch_exit" where
  "execute_failed i j err st0 =
     (let st = capture (es_observation st0) st0 in
      if errors_is err ErrBudgetExceeded
      then BatchStopped (st\<lparr>es_result := (es_result st)\<lparr>er_budget_exhausted := True,
             er_termination := TerminationRuntimeBudget\<rparr>\<rparr>)
      else BatchFailed (if is_cancellation err then StatusCanceled else StatusRuntimeFailed)
             (errorf_w ErrRuntime (action_name i j) err) st)"

fun run_batch_actions ::
  "('w, 'k) engine \<Rightarrow> nat \<Rightarrow> nat \<Rightarrow> action list \<Rightarrow> batch_log \<Rightarrow> ('w, 'k, 's) engine_state \<Rightarrow>
   ('w, 'k, 's) engine_state batch_exit" where
  "run_batch_actions e i j [] bl st = BatchDone bl st"
| "run_batch_actions e i j (a # rest) bl st =
     (case profile_error e a (es_observation st) of
        Some err \<Rightarrow>
          if errors_is err ErrActionInapplicable
          then run_batch_actions e i (Suc j) rest
                 (bl\<lparr>bl_reasons := bl_reasons bl @ [err_text err], bl_codes := bl_codes bl @ [code_of err]\<rparr>) st
          else if errors_is err ErrModelBoundReached
          then BatchStopped (model_bound_stop err bl st)
          else BatchFailed StatusUnsupported (errorf_v ErrUnsupported (action_name i j @ '': '' @ err_text err))
                 (capture (es_observation st)
                   (st\<lparr>es_result := mark_last (mark_stopped ResolutionUnsupported (code_of err) (err_text err))
                         ((es_result st)\<lparr>er_termination_code := code_of err\<rparr>)\<rparr>))
      | None \<Rightarrow>
          (case runtime_execute a (es_runtime st) of
             (Inl err, r) \<Rightarrow> execute_failed i j err (st\<lparr>es_runtime := r\<rparr>)
           | (Inr step, r) \<Rightarrow>
               (case after_step e i j a step (st\<lparr>es_runtime := r\<rparr>) of
                  Inl (status, err, st) \<Rightarrow> BatchFailed status err st
                | Inr st \<Rightarrow>
                    run_batch_actions e i (Suc j) rest (bl\<lparr>bl_executed := bl_executed bl @ [a]\<rparr>) st)))"

section \<open>The loop over planned actions\<close>

text \<open>The next planned action: an error, the end of the source, or an action.\<close>

type_synonym 's next_action = "nat \<Rightarrow> observation \<Rightarrow> 's \<Rightarrow> (go_error + plan_action option) \<times> 's"

text \<open>How one turn of the loop ends: the loop goes on, breaks, or the run returns.\<close>

datatype 'st turn = Continue 'st | Break 'st | PolicyDone 'st | TurnFailed engine_status go_error 'st | TurnCrashed

text \<open>A turn that has executed nothing counts towards the budget of consecutive no-ops.\<close>

definition count_noop :: "engine_config \<Rightarrow> ('w, 'k, 's) engine_state \<Rightarrow> ('w, 'k, 's) engine_state turn" where
  "count_noop cfg st0 =
     (let st = st0\<lparr>es_noops := es_noops st0 + 1\<rparr> in
      if ec_max_consecutive_noops cfg > 0 \<and> es_noops st \<ge> ec_max_consecutive_noops cfg
      then Break (st\<lparr>es_result := (es_result st)\<lparr>er_budget_exhausted := True,
             er_termination := TerminationConsecutiveNoops\<rparr>\<rparr>)
      else Continue st)"

definition finish_batch ::
  "engine_config \<Rightarrow> batch_log \<Rightarrow> ('w, 'k, 's) engine_state \<Rightarrow> ('w, 'k, 's) engine_state turn" where
  "finish_batch cfg bl st0 =
     (let st = (if bl_reasons bl \<noteq> []
                then st0\<lparr>es_result := mark_last (mark_inapplicable (bl_executed bl) (bl_codes bl) (bl_reasons bl))
                                      (es_result st0)\<rparr>
                else st0)
      in if bl_executed bl = [] then count_noop cfg st else Continue (st\<lparr>es_noops := 0\<rparr>))"

definition run_resolution ::
  "('w, 'k) engine \<Rightarrow> nat \<Rightarrow> resolution \<Rightarrow> ('w, 'k, 's) engine_state \<Rightarrow> ('w, 'k, 's) engine_state turn" where
  "run_resolution e i resolution st0 =
     (let st = st0\<lparr>es_result := (es_result st0)\<lparr>er_resolutions := er_resolutions (es_result st0) @ [resolution]\<rparr>\<rparr>
      in case resolution_validate resolution of
        Some err \<Rightarrow> TurnFailed StatusResolutionFailed
          (errorf_v ErrResolution (''plan action '' @ show_nat i @ '' returned invalid resolution: '' @ err_text err))
          (capture (es_observation st) st)
      | None \<Rightarrow>
          (let reason = rejection_reason (eg_config e) resolution in
           if reason \<noteq> []
           then TurnFailed StatusResolutionFailed
                  (errorf_v ErrResolution (''plan action '' @ show_nat i @ '': '' @ reason)) (capture (es_observation st) st)
           else if rs_actions resolution = [] then count_noop (eg_config e) st
           else case run_batch_actions e i 0 (rs_actions resolution)
                       \<lparr>bl_executed = [], bl_reasons = [], bl_codes = []\<rparr> st of
             BatchFailed status err st \<Rightarrow> TurnFailed status err st
           | BatchStopped st \<Rightarrow> Break st
           | BatchDone bl st \<Rightarrow> finish_batch (eg_config e) bl st))"

definition plan_turn ::
  "('w, 'k) engine \<Rightarrow> 's next_action \<Rightarrow> nat \<Rightarrow> ('w, 'k, 's) engine_state \<Rightarrow> ('w, 'k, 's) engine_state turn" where
  "plan_turn e next_of i st0 =
     (case check_context (es_runtime st0) of
        (Some err, r) \<Rightarrow> TurnFailed StatusCanceled err (capture (es_observation st0) (st0\<lparr>es_runtime := r\<rparr>))
      | (None, r) \<Rightarrow>
          (case next_of i (es_observation st0) (es_source st0) of
             (Inl err, s) \<Rightarrow> TurnFailed StatusPolicyFailed
               (errorf_v ErrPolicy (''action '' @ show_nat i @ '': '' @ err_text err))
               (capture (es_observation st0) (st0\<lparr>es_runtime := r, es_source := s\<rparr>))
           | (Inr None, s) \<Rightarrow> PolicyDone (st0\<lparr>es_runtime := r, es_source := s\<rparr>)
           | (Inr (Some planned), s) \<Rightarrow>
               (let st = st0\<lparr>es_runtime := r, es_source := s\<rparr> in
                case plan_action_validate planned of
                  Some err \<Rightarrow> TurnFailed StatusInvalidPlan
                    (errorf_v ErrInvalidPlanSequence (''generated action '' @ show_nat i @ '': '' @ err_text err))
                    (capture (es_observation st) st)
                | None \<Rightarrow>
                    (case eg_resolver e planned (es_observation st) of
                       None \<Rightarrow> TurnCrashed
                     | Some resolution \<Rightarrow>
                         run_resolution e i resolution (st\<lparr>es_processed := es_processed st + 1\<rparr>)))))"

text \<open>The loop has at most \<open>maximum\<close> turns; the result tells whether the source has ended it.\<close>

fun plan_loop ::
  "('w, 'k) engine \<Rightarrow> 's next_action \<Rightarrow> nat \<Rightarrow> nat \<Rightarrow> ('w, 'k, 's) engine_state \<Rightarrow>
   (bool \<times> ('w, 'k, 's) engine_state) engine_exit" where
  "plan_loop e next_of i 0 st = Finished (False, st)"
| "plan_loop e next_of i (Suc n) st =
     (case plan_turn e next_of i st of
        Continue st \<Rightarrow> plan_loop e next_of (Suc i) n st
      | Break st \<Rightarrow> Finished (False, st)
      | PolicyDone st \<Rightarrow> Finished (True, st)
      | TurnFailed status err st \<Rightarrow> Failed status err (False, st)
      | TurnCrashed \<Rightarrow> Crashed)"

section \<open>A run\<close>

definition set_termination :: "bool \<Rightarrow> bool \<Rightarrow> int \<Rightarrow> bool \<Rightarrow> int \<Rightarrow> engine_result \<Rightarrow> engine_result" where
  "set_termination budgeted online maximum policy_complete processed r =
     (if er_termination r = TerminationNone \<and> budgeted \<and> processed = maximum
      then r\<lparr>er_budget_exhausted := True, er_termination := TerminationPlanActionBudget\<rparr>
      else if er_termination r = TerminationNone \<and> policy_complete
      then r\<lparr>er_termination := TerminationPolicyComplete\<rparr>
      else if er_termination r = TerminationNone \<and> \<not> online
      then r\<lparr>er_termination := TerminationPlanComplete\<rparr>
      else r)"

type_synonym ('w, 'k, 's) engine_outcome = "engine_result \<times> go_error option \<times> ('w, 'k, 's) engine_state"

definition engine_fail ::
  "engine_status \<Rightarrow> go_error \<Rightarrow> ('w, 'k, 's) engine_state \<Rightarrow> ('w, 'k, 's) engine_outcome" where
  "engine_fail status err st =
     (let r = (es_result st)\<lparr>er_status := status, er_error := err_text err\<rparr> in (r, Some err, st\<lparr>es_result := r\<rparr>))"

definition execute_model ::
  "('w, 'k) engine \<Rightarrow> ('w, 'k, 's) engine_state \<Rightarrow> ('w, 'k, 's) engine_outcome" where
  "execute_model e st =
     (case eg_executor e of
        None \<Rightarrow> (let r = (es_result st)\<lparr>er_status := StatusCompleted\<rparr> in (r, None, st\<lparr>es_result := r\<rparr>))
      | Some executor \<Rightarrow>
          (let st = st\<lparr>es_result := (es_result st)\<lparr>er_model_executed := True\<rparr>\<rparr>;
               (answer, w) = executor (er_events (es_result st)) (rt_world (es_runtime st));
               st = st\<lparr>es_runtime := (es_runtime st)\<lparr>rt_world := w\<rparr>\<rparr>
           in case answer of
             Inl err \<Rightarrow> engine_fail (if is_cancellation err then StatusCanceled else StatusModelFailed)
               (errorf_v ErrModel (err_text err)) st
           | Inr states \<Rightarrow>
               (let r = (es_result st)\<lparr>er_status := StatusCompleted, er_states := er_states (es_result st) @ states\<rparr>
                in (r, None, st\<lparr>es_result := r\<rparr>))))"

definition engine_finish ::
  "('w, 'k) engine \<Rightarrow> bool \<Rightarrow> bool \<Rightarrow> int \<Rightarrow> bool \<Rightarrow> ('w, 'k, 's) engine_state \<Rightarrow> ('w, 'k, 's) engine_outcome" where
  "engine_finish e budgeted online maximum policy_complete st =
     execute_model e (capture (es_observation st)
       (st\<lparr>es_result := set_termination budgeted online maximum policy_complete (es_processed st) (es_result st)\<rparr>))"

text \<open>The source is initialized with the first observation; a plan sequence has no initializer.\<close>

definition engine_start ::
  "('w, 'k) engine \<Rightarrow> (observation \<Rightarrow> 's \<Rightarrow> go_error option \<times> 's) \<Rightarrow> ('w, 'k, 's) engine_state \<Rightarrow>
   (engine_status \<times> go_error \<times> ('w, 'k, 's) engine_state) + ('w, 'k, 's) engine_state" where
  "engine_start e initialize st0 =
     (case check_context (es_runtime st0) of
        (Some err, r) \<Rightarrow> Inl (StatusCanceled, err, st0\<lparr>es_runtime := r\<rparr>)
      | (None, r) \<Rightarrow>
          (case runtime_reset r of
             (Inl err, r) \<Rightarrow>
               Inl (if is_cancellation err then StatusCanceled else StatusRuntimeFailed,
                 errorf_w ErrRuntime ''reset'' err, capture empty_observation (st0\<lparr>es_runtime := r\<rparr>))
           | (Inr ob, r) \<Rightarrow>
               (let (fs, ks) = run_checkers (\<lambda>c k. ck_reset c ob k) (eg_checkers e) (es_checkers st0);
                    st = st0\<lparr>es_runtime := r, es_checkers := ks, es_observation := ob,
                      es_result := append_findings 0 fs ((es_result st0)\<lparr>er_initial := ob, er_final := ob\<rparr>)\<rparr>
                in if er_findings (es_result st) \<noteq> []
                   then Inl (StatusOracleFailed,
                          errorf_v ErrOracle (''initial state: '' @ fd_message (hd (er_findings (es_result st)))),
                          capture ob st)
                   else case initialize ob (es_source st) of
                     (Some err, s) \<Rightarrow> Inl (StatusPolicyFailed, errorf_v ErrPolicy (''reset: '' @ err_text err),
                                        capture ob (st\<lparr>es_source := s\<rparr>))
                   | (None, s) \<Rightarrow> Inr (st\<lparr>es_source := s\<rparr>))))"

definition start_state :: "'w runtime \<Rightarrow> 'k list \<Rightarrow> 's \<Rightarrow> ('w, 'k, 's) engine_state" where
  "start_state r ks s = \<lparr>es_runtime = r, es_checkers = ks, es_source = s, es_observation = empty_observation,
     es_result = new_result, es_processed = 0, es_noops = 0\<rparr>"

text \<open>\<open>run\<close>; \<open>None\<close> is a panic of the resolver.\<close>

definition engine_run ::
  "('w, 'k) engine \<Rightarrow> nat \<Rightarrow> bool \<Rightarrow> bool \<Rightarrow> (observation \<Rightarrow> 's \<Rightarrow> go_error option \<times> 's) \<Rightarrow> 's next_action \<Rightarrow>
   'w runtime \<Rightarrow> 'k list \<Rightarrow> 's \<Rightarrow> ('w, 'k, 's) engine_outcome option" where
  "engine_run e maximum budgeted online initialize next_of r ks s =
     (case engine_start e initialize (start_state r ks s) of
        Inl (status, err, st) \<Rightarrow> Some (engine_fail status err st)
      | Inr st \<Rightarrow>
          (case plan_loop e next_of 0 maximum st of
             Crashed \<Rightarrow> None
           | Failed status err (_, st) \<Rightarrow> Some (engine_fail status err st)
           | Finished (policy_complete, st) \<Rightarrow>
               Some (engine_finish e budgeted online (int maximum) policy_complete st)))"

definition engine_run_sequence ::
  "('w, 'k) engine \<Rightarrow> plan_sequence \<Rightarrow> 'w runtime \<Rightarrow> 'k list \<Rightarrow> ('w, 'k, unit) engine_outcome option" where
  "engine_run_sequence e sequence r ks =
     (case plan_sequence_validate sequence of
        Some err \<Rightarrow> Some (engine_fail StatusInvalidPlan (errorf_v ErrInvalidPlanSequence (err_text err)) (start_state r ks ()))
      | None \<Rightarrow>
          (let len = int (length (ps_actions sequence)); limit = ec_max_plan_actions (eg_config e);
               budgeted = (limit > 0 \<and> len > limit);
               maximum = (if budgeted then limit else len)
           in engine_run e (nat maximum) budgeted False (\<lambda>ob s. (None, s))
                (\<lambda>i ob s. (Inr (Some (ps_actions sequence ! i)), s)) r ks ()))"

record 's action_source =
  as_reset :: "observation \<Rightarrow> 's \<Rightarrow> go_error option \<times> 's"
  as_next :: "observation \<Rightarrow> 's \<Rightarrow> (go_error + plan_action option) \<times> 's"

definition engine_run_source ::
  "('w, 'k) engine \<Rightarrow> 's action_source option \<Rightarrow> int \<Rightarrow> 'w runtime \<Rightarrow> 'k list \<Rightarrow> 's \<Rightarrow>
   ('w, 'k, 's) engine_outcome option" where
  "engine_run_source e source max_plan_actions r ks s =
     (case source of
        None \<Rightarrow> Some (engine_fail StatusPolicyFailed (errorf_v ErrPolicy ''action source is nil'') (start_state r ks s))
      | Some src \<Rightarrow>
          if max_plan_actions \<le> 0
          then Some (engine_fail StatusPolicyFailed (errorf_v ErrPolicy ''max plan actions must be positive'')
                 (start_state r ks s))
          else
            let limit = ec_max_plan_actions (eg_config e);
                maximum = (if limit > 0 \<and> max_plan_actions > limit then limit else max_plan_actions)
            in engine_run e (nat maximum) True True (as_reset src) (\<lambda>_ ob s. as_next src ob s) r ks s)"

end
