(* ===== verification/Runtime_Queue.thy ===== *)
theory Runtime_Queue
  imports Runtime
begin

text \<open>
  How the queue of messages moves in a step of the runtime: exactly by the action (a delivery or a drop
  takes one message, a duplication adds one) and by the SendMessage effects of the step. So the length
  of the queue can be read off the recorded trace.
\<close>

definition sent :: "effect list \<Rightarrow> nat" where
  "sent es = length (filter is_send_message es)"

lemma sent_simps [simp]:
  "sent [] = 0" "sent (e # es) = (if is_send_message e then 1 else 0) + sent es" "sent (es @ fs) = sent es + sent fs"
  by (simp_all add: sent_def)

definition queue_grew :: "'w runtime \<Rightarrow> effect list \<Rightarrow> 'w runtime \<Rightarrow> bool" where
  "queue_grew r es r' \<longleftrightarrow> network_len (rt_network r') = network_len (rt_network r) + sent es"

lemma concretize_effect_len:
  assumes "network_wf n" and "concretize_effect now e n = Inr (e', n')"
  shows "network_len n' = network_len n + sent [e']"
proof (cases "is_send_message e")
  case True
  with assms(2) obtain m where reg: "network_register_outbound n (the (eff_message e)) now = Inr (m, n')"
    and e': "e' = e\<lparr>eff_message := Some m\<rparr>"
    by (auto simp: concretize_effect_def split: sum.splits)
  have "n' = after_register n (the (eff_message e)) 0 now"
    using reg by (auto simp: network_register_outbound_def network_register_Inr)
  then have "network_len n' = Suc (network_len n)"
    using assms(1) network_len_after_register by (simp add: network_wf_def)
  with True e' show ?thesis by (simp add: is_send_message_def)
qed (use assms in \<open>simp add: concretize_effect_def\<close>)

lemma concretize_effects_len:
  "network_wf n \<Longrightarrow> concretize_effects now i es n = (Inr cs, n') \<Longrightarrow> network_len n' = network_len n + sent cs"
proof (induction es arbitrary: i n cs)
  case (Cons e es)
  obtain e' n1 cs' where step: "concretize_effect now e n = Inr (e', n1)"
    and rest: "concretize_effects now (Suc i) es n1 = (Inr cs', n')" "cs = e' # cs'"
    using Cons.prems(2) by (cases rule: concretize_effects_Cons_cases) simp_all
  have "network_wf n1" using concretize_effect_grows [OF Cons.prems(1) step] by (simp add: network_grows_def)
  then show ?case using Cons.IH [OF _ rest(1)] concretize_effect_len [OF Cons.prems(1) step] rest(2) by simp
qed simp

lemma process_adapter_effects_queue:
  assumes "resources_ok r" and "process_adapter_effects es now r = (Inr cs, r')"
  shows "queue_grew r cs r'"
  using assms(2)
proof (cases rule: process_adapter_effects_cases)
  case (recorded n)
  have "network_wf (rt_network r)" using assms(1) by (simp add: resources_ok_def)
  then show ?thesis using concretize_effects_len recorded by (fastforce simp: queue_grew_def)
qed simp

lemma resources_ok_tick [simp]: "resources_ok (r\<lparr>rt_time := t, rt_world := w\<rparr>) = resources_ok r"
  by (simp add: resources_ok_def effects_budget_ok_def queue_budget_ok_def)

lemma advance_tick_queue:
  assumes "resources_ok r" and "advance_tick r = (Inr es, r')"
  shows "queue_grew r es r'"
  using assms(2)
proof (cases rule: advance_tick_cases)
  case (recorded fs w y)
  then show ?thesis
    using process_adapter_effects_queue [of "r\<lparr>rt_time := rt_time r + 1, rt_world := w\<rparr>"] assms(1)
    by (simp add: queue_grew_def)
qed simp_all

lemma advance_loop_queue:
  assumes "resources_ok r" and "advance_loop target acc r = (Inr es, r')"
  shows "\<exists>new. es = acc @ new \<and> queue_grew r new r'"
  using assms
proof (induction target acc r rule: advance_loop.induct)
  case (1 target acc r)
  show ?case
  proof (cases "rt_time r < target")
    case False
    then show ?thesis using 1(3) by (auto simp: advance_loop.simps [of target acc r] queue_grew_def)
  next
    case True
    obtain y r1 where t: "advance_tick r = (y, r1)" by fastforce
    obtain now where y: "y = Inr now" and rest: "advance_loop target (acc @ now) r1 = (Inr es, r')"
      using 1(3) True t by (cases y) (auto simp: advance_loop.simps [of target acc r])
    have ok: "resources_ok r1" using advance_tick_ok [OF 1(2) t] by simp
    have grew: "queue_grew r now r1" using advance_tick_queue [OF 1(2) t [unfolded y]] .
    obtain new where "es = (acc @ now) @ new" "queue_grew r1 new r'"
      using 1(1) [OF _ t [symmetric] y ok rest] True by auto
    then show ?thesis using grew by (auto simp: queue_grew_def intro!: exI [of _ "now @ new"])
  qed
qed

lemma apply_adapter_call_queue:
  assumes "resources_ok r" and "apply_adapter_call op detail f r = (Inr es, r')"
  shows "queue_grew r es r'"
  using assms(2)
proof (cases rule: apply_adapter_call_cases)
  case (recorded fs w)
  then show ?thesis using process_adapter_effects_queue [of "r\<lparr>rt_world := w\<rparr>"] assms(1) by (simp add: queue_grew_def)
qed simp

lemma removed_len:
  assumes "network_wf n" and "network_remove n i sel = Inr (m, n')"
  shows "network_len n = Suc (network_len n')"
proof -
  obtain q :: queued_message where "network_resolve n i sel = Inr q" and n': "n' = after_remove n sel"
    using assms(2) unfolding network_remove_Inr by blast
  then have "nat (sel_position sel) < length (queue_at n (sel_link sel))" unfolding network_resolve_Inr by blast
  then show ?thesis unfolding n' by (rule network_len_after_remove [OF assms(1)])
qed

lemma duplicated_len:
  assumes "network_wf n" and "network_duplicate n i sel now = Inr (m, n')"
  shows "network_len n' = Suc (network_len n)"
proof -
  obtain q :: queued_message where "n' = after_register n (duplicated_message (qm_message q)) i now"
    using assms(2) unfolding network_duplicate_Inr by blast
  then show ?thesis using assms(1) network_len_after_register by (simp add: network_wf_def)
qed

lemma apply_deliver_queue:
  assumes ok: "resources_ok r" and run: "apply_deliver a r = (Inr es, r')"
  shows "0 < network_len (rt_network r) \<and> Suc (network_len (rt_network r')) = network_len (rt_network r) + sent es"
proof -
  let ?sel = "the (act_selector a)"
  obtain q where q: "network_resolve (rt_network r) (act_message a) ?sel = Inr q"
    using run by (auto simp: apply_deliver_def split: sum.splits)
  obtain y w where y: "call_sut ''deliver'' (ad_deliver (rt_adapter r) (rt_time r) (qm_message q)) r
      = (y, r\<lparr>rt_world := w\<rparr>)"
    by (metis call_sut_frame prod.collapse)
  obtain fs where fs: "y = Inr fs" using run q y by (cases y) (simp_all add: apply_deliver_def)
  obtain m n where rm: "network_remove (rt_network r) (act_message a) ?sel = Inr (m, n)"
    using run q y fs by (auto simp: apply_deliver_def split: sum.splits)
  let ?s = "r\<lparr>rt_world := w, rt_network := n\<rparr>"
  have "process_adapter_effects fs (rt_time ?s) ?s = (Inr es, r')"
    using run q y fs rm by (simp add: apply_deliver_def)
  moreover have "resources_ok ?s" using resources_ok_remove [of "r\<lparr>rt_world := w\<rparr>"] rm ok by simp
  ultimately have "queue_grew ?s es r'" by (intro process_adapter_effects_queue)
  moreover have "network_len (rt_network r) = Suc (network_len n)"
    by (rule removed_len [OF _ rm]) (use ok in \<open>simp add: resources_ok_def\<close>)
  ultimately show ?thesis by (simp add: queue_grew_def)
qed

text \<open>The queue after an action, from the queue before it.\<close>

definition queue_after :: "action \<Rightarrow> effect list \<Rightarrow> nat \<Rightarrow> nat \<Rightarrow> bool" where
  "queue_after a es before after \<longleftrightarrow>
     (if act_kind a \<in> {ActionDeliver, ActionDrop} then 0 < before \<and> Suc after = before + sent es
      else if act_kind a = ActionDuplicate then after = Suc before + sent es
      else after = before + sent es)"

lemma apply_action_queue:
  assumes ok: "resources_ok r" and run: "apply_action a r = (Inr es, r')"
  shows "queue_after a es (network_len (rt_network r)) (network_len (rt_network r'))"
proof -
  have wf: "network_wf (rt_network r)" using ok by (simp add: resources_ok_def)
  show ?thesis
  proof (cases "act_kind a")
    case ActionDeliver
    then show ?thesis using run apply_deliver_queue [OF ok] by (simp add: apply_action_def queue_after_def)
  next
    case ActionDrop
    then show ?thesis using run removed_len [OF wf] by (auto simp: apply_action_def queue_after_def split: sum.splits)
  next
    case ActionDuplicate
    then show ?thesis using run duplicated_len [OF wf] by (auto simp: apply_action_def queue_after_def split: sum.splits)
  next
    case ActionAdvanceTime
    then have "advance_loop (act_target_time a) [] r = (Inr es, r')"
      using run by (auto simp: apply_action_def advance_time_def split: if_splits)
    from advance_loop_queue [OF ok this] ActionAdvanceTime show ?thesis by (simp add: queue_after_def queue_grew_def)
  next
    case ActionTimeout
    obtain y s where y: "apply_adapter_call ''force_timeout'' (''timeout node '' @ node_id_text (act_node a))
               (ad_force_timeout (rt_adapter r) (rt_time r) (act_node a)) r = (y, s)" by fastforce
    then have "y = Inr es" "s = r'"
      using run ActionTimeout by (cases y; simp add: apply_action_def split: option.splits)+
    then show ?thesis
      using apply_adapter_call_queue [OF ok] y ActionTimeout by (simp add: queue_after_def queue_grew_def)
  next
    case (ActionKindOther k)
    then show ?thesis using run by (simp add: apply_action_def)
  qed (use run apply_adapter_call_queue [OF ok] in \<open>simp_all add: apply_action_def queue_after_def queue_grew_def\<close>)
qed

lemma observation_of_len:
  "network_wf (rt_network r) \<Longrightarrow> observation_of r ob \<Longrightarrow> length (obs_messages ob) = network_len (rt_network r)"
  using network_observations_valid(3) by (simp add: observation_of_def)

text \<open>A recorded step has moved the queue of the observation before it to that of the observation after it.\<close>

lemma runtime_execute_queue:
  assumes ok: "runtime_ok r" and run: "runtime_execute a r = (Inr res, r')"
  shows "queue_after a (sr_effects (sres_record res)) (length (obs_messages (sres_before_observation res)))
    (length (obs_messages (sres_observation res)))"
  using run
proof (cases rule: runtime_execute_cases)
  case (stepped w)
  let ?r = "r\<lparr>rt_world := w\<rparr>"
  have res: "resources_ok ?r" and before: "observation_of ?r (rt_observation r)"
    using ok stepped(1,2) by (auto simp: runtime_ok_def running_ok_def observation_of_def)
  show ?thesis
    using stepped(5)
  proof (cases rule: execute_step_cases)
    case (executed es r1 w' ob d t)
    have r1: "resources_ok r1"
      using apply_action_ok [OF res _ executed(1)] stepped(4) by (simp add: applied_ok_def)
    have "length (obs_messages ob) = network_len (rt_network r1)"
      using observation_of_len [of "r1\<lparr>rt_last_action := Some a\<rparr>"] executed(2) r1 by (simp add: resources_ok_def)
    moreover have "length (obs_messages (rt_observation r)) = network_len (rt_network ?r)"
      using observation_of_len [OF _ before] res by (simp add: resources_ok_def)
    ultimately show ?thesis
      using apply_action_queue [OF res executed(1)] executed(4) by (simp add: step_record_of_def)
  qed simp_all
qed simp_all

end
