(* ===== verification/Engine_Execution.thy ===== *)
theory Engine_Execution
  imports Engine Runtime_Queue
begin

text \<open>
  What the engine guarantees of a run: \<open>going\<close> is the invariant of its loop, carried through one
  action (\<open>after_step\<close>), one resolution, one turn, the loop and the whole run; \<open>outcome_ok\<close> is what
  a result says. The lemmas on the runtime are those of Runtime (\<open>runtime_execute_ok\<close>,
  \<open>runtime_reset_ok\<close>).
\<close>

section \<open>What the engine knows of an execution\<close>

text \<open>The transitions of an execution: each starts from the observation the previous one ended with.\<close>

fun chained :: "observation \<Rightarrow> transition list \<Rightarrow> observation \<Rightarrow> bool" where
  "chained ob [] ob' \<longleftrightarrow> ob = ob'"
| "chained ob (t # ts) ob' \<longleftrightarrow> tn_before t = ob \<and> chained (tn_after t) ts ob'"

text \<open>Running the checkers over a list of transitions.\<close>

fun check_run :: "'k checker list \<Rightarrow> 'k list \<Rightarrow> transition list \<Rightarrow> finding list \<times> 'k list" where
  "check_run cs ks [] = ([], ks)"
| "check_run cs ks (t # ts) =
     (let (fs, ks') = run_checkers (\<lambda>c k. ck_check c t k) cs ks; (rest, ks'') = check_run cs ks' ts
      in (fs @ rest, ks''))"

lemma chained_snoc [simp]: "chained ob (ts @ [t]) ob' \<longleftrightarrow> chained ob ts (tn_before t) \<and> tn_after t = ob'"
  by (induction ts arbitrary: ob) auto

lemma check_run_snoc:
  "check_run cs ks (ts @ [t]) =
     (let (fs, ks') = check_run cs ks ts; (rest, ks'') = run_checkers (\<lambda>c k. ck_check c t k) cs ks'
      in (fs @ rest, ks''))"
  by (induction ts arbitrary: ks) (simp_all add: Let_def split: prod.splits)

lemma map_all_snoc:
  assumes "map_all (Some m) ts = Inr events" and "m t = Inr new" and "\<forall>e \<in> set new. event_validate e = None"
  shows "map_all (Some m) (ts @ [t]) = Inr (events @ new)"
proof -
  obtain ess where "list_all2 (\<lambda>t es. m t = Inr es \<and> (\<forall>e \<in> set es. event_validate e = None)) ts ess" "events = concat ess"
    using assms(1) by (auto simp: map_all_def map_all_from_Inr)
  then show ?thesis
    using assms(2,3) by (auto simp: map_all_def map_all_from_Inr intro!: exI [of _ "ess @ [new]"] list_all2_appendI)
qed

lemma append_events_from_None:
  "append_events_from j acc es = (appended, None) \<longleftrightarrow> (\<forall>e \<in> set es. event_validate e = None) \<and> appended = acc @ es"
  by (induction j acc es rule: append_events_from.induct) (auto split: option.splits)

text \<open>The trace of the runtime, the actions of the result and the mark of an initialized runtime; this
  holds wherever the engine stops.\<close>

definition traced :: "('w, 'k, 's) engine_state \<Rightarrow> bool" where
  "traced st \<longleftrightarrow> runtime_ok (es_runtime st) \<and> rt_initialized (es_runtime st) \<and>
     map sr_action (tr_steps (rt_trace (es_runtime st))) = er_actions (es_result st)"

text \<open>A transition the runtime performed is valid, and its queue has moved as the record says.\<close>

definition performed :: "transition \<Rightarrow> bool" where
  "performed t \<longleftrightarrow> transition_validate t = None \<and>
     queue_after (sr_action (tn_record t)) (sr_effects (tn_record t))
       (length (obs_messages (tn_before t))) (length (obs_messages (tn_after t)))"

text \<open>The transitions \<open>ts\<close> explain everything the result says of an execution that goes on.\<close>

definition explained ::
  "('w, 'k) engine \<Rightarrow> observation \<Rightarrow> 'k list \<Rightarrow> transition list \<Rightarrow> ('w, 'k, 's) engine_state \<Rightarrow> bool" where
  "explained e ob0 ks ts st \<longleftrightarrow>
     chained ob0 ts (es_observation st) \<and> list_all performed ts \<and>
     map tn_record ts = tr_steps (rt_trace (es_runtime st)) \<and>
     map_all (Some (eg_mapper e)) ts = Inr (er_events (es_result st)) \<and>
     check_run (eg_checkers e) ks ts = ([], es_checkers st) \<and>
     er_findings (es_result st) = [] \<and> er_initial (es_result st) = ob0 \<and> er_states (es_result st) = []"

definition going ::
  "('w, 'k) engine \<Rightarrow> observation \<Rightarrow> 'k list \<Rightarrow> ('w, 'k, 's) engine_state \<Rightarrow> bool" where
  "going e ob0 ks st \<longleftrightarrow> traced st \<and> \<not> rt_terminated (es_runtime st) \<and>
     es_observation st = rt_observation (es_runtime st) \<and> er_final (es_result st) = es_observation st \<and>
     (\<exists>ts. explained e ob0 ks ts st)"

text \<open>Where the loop has stopped, the runtime may be at its end; nothing else changes.\<close>

definition stopped ::
  "('w, 'k) engine \<Rightarrow> observation \<Rightarrow> 'k list \<Rightarrow> ('w, 'k, 's) engine_state \<Rightarrow> bool" where
  "stopped e ob0 ks st \<longleftrightarrow> traced st \<and> (\<exists>ts. explained e ob0 ks ts st)"

lemma going_stopped: "going e ob0 ks st \<Longrightarrow> stopped e ob0 ks st"
  by (auto simp: going_def stopped_def)

lemma trace_steps_valid: "trace_validate t = None \<Longrightarrow> s \<in> set (tr_steps t) \<Longrightarrow> step_record_validate s = None"
proof -
  have "validate_trace_steps v i prev ss = None \<Longrightarrow> s \<in> set ss \<Longrightarrow> step_record_validate s = None" for v i prev ss
    by (induction ss arbitrary: i prev)
      (auto simp: validate_trace_steps_Cons_None step_ok_def simp del: validate_trace_steps.simps(2))
  then show "trace_validate t = None \<Longrightarrow> s \<in> set (tr_steps t) \<Longrightarrow> step_record_validate s = None"
    by (auto simp: trace_validate_def split: if_splits)
qed

lemma runtime_reset_steps:
  assumes "runtime_reset r = (x, r')" shows "tr_steps (rt_trace r') = []"
proof -
  define q where "q = r\<lparr>rt_network := new_network, rt_time := 0,
      rt_trace := new_trace (cfg_execution_id (rt_config r)) (cfg_seed (rt_config r)),
      rt_last_action := None, rt_action_count := 0, rt_effect_count := 0,
      rt_initialized := True, rt_terminated := False, rt_failure := None\<rparr>"
  have q: "tr_steps (rt_trace q) = []" by (simp add: q_def new_trace_def)
  obtain y w where y: "call_sut ''reset'' (ad_reset (rt_adapter q) (cfg_seed (rt_config q))) q = (y, q\<lparr>rt_world := w\<rparr>)"
    by (metis call_sut_frame prod.collapse)
  obtain z v where z: "collect_observation (q\<lparr>rt_world := w\<rparr>) = (z, q\<lparr>rt_world := v\<rparr>)"
    using collect_observation_ok(1) by (metis prod.collapse runtime.surjective runtime.update_convs(13))
  have "runtime_reset r = (case y of
        Inl e \<Rightarrow> (Inl (errorf_w ErrAdapter ''reset'' e), record_failure ''reset'' None empty_observation
            (errorf_w ErrAdapter ''reset'' e) (q\<lparr>rt_world := w, rt_terminated := True\<rparr>))
      | Inr u \<Rightarrow> (case z of
          Inl e \<Rightarrow> (Inl e, record_failure ''observe'' None empty_observation e (q\<lparr>rt_world := v, rt_terminated := True\<rparr>))
        | Inr ob \<Rightarrow> (Inr ob, q\<lparr>rt_world := v, rt_observation := ob\<rparr>)))"
    unfolding runtime_reset_def q_def [symmetric] Let_def y
    by (cases y; cases z) (simp_all add: z)
  with assms q show ?thesis by (cases y; cases z) auto
qed

lemma running_observation:
  assumes "runtime_ok r" "rt_initialized r" "\<not> rt_terminated r"
  shows "observation_validate (rt_observation r) = None \<and> obs_time (rt_observation r) = rt_time r \<and>
    (\<forall>s \<in> set (tr_steps (rt_trace r)). step_record_validate s = None)"
proof -
  have "running_ok r" "recording_ok r" using assms by (auto simp: runtime_ok_def)
  then show ?thesis by (auto simp: running_ok_def observation_of_def recording_ok_def trace_steps_valid)
qed

lemma step_transition_valid:
  assumes "runtime_ok r" "rt_initialized r" "\<not> rt_terminated r" "runtime_ok r'" "step_executed a r step r'"
  shows "transition_validate (step_transition step) = None"
proof -
  have r': "rt_initialized r'" "\<not> rt_terminated r'" "tr_steps (rt_trace r') = tr_steps (rt_trace r) @ [sres_record step]"
    "sres_before_observation step = rt_observation r" "sres_observation step = rt_observation r'"
    "sr_time_before (sres_record step) = rt_time r" "sr_time_after (sres_record step) = rt_time r'"
    using assms(5) by (simp_all add: step_executed_def)
  show ?thesis
    using running_observation [OF assms(1-3)] running_observation [OF assms(4) r'(1,2)] r'(3-7)
    by (simp add: transition_validate_None step_transition_def)
qed

lemma capture_sel [simp]:
  "es_runtime (capture ob st) = es_runtime st" "es_observation (capture ob st) = es_observation st"
  "es_checkers (capture ob st) = es_checkers st" "es_source (capture ob st) = es_source st"
  "es_processed (capture ob st) = es_processed st" "es_noops (capture ob st) = es_noops st"
  "er_actions (es_result (capture ob st)) = er_actions (es_result st)"
  "er_resolutions (es_result (capture ob st)) = er_resolutions (es_result st)"
  "er_events (es_result (capture ob st)) = er_events (es_result st)"
  "er_findings (es_result (capture ob st)) = er_findings (es_result st)"
  "er_initial (es_result (capture ob st)) = er_initial (es_result st)"
  "er_states (es_result (capture ob st)) = er_states (es_result st)"
  "er_termination (es_result (capture ob st)) = er_termination (es_result st)"
  "er_budget_exhausted (es_result (capture ob st)) = er_budget_exhausted (es_result st)"
  "er_final (es_result (capture ob st)) = ob"
  by (simp_all add: capture_def Let_def)

lemma traced_capture [simp]: "traced (capture ob st) = traced st"
  by (simp add: traced_def)

lemma capture_trace: "traced st \<Longrightarrow> er_trace (es_result (capture ob st)) = rt_trace (es_runtime st)"
  by (simp add: traced_def capture_def Let_def runtime_trace_def)

text \<open>What a failing exit leaves behind: the trace is that of the actions.\<close>

definition failed_ok :: "('w, 'k, 's) engine_state \<Rightarrow> bool" where
  "failed_ok st \<longleftrightarrow> map sr_action (tr_steps (er_trace (es_result st))) = er_actions (es_result st)"

lemma capture_failed_ok: "traced st \<Longrightarrow> failed_ok (capture ob st)"
  unfolding failed_ok_def by (simp add: capture_trace) (simp add: traced_def)
section \<open>The engine's steps keep track\<close>

lemma after_step_ok:
  assumes going: "going e ob0 ks st" and executed: "step_executed a (es_runtime st) step r'" and ok: "runtime_ok r'"
    and queue: "queue_after a (sr_effects (sres_record step)) (length (obs_messages (sres_before_observation step)))
      (length (obs_messages (sres_observation step)))"
  shows "case after_step e i j a step (st\<lparr>es_runtime := r'\<rparr>) of
      Inl (status, err, st') \<Rightarrow> failed_ok st' \<and> status \<noteq> StatusCompleted
    | Inr st' \<Rightarrow> going e ob0 ks st' \<and> er_actions (es_result st') = er_actions (es_result st) @ [a] \<and>
        er_resolutions (es_result st') = er_resolutions (es_result st) \<and>
        er_termination (es_result st') = er_termination (es_result st) \<and> es_processed st' = es_processed st"
proof -
  let ?t = "step_transition step" and ?ob = "sres_observation step"
  have r: "runtime_ok (es_runtime st)" "rt_initialized (es_runtime st)" "\<not> rt_terminated (es_runtime st)"
    "map sr_action (tr_steps (rt_trace (es_runtime st))) = er_actions (es_result st)"
    "es_observation st = rt_observation (es_runtime st)"
    using going by (simp_all add: going_def traced_def)
  obtain ts where ts: "explained e ob0 ks ts st" using going by (auto simp: going_def)
  have step: "sr_action (sres_record step) = a" "tr_steps (rt_trace r') = tr_steps (rt_trace (es_runtime st)) @ [sres_record step]"
    "sres_before_observation step = rt_observation (es_runtime st)" "?ob = rt_observation r'"
    "rt_initialized r'" "\<not> rt_terminated r'"
    using executed by (simp_all add: step_executed_def)
  have valid: "performed ?t"
    using step_transition_valid [OF r(1-3) ok executed] queue step(1) by (simp add: performed_def step_transition_def)
  define st1 where "st1 = st\<lparr>es_runtime := r', es_observation := ?ob,
      es_result := (es_result st)\<lparr>er_actions := er_actions (es_result st) @ [a], er_final := ?ob\<rparr>\<rparr>"
  have traced1: "traced st1"
    using ok step r(4) by (simp add: traced_def st1_def)
  show ?thesis
  proof (cases "eg_mapper e ?t")
    case (Inl err)
    then show ?thesis using capture_failed_ok [OF traced1, of ?ob] by (simp add: after_step_def Let_def st1_def)
  next
    case (Inr new)
    obtain appended bad where ap: "append_events_from 0 (er_events (es_result st)) new = (appended, bad)" by fastforce
    define st2 where "st2 = st1\<lparr>es_result := (es_result st1)\<lparr>er_events := appended\<rparr>\<rparr>"
    have traced2: "traced st2" using traced1 by (simp add: traced_def st2_def)
    show ?thesis
    proof (cases bad)
      case (Some p)
      then show ?thesis using Inr ap capture_failed_ok [OF traced2, of ?ob]
        by (cases p) (simp add: after_step_def Let_def st1_def st2_def)
    next
      case None
      then have events: "\<forall>e \<in> set new. event_validate e = None" and appended: "appended = er_events (es_result st) @ new"
        using ap append_events_from_None by blast+
      obtain fs ks' where checked: "run_checkers (\<lambda>c k. ck_check c ?t k) (eg_checkers e) (es_checkers st) = (fs, ks')"
        by fastforce
      define st3 where "st3 = st2\<lparr>es_checkers := ks',
          es_result := append_findings (int (length (er_actions (es_result st2)))) fs (es_result st2)\<rparr>"
      have traced3: "traced st3" using traced2 by (simp add: traced_def st3_def append_findings_def)
      have run: "after_step e i j a step (st\<lparr>es_runtime := r'\<rparr>) =
          (if er_findings (es_result st3) \<noteq> []
           then Inl (StatusOracleFailed,
                  errorf_v ErrOracle (action_name i j @ '': '' @ fd_message (hd (er_findings (es_result st3)))), capture ?ob st3)
           else Inr st3)"
        using Inr ap None checked by (simp add: after_step_def Let_def st1_def st2_def st3_def)
      show ?thesis
      proof (cases "er_findings (es_result st3) = []")
        case False
        then show ?thesis using run capture_failed_ok [OF traced3, of ?ob] by simp
      next
        case True
        then have silent: "fs = []" "er_findings (es_result st) = []"
          by (simp_all add: st3_def st2_def st1_def append_findings_def)
        have "explained e ob0 ks (ts @ [?t]) st3"
          using ts valid step r(5) silent checked map_all_snoc [of "eg_mapper e" ts _ ?t new] Inr events appended
          by (simp add: explained_def st3_def st2_def st1_def append_findings_def check_run_snoc step_transition_def)
        then have "going e ob0 ks st3"
          using traced3 step by (auto simp: going_def st3_def st2_def st1_def append_findings_def)
        then show ?thesis using run True by (simp add: st3_def st2_def st1_def append_findings_def)
      qed
    qed
  qed
qed

text \<open>A state is changed only in its result's resolutions, termination and budget mark, and counters.\<close>

definition same_execution :: "('w, 'k, 's) engine_state \<Rightarrow> ('w, 'k, 's) engine_state \<Rightarrow> bool" where
  "same_execution st st' \<longleftrightarrow>
     (\<exists>w. es_runtime st' = (es_runtime st)\<lparr>rt_world := w\<rparr>) \<and> es_checkers st' = es_checkers st \<and>
     es_observation st' = es_observation st \<and> er_actions (es_result st') = er_actions (es_result st) \<and>
     er_events (es_result st') = er_events (es_result st) \<and> er_findings (es_result st') = er_findings (es_result st) \<and>
     er_initial (es_result st') = er_initial (es_result st) \<and> er_final (es_result st') = er_final (es_result st) \<and>
     er_states (es_result st') = er_states (es_result st)"

lemma same_execution_traced: "same_execution st st' \<Longrightarrow> traced st' = traced st"
  unfolding same_execution_def traced_def by auto

lemma same_execution_explained: "same_execution st st' \<Longrightarrow> explained e ob0 ks ts st' = explained e ob0 ks ts st"
  unfolding same_execution_def explained_def by auto

lemma same_execution_going: "same_execution st st' \<Longrightarrow> going e ob0 ks st' = going e ob0 ks st"
  unfolding going_def by (simp add: same_execution_traced same_execution_explained) (auto simp: same_execution_def)

lemma same_execution_stopped: "same_execution st st' \<Longrightarrow> stopped e ob0 ks st' = stopped e ob0 ks st"
  unfolding stopped_def by (simp add: same_execution_traced same_execution_explained)

lemma world_self: "(\<exists>w. r = r\<lparr>rt_world := w\<rparr>)"
  by (rule exI [of _ "rt_world r"]) simp
section \<open>Resolutions account for the actions\<close>

text \<open>A batch that may be marked: valid, with something to execute.\<close>

lemma mark_inapplicable_valid:
  assumes "resolution_validate r = None" and "set executed \<subseteq> set (rs_actions r)" and "length executed < length (rs_actions r)"
  shows "resolution_validate (mark_inapplicable executed codes reasons r) = None"
  using assms
  by (cases "rs_status r")
    (auto simp: resolution_validate_None mark_inapplicable_def validate_resolution_status_def split: if_splits)

lemma mark_stopped_valid:
  assumes "resolution_validate r = None" and "rs_actions r \<noteq> []" and "status \<in> {ResolutionModelBound, ResolutionUnsupported}"
  shows "resolution_validate (mark_stopped status code reason r) = None"
  using assms
  by (cases "rs_status r")
    (auto simp: resolution_validate_None mark_stopped_def validate_resolution_status_def split: if_splits)

lemma mark_actions [simp]:
  "rs_actions (mark_inapplicable executed codes reasons r) = executed" "rs_actions (mark_stopped status code reason r) = []"
  by (simp_all add: mark_inapplicable_def mark_stopped_def)

definition accounted :: "resolution list \<Rightarrow> action list \<Rightarrow> bool" where
  "accounted rs actions \<longleftrightarrow> list_all (\<lambda>r. resolution_validate r = None) rs \<and> concat (map rs_actions rs) = actions"

lemma accounted_snoc:
  "accounted rs actions \<Longrightarrow> resolution_validate r = None \<Longrightarrow> accounted (rs @ [r]) (actions @ rs_actions r)"
  by (simp add: accounted_def)

lemma accounted_Nil [simp]: "accounted [] []"
  by (simp add: accounted_def)

definition log_ok :: "action list \<Rightarrow> batch_log \<Rightarrow> bool" where
  "log_ok tried bl \<longleftrightarrow> length (bl_executed bl) + length (bl_reasons bl) = length tried \<and>
     length (bl_codes bl) = length (bl_reasons bl) \<and> set (bl_executed bl) \<subseteq> set tried \<and>
     (bl_reasons bl = [] \<longrightarrow> bl_executed bl = tried)"

lemma log_ok_simps [simp]:
  "log_ok [] \<lparr>bl_executed = [], bl_reasons = [], bl_codes = []\<rparr>"
  by (simp add: log_ok_def)

lemma log_ok_executed: "log_ok tried bl \<Longrightarrow> log_ok (tried @ [a]) (bl\<lparr>bl_executed := bl_executed bl @ [a]\<rparr>)"
  by (auto simp: log_ok_def)

lemma log_ok_skipped:
  "log_ok tried bl \<Longrightarrow>
     log_ok (tried @ [a]) (bl\<lparr>bl_reasons := bl_reasons bl @ [reason], bl_codes := bl_codes bl @ [code]\<rparr>)"
  by (auto simp: log_ok_def)

text \<open>How the actions of a resolution end, given those before it.\<close>

definition batch_ended ::
  "('w, 'k) engine \<Rightarrow> observation \<Rightarrow> 'k list \<Rightarrow> resolution list \<Rightarrow> action list \<Rightarrow> resolution \<Rightarrow> int \<Rightarrow>
   ('w, 'k, 's) engine_state batch_exit \<Rightarrow> bool" where
  "batch_ended e ob0 ks rs actions r processed ending \<longleftrightarrow>
     (case ending of
        BatchFailed status err st \<Rightarrow> failed_ok st \<and> status \<noteq> StatusCompleted
      | BatchDone bl st \<Rightarrow>
          going e ob0 ks st \<and> er_resolutions (es_result st) = rs @ [r] \<and> log_ok (rs_actions r) bl \<and>
          er_actions (es_result st) = actions @ bl_executed bl \<and>
          er_termination (es_result st) = TerminationNone \<and> es_processed st = processed
      | BatchStopped st \<Rightarrow>
          stopped e ob0 ks st \<and>
          (er_termination (es_result st) = TerminationRuntimeBudget \<or>
           er_termination (es_result st) = TerminationModelBound \<and>
           accounted (er_resolutions (es_result st)) (er_actions (es_result st))))"

lemma run_batch_actions_ok:
  assumes "going e ob0 ks st" and "er_resolutions (es_result st) = rs @ [r]" and "accounted rs actions"
    and "resolution_validate r = None" and "rs_actions r = tried @ rest" and "log_ok tried bl"
    and "er_actions (es_result st) = actions @ bl_executed bl" and "er_termination (es_result st) = TerminationNone"
    and "es_processed st = processed"
  shows "batch_ended e ob0 ks rs actions r processed (run_batch_actions e i j rest bl st)"
  using assms
proof (induction rest arbitrary: j tried bl st)
  case Nil
  then show ?case by (simp add: batch_ended_def)
next
  case (Cons a rest)
  have traced: "traced st" using Cons.prems(1) by (simp add: going_def)
  have tried: "length (bl_executed bl) \<le> length tried" "set (bl_executed bl) \<subseteq> set tried"
    using Cons.prems(6) by (auto simp: log_ok_def)
  have next_tried: "rs_actions r = (tried @ [a]) @ rest" using Cons.prems(5) by simp
  show ?case
  proof (cases "profile_error e a (es_observation st)")
    case (Some err)
    show ?thesis
    proof (cases "errors_is err ErrActionInapplicable")
      case True
      from Cons.IH [OF Cons.prems(1-4) next_tried log_ok_skipped [OF Cons.prems(6)] _ Cons.prems(8,9)]
      show ?thesis using Cons.prems(7) Some True by simp
    next
      case other: False
      show ?thesis
      proof (cases "errors_is err ErrModelBoundReached")
        case True
        let ?st = "model_bound_stop err bl st"
        let ?mark = "if bl_executed bl = [] then mark_stopped ResolutionModelBound (code_of err) (err_text err)
            else mark_inapplicable (bl_executed bl) [code_of err] [err_text err]"
        have "same_execution st ?st" using world_self by (auto simp: same_execution_def model_bound_stop_def mark_last_def)
        with Cons.prems(1) have "stopped e ob0 ks ?st" by (simp add: same_execution_stopped going_stopped)
        moreover have "er_resolutions (es_result ?st) = rs @ [?mark r]"
          using Cons.prems(2) by (simp add: model_bound_stop_def mark_last_def)
        moreover have "resolution_validate (?mark r) = None"
        proof -
          have "set (bl_executed bl) \<subseteq> set (rs_actions r)" "length (bl_executed bl) < length (rs_actions r)"
            "rs_actions r \<noteq> []" using Cons.prems(5) tried by auto
          then show ?thesis
            using Cons.prems(4) by (simp add: mark_stopped_valid mark_inapplicable_valid)
        qed
        moreover have "er_actions (es_result ?st) = actions @ rs_actions (?mark r)"
          using Cons.prems(7) by (auto simp: model_bound_stop_def mark_last_def)
        ultimately have "stopped e ob0 ks ?st \<and> accounted (er_resolutions (es_result ?st)) (er_actions (es_result ?st))"
          using accounted_snoc [OF Cons.prems(3)] by simp
        then show ?thesis
          using Some other True by (simp add: batch_ended_def model_bound_stop_def mark_last_def)
      next
        case False
        then show ?thesis
          using Some other traced by (simp add: batch_ended_def traced_def mark_last_def capture_failed_ok)
      qed
    qed
  next
    case None
    obtain x r' where run: "runtime_execute a (es_runtime st) = (x, r')" by fastforce
    have ok: "runtime_ok (es_runtime st)" using traced by (simp add: traced_def)
    note execute = runtime_execute_ok [OF ok run]
    show ?thesis
    proof (cases x)
      case (Inl err)
      have frame: "rt_initialized r'" "rt_trace r' = rt_trace (es_runtime st)"
        using execute(3) [OF Inl] traced by (auto simp: step_failed_def traced_def)
      let ?st = "capture (es_observation st) (st\<lparr>es_runtime := r'\<rparr>)"
      have "traced ?st" using frame execute(1) traced by (simp add: traced_def)
      moreover obtain ts where "explained e ob0 ks ts st" using Cons.prems(1) by (auto simp: going_def)
      then have "explained e ob0 ks ts ?st" using frame by (simp add: explained_def)
      ultimately have "stopped e ob0 ks ?st" by (auto simp: stopped_def)
      moreover have "same_execution ?st (?st\<lparr>es_result := (es_result ?st)\<lparr>er_budget_exhausted := True,
          er_termination := TerminationRuntimeBudget\<rparr>\<rparr>)" using world_self by (auto simp: same_execution_def)
      moreover have "failed_ok ?st" using \<open>traced ?st\<close> by (metis capture_failed_ok traced_capture)
      ultimately show ?thesis
        using None run Inl by (simp add: execute_failed_def Let_def batch_ended_def same_execution_stopped)
    next
      case (Inr step)
      note after = after_step_ok [OF Cons.prems(1) execute(2) [OF Inr] execute(1) runtime_execute_queue [OF ok run [unfolded Inr]], of i j]
      show ?thesis
      proof (cases "after_step e i j a step (st\<lparr>es_runtime := r'\<rparr>)")
        case (Inl f)
        then show ?thesis using after None run \<open>x = Inr step\<close> by (cases f) (simp add: batch_ended_def)
      next
        case st': (Inr st')
        then have "going e ob0 ks st'" "er_resolutions (es_result st') = rs @ [r]"
          "er_actions (es_result st') = actions @ bl_executed (bl\<lparr>bl_executed := bl_executed bl @ [a]\<rparr>)"
          "er_termination (es_result st') = TerminationNone" "es_processed st' = processed"
          using after Cons.prems(2,7-9) by simp_all
        from Cons.IH [OF this(1,2) Cons.prems(3,4) next_tried log_ok_executed [OF Cons.prems(6)] this(3-5)]
        show ?thesis using None run \<open>x = Inr step\<close> st' by simp
      qed
    qed
  qed
qed
section \<open>The engine's turns\<close>

definition turn_ended ::
  "('w, 'k) engine \<Rightarrow> observation \<Rightarrow> 'k list \<Rightarrow> int \<Rightarrow> ('w, 'k, 's) engine_state turn \<Rightarrow> bool" where
  "turn_ended e ob0 ks processed ending \<longleftrightarrow>
     (case ending of
        TurnFailed status err st \<Rightarrow> failed_ok st \<and> status \<noteq> StatusCompleted
      | TurnCrashed \<Rightarrow> True
      | Continue st \<Rightarrow>
          going e ob0 ks st \<and> er_termination (es_result st) = TerminationNone \<and> es_processed st = processed + 1 \<and>
          accounted (er_resolutions (es_result st)) (er_actions (es_result st))
      | Break st \<Rightarrow>
          stopped e ob0 ks st \<and>
          (er_termination (es_result st) = TerminationRuntimeBudget \<or>
           er_termination (es_result st) \<in> {TerminationModelBound, TerminationConsecutiveNoops} \<and>
           accounted (er_resolutions (es_result st)) (er_actions (es_result st)))
      | PolicyDone st \<Rightarrow>
          going e ob0 ks st \<and> er_termination (es_result st) = TerminationNone \<and>
          accounted (er_resolutions (es_result st)) (er_actions (es_result st)))"

lemma count_noop_ok:
  assumes "going e ob0 ks st" and "er_termination (es_result st) = TerminationNone" and "es_processed st = processed + 1"
    and "accounted (er_resolutions (es_result st)) (er_actions (es_result st))"
  shows "turn_ended e ob0 ks processed (count_noop cfg st)"
proof -
  have "same_execution st (st\<lparr>es_noops := n\<rparr>)" for n using world_self by (auto simp: same_execution_def)
  then have going: "going e ob0 ks (st\<lparr>es_noops := n\<rparr>)" for n using same_execution_going assms(1) by blast
  have "same_execution st (st\<lparr>es_noops := n, es_result := (es_result st)\<lparr>er_budget_exhausted := True,
      er_termination := TerminationConsecutiveNoops\<rparr>\<rparr>)" for n
    using world_self by (auto simp: same_execution_def)
  then have "stopped e ob0 ks (st\<lparr>es_noops := n, es_result := (es_result st)\<lparr>er_budget_exhausted := True,
      er_termination := TerminationConsecutiveNoops\<rparr>\<rparr>)" for n
    using same_execution_stopped assms(1) going_stopped by blast
  with going show ?thesis
    using assms by (simp add: count_noop_def Let_def turn_ended_def)
qed

lemma finish_batch_ok:
  assumes "batch_ended e ob0 ks rs actions r (processed + 1) (BatchDone bl st)"
    and "accounted rs actions" and "resolution_validate r = None"
  shows "turn_ended e ob0 ks processed (finish_batch cfg bl st)"
proof -
  note facts = assms(1) [unfolded batch_ended_def, simplified]
  define st' where "st' = (if bl_reasons bl \<noteq> []
      then st\<lparr>es_result := mark_last (mark_inapplicable (bl_executed bl) (bl_codes bl) (bl_reasons bl)) (es_result st)\<rparr>
      else st)"
  have "same_execution st st'" using world_self by (auto simp: st'_def same_execution_def mark_last_def)
  then have going: "going e ob0 ks st'" using facts by (simp add: same_execution_going)
  have "accounted (er_resolutions (es_result st')) (er_actions (es_result st'))"
  proof (cases "bl_reasons bl = []")
    case True
    then have "bl_executed bl = rs_actions r" using facts by (simp add: log_ok_def)
    with True facts accounted_snoc [OF assms(2,3)] show ?thesis by (simp add: st'_def)
  next
    case False
    let ?r = "mark_inapplicable (bl_executed bl) (bl_codes bl) (bl_reasons bl) r"
    have "set (bl_executed bl) \<subseteq> set (rs_actions r)" "length (bl_executed bl) < length (rs_actions r)"
      using facts False by (auto simp: log_ok_def) (metis add_less_same_cancel1 length_greater_0_conv less_add_same_cancel1)
    then have "resolution_validate ?r = None" using assms(3) by (simp add: mark_inapplicable_valid)
    from accounted_snoc [OF assms(2) this] False facts show ?thesis by (simp add: st'_def mark_last_def)
  qed
  moreover have "er_termination (es_result st') = TerminationNone" "es_processed st' = processed + 1"
    using facts by (simp_all add: st'_def mark_last_def)
  moreover have "same_execution st' (st'\<lparr>es_noops := 0\<rparr>)" using world_self by (auto simp: same_execution_def)
  ultimately show ?thesis
    using going count_noop_ok [OF going]
    by (simp add: finish_batch_def Let_def st'_def [symmetric] turn_ended_def same_execution_going)
qed

lemma run_resolution_ok:
  assumes "going e ob0 ks st" and "er_termination (es_result st) = TerminationNone" and "es_processed st = processed + 1"
    and "accounted (er_resolutions (es_result st)) (er_actions (es_result st))"
  shows "turn_ended e ob0 ks processed (run_resolution e i r st)"
proof -
  define st1 where "st1 = st\<lparr>es_result := (es_result st)\<lparr>er_resolutions := er_resolutions (es_result st) @ [r]\<rparr>\<rparr>"
  have "same_execution st st1" using world_self by (auto simp: st1_def same_execution_def)
  then have going: "going e ob0 ks st1" using assms(1) by (simp add: same_execution_going)
  then have traced: "traced st1" by (simp add: going_def)
  have st1: "er_resolutions (es_result st1) = er_resolutions (es_result st) @ [r]"
    "er_actions (es_result st1) = er_actions (es_result st)" "er_termination (es_result st1) = TerminationNone"
    "es_processed st1 = processed + 1" using assms(2,3) by (simp_all add: st1_def)
  have failed: "turn_ended e ob0 ks processed (TurnFailed StatusResolutionFailed err (capture (es_observation st1) st1))" for err
    using traced by (simp add: turn_ended_def capture_failed_ok)
  show ?thesis
  proof (cases "resolution_validate r")
    case (Some err)
    then show ?thesis using failed by (simp add: run_resolution_def Let_def st1_def [symmetric])
  next
    case valid: None
    show ?thesis
    proof (cases "rejection_reason (eg_config e) r = []")
      case False
      then show ?thesis using failed valid by (simp add: run_resolution_def Let_def st1_def [symmetric])
    next
      case accepted: True
      show ?thesis
      proof (cases "rs_actions r = []")
        case True
        have "accounted (er_resolutions (es_result st1)) (er_actions (es_result st1))"
          using accounted_snoc [OF assms(4) valid] True st1 by simp
        from count_noop_ok [OF going st1(3,4) this] show ?thesis
          using valid accepted True by (simp add: run_resolution_def Let_def st1_def [symmetric])
      next
        case False
        let ?empty = "\<lparr>bl_executed = [], bl_reasons = [], bl_codes = []\<rparr>"
        let ?ending = "run_batch_actions e i 0 (rs_actions r) ?empty st1"
        have ended: "batch_ended e ob0 ks (er_resolutions (es_result st)) (er_actions (es_result st)) r (processed + 1) ?ending"
          by (rule run_batch_actions_ok [OF going st1(1) assms(4) valid, where tried = "[]"]) (simp_all add: st1)
        have run: "run_resolution e i r st = (case ?ending of BatchFailed status err st \<Rightarrow> TurnFailed status err st
            | BatchStopped st \<Rightarrow> Break st | BatchDone bl st \<Rightarrow> finish_batch (eg_config e) bl st)"
          using valid accepted False by (simp add: run_resolution_def Let_def st1_def [symmetric])
        show ?thesis
        proof (cases ?ending)
          case (BatchDone bl st')
          with ended run finish_batch_ok [of e ob0 ks _ _ r processed bl st'] assms(4) valid show ?thesis by simp
        next
          case (BatchStopped st')
          with ended run show ?thesis by (auto simp: batch_ended_def turn_ended_def)
        next
          case (BatchFailed status err st')
          with ended run show ?thesis by (simp add: batch_ended_def turn_ended_def)
        qed
      qed
    qed
  qed
qed

lemma plan_turn_ok:
  assumes "going e ob0 ks st" and "er_termination (es_result st) = TerminationNone" and "es_processed st = processed"
    and "accounted (er_resolutions (es_result st)) (er_actions (es_result st))"
  shows "turn_ended e ob0 ks processed (plan_turn e next_of i st)"
proof -
  obtain ec w where c: "check_context (es_runtime st) = (ec, (es_runtime st)\<lparr>rt_world := w\<rparr>)"
    using check_context_frame by (metis prod.collapse)
  let ?r = "(es_runtime st)\<lparr>rt_world := w\<rparr>"
  have same: "same_execution st (st\<lparr>es_runtime := ?r\<rparr>)" "same_execution st (st\<lparr>es_runtime := ?r, es_source := s\<rparr>)"
    "same_execution st (st\<lparr>es_runtime := ?r, es_source := s, es_processed := p\<rparr>)" for s p
    by (auto simp: same_execution_def)
  have traced: "traced st" using assms(1) by (simp add: going_def)
  have failed: "turn_ended e ob0 ks processed (TurnFailed status err (capture ob st'))"
    if "same_execution st st'" "status \<noteq> StatusCompleted" for status err ob st'
    using that traced by (simp add: turn_ended_def capture_failed_ok same_execution_traced)
  show ?thesis
  proof (cases ec)
    case (Some err)
    then show ?thesis using c failed [OF same(1), of StatusCanceled] by (simp add: plan_turn_def)
  next
    case None
    obtain answer s where answer: "next_of i (es_observation st) (es_source st) = (answer, s)" by fastforce
    show ?thesis
    proof (cases answer)
      case (Inl err)
      then show ?thesis using c None answer failed [OF same(2), of StatusPolicyFailed] by (simp add: plan_turn_def)
    next
      case (Inr planned)
      show ?thesis
      proof (cases planned)
        case None
        then show ?thesis
          using c \<open>ec = None\<close> answer Inr assms same(2) [of s]
          by (simp add: plan_turn_def turn_ended_def same_execution_going)
      next
        case (Some a)
        show ?thesis
        proof (cases "plan_action_validate a")
          case (Some err)
          then show ?thesis
            using c None answer Inr \<open>planned = Some a\<close> failed [OF same(2), of StatusInvalidPlan] by (simp add: plan_turn_def Let_def)
        next
          case valid: None
          show ?thesis
          proof (cases "eg_resolver e a (es_observation st)")
            case None
            then show ?thesis
              using c \<open>ec = None\<close> answer Inr Some valid by (simp add: plan_turn_def Let_def turn_ended_def)
          next
            case (Some r)
            let ?st = "st\<lparr>es_runtime := ?r, es_source := s, es_processed := processed + 1\<rparr>"
            have "turn_ended e ob0 ks processed (run_resolution e i r ?st)"
              using assms same_execution_going [OF same(3)] by (intro run_resolution_ok) simp_all
            then show ?thesis
              using c \<open>ec = None\<close> answer Inr \<open>planned = Some a\<close> valid Some assms(3) by (simp add: plan_turn_def Let_def)
          qed
        qed
      qed
    qed
  qed
qed
section \<open>The engine's loop and run\<close>

definition loop_ended ::
  "('w, 'k) engine \<Rightarrow> observation \<Rightarrow> 'k list \<Rightarrow> int \<Rightarrow> (bool \<times> ('w, 'k, 's) engine_state) engine_exit \<Rightarrow> bool" where
  "loop_ended e ob0 ks limit ending \<longleftrightarrow>
     (case ending of
        Crashed \<Rightarrow> True
      | Failed status err (_, st) \<Rightarrow> failed_ok st \<and> status \<noteq> StatusCompleted
      | Finished (policy_complete, st) \<Rightarrow>
          stopped e ob0 ks st \<and>
          (er_termination (es_result st) = TerminationRuntimeBudget \<or>
           accounted (er_resolutions (es_result st)) (er_actions (es_result st))) \<and>
          (er_termination (es_result st) = TerminationNone \<longrightarrow> policy_complete \<or> es_processed st = limit))"

lemma plan_loop_ok:
  assumes "going e ob0 ks st" and "er_termination (es_result st) = TerminationNone"
    and "accounted (er_resolutions (es_result st)) (er_actions (es_result st))"
  shows "loop_ended e ob0 ks (es_processed st + int n) (plan_loop e next_of i n st)"
  using assms
proof (induction n arbitrary: i st)
  case 0
  then show ?case by (simp add: loop_ended_def going_stopped)
next
  case (Suc n)
  have ended: "turn_ended e ob0 ks (es_processed st) (plan_turn e next_of i st)"
    using Suc.prems by (intro plan_turn_ok) simp_all
  show ?case
  proof (cases "plan_turn e next_of i st")
    case (Continue st')
    with ended have "going e ob0 ks st'" "er_termination (es_result st') = TerminationNone"
      "es_processed st' = es_processed st + 1" "accounted (er_resolutions (es_result st')) (er_actions (es_result st'))"
      by (simp_all add: turn_ended_def)
    with Suc.IH [of st' "Suc i"] Continue show ?thesis by (simp add: algebra_simps)
  next
    case (Break st')
    with ended show ?thesis by (auto simp: turn_ended_def loop_ended_def)
  next
    case (PolicyDone st')
    with ended show ?thesis by (simp add: turn_ended_def loop_ended_def going_stopped)
  next
    case (TurnFailed status err st')
    with ended show ?thesis by (simp add: turn_ended_def loop_ended_def)
  next
    case TurnCrashed
    then show ?thesis by (simp add: loop_ended_def)
  qed
qed

text \<open>The checkers after a silent reset, if it was silent.\<close>

definition reset_checkers :: "('w, 'k) engine \<Rightarrow> observation \<Rightarrow> 'k list \<Rightarrow> finding list \<times> 'k list" where
  "reset_checkers e ob ks = run_checkers (\<lambda>c k. ck_reset c ob k) (eg_checkers e) ks"

lemma start_failed_ok [simp]: "failed_ok (start_state r ks s)"
  by (simp add: failed_ok_def start_state_def new_result_def zero_trace_def)

lemma engine_start_ok:
  assumes "runtime_ok r"
  shows "case engine_start e initialize (start_state r ks s) of
      Inl (status, err, st) \<Rightarrow> failed_ok st \<and> status \<noteq> StatusCompleted
    | Inr st \<Rightarrow> \<exists>ks1. reset_checkers e (er_initial (es_result st)) ks = ([], ks1) \<and>
        going e (er_initial (es_result st)) ks1 st \<and> er_termination (es_result st) = TerminationNone \<and>
        er_resolutions (es_result st) = [] \<and> er_actions (es_result st) = [] \<and> es_processed st = 0"
proof -
  let ?st0 = "start_state r ks s"
  have fields: "es_runtime ?st0 = r" "es_checkers ?st0 = ks" "es_source ?st0 = s" "es_result ?st0 = new_result"
    "es_processed ?st0 = 0" by (simp_all add: start_state_def)
  obtain ec w where c: "check_context r = (ec, r\<lparr>rt_world := w\<rparr>)"
    using check_context_frame by (metis prod.collapse)
  show ?thesis
  proof (cases ec)
    case (Some err)
    then show ?thesis using c by (simp add: engine_start_def fields failed_ok_def new_result_def zero_trace_def)
  next
    case None
    obtain x r' where run: "runtime_reset (r\<lparr>rt_world := w\<rparr>) = (x, r')" by fastforce
    have ok: "runtime_ok (r\<lparr>rt_world := w\<rparr>)" using assms by simp
    note reset = runtime_reset_ok [OF ok run]
    show ?thesis
    proof (cases x)
      case (Inl err)
      have "tr_steps (rt_trace r') = []" using runtime_reset_steps [OF run] .
      then have "failed_ok (capture empty_observation (?st0\<lparr>es_runtime := r'\<rparr>))"
        using reset(3) [OF Inl] by (simp add: failed_ok_def capture_def Let_def fields new_result_def runtime_trace_def)
      then show ?thesis using c None run Inl by (simp add: engine_start_def fields)
    next
      case (Inr ob)
      have r': "rt_observation r' = ob" "tr_steps (rt_trace r') = []" "rt_initialized r'" "\<not> rt_terminated r'"
        using reset(2) [OF Inr] by simp_all
      obtain fs ks1 where fs: "reset_checkers e ob ks = (fs, ks1)" by fastforce
      define st where "st = ?st0\<lparr>es_runtime := r', es_checkers := ks1, es_observation := ob,
          es_result := append_findings 0 fs (new_result\<lparr>er_initial := ob, er_final := ob\<rparr>)\<rparr>"
      have traced: "traced st" using reset(1) r' by (simp add: traced_def st_def append_findings_def new_result_def)
      have run: "engine_start e initialize ?st0 =
          (if er_findings (es_result st) \<noteq> []
           then Inl (StatusOracleFailed,
                  errorf_v ErrOracle (''initial state: '' @ fd_message (hd (er_findings (es_result st)))), capture ob st)
           else case initialize ob s of
             (Some err, s) \<Rightarrow> Inl (StatusPolicyFailed, errorf_v ErrPolicy (''reset: '' @ err_text err),
                                capture ob (st\<lparr>es_source := s\<rparr>))
           | (None, s) \<Rightarrow> Inr (st\<lparr>es_source := s\<rparr>))"
        using c None run Inr fs [unfolded reset_checkers_def]
        by (auto simp: engine_start_def fields Let_def st_def split: option.split prod.split)
      show ?thesis
      proof (cases "er_findings (es_result st) = []")
        case False
        then show ?thesis using run capture_failed_ok [OF traced] by simp
      next
        case True
        then have silent: "fs = []" by (simp add: st_def append_findings_def new_result_def)
        obtain y s' where y: "initialize ob s = (y, s')" by fastforce
        have same: "same_execution st (st\<lparr>es_source := s'\<rparr>)" using world_self by (auto simp: same_execution_def)
        then have "failed_ok (capture ob (st\<lparr>es_source := s'\<rparr>))"
          using traced by (intro capture_failed_ok) (simp add: same_execution_traced)
        moreover have "explained e ob ks1 [] st"
          using r' silent by (simp add: explained_def st_def append_findings_def new_result_def map_all_def)
        then have "going e ob ks1 st"
          using traced r' by (auto simp: going_def st_def append_findings_def)
        then have "going e ob ks1 (st\<lparr>es_source := s'\<rparr>)" using same_execution_going [OF same] by blast
        moreover have "er_initial (es_result st) = ob" "er_termination (es_result st) = TerminationNone"
          "er_resolutions (es_result st) = []" "er_actions (es_result st) = []" "es_processed st = 0"
          by (simp_all add: st_def append_findings_def new_result_def fields)
        ultimately show ?thesis using run True y fs silent by (cases y) simp_all
      qed
    qed
  qed
qed

text \<open>What a completed result says.\<close>

definition completed_ok :: "('w, 'k) engine \<Rightarrow> 'k list \<Rightarrow> engine_result \<Rightarrow> bool" where
  "completed_ok e ks res \<longleftrightarrow>
     (\<exists>ts ks1 ks2. chained (er_initial res) ts (er_final res) \<and> list_all performed ts \<and>
        map tn_record ts = tr_steps (er_trace res) \<and> map_all (Some (eg_mapper e)) ts = Inr (er_events res) \<and>
        reset_checkers e (er_initial res) ks = ([], ks1) \<and> check_run (eg_checkers e) ks1 ts = ([], ks2)) \<and>
     er_findings res = [] \<and>
     (er_termination res = TerminationRuntimeBudget \<or> accounted (er_resolutions res) (er_actions res))"

definition outcome_ok :: "('w, 'k) engine \<Rightarrow> 'k list \<Rightarrow> ('w, 'k, 's) engine_outcome option \<Rightarrow> bool" where
  "outcome_ok e ks outcome \<longleftrightarrow>
     (case outcome of
        None \<Rightarrow> True
      | Some (res, err, st) \<Rightarrow>
          map sr_action (tr_steps (er_trace res)) = er_actions res \<and>
          (if er_status res = StatusCompleted
           then err = None \<and> er_termination res \<noteq> TerminationNone \<and> completed_ok e ks res
           else \<exists>x. err = Some x \<and> er_error res = err_text x))"

lemma engine_fail_ok: "failed_ok st \<Longrightarrow> status \<noteq> StatusCompleted \<Longrightarrow> outcome_ok e ks (Some (engine_fail status err st))"
  by (simp add: outcome_ok_def engine_fail_def Let_def failed_ok_def)
lemma set_termination_sel [simp]:
  "er_resolutions (set_termination b on m pc p r) = er_resolutions r"
  "er_actions (set_termination b on m pc p r) = er_actions r"
  "er_events (set_termination b on m pc p r) = er_events r"
  "er_findings (set_termination b on m pc p r) = er_findings r"
  "er_initial (set_termination b on m pc p r) = er_initial r"
  "er_final (set_termination b on m pc p r) = er_final r"
  "er_states (set_termination b on m pc p r) = er_states r"
  by (simp_all add: set_termination_def)

lemma set_termination_set:
  "er_termination r = TerminationNone \<Longrightarrow> pc \<or> p = m \<Longrightarrow> b \<or> \<not> on \<Longrightarrow>
     er_termination (set_termination b on m pc p r) \<notin> {TerminationNone, TerminationRuntimeBudget}"
  by (auto simp: set_termination_def)

lemma set_termination_kept:
  "er_termination r \<noteq> TerminationNone \<Longrightarrow> er_termination (set_termination b on m pc p r) = er_termination r"
  by (simp add: set_termination_def)

lemma engine_finish_ok:
  assumes ended: "loop_ended e (er_initial (es_result st)) ks1 m (Finished (pc, st))"
    and reset: "reset_checkers e (er_initial (es_result st)) ks = ([], ks1)" and mode: "budgeted \<or> \<not> online"
  shows "outcome_ok e ks (Some (engine_finish e budgeted online m pc st))"
proof -
  have stopped: "stopped e (er_initial (es_result st)) ks1 st"
    and accounted: "er_termination (es_result st) = TerminationRuntimeBudget \<or>
      accounted (er_resolutions (es_result st)) (er_actions (es_result st))"
    and why: "er_termination (es_result st) = TerminationNone \<Longrightarrow> pc \<or> es_processed st = m"
    using ended by (auto simp: loop_ended_def)
  define st1 where "st1 = capture (es_observation st)
      (st\<lparr>es_result := set_termination budgeted online m pc (es_processed st) (es_result st)\<rparr>)"
  have traced: "traced st1" using stopped by (simp add: st1_def stopped_def traced_def)
  have trace: "er_trace (es_result st1) = rt_trace (es_runtime st)"
    using stopped by (simp add: st1_def) (subst capture_trace, simp_all add: stopped_def traced_def)
  have actions: "map sr_action (tr_steps (er_trace (es_result st1))) = er_actions (es_result st1)"
    using stopped trace by (simp add: st1_def stopped_def traced_def)
  have ended_by: "er_termination (es_result st1) \<noteq> TerminationNone"
    "er_termination (es_result st1) = TerminationRuntimeBudget \<or> accounted (er_resolutions (es_result st1)) (er_actions (es_result st1))"
    using accounted why mode set_termination_set [of "es_result st" pc "es_processed st" m budgeted online]
      set_termination_kept [of "es_result st" budgeted online m pc "es_processed st"]
    by (cases "er_termination (es_result st) = TerminationNone"; force simp: st1_def)+
  obtain ts where ts: "explained e (er_initial (es_result st)) ks1 ts st" using stopped by (auto simp: stopped_def)
  have completed: "completed_ok e ks (es_result st1)"
    using ts trace reset ended_by(2) unfolding completed_ok_def explained_def by (auto simp: st1_def)
  have other: "completed_ok e ks ((es_result st1)\<lparr>er_model_executed := b, er_status := s, er_states := ss\<rparr>)
      \<and> completed_ok e ks ((es_result st1)\<lparr>er_status := s\<rparr>)" for b s ss
    using completed by (simp add: completed_ok_def)
  show ?thesis
  proof (cases "eg_executor e")
    case None
    then show ?thesis
      using actions ended_by other
      by (simp add: engine_finish_def st1_def [symmetric] execute_model_def Let_def outcome_ok_def)
  next
    case (Some executor)
    obtain answer w where run: "executor (er_events (es_result st1)) (rt_world (es_runtime st1)) = (answer, w)" by fastforce
    show ?thesis
    proof (cases answer)
      case (Inl err)
      then show ?thesis
        using actions Some run
        by (simp add: engine_finish_def st1_def [symmetric] execute_model_def Let_def outcome_ok_def engine_fail_def)
    next
      case (Inr states)
      then show ?thesis
        using actions ended_by other Some run
        by (simp add: engine_finish_def st1_def [symmetric] execute_model_def Let_def outcome_ok_def)
    qed
  qed
qed

lemma engine_run_ok:
  assumes "runtime_ok r" and "budgeted \<or> \<not> online"
  shows "outcome_ok e ks (engine_run e n budgeted online initialize next_of r ks s)"
proof (cases "engine_start e initialize (start_state r ks s)")
  case (Inl f)
  then show ?thesis using engine_start_ok [OF assms(1), where e = e and initialize = initialize and ks = ks and s = s]
    by (cases f) (simp add: engine_run_def engine_fail_ok)
next
  case (Inr st)
  then obtain ks1 where reset: "reset_checkers e (er_initial (es_result st)) ks = ([], ks1)"
    and going: "going e (er_initial (es_result st)) ks1 st" and st: "er_termination (es_result st) = TerminationNone"
      "er_resolutions (es_result st) = []" "er_actions (es_result st) = []" "es_processed st = 0"
    using engine_start_ok [OF assms(1), where e = e and initialize = initialize and ks = ks and s = s] by auto
  have ended: "loop_ended e (er_initial (es_result st)) ks1 (int n) (plan_loop e next_of 0 n st)"
    using plan_loop_ok [OF going st(1), of n next_of 0] st by simp
  show ?thesis
  proof (cases "plan_loop e next_of 0 n st")
    case (Finished p)
    obtain pc st' where p: "p = (pc, st')" by fastforce
    with ended Finished have ended': "loop_ended e (er_initial (es_result st)) ks1 (int n) (Finished (pc, st'))" by simp
    then have "er_initial (es_result st') = er_initial (es_result st)"
      by (auto simp: loop_ended_def stopped_def explained_def)
    with ended' reset Finished p Inr show ?thesis
      using engine_finish_ok [of e st' ks1 "int n" pc ks budgeted online] assms(2)
      by (simp add: engine_run_def)
  next
    case (Failed status err p)
    with ended Inr show ?thesis by (cases p) (simp add: engine_run_def loop_ended_def engine_fail_ok)
  next
    case Crashed
    with Inr show ?thesis by (simp add: engine_run_def outcome_ok_def)
  qed
qed

lemma engine_runs_ok:
  assumes "runtime_ok r"
  shows "outcome_ok e ks (engine_run_sequence e sequence r ks)"
    and "outcome_ok e ks (engine_run_source e source limit r ks s)"
proof -
  have "outcome_ok e ks (Some (engine_fail StatusInvalidPlan err (start_state r ks ())))"
    "outcome_ok e ks (Some (engine_fail StatusPolicyFailed err (start_state r ks s)))" for err
    by (rule engine_fail_ok; simp)+
  then show "outcome_ok e ks (engine_run_sequence e sequence r ks)"
    "outcome_ok e ks (engine_run_source e source limit r ks s)"
    using assms by (auto simp: engine_run_sequence_def engine_run_source_def Let_def engine_run_ok split: option.split)
qed

text \<open>C1: every result of the engine is explained by what the runtime did, for a plan sequence and for an
  online source, with any resolver, mapper, profile, executor and checkers, on any reachable runtime.
  The trace records exactly the executed actions, however the run ended, and an error is returned
  exactly when the status is not completed. A completed run has a termination reason, and there are
  transitions, each valid, with a queue that moved as its record says, and starting from the observation
  the last one ended with, from the initial to the final observation, whose records are the trace, whose
  mapping is the list of model events, and on which every checker stayed silent; unless a budget of the runtime stopped it, every resolution is
  valid and the actions of the resolutions, in order, are the executed actions.\<close>
theorem engine_result_explained:
  "case runtime_new ad c w of
     Inl _ \<Rightarrow> True
   | Inr r0 \<Rightarrow>
       outcome_ok e ks (engine_run_sequence e sequence (runtime_run r0 calls) ks) \<and>
       outcome_ok e ks (engine_run_source e source limit (runtime_run r0 calls) ks s)"
proof (cases "runtime_new ad c w")
  case (Inr r0)
  then have "runtime_ok (runtime_run r0 calls)" by (intro runtime_run_ok new_runtime_ok)
  with Inr show ?thesis by (simp add: engine_runs_ok)
qed simp

end
