(* ===== verification/Raft_Mapper.thy ===== *)
theory Raft_Mapper
  imports Model
begin

text \<open>
  internal/model/raft/mapper.go: from one concrete transition of etcd-raft to the events of the Raft
  TLA+ model. The maps of parameters are association lists; \<open>put\<close> is the assignment \<open>m[k] = v\<close>.
\<close>

section \<open>Configuration\<close>

record raft_config =
  rf_node_ids :: "node_id list"
  rf_max_value :: int
  rf_max_log_index :: u64
  rf_largest_term :: u64
  rf_emit_leader_noop :: bool

definition raft_default_config :: raft_config where
  "raft_default_config = \<lparr>rf_node_ids = [1, 2, 3], rf_max_value = 5, rf_max_log_index = 5,
     rf_largest_term = 5, rf_emit_leader_noop = True\<rparr>"

fun check_model_nodes :: "node_id list \<Rightarrow> node_id list \<Rightarrow> go_error option" where
  "check_model_nodes seen [] = None"
| "check_model_nodes seen (i # is) =
     (if \<not> node_id_valid i then Some (plain_error ''raft model node ID must be non-zero'')
      else if i \<in> set seen then Some (plain_error (''raft model contains duplicate node '' @ node_id_text i))
      else check_model_nodes (i # seen) is)"

definition raft_normalized :: "raft_config \<Rightarrow> go_error + raft_config" where
  "raft_normalized c0 =
     (let c = c0\<lparr>
        rf_node_ids := (if rf_node_ids c0 = [] then rf_node_ids raft_default_config else rf_node_ids c0),
        rf_max_value := (if rf_max_value c0 = 0 then rf_max_value raft_default_config else rf_max_value c0),
        rf_max_log_index :=
          (if rf_max_log_index c0 = 0 then rf_max_log_index raft_default_config else rf_max_log_index c0),
        rf_largest_term :=
          (if rf_largest_term c0 = 0 then rf_largest_term raft_default_config else rf_largest_term c0)\<rparr>
      in case check_model_nodes [] (rf_node_ids c) of
           Some e \<Rightarrow> Inl e
         | None \<Rightarrow>
             if rf_max_value c < 1 \<or> rf_max_log_index c < 1 \<or> rf_largest_term c < 1
             then Inl (plain_error ''raft model bounds must be positive'')
             else Inr c)"

text \<open>A mapper holds the normalized configuration; its set of nodes is that of the node IDs.\<close>

definition new_mapper_with_config :: "raft_config \<Rightarrow> go_error + raft_config" where
  "new_mapper_with_config c = raft_normalized c"

section \<open>Reading dynamic values\<close>

text \<open>The result and its \<open>ok\<close>. A negative integer is converted before it is rejected, and some
  callers use the value without the \<open>ok\<close>.\<close>

fun unsigned_param :: "goval \<Rightarrow> u64 \<times> bool" where
  "unsigned_param (VUint64 w) = (w, True)"
| "unsigned_param (VUint32 w) = (ucast w, True)"
| "unsigned_param (VUint w) = (w, True)"
| "unsigned_param (VInt i) = (of_int i, 0 \<le> i)"
| "unsigned_param (VInt64 i) = (of_int i, 0 \<le> i)"
| "unsigned_param (VFloat (FFin q)) =
     (if q < 0 \<or> q \<ge> 2 ^ 64 \<or> of_int \<lfloor>q\<rfloor> \<noteq> q then (0, False) else (of_int \<lfloor>q\<rfloor>, True))"
| "unsigned_param _ = (0, False)"

definition raft_unsupported :: "string \<Rightarrow> go_error" where
  "raft_unsupported detail = errorf_v ErrUnsupportedSemantics detail"

definition numeric_request :: "string \<Rightarrow> int \<Rightarrow> go_error + int" where
  "numeric_request request maximum =
     (case atoi request of
        None \<Rightarrow> Inl (raft_unsupported (''request '' @ go_quote request @
                  '' must be an integer in 1..'' @ show_int maximum))
      | Some v \<Rightarrow>
          if v < 1 \<or> v > maximum
          then Inl (raft_unsupported (''request '' @ go_quote request @
                 '' must be an integer in 1..'' @ show_int maximum))
          else Inr v)"

section \<open>Reading observations\<close>

text \<open>The text of a failed or successful assertion \<open>v.(string)\<close>, the zero value in the former case.\<close>

definition string_or_empty :: "goval \<Rightarrow> string" where
  "string_or_empty v = (case as_string v of Some s \<Rightarrow> s | None \<Rightarrow> [])"

definition role_of :: "observation \<Rightarrow> node_id \<Rightarrow> string" where
  "role_of ob i = (case observed_node ob i of Some n \<Rightarrow> string_or_empty (any_at (no_semantic n) ''role'') | None \<Rightarrow> [])"

definition status_of :: "observation \<Rightarrow> node_id \<Rightarrow> node_status" where
  "status_of ob i = (case observed_node ob i of Some n \<Rightarrow> no_status n | None \<Rightarrow> NodeStatusOther [])"

definition semantic_number :: "observation \<Rightarrow> node_id \<Rightarrow> string \<Rightarrow> u64" where
  "semantic_number ob i field =
     (case observed_node ob i of Some n \<Rightarrow> fst (unsigned_param (any_at (no_semantic n) field)) | None \<Rightarrow> 0)"

definition term_of_node :: "observation \<Rightarrow> node_id \<Rightarrow> u64" where
  "term_of_node ob i = semantic_number ob i ''term''"

definition last_index_of :: "observation \<Rightarrow> node_id \<Rightarrow> u64" where
  "last_index_of ob i = semantic_number ob i ''last_index''"

definition commit_index_of :: "observation \<Rightarrow> node_id \<Rightarrow> u64" where
  "commit_index_of ob i = semantic_number ob i ''commit''"

definition became_leaders :: "observation \<Rightarrow> observation \<Rightarrow> node_id list" where
  "became_leaders before after =
     map no_id (filter (\<lambda>n. no_status n = NodeRunning \<and> role_of after (no_id n) = ''leader'' \<and>
                            role_of before (no_id n) \<noteq> ''leader'') (obs_nodes after))"

definition valid_observed_role :: "string \<Rightarrow> node_status \<Rightarrow> bool" where
  "valid_observed_role role status =
     (if status = NodeCrashed then role = ''crashed''
      else role = ''follower'' \<or> role = ''candidate'' \<or> role = ''leader'')"

definition check_observed_node :: "raft_config \<Rightarrow> node_observation \<Rightarrow> go_error option" where
  "check_observed_node c n =
     (let sem = no_semantic n; node = ''node '' @ node_id_text (no_id n);
          role = string_or_empty (any_at sem ''role'');
          (trm, term_ok) = unsigned_param (any_at sem ''term'');
          (last_index, last_ok) = unsigned_param (any_at sem ''last_index'');
          (last_term, last_term_ok) = unsigned_param (any_at sem ''last_term'');
          (commit, commit_ok) = unsigned_param (any_at sem ''commit'') in
      if no_id n \<notin> set (rf_node_ids c)
      then Some (raft_unsupported (''observed '' @ node @ '' is outside model Server''))
      else if as_string (any_at sem ''role'') = None \<or> \<not> valid_observed_role role (no_status n)
      then Some (raft_unsupported (node @ '' has unsupported role '' @ go_quote role))
      else if \<not> term_ok then Some (raft_unsupported (node @ '' term is not an unsigned integer''))
      else if trm > rf_largest_term c
      then Some (raft_unsupported (node @ '' term exceeds LargestTerm '' @ format_uint (rf_largest_term c)))
      else if \<not> last_ok then Some (raft_unsupported (node @ '' last_index is not an unsigned integer''))
      else if last_index > rf_max_log_index c
      then Some (raft_unsupported (node @ '' log exceeds MaxLogIndex '' @ format_uint (rf_max_log_index c)))
      else if \<not> last_term_ok then Some (raft_unsupported (node @ '' last_term is not an unsigned integer''))
      else if last_term > rf_largest_term c
      then Some (raft_unsupported (node @ '' last_term '' @ format_uint last_term @ '' exceeds bound '' @
             format_uint (rf_largest_term c)))
      else if \<not> commit_ok then Some (raft_unsupported (node @ '' commit is not an unsigned integer''))
      else if commit > rf_max_log_index c
      then Some (raft_unsupported (node @ '' commit '' @ format_uint commit @ '' exceeds bound '' @
             format_uint (rf_max_log_index c)))
      else None)"

fun check_observed_nodes :: "raft_config \<Rightarrow> node_observation list \<Rightarrow> go_error option" where
  "check_observed_nodes c [] = None"
| "check_observed_nodes c (n # ns) =
     (case check_observed_node c n of Some e \<Rightarrow> Some e | None \<Rightarrow> check_observed_nodes c ns)"

text \<open>The last loop iterates a Go map, so which missing node is named is not determined; the model
  names the first.\<close>

definition validate_observed_bounds :: "raft_config \<Rightarrow> observation \<Rightarrow> go_error option" where
  "validate_observed_bounds c ob =
     (if length (obs_nodes ob) \<noteq> length (rf_node_ids c)
      then Some (raft_unsupported (''observation has '' @ show_nat (length (obs_nodes ob)) @
             '' nodes, model Server has '' @ show_nat (length (rf_node_ids c))))
      else case check_observed_nodes c (obs_nodes ob) of
        Some e \<Rightarrow> Some e
      | None \<Rightarrow>
          (case find (\<lambda>i. i \<notin> set (map no_id (obs_nodes ob))) (rf_node_ids c) of
             Some i \<Rightarrow> Some (raft_unsupported (''model node '' @ node_id_text i @ '' is missing from observation''))
           | None \<Rightarrow> None))"

section \<open>Normalizing messages and entries\<close>

definition put :: "any_map \<Rightarrow> string \<Rightarrow> goval \<Rightarrow> any_map" where
  "put m k v = AList.update k v m"

definition normalize_parameter :: "raft_config \<Rightarrow> any_map \<Rightarrow> string \<Rightarrow> go_error + goval" where
  "normalize_parameter c params name =
     (if name = ''reject'' then
        (case as_bool (any_at params name) of
           None \<Rightarrow> Inl (raft_unsupported (''message parameter '' @ name @ '' must be boolean''))
         | Some b \<Rightarrow> Inr (VBool b))
      else
        let (v, ok) = unsigned_param (any_at params name) in
        if \<not> ok then Inl (raft_unsupported (''message parameter '' @ name @ '' must be an unsigned integer''))
        else if name \<in> {''from'', ''to''} \<and> v \<notin> set (rf_node_ids c)
        then Inl (raft_unsupported (''message '' @ name @ '' node n'' @ format_uint v @ '' is outside model Server''))
        else if name \<in> {''term'', ''log_term''} \<and> v > rf_largest_term c
        then Inl (raft_unsupported (name @ '' '' @ format_uint v @ '' exceeds LargestTerm '' @
               format_uint (rf_largest_term c)))
        else if name \<in> {''index'', ''commit''} \<and> v > rf_max_log_index c
        then Inl (raft_unsupported (name @ '' '' @ format_uint v @ '' exceeds MaxLogIndex '' @
               format_uint (rf_max_log_index c)))
        else Inr (VUint64 v))"

fun normalize_message :: "raft_config \<Rightarrow> any_map \<Rightarrow> string list \<Rightarrow> any_map \<Rightarrow> go_error + any_map" where
  "normalize_message c params [] acc = Inr acc"
| "normalize_message c params (name # names) acc =
     (case normalize_parameter c params name of
        Inl e \<Rightarrow> Inl e
      | Inr v \<Rightarrow> normalize_message c params names (put acc name v))"

fun entry_maps :: "nat \<Rightarrow> goval list \<Rightarrow> string + any_map list" where
  "entry_maps i [] = Inr []"
| "entry_maps i (v # vs) =
     (case v of
        VMap m \<Rightarrow> (case entry_maps (Suc i) vs of Inl t \<Rightarrow> Inl t | Inr ms \<Rightarrow> Inr (m # ms))
      | _ \<Rightarrow> Inl (''entry '' @ show_nat i @ '' is not an object''))"

definition raw_entries :: "goval \<Rightarrow> string + any_map list" where
  "raw_entries v =
     (case v of
        VMapSlice ms \<Rightarrow> Inr ms
      | VSlice vs \<Rightarrow> entry_maps 0 vs
      | VNil \<Rightarrow> Inr []
      | _ \<Rightarrow> Inl ''entries must be an array'')"

definition entry_data :: "nat \<Rightarrow> int \<Rightarrow> any_map \<Rightarrow> string + string option" where
  "entry_data i maximum entry =
     (case map_of entry ''Data'' of
        None \<Rightarrow> Inr None
      | Some data \<Rightarrow>
          (case as_string data of
             None \<Rightarrow> Inl (''entry '' @ show_nat i @ '' Data must be a string'')
           | Some t \<Rightarrow>
               (case atoi t of
                  Some v \<Rightarrow>
                    if v < 1 \<or> v > maximum
                    then Inl (''entry '' @ show_nat i @ '' Data '' @ go_quote t @ '' must be in 1..'' @ show_int maximum)
                    else Inr (Some t)
                | None \<Rightarrow> Inl (''entry '' @ show_nat i @ '' Data '' @ go_quote t @ '' must be in 1..'' @ show_int maximum))))"

definition normalize_entry :: "nat \<Rightarrow> int \<Rightarrow> u64 \<Rightarrow> any_map \<Rightarrow> string + any_map" where
  "normalize_entry i maximum largest entry =
     (let (trm, ok) = unsigned_param (any_at entry ''Term'') in
      if \<not> ok then Inl (''entry '' @ show_nat i @ '' Term must be an unsigned integer'')
      else if trm > largest
      then Inl (''entry '' @ show_nat i @ '' Term '' @ format_uint trm @ '' exceeds LargestTerm '' @ format_uint largest)
      else case (case as_string (any_at entry ''Type'') of
                   Some ty \<Rightarrow> if ty \<noteq> ''EntryNormal'' then Some ty else None
                 | None \<Rightarrow> None) of
        Some ty \<Rightarrow> Inl (''entry '' @ show_nat i @ '' type '' @ ty @ '' is not modeled'')
      | None \<Rightarrow>
          (case entry_data i maximum entry of
             Inl t \<Rightarrow> Inl t
           | Inr None \<Rightarrow> Inr [(''Term'', VUint64 trm)]
           | Inr (Some t) \<Rightarrow> Inr [(''Term'', VUint64 trm), (''Data'', VString t)]))"

fun normalize_entry_list :: "nat \<Rightarrow> int \<Rightarrow> u64 \<Rightarrow> any_map list \<Rightarrow> string + any_map list" where
  "normalize_entry_list i maximum largest [] = Inr []"
| "normalize_entry_list i maximum largest (e # es) =
     (case normalize_entry i maximum largest e of
        Inl t \<Rightarrow> Inl t
      | Inr e' \<Rightarrow>
          (case normalize_entry_list (Suc i) maximum largest es of Inl t \<Rightarrow> Inl t | Inr es' \<Rightarrow> Inr (e' # es')))"

definition normalize_entries :: "goval \<Rightarrow> int \<Rightarrow> u64 \<Rightarrow> string + any_map list" where
  "normalize_entries v maximum largest =
     (case raw_entries v of Inl t \<Rightarrow> Inl t | Inr raw \<Rightarrow> normalize_entry_list 0 maximum largest raw)"

section \<open>Delivered messages\<close>

definition delivered :: "any_map \<Rightarrow> event" where
  "delivered params = new_event ''DeliverMessage'' params"

fun append_response :: "effect list \<Rightarrow> u64 \<Rightarrow> u64 \<Rightarrow> go_error + bool option" where
  "append_response [] sender receiver = Inr None"
| "append_response (e # es) sender receiver =
     (case eff_message e of
        None \<Rightarrow> append_response es sender receiver
      | Some m \<Rightarrow>
          if eff_kind e \<noteq> EffectSendMessage \<or> msg_type_hint m \<noteq> ''MsgAppResp''
            \<or> msg_from m \<noteq> sender \<or> msg_to m \<noteq> receiver
          then append_response es sender receiver
          else (case parse_bool (string_at (msg_metadata m) ''reject'') of
                  None \<Rightarrow> Inl (raft_unsupported ''MsgAppResp has invalid reject metadata'')
                | Some b \<Rightarrow> Inr (Some b)))"

text \<open>Reading back a number or an entry's term that normalization has put there.\<close>

definition number_at :: "any_map \<Rightarrow> string \<Rightarrow> u64" where
  "number_at m k = (case any_at m k of VUint64 w \<Rightarrow> w | _ \<Rightarrow> 0)"

fun expand_entries :: "any_map \<Rightarrow> u64 \<Rightarrow> u64 \<Rightarrow> any_map list \<Rightarrow> event list" where
  "expand_entries normalized index previous [] = []"
| "expand_entries normalized index previous (e # es) =
     delivered (put (put (put normalized ''index'' (VUint64 index)) ''log_term'' (VUint64 previous))
                  ''entries'' (VMapSlice [e]))
     # expand_entries normalized (index + 1) (number_at e ''Term'') es"

text \<open>An append after its parameters and entries are normalized.\<close>

definition append_events ::
  "raft_config \<Rightarrow> any_map \<Rightarrow> any_map list \<Rightarrow> effect list \<Rightarrow> observation \<Rightarrow> go_error + event list" where
  "append_events c normalized entries effects before =
     (let base = number_at normalized ''index'' in
      if length entries > unat (rf_max_log_index c - base)
      then Inl (raft_unsupported (''MsgApp entries exceed MaxLogIndex '' @ format_uint (rf_max_log_index c)))
      else
        let n = put normalized ''type'' (VString ''MsgApp'');
            before_commit = commit_index_of before (number_at n ''to'') in
        if base < before_commit
        then Inr [delivered (put (put (put (put n ''index'' (VUint64 0)) ''log_term'' (VUint64 0))
                    ''commit'' (VUint64 before_commit)) ''entries'' (VMapSlice []))]
        else if length entries \<le> 1
        then Inr [delivered (put n ''entries'' (VMapSlice entries))]
        else case append_response effects (number_at n ''to'') (number_at n ''from'') of
          Inl e \<Rightarrow> Inl e
        | Inr None \<Rightarrow> Inr [delivered (put n ''entries'' (VMapSlice (take 1 entries)))]
        | Inr (Some True) \<Rightarrow> Inr [delivered (put n ''entries'' (VMapSlice (take 1 entries)))]
        | Inr (Some False) \<Rightarrow> Inr (expand_entries n base (number_at n ''log_term'') entries))"

definition map_append :: "raft_config \<Rightarrow> any_map \<Rightarrow> effect list \<Rightarrow> observation \<Rightarrow> go_error + event list" where
  "map_append c params effects before =
     (case normalize_message c params [''from'', ''to'', ''term'', ''commit'', ''log_term'', ''index''] [] of
        Inl e \<Rightarrow> Inl e
      | Inr normalized \<Rightarrow>
          (case normalize_entries (any_at params ''entries'') (rf_max_value c) (rf_largest_term c) of
             Inl t \<Rightarrow> Inl (raft_unsupported (''MsgApp: '' @ t))
           | Inr entries \<Rightarrow> append_events c normalized entries effects before))"

fun proposal_events :: "raft_config \<Rightarrow> u64 \<Rightarrow> nat \<Rightarrow> any_map list \<Rightarrow> go_error + event list" where
  "proposal_events c leader i [] = Inr []"
| "proposal_events c leader i (e # es) =
     (case as_string (any_at e ''Data'') of
        None \<Rightarrow> Inl (raft_unsupported (''MsgProp entry '' @ show_nat i @ '' has no client value''))
      | Some value \<Rightarrow>
          (case numeric_request value (rf_max_value c) of
             Inl err \<Rightarrow> Inl err
           | Inr request \<Rightarrow>
               (case proposal_events c leader (Suc i) es of
                  Inl err \<Rightarrow> Inl err
                | Inr events \<Rightarrow>
                    Inr (new_event ''ClientRequest'' [(''request'', VInt request), (''leader'', VUint64 leader)]
                         # events))))"

definition map_proposal :: "raft_config \<Rightarrow> any_map \<Rightarrow> observation \<Rightarrow> go_error + event list" where
  "map_proposal c params before =
     (let (to', ok) = unsigned_param (any_at params ''to'') in
      if \<not> ok then Inl (raft_unsupported ''MsgProp to must be an unsigned integer'')
      else if role_of before to' \<noteq> ''leader'' then Inr []
      else case normalize_entries (any_at params ''entries'') (rf_max_value c) (rf_largest_term c) of
        Inl t \<Rightarrow> Inl (raft_unsupported (''MsgProp: '' @ t))
      | Inr entries \<Rightarrow>
          if entries = [] \<or> length entries > unat (rf_max_log_index c - last_index_of before to')
          then Inl (raft_unsupported (''MsgProp entries exceed MaxLogIndex '' @ format_uint (rf_max_log_index c)))
          else proposal_events c to' 0 entries)"

text \<open>A message whose normalized parameters and type are the event.\<close>

definition map_simple :: "raft_config \<Rightarrow> any_map \<Rightarrow> string \<Rightarrow> string list \<Rightarrow> go_error + event list" where
  "map_simple c params message_type names =
     (case normalize_message c params names [] of
        Inl e \<Rightarrow> Inl e
      | Inr n \<Rightarrow> Inr [delivered (put n ''type'' (VString message_type))])"

definition map_heartbeat :: "raft_config \<Rightarrow> any_map \<Rightarrow> go_error + event list" where
  "map_heartbeat c params =
     (case normalize_message c params [''from'', ''to'', ''term'', ''commit''] [] of
        Inl e \<Rightarrow> Inl e
      | Inr n \<Rightarrow> Inr [delivered (put (put (put (put n ''type'' (VString ''MsgApp'')) ''index'' (VUint64 0))
                        ''log_term'' (VUint64 0)) ''entries'' (VMapSlice []))])"

definition map_delivered_message ::
  "raft_config \<Rightarrow> any_map \<Rightarrow> effect list \<Rightarrow> observation \<Rightarrow> go_error + event list" where
  "map_delivered_message c params effects before =
     (let ty = string_or_empty (any_at params ''type'') in
      if ty = [] then Inl (raft_unsupported ''delivered message has no type'')
      else if ty \<in> {''MsgHeartbeatResp'', ''MsgReadIndex'', ''MsgReadIndexResp'', ''MsgSnap''} then Inr []
      else if ty = ''MsgHeartbeat'' then map_heartbeat c params
      else if ty = ''MsgProp'' then map_proposal c params before
      else if ty = ''MsgVote'' then map_simple c params ty [''from'', ''to'', ''term'', ''log_term'', ''index'']
      else if ty = ''MsgVoteResp'' then map_simple c params ty [''from'', ''to'', ''term'', ''reject'']
      else if ty = ''MsgApp'' then map_append c params effects before
      else if ty = ''MsgAppResp'' then map_simple c params ty [''from'', ''to'', ''term'', ''reject'', ''index'']
      else Inl (raft_unsupported (''delivered message type '' @ ty)))"

section \<open>Mapping a transition\<close>

definition map_action :: "raft_config \<Rightarrow> transition \<Rightarrow> go_error + event list" where
  "map_action c t =
     (let a = sr_action (tn_record t); i = act_node a in
      case act_kind a of
        ActionRequest \<Rightarrow>
          (case numeric_request (act_request a) (rf_max_value c) of
             Inl e \<Rightarrow> Inl e
           | Inr request \<Rightarrow>
               if role_of (tn_before t) i = ''leader'' then
                 if last_index_of (tn_before t) i \<ge> rf_max_log_index c
                 then Inl (raft_unsupported (''client request exceeds MaxLogIndex '' @ format_uint (rf_max_log_index c)))
                 else Inr [new_event ''ClientRequest'' [(''request'', VInt request), (''leader'', VUint64 i)]]
               else Inr [])
      | ActionCrash \<Rightarrow>
          if status_of (tn_before t) i \<noteq> NodeRunning \<or> status_of (tn_after t) i \<noteq> NodeCrashed
          then Inl (raft_unsupported (''crash node '' @ node_id_text i @ '' has inconsistent before/after status''))
          else Inr [new_event ''Remove'' [(''i'', VUint64 i)]]
      | ActionRestart \<Rightarrow>
          if status_of (tn_before t) i \<noteq> NodeCrashed \<or> status_of (tn_after t) i \<noteq> NodeRunning
          then Inl (raft_unsupported (''restart node '' @ node_id_text i @ '' has inconsistent before/after status''))
          else Inr [new_event ''Add'' [(''i'', VUint64 i)]]
      | _ \<Rightarrow> Inr [])"

definition election_timer_terms :: "timer_fired \<Rightarrow> transition \<Rightarrow> go_error + u64 \<times> u64" where
  "election_timer_terms f t =
     (case (map_of (tf_metadata f) ''term_before'', map_of (tf_metadata f) ''term_after'') of
        (None, None) \<Rightarrow> Inr (term_of_node (tn_before t) (tf_node f), term_of_node (tn_after t) (tf_node f))
      | (Some b, Some a) \<Rightarrow>
          (case (parse_uint b, parse_uint a) of
             (Some vb, Some va) \<Rightarrow> Inr (vb, va)
           | _ \<Rightarrow> Inl (raft_unsupported (''election timer has invalid term metadata '' @ go_quote b @ '' -> '' @ go_quote a)))
      | _ \<Rightarrow> Inl (raft_unsupported ''election timer metadata must contain term_before and term_after''))"

definition map_timer :: "raft_config \<Rightarrow> timer_fired \<Rightarrow> transition \<Rightarrow> go_error + event list" where
  "map_timer c f t =
     (if tf_type_hint f \<noteq> ''election'' then Inr []
      else case election_timer_terms f t of
        Inl e \<Rightarrow> Inl e
      | Inr (before, after) \<Rightarrow>
          if after = before then Inr []
          else if before \<ge> rf_largest_term c
          then Inl (raft_unsupported (''timeout exceeds LargestTerm '' @ format_uint (rf_largest_term c)))
          else if after \<noteq> before + 1
          then Inl (raft_unsupported (''election timer changed term from '' @ format_uint before @ '' to '' @ format_uint after))
          else Inr [new_event ''Timeout'' [(''node'', VUint64 (tf_node f))]])"

definition stutter_events :: "string list" where
  "stutter_events = [''raft.proposal_dropped'', ''raft.vote_quorum_fault_activated'', ''raft.snapshot_created'',
     ''raft.snapshot_sent'', ''raft.snapshot_delivered'', ''raft.snapshot_applied'',
     ''raft.snapshot_rejected_or_stale'', ''raft.log_compacted'']"

text \<open>The loop over the effects, with the events so far and the nodes whose commit is to advance, in
  the order of their first commit.\<close>

fun map_effects ::
  "raft_config \<Rightarrow> transition \<Rightarrow> effect list \<Rightarrow> event list \<Rightarrow> node_id list \<Rightarrow> go_error + event list \<times> node_id list"
  where
  "map_effects c t [] events commits = Inr (events, commits)"
| "map_effects c t (e # es) events commits =
     (case eff_kind e of
        EffectTimerFired \<Rightarrow>
          (case map_timer c (the (eff_timer_fired e)) t of
             Inl err \<Rightarrow> Inl err
           | Inr new \<Rightarrow> map_effects c t es (events @ new) commits)
      | EffectModelEvent \<Rightarrow>
          (let v = the (eff_model_event e) in
           if me_name v = ''raft.message_delivered'' then
             (case map_delivered_message c (me_params v) (sr_effects (tn_record t)) (tn_before t) of
                Inl err \<Rightarrow> Inl err
              | Inr new \<Rightarrow> map_effects c t es (events @ new) commits)
           else if me_name v \<in> set stutter_events then map_effects c t es events commits
           else if me_name v = ''raft.config_changed''
           then Inl (raft_unsupported (''model event '' @ me_name v))
           else if me_name v = ''raft.entry_committed'' \<and> role_of (tn_after t) (me_node v) = ''leader''
             \<and> me_node v \<notin> set commits
           then map_effects c t es events (commits @ [me_node v])
           else map_effects c t es events commits)
      | _ \<Rightarrow> map_effects c t es events commits)"

fun leader_events :: "raft_config \<Rightarrow> transition \<Rightarrow> node_id list \<Rightarrow> go_error + event list" where
  "leader_events c t [] = Inr []"
| "leader_events c t (i # is) =
     (if rf_emit_leader_noop c \<and> last_index_of (tn_before t) i \<ge> rf_max_log_index c
      then Inl (raft_unsupported (''leader no-op exceeds MaxLogIndex '' @ format_uint (rf_max_log_index c)))
      else case leader_events c t is of
        Inl e \<Rightarrow> Inl e
      | Inr events \<Rightarrow>
          Inr (new_event ''BecomeLeader'' [(''node'', VUint64 i)]
            # (if rf_emit_leader_noop c
               then [new_event ''ClientRequest'' [(''request'', VInt 0), (''leader'', VUint64 i)]] else [])
            @ events))"

definition commit_event :: "node_id \<Rightarrow> event" where
  "commit_event i = new_event ''AdvanceCommitIndex'' [(''i'', VUint64 i)]"

text \<open>\<open>Map\<close>; a nil mapper is \<open>None\<close>.\<close>

definition raft_map :: "raft_config option \<Rightarrow> transition \<Rightarrow> go_error + event list" where
  "raft_map mapper t =
     (case mapper of
        None \<Rightarrow> Inl (plain_error ''raft mapper must not be nil'')
      | Some c \<Rightarrow>
        (case transition_validate t of
           Some e \<Rightarrow> Inl e
         | None \<Rightarrow>
           (case validate_observed_bounds c (tn_before t) of
              Some e \<Rightarrow> Inl e
            | None \<Rightarrow>
              (case validate_observed_bounds c (tn_after t) of
                 Some e \<Rightarrow> Inl e
               | None \<Rightarrow>
                 (case map_action c t of
                    Inl e \<Rightarrow> Inl e
                  | Inr first \<Rightarrow>
                    (case map_effects c t (sr_effects (tn_record t)) first [] of
                       Inl e \<Rightarrow> Inl e
                     | Inr (events, commits) \<Rightarrow>
                       (case leader_events c t (became_leaders (tn_before t) (tn_after t)) of
                          Inl e \<Rightarrow> Inl e
                        | Inr leaders \<Rightarrow> Inr (events @ leaders @ map commit_event commits))))))))"

section \<open>What the model accepts\<close>

text \<open>The contract of the mapper with the bounded TLA+ model: the parameters of every event are over
  Server, the bounded terms, the bounded log and the bounded values.\<close>

definition uint_field :: "(u64 \<Rightarrow> bool) \<Rightarrow> goval \<Rightarrow> bool" where
  "uint_field P v = (case v of VUint64 w \<Rightarrow> P w | _ \<Rightarrow> False)"

definition client_value :: "raft_config \<Rightarrow> string \<Rightarrow> bool" where
  "client_value c t = (case atoi t of Some n \<Rightarrow> 1 \<le> n \<and> n \<le> rf_max_value c | None \<Rightarrow> False)"

definition entry_in_bounds :: "raft_config \<Rightarrow> any_map \<Rightarrow> bool" where
  "entry_in_bounds c e \<longleftrightarrow>
     uint_field (\<lambda>w. w \<le> rf_largest_term c) (any_at e ''Term'') \<and>
     (map fst e = [''Term''] \<or>
      map fst e = [''Term'', ''Data''] \<and> (\<exists>t. any_at e ''Data'' = VString t \<and> client_value c t))"

definition entries_field :: "raft_config \<Rightarrow> goval \<Rightarrow> bool" where
  "entries_field c v =
     (case v of VMapSlice es \<Rightarrow> length es \<le> 1 \<and> list_all (entry_in_bounds c) es | _ \<Rightarrow> False)"

definition param_in_bounds :: "raft_config \<Rightarrow> string \<Rightarrow> goval \<Rightarrow> bool" where
  "param_in_bounds c k v =
     (if k \<in> {''from'', ''to''} then uint_field (\<lambda>w. w \<in> set (rf_node_ids c)) v
      else if k \<in> {''term'', ''log_term''} then uint_field (\<lambda>w. w \<le> rf_largest_term c) v
      else if k \<in> {''index'', ''commit''} then uint_field (\<lambda>w. w \<le> rf_max_log_index c) v
      else if k = ''reject'' then as_bool v \<noteq> None
      else if k = ''type'' then as_string v \<noteq> None
      else k = ''entries'' \<and> entries_field c v)"

text \<open>The parameters of each type of message.\<close>

definition message_fields :: "string \<Rightarrow> string set" where
  "message_fields ty =
     (if ty = ''MsgVote'' then {''from'', ''to'', ''term'', ''log_term'', ''index'', ''type''}
      else if ty = ''MsgVoteResp'' then {''from'', ''to'', ''term'', ''reject'', ''type''}
      else if ty = ''MsgApp''
      then {''from'', ''to'', ''term'', ''commit'', ''log_term'', ''index'', ''type'', ''entries''}
      else if ty = ''MsgAppResp'' then {''from'', ''to'', ''term'', ''reject'', ''index'', ''type''}
      else {})"

definition entries_of :: "any_map \<Rightarrow> any_map list" where
  "entries_of m = (case any_at m ''entries'' of VMapSlice es \<Rightarrow> es | _ \<Rightarrow> [])"

definition message_in_bounds :: "raft_config \<Rightarrow> any_map \<Rightarrow> bool" where
  "message_in_bounds c m \<longleftrightarrow>
     fst ` set m = message_fields (string_or_empty (any_at m ''type'')) \<and> distinct (map fst m) \<and>
     (\<forall>(k, v) \<in> set m. param_in_bounds c k v) \<and>
     unat (number_at m ''index'') + length (entries_of m) \<le> unat (rf_max_log_index c)"

definition server_param :: "raft_config \<Rightarrow> goval \<Rightarrow> bool" where
  "server_param c v = uint_field (\<lambda>w. w \<in> set (rf_node_ids c)) v"

definition request_param :: "raft_config \<Rightarrow> goval \<Rightarrow> bool" where
  "request_param c v = (case v of
     VInt n \<Rightarrow> n = 0 \<and> rf_emit_leader_noop c \<or> 1 \<le> n \<and> n \<le> rf_max_value c | _ \<Rightarrow> False)"

text \<open>The node of a Timeout is not checked against Server by the code, only to be a node.\<close>

definition event_in_bounds :: "raft_config \<Rightarrow> event \<Rightarrow> bool" where
  "event_in_bounds c e \<longleftrightarrow>
     (let ks = map fst (ev_params e); value = any_at (ev_params e) in
      if ev_name e = ''DeliverMessage'' then message_in_bounds c (ev_params e)
      else if ev_name e = ''ClientRequest''
      then ks = [''request'', ''leader''] \<and> request_param c (value ''request'') \<and> server_param c (value ''leader'')
      else if ev_name e \<in> {''Remove'', ''Add'', ''AdvanceCommitIndex''}
      then ks = [''i''] \<and> server_param c (value ''i'')
      else if ev_name e = ''BecomeLeader'' then ks = [''node''] \<and> server_param c (value ''node'')
      else ev_name e = ''Timeout'' \<and> ks = [''node''] \<and> uint_field node_id_valid (value ''node''))"

section \<open>Reading back normalized parameters\<close>

lemma any_at_put [simp]: "any_at (put m k v) k' = (if k = k' then v else any_at m k')"
  by (simp add: any_at_def put_def update_conv')

lemma any_at_Nil [simp]: "any_at [] k = VNil"
  by (simp add: any_at_def)

lemma any_at_Cons [simp]: "any_at ((k, v) # m) k' = (if k = k' then v else any_at m k')"
  by (simp add: any_at_def)

lemma keys_put [simp]: "fst ` set (put m k v) = insert k (fst ` set m)"
  by (simp add: put_def dom_update)

lemma distinct_put [simp]: "distinct (map fst (put m k v)) = distinct (map fst m)"
  unfolding put_def by (induction m) (auto simp: dom_update)

lemma number_at_put [simp]:
  "number_at (put m k v) k' = (if k = k' then (case v of VUint64 w \<Rightarrow> w | _ \<Rightarrow> 0) else number_at m k')"
  by (simp add: number_at_def)

lemma entries_of_put [simp]:
  "entries_of (put m k v) = (if k = ''entries'' then (case v of VMapSlice es \<Rightarrow> es | _ \<Rightarrow> []) else entries_of m)"
  by (simp add: entries_of_def)

definition params_in_bounds :: "raft_config \<Rightarrow> any_map \<Rightarrow> bool" where
  "params_in_bounds c m \<longleftrightarrow> distinct (map fst m) \<and> (\<forall>(k, v) \<in> set m. param_in_bounds c k v)"

lemma params_in_bounds_put [intro]:
  "params_in_bounds c m \<Longrightarrow> param_in_bounds c k v \<Longrightarrow> params_in_bounds c (put m k v)"
  by (auto simp: params_in_bounds_def put_def [symmetric]) (auto simp: put_def dest!: set_update_subset)

lemma params_in_bounds_at:
  "params_in_bounds c m \<Longrightarrow> k \<in> fst ` set m \<Longrightarrow> param_in_bounds c k (any_at m k)"
  by (force simp: params_in_bounds_def any_at_def split: option.splits dest: map_of_SomeD
      simp: map_of_eq_None_iff)

lemma message_in_bounds_params:
  "message_in_bounds c m \<longleftrightarrow>
     params_in_bounds c m \<and> fst ` set m = message_fields (string_or_empty (any_at m ''type'')) \<and>
     unat (number_at m ''index'') + length (entries_of m) \<le> unat (rf_max_log_index c)"
  by (auto simp: message_in_bounds_def params_in_bounds_def)

lemma json_error_param:
  assumes "param_in_bounds c k v" shows "json_error v = None"
proof -
  have entry: "entry_in_bounds c e \<Longrightarrow> p \<in> set e \<Longrightarrow> json_error (snd p) = None" for e p
    by (cases e; cases "tl e")
      (auto simp: entry_in_bounds_def uint_field_def split: goval.splits)
  show ?thesis
    using assms
    by (cases v) (auto simp: param_in_bounds_def uint_field_def entries_field_def first_some_None_iff list_all_iff
        split: if_splits dest: entry)
qed

lemma json_map_error_params: "params_in_bounds c m \<Longrightarrow> json_map_error m = None"
  by (force simp: params_in_bounds_def json_map_error_def first_some_None_iff intro: json_error_param)

text \<open>A delivered message within the bounds is a well-formed event.\<close>

lemma delivered_in_bounds:
  "message_in_bounds c m \<Longrightarrow>
     event_in_bounds c (delivered m) \<and> event_validate (delivered m) = None \<and> \<not> ev_reset (delivered m)"
  by (simp add: delivered_def event_in_bounds_def message_in_bounds_params
      json_map_error_params [of c])
text \<open>Events over one node, or a node and a request.\<close>

lemma node_event_in_bounds:
  "i \<in> set (rf_node_ids c) \<Longrightarrow> name \<in> {''Remove'', ''Add'', ''AdvanceCommitIndex''} \<Longrightarrow>
     event_in_bounds c (new_event name [(''i'', VUint64 i)])"
  "i \<in> set (rf_node_ids c) \<Longrightarrow> event_in_bounds c (new_event ''BecomeLeader'' [(''node'', VUint64 i)])"
  "node_id_valid i \<Longrightarrow> event_in_bounds c (new_event ''Timeout'' [(''node'', VUint64 i)])"
  "i \<in> set (rf_node_ids c) \<Longrightarrow> request_param c (VInt r) \<Longrightarrow>
     event_in_bounds c (new_event ''ClientRequest'' [(''request'', VInt r), (''leader'', VUint64 i)])"
  by (auto simp: event_in_bounds_def server_param_def uint_field_def)

lemma json_numbers [simp]: "json_map_error [(k, VUint64 w)] = None" "json_map_error [(k, VInt n), (k', VUint64 w)] = None"
  by (simp_all add: json_map_error_def first_some_None_iff)

lemma normalize_parameter_Inr:
  assumes "normalize_parameter c params k = Inr v"
    and k: "k \<in> {''from'', ''to'', ''term'', ''log_term'', ''index'', ''commit'', ''reject''}"
  shows "param_in_bounds c k v"
proof (cases "k = ''reject''")
  case True
  with assms(1) show ?thesis by (auto simp: normalize_parameter_def param_in_bounds_def split: option.splits)
next
  case False
  obtain w ok where w: "unsigned_param (any_at params k) = (w, ok)" by fastforce
  have v: "v = VUint64 w" and range: "k \<in> {''from'', ''to''} \<longrightarrow> w \<in> set (rf_node_ids c)"
    "k \<in> {''term'', ''log_term''} \<longrightarrow> w \<le> rf_largest_term c"
    "k \<in> {''index'', ''commit''} \<longrightarrow> w \<le> rf_max_log_index c"
    using assms(1) False by (simp_all only: normalize_parameter_def w Let_def prod.case if_False not_less split: if_splits)
      (simp; metis not_less)+
  from k False have "k \<in> {''from'', ''to''} \<or> k \<in> {''term'', ''log_term''} \<or> k \<in> {''index'', ''commit''}"
    by (simp only: insert_iff empty_iff) argo
  with range v show ?thesis by (elim disjE) (auto simp: param_in_bounds_def uint_field_def)
qed

lemma normalize_message_Inr:
  "normalize_message c params ks acc = Inr n \<Longrightarrow>
     set ks \<subseteq> {''from'', ''to'', ''term'', ''log_term'', ''index'', ''commit'', ''reject''} \<Longrightarrow> params_in_bounds c acc \<Longrightarrow>
     params_in_bounds c n \<and> fst ` set n = fst ` set acc \<union> set ks"
proof (induction ks arbitrary: acc)
  case (Cons k ks)
  then obtain v where v: "normalize_parameter c params k = Inr v"
    and rest: "normalize_message c params ks (put acc k v) = Inr n"
    by (auto split: sum.splits)
  from v Cons.prems(2) have "param_in_bounds c k v" by (intro normalize_parameter_Inr) auto
  then have "params_in_bounds c (put acc k v)" using Cons.prems(3) by blast
  with Cons.IH [OF rest] Cons.prems(2) show ?case by auto
qed simp

lemma params_in_bounds_Nil [simp]: "params_in_bounds c []"
  by (simp add: params_in_bounds_def)

lemma normalize_entry_Inr: "normalize_entry i (rf_max_value c) (rf_largest_term c) e = Inr e' \<Longrightarrow> entry_in_bounds c e'"
  by (auto simp: normalize_entry_def entry_data_def entry_in_bounds_def uint_field_def client_value_def Let_def
      split: if_splits option.splits prod.splits sum.splits)

lemma normalize_entry_list_Inr:
  "normalize_entry_list i (rf_max_value c) (rf_largest_term c) raw = Inr es \<Longrightarrow>
     length es = length raw \<and> list_all (entry_in_bounds c) es"
  by (induction raw arbitrary: i es) (auto split: sum.splits dest: normalize_entry_Inr)

lemma normalize_entries_Inr:
  "normalize_entries v (rf_max_value c) (rf_largest_term c) = Inr es \<Longrightarrow> list_all (entry_in_bounds c) es"
  by (auto simp: normalize_entries_def split: sum.splits dest: normalize_entry_list_Inr)

section \<open>Observations within the bounds\<close>

lemma validate_observed_bounds_None:
  assumes "validate_observed_bounds c ob = None" and "observed_node ob i = Some n"
  shows "i \<in> set (rf_node_ids c)" and "term_of_node ob i \<le> rf_largest_term c"
    and "last_index_of ob i \<le> rf_max_log_index c" and "commit_index_of ob i \<le> rf_max_log_index c"
proof -
  have in_list: "n \<in> set (obs_nodes ob)" "no_id n = i" using assms(2) by (auto dest: observed_node_Some)
  have "check_observed_nodes c (obs_nodes ob) = None" using assms(1)
    by (auto simp: validate_observed_bounds_def split: if_splits)
  moreover have "check_observed_nodes c ns = None \<Longrightarrow> m \<in> set ns \<Longrightarrow> check_observed_node c m = None" for ns m
    by (induction ns) auto
  ultimately have ok: "check_observed_node c n = None" using in_list by blast
  have facts: "no_id n \<in> set (rf_node_ids c)"
    "fst (unsigned_param (any_at (no_semantic n) ''term'')) \<le> rf_largest_term c"
    "fst (unsigned_param (any_at (no_semantic n) ''last_index'')) \<le> rf_max_log_index c"
    "fst (unsigned_param (any_at (no_semantic n) ''commit'')) \<le> rf_max_log_index c"
    using ok by (auto simp: check_observed_node_def Let_def not_less split: if_splits prod.splits)
  show "i \<in> set (rf_node_ids c)" "term_of_node ob i \<le> rf_largest_term c"
    "last_index_of ob i \<le> rf_max_log_index c" "commit_index_of ob i \<le> rf_max_log_index c"
    using facts in_list assms(2) by (simp_all add: term_of_node_def last_index_of_def commit_index_of_def semantic_number_def)
qed

lemma role_observed: "role_of ob i = x # xs \<Longrightarrow> \<exists>n. observed_node ob i = Some n"
  by (auto simp: role_of_def split: option.splits)

lemma status_observed: "status_of ob i = NodeRunning \<or> status_of ob i = NodeCrashed \<Longrightarrow> \<exists>n. observed_node ob i = Some n"
  by (auto simp: status_of_def split: option.splits)

lemma commit_index_bounded:
  "validate_observed_bounds c ob = None \<Longrightarrow> commit_index_of ob i \<le> rf_max_log_index c"
  by (cases "observed_node ob i") (auto simp: commit_index_of_def semantic_number_def dest: validate_observed_bounds_None(4))

section \<open>Every event of the mapper is within the bounds\<close>

definition model_event_ok :: "raft_config \<Rightarrow> event \<Rightarrow> bool" where
  "model_event_ok c e \<longleftrightarrow> event_in_bounds c e \<and> event_validate e = None \<and> \<not> ev_reset e"

lemma delivered_ok: "message_in_bounds c m \<Longrightarrow> model_event_ok c (delivered m)"
  by (simp add: model_event_ok_def delivered_in_bounds)

lemma map_simple_ok:
  assumes "map_simple c params ty ks = Inr es"
    and "message_fields ty = insert ''type'' (set ks)" and "''entries'' \<notin> set ks" and "''type'' \<notin> set ks"
    and "set ks \<subseteq> {''from'', ''to'', ''term'', ''log_term'', ''index'', ''commit'', ''reject''}"
  shows "list_all (model_event_ok c) es"
proof -
  obtain n where n: "normalize_message c params ks [] = Inr n" and es: "es = [delivered (put n ''type'' (VString ty))]"
    using assms(1) by (auto simp: map_simple_def split: sum.splits)
  from normalize_message_Inr [OF n assms(5)] have n_ok: "params_in_bounds c n" "fst ` set n = set ks" by simp_all
  have index: "unat (number_at n ''index'') \<le> unat (rf_max_log_index c)"
  proof (cases "''index'' \<in> set ks")
    case True
    with n_ok have "param_in_bounds c ''index'' (any_at n ''index'')" by (simp add: params_in_bounds_at)
    then show ?thesis by (auto simp: param_in_bounds_def uint_field_def number_at_def word_le_nat_alt split: goval.splits)
  next
    case False
    with n_ok(2) have "map_of n ''index'' = None" by (simp add: map_of_eq_None_iff)
    then show ?thesis by (simp add: number_at_def any_at_def)
  qed
  have "map_of n ''entries'' = None" using n_ok(2) assms(3) by (simp add: map_of_eq_None_iff)
  then have "entries_of n = []" by (simp add: entries_of_def any_at_def)
  moreover have "params_in_bounds c (put n ''type'' (VString ty))"
    using n_ok by (intro params_in_bounds_put) (auto simp: param_in_bounds_def)
  ultimately have "message_in_bounds c (put n ''type'' (VString ty))"
    using n_ok index assms(2) by (simp add: message_in_bounds_params string_or_empty_def)
  then show ?thesis using es by (simp add: delivered_ok)
qed

text \<open>The parameters of an append before its entries are chosen.\<close>

definition append_base :: "raft_config \<Rightarrow> any_map \<Rightarrow> bool" where
  "append_base c n \<longleftrightarrow> params_in_bounds c n \<and> any_at n ''type'' = VString ''MsgApp'' \<and>
     insert ''entries'' (fst ` set n) = message_fields ''MsgApp''"

lemma append_fields:
  "message_fields ''MsgApp'' = {''from'', ''to'', ''term'', ''commit'', ''log_term'', ''index'', ''type'', ''entries''}"
  by (simp add: message_fields_def)

lemma append_base_put:
  assumes "append_base c n" and "param_in_bounds c k v" and k: "k \<in> {''index'', ''log_term'', ''commit''}"
  shows "append_base c (put n k v)"
proof -
  from k have "k \<in> message_fields ''MsgApp''" "k \<noteq> ''type''" by (auto simp: append_fields)
  moreover have "params_in_bounds c (put n k v)" using assms by (auto simp: append_base_def)
  ultimately show ?thesis using assms(1) by (simp add: append_base_def insert_commute [of _ k] insert_absorb)
qed

lemma append_base_ok:
  assumes "append_base c n" and "list_all (entry_in_bounds c) es" and "length es \<le> 1"
    and "unat (number_at n ''index'') + length es \<le> unat (rf_max_log_index c)"
  shows "model_event_ok c (delivered (put n ''entries'' (VMapSlice es)))"
proof -
  have "params_in_bounds c (put n ''entries'' (VMapSlice es))"
    using assms by (intro params_in_bounds_put) (auto simp: append_base_def param_in_bounds_def entries_field_def)
  then show ?thesis
    using assms by (intro delivered_ok) (simp add: message_in_bounds_params append_base_def string_or_empty_def)
qed

lemma entry_term: "entry_in_bounds c e \<Longrightarrow> number_at e ''Term'' \<le> rf_largest_term c"
  by (auto simp: entry_in_bounds_def uint_field_def number_at_def split: goval.splits)

lemma expand_entries_ok:
  "append_base c n \<Longrightarrow> list_all (entry_in_bounds c) es \<Longrightarrow> previous \<le> rf_largest_term c \<Longrightarrow>
     unat index + length es \<le> unat (rf_max_log_index c) \<Longrightarrow>
     list_all (model_event_ok c) (expand_entries n index previous es)"
proof (induction es arbitrary: index previous)
  case (Cons e es)
  let ?n = "put (put n ''index'' (VUint64 index)) ''log_term'' (VUint64 previous)"
  have less: "index < rf_max_log_index c" using Cons.prems(4) by (simp add: word_less_nat_alt)
  then have index: "index \<le> rf_max_log_index c" and not_max: "index \<noteq> - 1" by auto
  have "append_base c ?n"
    using Cons.prems index by (intro append_base_put) (simp_all add: param_in_bounds_def uint_field_def)
  then have first: "model_event_ok c (delivered (put ?n ''entries'' (VMapSlice [e])))"
    using Cons.prems by (intro append_base_ok) simp_all
  have "list_all (model_event_ok c) (expand_entries n (index + 1) (number_at e ''Term'') es)"
    using Cons.prems not_max by (intro Cons.IH) (simp_all add: entry_term unat_less_max_Suc)
  with first show ?case by simp
qed simp

text \<open>The four outcomes of an append.\<close>

lemma append_events_cases:
  assumes "append_events c n0 entries effects before = Inr es"
  defines "n \<equiv> put n0 ''type'' (VString ''MsgApp'')" and "base \<equiv> number_at n0 ''index''"
  defines "commit \<equiv> commit_index_of before (number_at n0 ''to'')"
  shows "length entries \<le> unat (rf_max_log_index c - base) \<and>
    (base < commit \<and> es = [delivered (put (put (put (put n ''index'' (VUint64 0)) ''log_term'' (VUint64 0))
                             ''commit'' (VUint64 commit)) ''entries'' (VMapSlice []))]
     \<or> commit \<le> base \<and> es = [delivered (put n ''entries'' (VMapSlice (take 1 entries)))]
     \<or> commit \<le> base \<and> 1 < length entries \<and> es = expand_entries n base (number_at n ''log_term'') entries
         \<and> append_response effects (number_at n0 ''to'') (number_at n0 ''from'') = Inr (Some False))"
proof -
  have len: "length entries \<le> unat (rf_max_log_index c - base)"
    using assms(1) by (simp add: append_events_def Let_def base_def split: if_splits)
  show ?thesis
  proof (cases "base < commit \<or> length entries \<le> 1")
    case True
    with assms(1) len show ?thesis
      by (simp add: append_events_def Let_def base_def commit_def n_def del: take_Suc split: if_splits)
  next
    case False
    then have fresh: "\<not> base < commit" "commit \<le> base" and long: "\<not> length entries \<le> 1" "1 < length entries"
      by auto
    let ?response = "append_response effects (number_at n0 ''to'') (number_at n0 ''from'')"
    from assms(1) len False obtain r where r: "?response = Inr r"
      by (cases ?response) (simp_all add: append_events_def Let_def base_def commit_def)
    consider "r = None" | "r = Some True" | "r = Some False" by (cases r) auto
    then show ?thesis
      using assms(1) len fresh long r
      by cases (simp_all add: append_events_def Let_def base_def commit_def n_def del: take_Suc)
  qed
qed

lemma map_append_ok:
  assumes "map_append c params effects before = Inr es" and "validate_observed_bounds c before = None"
  shows "list_all (model_event_ok c) es"
proof -
  let ?ks = "[''from'', ''to'', ''term'', ''commit'', ''log_term'', ''index'']"
  obtain n0 entries where n0: "normalize_message c params ?ks [] = Inr n0"
    and entries: "normalize_entries (any_at params ''entries'') (rf_max_value c) (rf_largest_term c) = Inr entries"
    and events: "append_events c n0 entries effects before = Inr es"
    using assms(1) by (auto simp: map_append_def simp del: normalize_message.simps split: sum.splits)
  note entries_ok = normalize_entries_Inr [OF entries]
  have n0_ok: "params_in_bounds c n0" "fst ` set n0 = set ?ks"
    using normalize_message_Inr [OF n0] by simp_all
  define n where "n = put n0 ''type'' (VString ''MsgApp'')"
  define base where "base = number_at n0 ''index''"
  let ?commit = "commit_index_of before (number_at n0 ''to'')"
  note outcome = append_events_cases [OF events, folded n_def base_def]
  have base_n: "number_at n ''index'' = base" by (simp add: n_def base_def)
  have "param_in_bounds c ''index'' (any_at n0 ''index'')" using n0_ok by (intro params_in_bounds_at) simp_all
  then have "base \<le> rf_max_log_index c"
    by (auto simp: base_def number_at_def param_in_bounds_def uint_field_def split: goval.splits)
  then have fits: "unat base + length entries \<le> unat (rf_max_log_index c)"
    using outcome by (auto simp: unat_sub word_le_nat_alt)
  have n: "append_base c n"
  proof -
    have "insert ''entries'' (insert ''type'' (set ?ks)) = message_fields ''MsgApp''"
      unfolding list.set append_fields by fast
    moreover have "params_in_bounds c n"
      unfolding n_def using n0_ok(1) by (rule params_in_bounds_put) (simp add: param_in_bounds_def)
    ultimately show ?thesis using n0_ok(2) by (simp add: append_base_def n_def del: list.set)
  qed
  have "param_in_bounds c ''log_term'' (any_at n0 ''log_term'')" using n0_ok by (intro params_in_bounds_at) simp_all
  then have previous: "number_at n ''log_term'' \<le> rf_largest_term c"
    by (auto simp: n_def number_at_def param_in_bounds_def uint_field_def split: goval.splits)
  have "append_base c (put (put (put n ''index'' (VUint64 0)) ''log_term'' (VUint64 0)) ''commit'' (VUint64 ?commit))"
    using n commit_index_bounded [OF assms(2)]
    by (intro append_base_put) (simp_all add: param_in_bounds_def uint_field_def)
  from append_base_ok [OF this, of "[]"]
  have stale: "model_event_ok c (delivered (put (put (put (put n ''index'' (VUint64 0)) ''log_term'' (VUint64 0))
      ''commit'' (VUint64 ?commit)) ''entries'' (VMapSlice [])))" by simp
  have single: "model_event_ok c (delivered (put n ''entries'' (VMapSlice (take 1 entries))))"
    using n entries_ok fits base_n by (intro append_base_ok) (auto simp: list_all_iff dest: in_set_takeD)
  have "list_all (model_event_ok c) (expand_entries n base (number_at n ''log_term'') entries)"
    using n entries_ok previous fits by (rule expand_entries_ok)
  with outcome stale single show ?thesis by (elim conjE disjE) simp_all
qed
lemma map_heartbeat_ok:
  assumes "map_heartbeat c params = Inr es" shows "list_all (model_event_ok c) es"
proof -
  let ?ks = "[''from'', ''to'', ''term'', ''commit'']"
  obtain n0 where n0: "normalize_message c params ?ks [] = Inr n0"
    and es: "es = [delivered (put (put (put (put n0 ''type'' (VString ''MsgApp'')) ''index'' (VUint64 0))
                     ''log_term'' (VUint64 0)) ''entries'' (VMapSlice []))]"
    using assms by (auto simp: map_heartbeat_def simp del: normalize_message.simps split: sum.splits)
  let ?n = "put (put (put n0 ''type'' (VString ''MsgApp'')) ''index'' (VUint64 0)) ''log_term'' (VUint64 0)"
  have n0_ok: "params_in_bounds c n0" "fst ` set n0 = set ?ks"
    using normalize_message_Inr [OF n0] by simp_all
  have "insert ''entries'' (insert ''log_term'' (insert ''index'' (insert ''type'' (set ?ks)))) = message_fields ''MsgApp''"
    unfolding list.set append_fields by fast
  moreover have "params_in_bounds c ?n"
    using n0_ok(1) by (intro params_in_bounds_put) (simp_all add: param_in_bounds_def uint_field_def)
  ultimately have "append_base c ?n" using n0_ok(2) by (simp add: append_base_def del: list.set)
  from append_base_ok [OF this, of "[]"] show ?thesis by (simp add: es)
qed

lemma client_request_ok:
  "i \<in> set (rf_node_ids c) \<Longrightarrow> request_param c (VInt r) \<Longrightarrow>
     model_event_ok c (new_event ''ClientRequest'' [(''request'', VInt r), (''leader'', VUint64 i)])"
  by (simp add: model_event_ok_def node_event_in_bounds)

lemma numeric_request_Inr: "numeric_request s m = Inr r \<longleftrightarrow> atoi s = Some r \<and> 1 \<le> r \<and> r \<le> m"
  by (auto simp: numeric_request_def split: option.splits)

lemma proposal_events_ok:
  "proposal_events c i k es = Inr events \<Longrightarrow> i \<in> set (rf_node_ids c) \<Longrightarrow> list_all (model_event_ok c) events"
proof (induction es arbitrary: k events)
  case (Cons e es)
  then obtain data r rest where "as_string (any_at e ''Data'') = Some data"
    and r: "numeric_request data (rf_max_value c) = Inr r"
    and rest: "proposal_events c i (Suc k) es = Inr rest"
    and events: "events = new_event ''ClientRequest'' [(''request'', VInt r), (''leader'', VUint64 i)] # rest"
    by (auto split: option.splits sum.splits)
  from Cons.IH [OF rest Cons.prems(2)] r Cons.prems(2) show ?case
    by (simp add: events client_request_ok request_param_def numeric_request_Inr)
qed simp

lemma map_proposal_ok:
  assumes "map_proposal c params before = Inr es" and "validate_observed_bounds c before = None"
  shows "list_all (model_event_ok c) es"
proof -
  obtain i ok where i: "unsigned_param (any_at params ''to'') = (i, ok)" by fastforce
  show ?thesis
  proof (cases "role_of before i = ''leader''")
    case False
    with assms(1) i show ?thesis by (auto simp: map_proposal_def split: if_splits)
  next
    case True
    then have "i \<in> set (rf_node_ids c)" using assms(2) role_observed validate_observed_bounds_None(1) by blast
    moreover obtain entries where "proposal_events c i 0 entries = Inr es"
      using assms(1) i True by (auto simp: map_proposal_def split: if_splits sum.splits)
    ultimately show ?thesis by (rule proposal_events_ok [rotated])
  qed
qed

lemma if_eqE: "(if b then x else y) = z \<Longrightarrow> (b \<Longrightarrow> x = z \<Longrightarrow> P) \<Longrightarrow> (\<not> b \<Longrightarrow> y = z \<Longrightarrow> P) \<Longrightarrow> P"
  by (cases b) simp_all

lemma map_delivered_message_ok:
  assumes "map_delivered_message c params effects before = Inr es" and "validate_observed_bounds c before = None"
  shows "list_all (model_event_ok c) es"
proof -
  let ?ty = "string_or_empty (any_at params ''type'')"
  consider "es = []" | "map_heartbeat c params = Inr es" | "map_proposal c params before = Inr es"
    | "map_append c params effects before = Inr es"
    | "map_simple c params ''MsgVote'' [''from'', ''to'', ''term'', ''log_term'', ''index''] = Inr es"
    | "map_simple c params ''MsgVoteResp'' [''from'', ''to'', ''term'', ''reject''] = Inr es"
    | "map_simple c params ''MsgAppResp'' [''from'', ''to'', ''term'', ''reject'', ''index''] = Inr es"
  proof -
    define ty where "ty = ?ty"
    show thesis
      using assms(1) unfolding map_delivered_message_def Let_def ty_def [symmetric]
      by (elim if_eqE) (metis that sum.distinct sum.inject)+
  qed
  then show ?thesis
  proof cases
    case 5
    then show ?thesis by (rule map_simple_ok) (simp_all add: message_fields_def insert_commute)
  next
    case 6
    then show ?thesis by (rule map_simple_ok) (simp_all add: message_fields_def insert_commute)
  next
    case 7
    then show ?thesis by (rule map_simple_ok) (simp_all add: message_fields_def insert_commute)
  qed (use assms(2) map_heartbeat_ok map_proposal_ok map_append_ok in simp_all)
qed

lemma event_ok_i:
  "i \<in> set (rf_node_ids c) \<Longrightarrow> name \<in> {''Remove'', ''Add'', ''AdvanceCommitIndex''} \<Longrightarrow>
     model_event_ok c (new_event name [(''i'', VUint64 i)])"
  by (simp add: model_event_ok_def node_event_in_bounds(1)) auto

lemma event_ok_node:
  "i \<in> set (rf_node_ids c) \<Longrightarrow> model_event_ok c (new_event ''BecomeLeader'' [(''node'', VUint64 i)])"
  "node_id_valid i \<Longrightarrow> model_event_ok c (new_event ''Timeout'' [(''node'', VUint64 i)])"
  by (simp_all add: model_event_ok_def node_event_in_bounds)

lemma map_action_ok:
  assumes "map_action c t = Inr es" and "validate_observed_bounds c (tn_before t) = None"
  shows "list_all (model_event_ok c) es"
proof -
  let ?a = "sr_action (tn_record t)"
  let ?i = "act_node ?a"
  have in_server: "role_of (tn_before t) ?i = ''leader'' \<or> status_of (tn_before t) ?i \<in> {NodeRunning, NodeCrashed} \<Longrightarrow>
      ?i \<in> set (rf_node_ids c)"
    using assms(2) role_observed status_observed validate_observed_bounds_None(1)
    by (metis insert_iff empty_iff)
  show ?thesis
  proof (cases "act_kind ?a")
    case ActionRequest
    with assms(1) in_server show ?thesis
      by (auto simp: map_action_def Let_def client_request_ok request_param_def numeric_request_Inr
          split: sum.splits if_splits)
  next
    case ActionCrash
    with assms(1) in_server show ?thesis by (auto simp: map_action_def Let_def intro!: event_ok_i split: if_splits)
  next
    case ActionRestart
    with assms(1) in_server show ?thesis by (auto simp: map_action_def Let_def intro!: event_ok_i split: if_splits)
  qed (use assms(1) in \<open>simp_all add: map_action_def Let_def\<close>)
qed

lemma timer_effect:
  assumes "effect_validate e = None" and "eff_kind e = EffectTimerFired"
  shows "\<exists>f. eff_timer_fired e = Some f \<and> node_id_valid (tf_node f)"
proof -
  obtain f where f: "eff_timer_fired e = Some f" using effect_validate_timer_fired assms by blast
  with assms have "timer_fired_validate f = None"
    by (cases "eff_message e"; cases "eff_model_event e") (simp_all add: effect_validate_def effect_payloads_def)
  with f show ?thesis by (simp add: timer_fired_validate_def split: if_splits)
qed

lemma map_timer_ok:
  "map_timer c f t = Inr es \<Longrightarrow> node_id_valid (tf_node f) \<Longrightarrow> list_all (model_event_ok c) es"
  by (auto simp: map_timer_def event_ok_node split: if_splits sum.splits)

lemma map_effects_ok:
  "map_effects c t effects acc commits = Inr (events, nodes) \<Longrightarrow>
     list_all (\<lambda>e. effect_validate e = None) effects \<Longrightarrow>
     validate_observed_bounds c (tn_before t) = None \<Longrightarrow> validate_observed_bounds c (tn_after t) = None \<Longrightarrow>
     list_all (model_event_ok c) acc \<Longrightarrow> set commits \<subseteq> set (rf_node_ids c) \<Longrightarrow>
     list_all (model_event_ok c) events \<and> set nodes \<subseteq> set (rf_node_ids c)"
proof (induction effects arbitrary: acc commits)
  case (Cons e es)
  note IH = Cons.IH [OF _ _ Cons.prems(3,4)]
  have effect: "effect_validate e = None" and effects: "list_all (\<lambda>e. effect_validate e = None) es"
    using Cons.prems(2) by simp_all
  show ?case
  proof (cases "eff_kind e")
    case EffectTimerFired
    then obtain f where f: "eff_timer_fired e = Some f" and valid: "node_id_valid (tf_node f)"
      using effect timer_effect by blast
    obtain new where new: "map_timer c f t = Inr new" and rest: "map_effects c t es (acc @ new) commits = Inr (events, nodes)"
      using Cons.prems(1) EffectTimerFired f by (auto split: sum.splits)
    from map_timer_ok [OF new valid] show ?thesis
      using Cons.prems(5,6) by (intro IH [OF rest effects]) simp_all
  next
    case EffectModelEvent
    let ?v = "the (eff_model_event e)"
    consider (delivered) new where "map_delivered_message c (me_params ?v) (sr_effects (tn_record t)) (tn_before t) = Inr new"
        "map_effects c t es (acc @ new) commits = Inr (events, nodes)"
      | (commit) "role_of (tn_after t) (me_node ?v) = ''leader''"
        "map_effects c t es acc (commits @ [me_node ?v]) = Inr (events, nodes)"
      | (stutter) "map_effects c t es acc commits = Inr (events, nodes)"
      using Cons.prems(1) EffectModelEvent
      by (auto simp: Let_def simp del: map_effects.simps(2) simp: map_effects.simps(2)
          split: sum.splits if_splits)
    then show ?thesis
    proof cases
      case delivered
      then show ?thesis
        using Cons.prems(3,5,6) map_delivered_message_ok by (intro IH [OF delivered(2) effects]) simp_all
    next
      case commit
      then have "me_node ?v \<in> set (rf_node_ids c)"
        using Cons.prems(4) role_observed validate_observed_bounds_None(1) by blast
      then show ?thesis using Cons.prems(5,6) by (intro IH [OF commit(2) effects]) simp_all
    next
      case stutter
      then show ?thesis using Cons.prems(5,6) by (intro IH [OF stutter effects]) simp_all
    qed
  next
    case EffectSendMessage
    then show ?thesis using Cons.prems(1,5,6) by (intro IH [OF _ effects]) simp_all
  next
    case (EffectKindOther k)
    then show ?thesis using Cons.prems(1,5,6) by (intro IH [OF _ effects]) simp_all
  qed
qed simp

lemma leader_events_ok:
  "leader_events c t is = Inr es \<Longrightarrow> set is \<subseteq> set (rf_node_ids c) \<Longrightarrow> list_all (model_event_ok c) es"
proof (induction "is" arbitrary: es)
  case (Cons i ns)
  then obtain rest where rest: "leader_events c t ns = Inr rest" by (auto split: if_splits sum.splits)
  with Cons.prems have es: "es = new_event ''BecomeLeader'' [(''node'', VUint64 i)]
      # (if rf_emit_leader_noop c then [new_event ''ClientRequest'' [(''request'', VInt 0), (''leader'', VUint64 i)]] else [])
      @ rest" by (auto split: if_splits)
  from Cons.IH [OF rest] Cons.prems(2) show ?case
    unfolding es by (simp add: event_ok_node client_request_ok request_param_def)
qed simp

lemma became_leaders_in: "i \<in> set (became_leaders before after) \<Longrightarrow> role_of after i = ''leader''"
  by (auto simp: became_leaders_def)

lemma raft_map_events_ok:
  "case raft_map (Some c) t of Inl e \<Rightarrow> True | Inr events \<Rightarrow> list_all (model_event_ok c) events"
proof (cases "raft_map (Some c) t")
  case (Inr events)
  then have valid: "transition_validate t = None"
    and before: "validate_observed_bounds c (tn_before t) = None"
    and after: "validate_observed_bounds c (tn_after t) = None"
    by (simp_all add: raft_map_def split: option.splits)
  with Inr obtain first new commits leaders where first: "map_action c t = Inr first"
    and effects: "map_effects c t (sr_effects (tn_record t)) first [] = Inr (new, commits)"
    and leaders: "leader_events c t (became_leaders (tn_before t) (tn_after t)) = Inr leaders"
    and events: "events = new @ leaders @ map commit_event commits"
    by (auto simp: raft_map_def simp del: map_effects.simps split: sum.splits)
  have "list_all (\<lambda>e. effect_validate e = None) (sr_effects (tn_record t))"
    using valid by (auto simp: list_all_iff transition_validate_None step_record_validate_None)
  from map_effects_ok [OF effects this before after map_action_ok [OF first before]]
  have new: "list_all (model_event_ok c) new" and commits: "set commits \<subseteq> set (rf_node_ids c)" by simp_all
  have "set (became_leaders (tn_before t) (tn_after t)) \<subseteq> set (rf_node_ids c)"
    using after role_observed validate_observed_bounds_None(1) became_leaders_in by blast
  with leaders have "list_all (model_event_ok c) leaders" by (rule leader_events_ok)
  moreover have "list_all (model_event_ok c) (map commit_event commits)"
    using commits by (auto simp: list_all_iff commit_event_def intro!: event_ok_i)
  ultimately show ?thesis using Inr new events by simp
qed simp

interpretation rm: sound_mapper "raft_map (Some c)" "model_event_ok c" for c
proof
  show "model_event_ok c e" if "raft_map (Some c) t = Inr es" "e \<in> set es" for t es e
    using raft_map_events_ok [of c t] that by (simp add: list_all_iff)
qed (simp add: model_event_ok_def)

text \<open>C10: every event the Raft mapper produces for any transition passes the model's own event
  validation, is never a reset, and lies within the bounds of the TLA+ model it was configured for:
  every message has exactly the parameters of its type, its senders, receivers, leaders and removed or
  added nodes are in Server, its terms are at most LargestTerm, its indices and the entry it appends at
  most MaxLogIndex, it carries at most one entry, and a client request is in 1..MaxValue or is the
  leader's no-op 0. The node of a Timeout is only known to be a valid node.\<close>
theorem raft_map_events_in_bounds:
  "case raft_map (Some c) t of Inl e \<Rightarrow> True | Inr events \<Rightarrow> list_all (model_event_ok c) events"
  by (rule raft_map_events_ok)

end
