(* ===== verification/Raft_Profile.thy ===== *)
theory Raft_Profile
  imports Raft_Mapper
begin

text \<open>
  internal/model/raft/profile.go: the check before an action that the bounded Raft model can express
  what the action may do. \<open>None\<close> accepts; a refusal is a decision error with a code.
\<close>

section \<open>The decisions\<close>

definition maximum_election_fires :: "node_observation \<Rightarrow> u64 \<Rightarrow> u64 \<times> bool" where
  "maximum_election_fires n ticks =
     (let (remaining0, remaining_ok) = unsigned_param (any_at (no_semantic n) ''election_ticks_remaining'');
          (timeout, timeout_ok) = unsigned_param (any_at (no_semantic n) ''election_timeout'') in
      if \<not> remaining_ok \<or> \<not> timeout_ok \<or> timeout = 0 then (0, False)
      else if ticks = 0 then (0, True)
      else
        let remaining = (if remaining0 = 0 then 1 else remaining0) in
        if ticks < remaining then (0, True)
        else (1 + (ticks - remaining) div timeout, True))"

definition observed_message :: "observation \<Rightarrow> message_id \<Rightarrow> message_observation option" where
  "observed_message ob i = find (\<lambda>m. mo_id m = i) (obs_messages ob)"

fun check_advance_nodes :: "raft_config \<Rightarrow> action \<Rightarrow> observation \<Rightarrow> u64 \<Rightarrow> node_observation list \<Rightarrow> go_error option"
  where
  "check_advance_nodes c a ob ticks [] = None"
| "check_advance_nodes c a ob ticks (n # ns) =
     (if no_status n \<noteq> NodeRunning \<or> role_of ob (no_id n) = ''leader''
      then check_advance_nodes c a ob ticks ns
      else
        let (fires, ok) = maximum_election_fires n ticks; trm = term_of_node ob (no_id n) in
        if \<not> ok
        then Some (inapplicable_code a ''timer_state_unavailable''
               (''node '' @ node_id_text (no_id n) @ '' does not expose valid election timer state''))
        else if trm > rf_largest_term c
        then Some (bound_reached_code a ''advance_would_exceed_term''
               (''node '' @ node_id_text (no_id n) @ '' term '' @ format_uint trm @
                '' already exceeds LargestTerm '' @ format_uint (rf_largest_term c)))
        else if fires > rf_largest_term c - trm
        then Some (inapplicable_code a ''advance_would_exceed_term''
               (''advancing '' @ format_uint ticks @ '' ticks may make node '' @ node_id_text (no_id n) @
                '' exceed LargestTerm '' @ format_uint (rf_largest_term c)))
        else check_advance_nodes c a ob ticks ns)"

definition term_fields :: "string \<Rightarrow> string list" where
  "term_fields hint =
     (if hint = ''MsgVote'' \<or> hint = ''MsgApp'' then [''term'', ''log_term'']
      else if hint = ''MsgSnap'' then [''term'', ''snapshot_term'']
      else [''term''])"

definition index_fields :: "string \<Rightarrow> string list" where
  "index_fields hint =
     (if hint = ''MsgVote'' then [''index'']
      else if hint = ''MsgApp'' then [''index'', ''commit'']
      else if hint = ''MsgAppResp'' then [''index'']
      else if hint = ''MsgHeartbeat'' then [''commit'']
      else if hint = ''MsgSnap'' then [''snapshot_index'']
      else [])"

text \<open>One metadata loop: every field is a number within the limit.\<close>

fun check_metadata ::
  "action \<Rightarrow> message_observation \<Rightarrow> string \<Rightarrow> string \<Rightarrow> u64 \<Rightarrow> string list \<Rightarrow> go_error option" where
  "check_metadata a m code bound limit [] = None"
| "check_metadata a m code bound limit (field # rest) =
     (case parse_uint (string_at (mo_metadata m) field) of
        None \<Rightarrow> Some (unsupported_code a ''message_metadata_invalid''
          (mo_type_hint m @ '' has no valid '' @ field @ '' metadata''))
      | Some v \<Rightarrow>
          if v > limit
          then Some (bound_reached_code a code
                 (mo_type_hint m @ '' '' @ field @ '' '' @ format_uint v @ '' exceeds '' @ bound @ '' '' @ format_uint limit))
          else check_metadata a m code bound limit rest)"

definition validate_metadata_bounds :: "raft_config \<Rightarrow> action \<Rightarrow> message_observation \<Rightarrow> go_error option" where
  "validate_metadata_bounds c a m =
     (case check_metadata a m ''message_term_bound'' ''LargestTerm'' (rf_largest_term c) (term_fields (mo_type_hint m)) of
        Some e \<Rightarrow> Some e
      | None \<Rightarrow> check_metadata a m ''message_log_bound'' ''MaxLogIndex'' (rf_max_log_index c)
                 (index_fields (mo_type_hint m)))"

definition validate_proposal :: "raft_config \<Rightarrow> action \<Rightarrow> observation \<Rightarrow> message_observation \<Rightarrow> go_error option" where
  "validate_proposal c a ob m =
     (let invalid = Some (unsupported_code a ''message_metadata_invalid'' ''MsgProp has no positive entry_count metadata'')
      in case parse_uint (string_at (mo_metadata m) ''entry_count'') of
        None \<Rightarrow> invalid
      | Some n \<Rightarrow>
          if n = 0 then invalid
          else if role_of ob (mo_to m) = ''leader'' \<and>
            (last_index_of ob (mo_to m) > rf_max_log_index c \<or> n > rf_max_log_index c - last_index_of ob (mo_to m))
          then Some (bound_reached_code a ''message_log_bound'' (''MsgProp adds '' @ format_uint n @
                 '' entries beyond MaxLogIndex '' @ format_uint (rf_max_log_index c)))
          else None)"

definition validate_append :: "raft_config \<Rightarrow> action \<Rightarrow> message_observation \<Rightarrow> go_error option" where
  "validate_append c a m =
     (let invalid = Some (unsupported_code a ''message_metadata_invalid'' ''MsgApp has no valid entry_count metadata'')
      in case atoi (string_at (mo_metadata m) ''entry_count'') of
        None \<Rightarrow> invalid
      | Some n \<Rightarrow>
          if n < 0 then invalid
          else case parse_uint (string_at (mo_metadata m) ''index'') of
            None \<Rightarrow> Some (unsupported_code a ''message_metadata_invalid'' ''MsgApp has no valid index metadata'')
          | Some index \<Rightarrow>
              if index > rf_max_log_index c \<or> of_int n > rf_max_log_index c - index
              then Some (bound_reached_code a ''message_log_bound'' (''MsgApp index '' @
                     go_quote (string_at (mo_metadata m) ''index'') @ '' plus '' @ show_int n @
                     '' entries exceeds MaxLogIndex '' @ format_uint (rf_max_log_index c)))
              else None)"

definition validate_vote_response :: "raft_config \<Rightarrow> action \<Rightarrow> observation \<Rightarrow> message_observation \<Rightarrow> go_error option" where
  "validate_vote_response c a ob m =
     (case parse_bool (string_at (mo_metadata m) ''reject'') of
        None \<Rightarrow> Some (unsupported_code a ''message_metadata_invalid'' ''MsgVoteResp has no valid reject metadata'')
      | Some rejected \<Rightarrow>
          if \<not> rejected \<and> role_of ob (mo_to m) = ''candidate'' \<and> last_index_of ob (mo_to m) \<ge> rf_max_log_index c
          then Some (bound_reached_code a ''leader_noop_log_bound''
                 (''successful vote may append leader no-op beyond MaxLogIndex '' @ format_uint (rf_max_log_index c)))
          else None)"

definition validate_delivery :: "raft_config \<Rightarrow> action \<Rightarrow> observation \<Rightarrow> go_error option" where
  "validate_delivery c a ob =
     (case observed_message ob (act_message a) of
        None \<Rightarrow> Some (inapplicable_code a ''message_missing''
          (''message '' @ message_id_text (act_message a) @ '' is absent from observation''))
      | Some m \<Rightarrow>
          (case validate_metadata_bounds c a m of
             Some e \<Rightarrow> Some e
           | None \<Rightarrow>
               let hint = mo_type_hint m in
               if hint \<in> {''MsgVote'', ''MsgAppResp'', ''MsgHeartbeat'', ''MsgHeartbeatResp'', ''MsgReadIndex'',
                          ''MsgReadIndexResp'', ''MsgSnap''}
               then None
               else if hint = ''MsgProp'' then validate_proposal c a ob m
               else if hint = ''MsgApp'' then validate_append c a m
               else if hint = ''MsgVoteResp'' then validate_vote_response c a ob m
               else Some (unsupported_code a ''message_type_not_modeled''
                      (''message type '' @ hint @ '' is not represented''))))"

definition raft_validate_action :: "raft_config option \<Rightarrow> action \<Rightarrow> observation \<Rightarrow> go_error option" where
  "raft_validate_action mapper a ob =
     (case mapper of
        None \<Rightarrow> Some (unsupported_code a ''profile_unavailable'' ''raft mapper is nil'')
      | Some c \<Rightarrow>
        (case act_kind a of
           ActionAdvanceTime \<Rightarrow>
             if act_target_time a \<le> obs_time ob
             then Some (inapplicable_code a ''timer_state_unavailable'' (''target time '' @
                    format_uint (act_target_time a) @ '' must be later than current time '' @
                    format_uint (obs_time ob)))
             else check_advance_nodes c a ob (act_target_time a - obs_time ob) (obs_nodes ob)
         | ActionCrash \<Rightarrow>
             if status_of ob (act_node a) \<noteq> NodeRunning
             then Some (inapplicable_code a ''crash_target_not_running''
                    (''crash target '' @ node_id_text (act_node a) @ '' is not running''))
             else None
         | ActionRestart \<Rightarrow>
             if status_of ob (act_node a) \<noteq> NodeCrashed
             then Some (inapplicable_code a ''restart_target_not_crashed''
                    (''restart target '' @ node_id_text (act_node a) @ '' is not crashed''))
             else None
         | ActionRequest \<Rightarrow>
             if role_of ob (act_node a) = ''leader'' \<and> last_index_of ob (act_node a) \<ge> rf_max_log_index c
             then Some (bound_reached_code a ''request_log_bound''
                    (''request reaches MaxLogIndex '' @ format_uint (rf_max_log_index c)))
             else (case numeric_request (act_request a) (rf_max_value c) of
                     Inl e \<Rightarrow> Some (unsupported_code a ''request_invalid_value'' (err_text e))
                   | Inr _ \<Rightarrow> None)
         | ActionTimeout \<Rightarrow>
             if term_of_node ob (act_node a) \<ge> rf_largest_term c
             then Some (bound_reached_code a ''timeout_term_bound''
                    (''timeout reaches LargestTerm '' @ format_uint (rf_largest_term c)))
             else None
         | ActionDeliver \<Rightarrow> validate_delivery c a ob
         | _ \<Rightarrow> None))"

section \<open>Every refusal is a decision\<close>

lemma check_advance_nodes_decision:
  "check_advance_nodes c a ob ticks ns = Some e \<Longrightarrow> is_decision e"
proof (induction ns)
  case (Cons n ns)
  obtain fires ok where f: "maximum_election_fires n ticks = (fires, ok)" by fastforce
  with Cons show ?case by (auto simp: Let_def split: if_splits)
qed simp

lemma check_metadata_decision: "check_metadata a m code bound limit fs = Some e \<Longrightarrow> is_decision e"
  by (induction fs) (auto split: option.splits if_splits)

lemma validate_message_decision:
  "validate_metadata_bounds c a m = Some e \<Longrightarrow> is_decision e"
  "validate_proposal c a ob m = Some e \<Longrightarrow> is_decision e"
  "validate_append c a m = Some e \<Longrightarrow> is_decision e"
  "validate_vote_response c a ob m = Some e \<Longrightarrow> is_decision e"
  by (auto simp: validate_metadata_bounds_def validate_proposal_def validate_append_def validate_vote_response_def Let_def
      dest: check_metadata_decision split: option.splits if_splits)

lemma validate_delivery_decision: "validate_delivery c a ob = Some e \<Longrightarrow> is_decision e"
  unfolding validate_delivery_def Let_def
  by (simp only: option.case_eq_if split: if_splits)
    (auto dest: validate_message_decision)

lemma raft_validate_action_decision: "raft_validate_action m a ob = Some e \<Longrightarrow> is_decision e"
  by (cases m; cases "act_kind a")
    (auto simp: raft_validate_action_def dest: check_advance_nodes_decision validate_delivery_decision
      split: if_splits sum.splits)

interpretation rp: profiled_mapper "raft_map (Some c)" "model_event_ok c" "raft_validate_action (Some c)" for c
  by unfold_locales (rule raft_validate_action_decision)

text \<open>Whatever the action and the observation, a refusal of the Raft profile is a decision: it
  carries exactly one of the three categories a caller tells apart (inapplicable, model bound reached,
  unsupported), a non-empty code and a non-empty text, so that no refusal is mistaken for a failure.\<close>
theorem profile_refusals_are_decisions:
  "case raft_validate_action m a ob of None \<Rightarrow> True | Some e \<Rightarrow> is_decision e"
  by (simp add: raft_validate_action_decision split: option.split)

section \<open>The bound on election timeouts\<close>

text \<open>The reference: a timer counts down, fires when it is exhausted, and is reloaded with a value of
  its own choice.\<close>

fun timer_fires :: "(nat \<Rightarrow> nat) \<Rightarrow> nat \<Rightarrow> nat \<Rightarrow> nat \<Rightarrow> nat" where
  "timer_fires reload k remaining 0 = 0"
| "timer_fires reload k remaining (Suc ticks) =
     (if remaining \<le> 1 then Suc (timer_fires reload (Suc k) (reload k) ticks)
      else timer_fires reload k (remaining - 1) ticks)"

text \<open>The closed form of the code, over the natural numbers.\<close>

definition period_fires :: "nat \<Rightarrow> nat \<Rightarrow> nat \<Rightarrow> nat" where
  "period_fires timeout remaining ticks =
     (if ticks < max 1 remaining then 0 else 1 + (ticks - max 1 remaining) div timeout)"

lemma period_fires_full: "0 < t \<Longrightarrow> period_fires t t ticks = ticks div t"
  by (auto simp: period_fires_def max_def le_div_geq)

lemma period_fires_antimono: "r \<le> r' \<Longrightarrow> period_fires t r' ticks \<le> period_fires t r ticks"
  by (auto simp: period_fires_def max_def intro!: div_le_mono)

lemma period_fires_Suc:
  "period_fires t r (Suc ticks) = (if r \<le> 1 then Suc (ticks div t) else period_fires t (r - 1) ticks)"
  by (auto simp: period_fires_def max_def intro: arg_cong [where f = "\<lambda>x. x div t"])

lemma timer_fires_constant: "0 < t \<Longrightarrow> timer_fires (\<lambda>_. t) k r ticks = period_fires t r ticks"
proof (induction ticks arbitrary: k r)
  case (Suc ticks)
  then show ?case by (simp add: period_fires_Suc period_fires_full)
qed (simp add: period_fires_def)

lemma timer_fires_bound: "0 < t \<Longrightarrow> timer_fires (\<lambda>i. t + extra i) k r ticks \<le> period_fires t r ticks"
proof (induction ticks arbitrary: k r)
  case (Suc ticks)
  have "timer_fires (\<lambda>i. t + extra i) (Suc k) (t + extra k) ticks \<le> ticks div t"
    using Suc.IH [OF Suc.prems, of "Suc k" "t + extra k"] period_fires_antimono [of t "t + extra k" t ticks]
      period_fires_full [OF Suc.prems, of ticks] by linarith
  with Suc show ?case by (simp add: period_fires_Suc)
qed (simp add: period_fires_def)

definition timer_field :: "node_observation \<Rightarrow> string \<Rightarrow> nat" where
  "timer_field n field = unat (fst (unsigned_param (any_at (no_semantic n) field)))"

lemma maximum_election_fires_period:
  assumes "maximum_election_fires n ticks = (fires, True)"
  shows "0 < timer_field n ''election_timeout'' \<and>
    unat fires = period_fires (timer_field n ''election_timeout'') (timer_field n ''election_ticks_remaining'') (unat ticks)"
proof -
  obtain r r_ok where r: "unsigned_param (any_at (no_semantic n) ''election_ticks_remaining'') = (r, r_ok)" by fastforce
  obtain t t_ok where t: "unsigned_param (any_at (no_semantic n) ''election_timeout'') = (t, t_ok)" by fastforce
  define remaining where "remaining = (if r = 0 then 1 else r)"
  have rem: "unat remaining = max 1 (unat r)" using word_pos_iff [of r] by (auto simp: remaining_def)
  from assms have pos: "0 < unat t" and fires: "fires = (if ticks < remaining then 0 else 1 + (ticks - remaining) div t)"
    unfolding remaining_def
    by (auto simp: maximum_election_fires_def r t Let_def word_pos_iff [symmetric] word_gt_0 split: if_splits)
  have "unat fires = period_fires (unat t) (unat r) (unat ticks)"
  proof (cases "ticks < remaining")
    case True
    then show ?thesis by (simp add: fires period_fires_def rem word_less_nat_alt)
  next
    case False
    then have le: "remaining \<le> ticks" by simp
    have "unat ((ticks - remaining) div t) \<le> unat (ticks - remaining)" by (simp add: unat_div_distrib)
    also have "\<dots> < 2 ^ 64 - 1"
    proof -
      have "unat ticks < 2 ^ LENGTH(64)" by (rule unsigned_less)
      with le rem show ?thesis by (simp add: unat_sub)
    qed
    also have "2 ^ 64 - 1 = unat (- 1 :: u64)" by (simp add: unsigned_minus_1_eq_mask mask_eq_exp_minus_1)
    finally have "(ticks - remaining) div t \<noteq> - 1" by auto
    from unat_less_max_Suc [OF this]
    have "unat (1 + (ticks - remaining) div t) = 1 + (unat ticks - unat remaining) div unat t"
      using le by (simp add: unat_div_distrib unat_sub add.commute)
    with False show ?thesis by (simp add: fires period_fires_def rem word_less_nat_alt)
  qed
  with pos show ?thesis by (simp add: timer_field_def r t)
qed
lemma timer_fires_at_most:
  assumes "maximum_election_fires n ticks = (fires, True)"
  shows "timer_fires (\<lambda>i. timer_field n ''election_timeout'' + extra i) 0
           (timer_field n ''election_ticks_remaining'') (unat ticks) \<le> unat fires"
  using maximum_election_fires_period [OF assms] timer_fires_bound by simp

text \<open>C27: the number of timeouts the profile computes for a node and a number of ticks is exact: it
  is what a countdown timer does that is reloaded with the smallest timeout each time it fires, and no
  other choice of the (randomized, never smaller) reload values fires more often. The computation never
  wraps.\<close>
theorem maximum_election_fires_is_maximum:
  "case maximum_election_fires n ticks of (fires, ok) \<Rightarrow>
     if ok then
       unat fires = timer_fires (\<lambda>i. timer_field n ''election_timeout'') 0
         (timer_field n ''election_ticks_remaining'') (unat ticks) \<and>
       timer_fires (\<lambda>i. timer_field n ''election_timeout'' + extra i) 0
         (timer_field n ''election_ticks_remaining'') (unat ticks) \<le> unat fires
     else fires = 0"
proof (cases "maximum_election_fires n ticks")
  case (Pair fires ok)
  show ?thesis
  proof (cases ok)
    case True
    with Pair have fires: "maximum_election_fires n ticks = (fires, True)" by simp
    show ?thesis
      using maximum_election_fires_period [OF fires] timer_fires_at_most [OF fires]
      by (simp add: fires timer_fires_constant)
  next
    case False
    with Pair show ?thesis by (auto simp: maximum_election_fires_def Let_def split: if_splits prod.splits)
  qed
qed

section \<open>What an accepted action cannot do\<close>

lemma check_advance_nodes_None:
  assumes "check_advance_nodes c a ob ticks ns = None" and "n \<in> set ns" and "no_status n = NodeRunning"
    and "role_of ob (no_id n) \<noteq> ''leader''"
  shows "\<exists>fires. maximum_election_fires n ticks = (fires, True) \<and> term_of_node ob (no_id n) \<le> rf_largest_term c \<and>
      fires \<le> rf_largest_term c - term_of_node ob (no_id n)"
  using assms
proof (induction ns)
  case (Cons m ns)
  obtain fires ok where f: "maximum_election_fires m ticks = (fires, ok)" by fastforce
  with Cons show ?case by (auto simp: Let_def not_less split: if_splits)
qed simp

text \<open>C24: an AdvanceTime the profile accepts cannot take a node beyond LargestTerm: for every running
  node that is not the leader, whatever reload values the timer draws, the node's term plus one per
  timeout during the whole advance stays at most LargestTerm.\<close>
theorem accepted_advance_stays_below_largest_term:
  assumes "raft_validate_action (Some c) a ob = None" and "act_kind a = ActionAdvanceTime"
    and "n \<in> set (obs_nodes ob)" and "no_status n = NodeRunning" and "role_of ob (no_id n) \<noteq> ''leader''"
  shows "unat (term_of_node ob (no_id n)) +
      timer_fires (\<lambda>i. timer_field n ''election_timeout'' + extra i) 0
        (timer_field n ''election_ticks_remaining'') (unat (act_target_time a) - unat (obs_time ob))
      \<le> unat (rf_largest_term c)"
proof -
  let ?ticks = "act_target_time a - obs_time ob"
  have later: "obs_time ob < act_target_time a" and nodes: "check_advance_nodes c a ob ?ticks (obs_nodes ob) = None"
    using assms(1,2) by (auto simp: raft_validate_action_def not_le split: if_splits)
  obtain fires where fires: "maximum_election_fires n ?ticks = (fires, True)"
    and bound: "term_of_node ob (no_id n) \<le> rf_largest_term c" "fires \<le> rf_largest_term c - term_of_node ob (no_id n)"
    using check_advance_nodes_None [OF nodes assms(3-5)] by blast
  have ticks: "unat ?ticks = unat (act_target_time a) - unat (obs_time ob)"
    using later by (simp add: unat_sub order.strict_implies_order)
  show ?thesis
    using timer_fires_at_most [OF fires, of extra] bound
    by (simp add: ticks word_le_nat_alt unat_sub)
qed

definition example_timer_node :: node_observation where
  "example_timer_node = \<lparr>no_id = 1, no_epoch = 1, no_status = NodeRunning, no_digest = [],
     no_semantic = [(''role'', VString ''follower''), (''term'', VUint64 1),
       (''election_ticks_remaining'', VInt 2), (''election_timeout'', VInt 3)]\<rparr>"

theorem accepted_advance_stays_below_largest_term_witness:
  "unat (term_of_node (empty_observation\<lparr>obs_nodes := [example_timer_node]\<rparr>) 1) +
     timer_fires (\<lambda>i. timer_field example_timer_node ''election_timeout'' + i) 0
       (timer_field example_timer_node ''election_ticks_remaining'') (unat (5 :: u64) - unat (0 :: u64)) \<le> 5"
proof -
  let ?ob = "empty_observation\<lparr>obs_nodes := [example_timer_node]\<rparr>"
  let ?a = "(action_of_kind ActionAdvanceTime)\<lparr>act_target_time := 5\<rparr>"
  have fires: "maximum_election_fires example_timer_node 5 = (2, True)"
    by (simp add: maximum_election_fires_def example_timer_node_def)
  have role: "role_of ?ob 1 = ''follower''" and trm: "term_of_node ?ob 1 = 1"
    by (simp_all add: role_of_def term_of_node_def semantic_number_def observed_node_def example_timer_node_def
        string_or_empty_def)
  have node: "no_id example_timer_node = 1" "no_status example_timer_node = NodeRunning"
    by (simp_all add: example_timer_node_def)
  have accepted: "raft_validate_action (Some raft_default_config) ?a ?ob = None"
    by (simp add: raft_validate_action_def action_of_kind_def empty_observation_def)
      (simp add: fires [simplified] role [unfolded empty_observation_def, simplified]
        trm [unfolded empty_observation_def, simplified] node raft_default_config_def)
  show ?thesis
    using accepted_advance_stays_below_largest_term [OF accepted, of example_timer_node "\<lambda>i. i"] role trm node
    by (simp add: action_of_kind_def empty_observation_def raft_default_config_def)
qed

section \<open>The profile and the mapper agree\<close>

text \<open>an action the profile accepts is never refused by the mapper for the action itself, except
  when a crash did not leave the node crashed or a restart did not leave it running; in particular a
  request the profile accepts is in 1..MaxValue and has room in the leader's log.\<close>
theorem accepted_action_maps:
  "case raft_validate_action (Some c) (sr_action (tn_record t)) (tn_before t) of
     Some e \<Rightarrow> True
   | None \<Rightarrow>
     (case map_action c t of
        Inr events \<Rightarrow> length events \<le> 1
      | Inl e \<Rightarrow>
          (let a = sr_action (tn_record t) in
           act_kind a = ActionCrash \<and> status_of (tn_after t) (act_node a) \<noteq> NodeCrashed \<or>
           act_kind a = ActionRestart \<and> status_of (tn_after t) (act_node a) \<noteq> NodeRunning))"
  by (cases "act_kind (sr_action (tn_record t))")
    (auto simp: raft_validate_action_def map_action_def Let_def split: option.split sum.splits if_splits)

text \<open>An append whose metadata the profile accepts has room for its entries in the model: when the
  delivered message has the index and the number of entries its metadata announced, the mapper refuses
  it only for an unreadable response.\<close>
theorem accepted_append_maps:
  assumes "validate_append c a m = None"
    and "atoi (string_at (mo_metadata m) ''entry_count'') = Some (int (length entries))"
    and "parse_uint (string_at (mo_metadata m) ''index'') = Some (number_at n ''index'')"
    and "append_events c n entries effects before = Inl e"
  shows "append_response effects (number_at n ''to'') (number_at n ''from'') = Inl e"
proof -
  let ?k = "length entries" and ?room = "rf_max_log_index c - number_at n ''index''"
  have small: "?k < 2 ^ 64" using atoi_range [OF assms(2)] by simp
  have "of_nat ?k \<le> ?room" using assms(1-3) by (auto simp: validate_append_def Let_def not_less split: if_splits)
  then have "\<not> unat ?room < ?k" using small by (simp add: word_le_nat_alt unat_of_nat)
  with assms(4) show ?thesis
    by (auto simp: append_events_def Let_def simp del: take_Suc split: if_splits sum.splits option.splits bool.splits)
qed

definition example_append :: message_observation where
  "example_append = \<lparr>mo_id = 1, mo_from = 1, mo_to = 2, mo_sender_epoch = 1, mo_link_sequence = 1, mo_parent_id = 0,
     mo_position = 0, mo_enqueued_at = 0, mo_type_hint = ''MsgApp'', mo_payload_digest = [],
     mo_metadata = [(''entry_count'', ''2''), (''index'', ''1'')]\<rparr>"

definition example_response :: effect where
  "example_response = \<lparr>eff_at = 0, eff_kind = EffectSendMessage,
     eff_message = Some ((message_of_observation example_append)\<lparr>msg_from := 2, msg_to := 1, msg_type_hint := ''MsgAppResp''\<rparr>),
     eff_timer_fired = None, eff_model_event = None\<rparr>"

theorem accepted_append_maps_witness:
  "append_response [example_response] 2 1 = Inl (raft_unsupported ''MsgAppResp has invalid reject metadata'')"
proof -
  let ?n = "[(''index'', VUint64 1), (''to'', VUint64 2), (''from'', VUint64 1)]"
  have accepted: "validate_append raft_default_config (action_of_kind ActionDeliver) example_append = None"
    by (simp add: validate_append_def example_append_def string_at_def atoi_def parse_uint_def char_digit_def Let_def
        raft_default_config_def)
  have numbers: "atoi (string_at (mo_metadata example_append) ''entry_count'') = Some (int (length [[], [] :: any_map]))"
    "parse_uint (string_at (mo_metadata example_append) ''index'') = Some (number_at ?n ''index'')"
    by (simp_all add: example_append_def string_at_def atoi_def parse_uint_def char_digit_def Let_def number_at_def any_at_def)
  have refused: "append_events raft_default_config ?n [[], []] [example_response] empty_observation
      = Inl (raft_unsupported ''MsgAppResp has invalid reject metadata'')"
    by (simp add: append_events_def number_at_def any_at_def put_def raft_default_config_def commit_index_of_def
        semantic_number_def observed_node_def empty_observation_def example_response_def string_at_def parse_bool_def
        message_of_observation_def example_append_def)
  show ?thesis
    using accepted_append_maps [OF accepted numbers refused] by (simp add: number_at_def any_at_def)
qed

end
