(* ===== verification/Engine_Raft.thy ===== *)
theory Engine_Raft
  imports Engine_Execution Raft_Profile
begin

text \<open>
  The engine with the Raft parts: the mapper and profile of internal/model/raft, the checker of
  internal/oracle/raft and the resolver of internal/plan. What a completed run then guarantees follows
  from the contract of the engine (\<open>outcome_ok\<close>) and from the laws of the interpretations \<open>rm\<close> and
  \<open>rp\<close>. Also, what the recorded resolutions say when a budget of the runtime ends a run.
\<close>

section \<open>A completed run on the Raft model\<close>

definition raft_engine ::
  "raft_config \<Rightarrow> resolver_config option \<Rightarrow> (event list \<Rightarrow> 'w \<Rightarrow> (go_error + model_state list) \<times> 'w) option \<Rightarrow>
   engine_config \<Rightarrow> ('w, (u64 \<times> node_id) list) engine" where
  "raft_engine c resolver executor cfg = \<lparr>eg_resolver = resolve resolver, eg_mapper = raft_map (Some c),
     eg_profile = Some (raft_validate_action (Some c)), eg_executor = executor, eg_checkers = [raft_checker],
     eg_config = cfg\<rparr>"

lemma check_run_raft: "fst (check_run [raft_checker] [k] ts) = check_transitions ts k"
proof (induction ts arbitrary: k)
  case (Cons t ts)
  obtain fs k' where check: "raft_check t k = (fs, k')" by fastforce
  then have one: "ck_check raft_checker t k = (fs, k')" by (simp add: raft_checker_def)
  obtain rest ks where run: "check_run [raft_checker] [k'] ts = (rest, ks)" by fastforce
  from Cons.IH [of k'] show ?case by (simp add: one run check)
qed simp

lemma raft_completed:
  assumes "completed_ok (raft_engine c resolver executor cfg) [k] res"
  shows "list_all (model_event_ok c) (er_events res) \<and>
    (\<exists>ts. chained (er_initial res) ts (er_final res) \<and> map tn_record ts = tr_steps (er_trace res) \<and>
       safe_history (er_initial res) ts)"
proof -
  obtain ts ks1 ks2 where chained: "chained (er_initial res) ts (er_final res)"
    and records: "map tn_record ts = tr_steps (er_trace res)"
    and events: "map_all (Some (raft_map (Some c))) ts = Inr (er_events res)"
    and reset: "run_checkers (\<lambda>ck k. ck_reset ck (er_initial res) k) [raft_checker] [k] = ([], ks1)"
    and run: "check_run [raft_checker] ks1 ts = ([], ks2)"
    using assms by (auto simp: completed_ok_def raft_engine_def reset_checkers_def)
  obtain leaders where leaders: "raft_reset (er_initial res) [] = ([], leaders)" and ks1: "ks1 = [leaders]"
    using reset by (auto simp: raft_checker_def raft_reset_def Let_def split: prod.splits)
  have "check_transitions ts leaders = []" using check_run_raft [of leaders ts] run by (simp add: ks1)
  then have "oracle_run (er_initial res) ts = []" by (simp add: oracle_run_def leaders)
  then have "safe_history (er_initial res) ts" by (simp add: oracle_run_Nil)
  with chained records rm.map_all_accepted [OF events] show ?thesis by blast
qed

lemma raft_outcome_safe:
  assumes "outcome_ok (raft_engine rc resolver executor cfg) [k] outcome"
  shows "case map_option (\<lambda>(res, err, _). (res, err)) outcome of
      None \<Rightarrow> True
    | Some (res, err) \<Rightarrow>
        if er_status res = StatusCompleted
        then list_all (model_event_ok rc) (er_events res) \<and>
          (\<exists>ts. chained (er_initial res) ts (er_final res) \<and> map tn_record ts = tr_steps (er_trace res) \<and>
             safe_history (er_initial res) ts)
        else err \<noteq> None"
proof (cases outcome)
  case (Some out)
  obtain res err st where out: "out = (res, err, st)" by (cases out)
  show ?thesis
  proof (cases "er_status res = StatusCompleted")
    case True
    with assms Some out have "completed_ok (raft_engine rc resolver executor cfg) [k] res"
      by (simp add: outcome_ok_def)
    from raft_completed [OF this] True Some out show ?thesis by simp
  next
    case False
    with assms Some out show ?thesis by (auto simp: outcome_ok_def)
  qed
qed simp

text \<open>C3: a completed run of the engine with the Raft mapper, profile and checker, for a plan sequence
  or an online source, has gone through a safe history: over the observations of all its steps, which
  are those of the recorded trace, there is at most one leader per term, committed prefixes agree, and
  term, commit and applied never go back within an epoch; and every model event it sends lies within
  the bounds of the TLA+ model and is well formed.\<close>
theorem completed_raft_run_is_safe:
  "case runtime_new ad c w of
     Inl _ \<Rightarrow> True
   | Inr r0 \<Rightarrow>
     list_all (\<lambda>outcome. case outcome of
         None \<Rightarrow> True
       | Some (res, err) \<Rightarrow>
           if er_status res = StatusCompleted
           then list_all (model_event_ok rc) (er_events res) \<and>
             (\<exists>ts. chained (er_initial res) ts (er_final res) \<and> map tn_record ts = tr_steps (er_trace res) \<and>
                safe_history (er_initial res) ts)
           else err \<noteq> None)
       [map_option (\<lambda>(res, err, _). (res, err))
          (engine_run_sequence (raft_engine rc resolver executor cfg) sequence (runtime_run r0 calls) [k]),
        map_option (\<lambda>(res, err, _). (res, err))
          (engine_run_source (raft_engine rc resolver executor cfg) source limit (runtime_run r0 calls) [k] s)]"
proof (cases "runtime_new ad c w")
  case (Inr r0)
  let ?e = "raft_engine rc resolver executor cfg"
  have ok: "runtime_ok (runtime_run r0 calls)" by (intro runtime_run_ok new_runtime_ok [OF Inr])
  from raft_outcome_safe [OF engine_runs_ok(1) [OF ok, of "?e" "[k]" sequence]]
    raft_outcome_safe [OF engine_runs_ok(2) [OF ok, of "?e" "[k]" source limit s]] Inr
  show ?thesis by simp
qed simp

section \<open>The profile's codes\<close>

text \<open>With the Raft profile the engine never has to guess: every refusal takes exactly one of its
  three branches and comes with a non-empty code and text, so that an inapplicable action, a reached
  model bound and an unsupported action are recorded with a reason.\<close>
theorem raft_refusal_takes_one_branch:
  "case profile_error (raft_engine c resolver executor cfg) a ob of
     None \<Rightarrow> True
   | Some e \<Rightarrow> code_of e \<noteq> [] \<and> err_text e \<noteq> [] \<and>
       length (filter (errors_is e) [ErrActionInapplicable, ErrModelBoundReached, ErrUnsupportedByProfile]) = 1"
proof (cases "profile_error (raft_engine c resolver executor cfg) a ob")
  case (Some e)
  then have "raft_validate_action (Some c) a ob = Some e" by (simp add: profile_error_def raft_engine_def)
  from rp.profile_code [OF this] rp.profile_decides [OF this] Some show ?thesis
    by (auto simp: is_decision_def errors_is_def)
qed simp

section \<open>A budget of the runtime in the middle of a batch\<close>

lemma after_step_actions:
  "after_step e i j a step st = Inr st' \<Longrightarrow>
     er_actions (es_result st') = er_actions (es_result st) @ [a] \<and>
     er_resolutions (es_result st') = er_resolutions (es_result st)"
  by (auto simp: after_step_def append_findings_def Let_def split: sum.splits prod.splits option.splits if_splits)

lemma run_batch_actions_budget:
  "run_batch_actions e i j as bl st = BatchStopped st' \<Longrightarrow> er_termination (es_result st') = TerminationRuntimeBudget \<Longrightarrow>
     er_resolutions (es_result st') = er_resolutions (es_result st) \<and>
     length (er_actions (es_result st')) < length (er_actions (es_result st)) + length as"
proof (induction as arbitrary: j bl st)
  case (Cons a rest)
  show ?case
  proof (cases "profile_error e a (es_observation st)")
    case (Some err)
    show ?thesis
    proof (cases "errors_is err ErrActionInapplicable")
      case True
      have "run_batch_actions e i (Suc j) rest
          (bl\<lparr>bl_reasons := bl_reasons bl @ [err_text err], bl_codes := bl_codes bl @ [code_of err]\<rparr>) st = BatchStopped st'"
        using Cons.prems(1) Some True by simp
      from Cons.IH [OF this Cons.prems(2)] show ?thesis by simp
    next
      case False
      with Cons.prems Some show ?thesis by (auto simp: model_bound_stop_def mark_last_def split: if_splits)
    qed
  next
    case None
    obtain x r where run: "runtime_execute a (es_runtime st) = (x, r)" by fastforce
    show ?thesis
    proof (cases x)
      case (Inl err)
      with Cons.prems None run show ?thesis by (auto simp: execute_failed_def Let_def split: if_splits)
    next
      case (Inr step)
      obtain st1 where st1: "after_step e i j a step (st\<lparr>es_runtime := r\<rparr>) = Inr st1"
        using Cons.prems(1) None run Inr
        by (cases "after_step e i j a step (st\<lparr>es_runtime := r\<rparr>)") (auto split: prod.splits)
      then have "run_batch_actions e i (Suc j) rest (bl\<lparr>bl_executed := bl_executed bl @ [a]\<rparr>) st1 = BatchStopped st'"
        using Cons.prems(1) None run Inr by simp
      from Cons.IH [OF this Cons.prems(2)] after_step_actions [OF st1] show ?thesis by simp
    qed
  qed
qed simp

text \<open>C32: when a budget of the runtime ends a run in the middle of a resolution, the recorded resolution
  is left as the resolver returned it: it still lists, and counts as resolved, more actions than were
  executed. At a model bound, by contrast, it is rewritten to the executed actions.\<close>
theorem runtime_budget_overstates_resolution:
  "case run_resolution e i r st of
     Break st' \<Rightarrow>
       if er_termination (es_result st') = TerminationRuntimeBudget
       then last (er_resolutions (es_result st')) = r \<and>
         length (er_actions (es_result st')) < length (er_actions (es_result st)) + length (rs_actions r)
       else True
   | _ \<Rightarrow> True"
proof (cases "run_resolution e i r st")
  case (Break st')
  show ?thesis
  proof (cases "er_termination (es_result st') = TerminationRuntimeBudget")
    case True
    define st1 where "st1 = st\<lparr>es_result := (es_result st)\<lparr>er_resolutions := er_resolutions (es_result st) @ [r]\<rparr>\<rparr>"
    have noop: "count_noop cfg q \<noteq> Break st'" for cfg and q :: "('a, 'b, 'c) engine_state"
      using True by (auto simp: count_noop_def Let_def)
    then have finish: "finish_batch cfg bl q \<noteq> Break st'" for cfg bl and q :: "('a, 'b, 'c) engine_state"
      by (auto simp: finish_batch_def Let_def)
    let ?ending = "run_batch_actions e i 0 (rs_actions r) \<lparr>bl_executed = [], bl_reasons = [], bl_codes = []\<rparr> st1"
    have "?ending = BatchStopped st'"
      using Break noop finish
      by (cases ?ending) (auto simp: run_resolution_def Let_def st1_def [symmetric] split: option.splits if_splits)
    from run_batch_actions_budget [OF this True] have "er_resolutions (es_result st') = er_resolutions (es_result st) @ [r]"
      "length (er_actions (es_result st')) < length (er_actions (es_result st)) + length (rs_actions r)"
      by (simp_all add: st1_def)
    with Break show ?thesis by simp
  qed (simp add: Break)
qed simp_all

end
