(* ===== verification/Journal.thy ===== *)
theory Journal
  imports Model
begin

text \<open>
  internal/persistence/files.go: files of records, one JSON value per line. A file is its bytes. What can
  go wrong between the program and the file system (opening, seeking, syncing) is not modelled; what a
  crash leaves behind is a prefix of an append. Replacing a whole file (\<open>WriteJSONAtomic\<close>) is one step.
\<close>

definition newline :: char where
  "newline = CHR 0x0A"

section \<open>Repairing the end of a file\<close>

text \<open>\<open>repairPartialLine\<close>: from the end in pieces of 4096 bytes, each from its end, to the last newline. The
  result is the size to truncate to.\<close>

fun scan_back :: "string \<Rightarrow> nat \<Rightarrow> nat option" where
  "scan_back piece 0 = None"
| "scan_back piece (Suc i) = (if piece ! i = newline then Some i else scan_back piece i)"

function repair_size :: "string \<Rightarrow> nat \<Rightarrow> nat" where
  "repair_size content position =
     (if position = 0 then 0
      else
        let start = position - 4096;
            piece = take (position - start) (drop start content)
        in case scan_back piece (length piece) of
             Some i \<Rightarrow> start + i + 1
           | None \<Rightarrow> repair_size content start)"
  by auto

termination
  by (relation "measure snd") auto

declare repair_size.simps [simp del]

definition repair_partial_line :: "string \<Rightarrow> string" where
  "repair_partial_line content =
     (if content = [] then content
      else if content ! (length content - 1) = newline then content
      else take (repair_size content (length content)) content)"

section \<open>Keeping the first records\<close>

text \<open>\<open>ReadBytes('\n')\<close>: a line with its newline, or what is left and the end of the file.\<close>

definition read_bytes :: "string \<Rightarrow> string \<times> string \<times> bool" where
  "read_bytes content =
     (let line = takeWhile (\<lambda>c. c \<noteq> newline) content; rest = dropWhile (\<lambda>c. c \<noteq> newline) content
      in case rest of [] \<Rightarrow> (line, [], True) | c # cs \<Rightarrow> (line @ [c], cs, False))"

lemma read_bytes_shorter: "read_bytes content = (line, rest, False) \<Longrightarrow> length rest < length content"
proof -
  assume read: "read_bytes content = (line, rest, False)"
  then obtain c where "dropWhile (\<lambda>c. c \<noteq> newline) content = c # rest"
    by (auto simp: read_bytes_def Let_def split: list.splits)
  then show ?thesis using length_dropWhile_le [of "\<lambda>c. c \<noteq> newline" content] by simp
qed

function keep_scan :: "int \<Rightarrow> string \<Rightarrow> int \<Rightarrow> nat \<Rightarrow> nat \<Rightarrow> int \<times> nat" where
  "keep_scan keep content n offset boundary =
     (case read_bytes content of (line, rest, at_end) \<Rightarrow>
        let offset = offset + length line;
            (n, boundary) = (if line \<noteq> [] then (n + 1, if n + 1 = keep then offset else boundary) else (n, boundary))
        in if at_end then (n, boundary) else keep_scan keep rest n offset boundary)"
  by auto

termination
  by (relation "measure (\<lambda>(keep, content, n, offset, boundary). length content)")
    (auto dest: read_bytes_shorter [OF sym])

declare keep_scan.simps [simp del]

text \<open>\<open>KeepJSONLines\<close>: the error and the new content. A file that does not exist is created empty.\<close>

definition keep_json_lines :: "string \<Rightarrow> int \<Rightarrow> string \<Rightarrow> go_error option \<times> string" where
  "keep_json_lines path keep content =
     (if keep < 0 then (Some (plain_error ''JSONL keep count must not be negative''), content)
      else
        let content = repair_partial_line content;
            (n, boundary) = keep_scan keep content 0 0 0
        in if n < keep
           then (Some (plain_error (''JSONL '' @ path @ '' has '' @ show_int n @ '' records, checkpoint requires '' @ show_int keep)),
                 content)
           else (None, if n > keep then take (if keep = 0 then 0 else boundary) content else content))"

section \<open>Reading records\<close>

text \<open>The scanner cuts off the newline and a carriage return before it, and fails on a line that does not fit
  its buffer of 16 MiB: the lines before it, and whether it failed.\<close>

definition scan_limit :: nat where
  "scan_limit = 16 * 1024 * 1024"

definition drop_cr :: "string \<Rightarrow> string" where
  "drop_cr line = (if line \<noteq> [] \<and> last line = CHR 0x0D then butlast line else line)"

function scan_records :: "nat \<Rightarrow> string \<Rightarrow> string list \<times> bool" where
  "scan_records limit content =
     (if content = [] then ([], False)
      else
        let line = takeWhile (\<lambda>c. c \<noteq> newline) content
        in if length line \<ge> limit then ([], True)
           else case scan_records limit (tl (dropWhile (\<lambda>c. c \<noteq> newline) content)) of
             (ls, failed) \<Rightarrow> (drop_cr line # ls, failed))"
  by auto

termination
proof (relation "measure (\<lambda>(limit, content). length content)", goal_cases)
  case (2 limit content line)
  then show ?case using length_dropWhile_le [of "\<lambda>c. c \<noteq> newline" content] by (cases content) (auto simp: less_Suc_eq_le)
qed simp

declare scan_records.simps [simp del]

text \<open>\<open>ReadJSONLines\<close>: \<open>decode\<close> is \<open>json.Unmarshal\<close> into the type of the records; empty lines do not count.\<close>

fun decode_records :: "(string \<Rightarrow> go_error + 'a) \<Rightarrow> string \<Rightarrow> nat \<Rightarrow> string list \<Rightarrow> go_error + 'a list" where
  "decode_records decode path n [] = Inr []"
| "decode_records decode path n (line # ls) =
     (if line = [] then decode_records decode path n ls
      else case decode line of
        Inl e \<Rightarrow> Inl (wrap_text (''decode JSONL '' @ path @ '' record '' @ show_nat n) e)
      | Inr x \<Rightarrow> (case decode_records decode path (Suc n) ls of Inl e \<Rightarrow> Inl e | Inr xs \<Rightarrow> Inr (x # xs)))"

definition read_json_lines :: "(string \<Rightarrow> go_error + 'a) \<Rightarrow> string \<Rightarrow> int \<Rightarrow> string \<Rightarrow> go_error + 'a list" where
  "read_json_lines decode path exactly content =
     (if exactly < 0 then Inl (plain_error ''JSONL expected count must not be negative'')
      else case scan_records scan_limit content of
        (ls, failed) \<Rightarrow>
          (case decode_records decode path 0 ls of
             Inl e \<Rightarrow> Inl e
           | Inr xs \<Rightarrow>
               if failed then Inl (plain_error (''scan JSONL '' @ path @ '': bufio.Scanner: token too long''))
               else if int (length xs) \<noteq> exactly
               then Inl (plain_error (''JSONL '' @ path @ '' has '' @ show_nat (length xs) @ '' records, expected '' @ show_int exactly))
               else Inr xs))"

text \<open>\<open>ReadLastJSONLine\<close>: the last line that is not empty. None: there is none (\<open>io.EOF\<close>).\<close>

definition read_last_json_line :: "(string \<Rightarrow> go_error + 'a) \<Rightarrow> string \<Rightarrow> (go_error + 'a) option" where
  "read_last_json_line decode content =
     (case scan_records scan_limit content of
        (ls, failed) \<Rightarrow>
          if failed then Some (Inl (plain_error ''bufio.Scanner: token too long''))
          else (case filter (\<lambda>l. l \<noteq> []) ls of [] \<Rightarrow> None | l # ls' \<Rightarrow> Some (decode (last (l # ls')))))"

text \<open>\<open>Journal.Append\<close> of a value that is encoded as \<open>line\<close>, and what a crash within it leaves: its first \<open>k\<close>
  bytes.\<close>

definition append_record :: "string \<Rightarrow> string \<Rightarrow> string" where
  "append_record line content = content @ line @ [newline]"

definition append_partly :: "nat \<Rightarrow> string \<Rightarrow> string \<Rightarrow> string" where
  "append_partly k line content = content @ take k (line @ [newline])"

section \<open>Complete lines\<close>

text \<open>The lines of a file that end in a newline, and a file made of lines.\<close>

definition unlines :: "string list \<Rightarrow> string" where
  "unlines ls = concat (map (\<lambda>l. l @ [newline]) ls)"

function complete_lines :: "string \<Rightarrow> string list" where
  "complete_lines content =
     (case dropWhile (\<lambda>c. c \<noteq> newline) content of
        [] \<Rightarrow> [] | c # rest \<Rightarrow> takeWhile (\<lambda>c. c \<noteq> newline) content # complete_lines rest)"
  by auto

termination
proof (relation "measure length", goal_cases)
  case (2 content c rest)
  then show ?case using length_dropWhile_le [of "\<lambda>c. c \<noteq> newline" content] by simp
qed simp

declare complete_lines.simps [simp del]

definition plain_line :: "string \<Rightarrow> bool" where
  "plain_line l \<longleftrightarrow> newline \<notin> set l"

lemma unlines_simps [simp]: "unlines [] = []" "unlines (l # ls) = l @ newline # unlines ls"
  "unlines (ls @ ls') = unlines ls @ unlines ls'"
  by (simp_all add: unlines_def)

lemma unlines_last: "unlines ls \<noteq> [] \<Longrightarrow> last (unlines ls) = newline"
  by (induction ls) (auto simp: last_append)

lemma first_line:
  assumes "plain_line l"
  shows "takeWhile (\<lambda>c. c \<noteq> newline) (l @ newline # rest) = l" "dropWhile (\<lambda>c. c \<noteq> newline) (l @ newline # rest) = newline # rest"
  using assms by (induction l) (auto simp: plain_line_def)

lemma no_line:
  assumes "plain_line rest"
  shows "takeWhile (\<lambda>c. c \<noteq> newline) rest = rest" "dropWhile (\<lambda>c. c \<noteq> newline) rest = []"
  using assms by (auto simp: plain_line_def takeWhile_eq_all_conv)

text \<open>Every file is its complete lines and a rest without a newline.\<close>

lemma split_lines:
  "\<exists>rest. content = unlines (complete_lines content) @ rest \<and> plain_line rest \<and> list_all plain_line (complete_lines content)"
proof (induction content rule: complete_lines.induct)
  case (1 content)
  show ?case
  proof (cases "dropWhile (\<lambda>c. c \<noteq> newline) content")
    case Nil
    then have "plain_line content" by (auto simp: plain_line_def dropWhile_eq_Nil_conv)
    moreover have "complete_lines content = []" by (subst complete_lines.simps) (simp only: Nil list.case)
    ultimately show ?thesis by simp
  next
    case (Cons c rest)
    from "1.IH" [OF Cons] obtain r where r: "rest = unlines (complete_lines rest) @ r" "plain_line r"
      "list_all plain_line (complete_lines rest)" by blast
    have c: "c = newline" using hd_dropWhile [of "\<lambda>c. c \<noteq> newline" content] Cons by simp
    have lines: "complete_lines content = takeWhile (\<lambda>c. c \<noteq> newline) content # complete_lines rest"
      by (subst complete_lines.simps) (simp add: Cons)
    have "content = takeWhile (\<lambda>c. c \<noteq> newline) content @ newline # rest"
      using takeWhile_dropWhile_id [of "\<lambda>c. c \<noteq> newline" content] by (simp add: Cons c)
    moreover have "plain_line (takeWhile (\<lambda>c. c \<noteq> newline) content)" by (auto simp: plain_line_def dest: set_takeWhileD)
    ultimately show ?thesis using r by (auto simp: lines intro: exI [of _ r])
  qed
qed

lemma complete_lines_unlines:
  "list_all plain_line ls \<Longrightarrow> plain_line rest \<Longrightarrow> complete_lines (unlines ls @ rest) = ls"
proof (induction ls)
  case Nil
  then show ?case by (subst complete_lines.simps) (simp add: no_line)
next
  case (Cons l ls)
  have parts: "takeWhile (\<lambda>c. c \<noteq> newline) (l @ newline # unlines ls @ rest) = l"
    "dropWhile (\<lambda>c. c \<noteq> newline) (l @ newline # unlines ls @ rest) = newline # unlines ls @ rest"
    using Cons.prems by (simp_all add: first_line)
  show ?case using Cons by (subst complete_lines.simps) (simp add: parts)
qed

section \<open>What repairing and keeping do\<close>

lemma scan_back_None: "i \<le> length piece \<Longrightarrow> scan_back piece i = None \<longleftrightarrow> newline \<notin> set (take i piece)"
  by (induction i) (auto simp: take_Suc_conv_app_nth)

lemma scan_back_Some:
  "scan_back piece i = Some j \<Longrightarrow> i \<le> length piece \<Longrightarrow>
     j < i \<and> piece ! j = newline \<and> newline \<notin> set (take (i - Suc j) (drop (Suc j) piece))"
proof (induction i)
  case (Suc i)
  show ?case
  proof (cases "piece ! i = newline")
    case True
    then show ?thesis using Suc.prems by simp
  next
    case False
    then have j: "j < i" "piece ! j = newline" "newline \<notin> set (take (i - Suc j) (drop (Suc j) piece))"
      using Suc by simp_all
    have "take (Suc i - Suc j) (drop (Suc j) piece) = take (i - Suc j) (drop (Suc j) piece) @ [piece ! i]"
      using j(1) Suc.prems(2) by (simp add: take_Suc_conv_app_nth Suc_diff_Suc [symmetric] nth_drop)
    then show ?thesis using j False by simp
  qed
qed simp

text \<open>The size that is kept ends with a newline or is 0, and no newline follows up to where the scan began.\<close>

lemma repair_size_last:
  "position \<le> length content \<Longrightarrow>
     (repair_size content position = 0 \<or> content ! (repair_size content position - 1) = newline) \<and>
     repair_size content position \<le> position \<and>
     newline \<notin> set (take (position - repair_size content position) (drop (repair_size content position) content))"
proof (induction content position rule: repair_size.induct)
  case (1 content position)
  show ?case
  proof (cases "position = 0")
    case True
    then show ?thesis by (simp add: repair_size.simps)
  next
    case False
    define start where "start = position - 4096"
    define piece where "piece = take (position - start) (drop start content)"
    have size: "length piece = position - start" using "1.prems" by (simp add: piece_def start_def)
    have unfolded: "repair_size content position =
        (case scan_back piece (length piece) of Some i \<Rightarrow> start + i + 1 | None \<Rightarrow> repair_size content start)"
      using False by (subst repair_size.simps) (simp only: if_False Let_def start_def [symmetric] piece_def [symmetric])
    show ?thesis
    proof (cases "scan_back piece (length piece)")
      case None
      have step: "repair_size content position = repair_size content start"
        using None by (simp add: unfolded)
      let ?k = "repair_size content start"
      have IH: "?k = 0 \<or> content ! (?k - 1) = newline" "?k \<le> start" "newline \<notin> set (take (start - ?k) (drop ?k content))"
        using "1.IH" [OF False start_def piece_def None] "1.prems" by (simp_all add: start_def)
      have "take (position - ?k) (drop ?k content) = take (start - ?k) (drop ?k content) @ piece"
      proof -
        have "start \<le> position" by (simp add: start_def)
        then have sum: "position - ?k = (start - ?k) + (position - start)" "(start - ?k) + ?k = start" using IH(2) by simp_all
        show ?thesis unfolding piece_def by (subst sum(1)) (simp only: take_add drop_drop sum(2))
      qed
      moreover have "newline \<notin> set piece" using None scan_back_None [of "length piece" piece] by simp
      ultimately show ?thesis using IH step by (auto simp: start_def)
    next
      case (Some i)
      have step: "repair_size content position = start + i + 1"
        using Some by (simp add: unfolded)
      note last = scan_back_Some [OF Some]
      have "start \<le> length content" using "1.prems" by (simp add: start_def)
      moreover have "i < position - start" "piece ! i = newline" using last size by simp_all
      ultimately have "content ! (start + i) = newline" by (simp add: piece_def)
      moreover have "take (position - (start + i + 1)) (drop (start + i + 1) content)
          = take (length piece - Suc i) (drop (Suc i) piece)"
        using last size by (simp add: piece_def drop_take add.commute)
      ultimately show ?thesis using last size step by auto
    qed
  qed
qed

lemma repair_partial_line_eq:
  assumes lines: "list_all plain_line ls" and rest: "plain_line rest"
  shows "repair_partial_line (unlines ls @ rest) = unlines ls"
proof (cases "rest = []")
  case True
  then show ?thesis using unlines_last [of ls] by (auto simp: repair_partial_line_def last_conv_nth)
next
  case False
  let ?content = "unlines ls @ rest"
  define n where "n = repair_size ?content (length ?content)"
  have n: "n = 0 \<or> ?content ! (n - 1) = newline" "n \<le> length ?content" "newline \<notin> set (drop n ?content)"
    using repair_size_last [of "length ?content" ?content] by (simp_all add: n_def)
  have "n = length (unlines ls)"
  proof (rule linorder_cases [of n "length (unlines ls)"])
    assume less: "n < length (unlines ls)"
    then have "unlines ls \<noteq> []" by auto
    then have "last (drop n (unlines ls)) = newline" using less by (simp add: unlines_last)
    then have "newline \<in> set (drop n ?content)" using less last_in_set [of "drop n (unlines ls)"] by simp
    with n(3) show ?thesis by simp
  next
    assume more: "length (unlines ls) < n"
    then have "\<not> n - 1 < length (unlines ls)" by linarith
    then have "?content ! (n - 1) = rest ! (n - 1 - length (unlines ls))" "n - 1 - length (unlines ls) < length rest"
      using n(2) more by (simp_all add: nth_append)
    then have "newline \<in> set rest" using n(1) more by (metis nth_mem gr_implies_not0)
    with rest show ?thesis by (simp add: plain_line_def)
  qed
  moreover have "?content ! (length ?content - 1) \<noteq> newline"
  proof -
    have "?content ! (length ?content - 1) = last ?content" using False by (simp add: last_conv_nth)
    also have "\<dots> = last rest" using False by simp
    finally have e: "?content ! (length ?content - 1) = last rest" .
    show ?thesis unfolding e using rest last_in_set [OF False] by (metis plain_line_def)
  qed
  ultimately show ?thesis using False by (simp add: repair_partial_line_def n_def)
qed

lemma repair_complete: "repair_partial_line content = unlines (complete_lines content)"
  using split_lines [of content] repair_partial_line_eq by metis

text \<open>Scanning a repaired file counts its lines and finds where the last one to keep ends.\<close>

lemma read_bytes_simps [simp]:
  "plain_line l \<Longrightarrow> read_bytes (l @ newline # rest) = (l @ [newline], rest, False)" "read_bytes [] = ([], [], True)"
  by (simp_all add: read_bytes_def first_line Let_def)

lemma keep_scan_lines:
  "list_all plain_line ls \<Longrightarrow>
     keep_scan keep (unlines ls) n offset boundary =
       (n + int (length ls), if n < keep \<and> keep \<le> n + int (length ls) then offset + length (unlines (take (nat (keep - n)) ls))
          else boundary)"
proof (induction ls arbitrary: n offset boundary)
  case Nil
  then show ?case by (subst keep_scan.simps) simp
next
  case (Cons l ls)
  have step: "keep_scan keep (unlines (l # ls)) n offset boundary =
      keep_scan keep (unlines ls) (n + 1) (offset + Suc (length l)) (if n + 1 = keep then offset + Suc (length l) else boundary)"
    using Cons.prems by (subst keep_scan.simps) simp
  have "nat (keep - n) = Suc (nat (keep - (n + 1)))" if "n < keep" using that by simp
  then show ?case unfolding step using Cons by auto
qed

lemma take_unlines: "take (length (unlines (take k ls))) (unlines ls) = unlines (take k ls)"
proof -
  have "unlines ls = unlines (take k ls) @ unlines (drop k ls)" by (metis append_take_drop_id unlines_simps(3))
  then show ?thesis by (metis append_eq_conv_conj)
qed

lemma keep_json_lines_eq:
  "keep_json_lines path keep content =
     (if keep < 0 then (Some (plain_error ''JSONL keep count must not be negative''), content)
      else let ls = complete_lines content
           in if int (length ls) < keep
              then (Some (plain_error (''JSONL '' @ path @ '' has '' @ show_int (int (length ls)) @
                      '' records, checkpoint requires '' @ show_int keep)), unlines ls)
              else (None, unlines (take (nat keep) ls)))"
proof -
  obtain rest where lines: "list_all plain_line (complete_lines content)"
    using split_lines [of content] by blast
  then show ?thesis
    by (auto simp: keep_json_lines_def repair_complete keep_scan_lines take_unlines Let_def)
qed

text \<open>C22: \<open>KeepJSONLines\<close> keeps exactly the first records: whatever a crash left at the end of the file, an
  incomplete line is cut off, the lines after the first \<open>keep\<close> are cut off, and if there are fewer the file
  keeps its complete lines and an error says how many they are.\<close>
theorem keep_json_lines_keeps_first_records:
  "case keep_json_lines path keep content of
     (err, kept) \<Rightarrow>
       (if keep < 0 then err = Some (plain_error ''JSONL keep count must not be negative'') \<and> kept = content
        else kept = unlines (take (nat keep) (complete_lines content)) \<and>
          (err = None) = (keep \<le> int (length (complete_lines content))))"
  by (auto simp: keep_json_lines_eq Let_def not_less)

section \<open>What reading gives\<close>

text \<open>Encodings as \<open>encoding/json\<close> makes them: without a newline or a carriage return, never empty.\<close>

definition json_line :: "string \<Rightarrow> bool" where
  "json_line l \<longleftrightarrow> l \<noteq> [] \<and> newline \<notin> set l \<and> CHR 0x0D \<notin> set l \<and> length l < scan_limit"

lemma json_line_plain: "json_line l \<Longrightarrow> plain_line l \<and> drop_cr l = l \<and> l \<noteq> [] \<and> length l < scan_limit"
  unfolding json_line_def plain_line_def drop_cr_def using last_in_set by metis

lemma scan_records_unlines: "list_all json_line ls \<Longrightarrow> scan_records scan_limit (unlines ls) = (ls, False)"
proof (induction ls)
  case Nil
  then show ?case by (subst scan_records.simps) simp
next
  case (Cons l ls)
  have l: "plain_line l" "drop_cr l = l" "length l < scan_limit" using Cons.prems json_line_plain [of l] by simp_all
  show ?case using Cons l by (subst scan_records.simps) (simp add: first_line)
qed

lemma decode_records_map:
  "list_all (\<lambda>x. decode (encode x) = Inr x \<and> encode x \<noteq> []) xs \<Longrightarrow> decode_records decode path n (map encode xs) = Inr xs"
  by (induction xs arbitrary: n) auto

lemma read_json_lines_eq:
  assumes "list_all (\<lambda>x. decode (encode x) = Inr x \<and> json_line (encode x)) xs"
  shows "read_json_lines decode path (int (length xs)) (unlines (map encode xs)) = Inr xs"
proof -
  have "scan_records scan_limit (unlines (map encode xs)) = (map encode xs, False)"
    using assms by (intro scan_records_unlines) (simp add: list_all_iff)
  moreover have "decode_records decode path 0 (map encode xs) = Inr xs"
    using assms by (intro decode_records_map) (auto simp: list_all_iff json_line_def)
  ultimately show ?thesis by (simp add: read_json_lines_def)
qed

lemma read_last_json_line_eq:
  assumes "list_all (\<lambda>x. decode (encode x) = Inr x \<and> json_line (encode x)) xs"
  shows "read_last_json_line decode (unlines (map encode xs)) = (if xs = [] then None else Some (Inr (last xs)))"
proof -
  have "scan_records scan_limit (unlines (map encode xs)) = (map encode xs, False)"
    using assms by (intro scan_records_unlines) (simp add: list_all_iff)
  moreover have "filter (\<lambda>l. l \<noteq> []) (map encode xs) = map encode xs"
    using assms by (auto simp: list_all_iff json_line_def)
  ultimately show ?thesis
    using assms by (cases xs) (auto simp: read_last_json_line_def list_all_iff last_map)
qed

text \<open>Appending a record, and a crash on the way: the complete lines are those of before, and the new one if
  all of it was written.\<close>

lemma append_record_lines: "append_record l (unlines ls) = unlines (ls @ [l])"
  by (simp add: append_record_def)

lemma append_partly_lines:
  assumes "list_all plain_line ls" and "plain_line l"
  shows "complete_lines (append_partly k l (unlines ls)) = (if length l < k then ls @ [l] else ls)"
proof (cases "length l < k")
  case True
  then have "append_partly k l (unlines ls) = unlines (ls @ [l]) @ []" by (simp add: append_partly_def)
  then show ?thesis using complete_lines_unlines [of "ls @ [l]" "[]"] assms True by (simp add: plain_line_def)
next
  case False
  then have "append_partly k l (unlines ls) = unlines ls @ take k l" by (simp add: append_partly_def)
  moreover have "plain_line (take k l)" using assms(2) by (auto simp: plain_line_def dest: in_set_takeD)
  ultimately show ?thesis using complete_lines_unlines assms(1) False by simp
qed

end
