(* ===== verification/Metrics.thy ===== *)
theory Metrics
  imports Engine_Execution
begin

text \<open>
  internal/metrics/metrics.go: the statistics of one execution. A map of counters is an association list;
  a missing key counts zero. The counters count objects held in memory, so their \<open>int\<close> never wraps;
  the sum of the durations may and is wrapped. A mean is the exact quotient, without the rounding of a
  \<open>float64\<close>.
\<close>

section \<open>Counters\<close>

type_synonym counts = "(string \<times> int) list"

definition count_at :: "counts \<Rightarrow> string \<Rightarrow> int" where
  "count_at m k = (case map_of m k of Some n \<Rightarrow> n | None \<Rightarrow> 0)"

definition count_add :: "string \<Rightarrow> int \<Rightarrow> counts \<Rightarrow> counts" where
  "count_add k n m = AList.update k (count_at m k + n) m"

abbreviation count_up :: "string \<Rightarrow> counts \<Rightarrow> counts" where
  "count_up k m \<equiv> count_add k 1 m"

lemma count_at_Nil [simp]: "count_at [] k = 0"
  by (simp add: count_at_def)

lemma count_at_add [simp]: "count_at (count_add k n m) l = count_at m l + (if l = k then n else 0)"
  by (simp add: count_at_def count_add_def update_conv')

section \<open>Texts of the enumerations\<close>

fun effect_kind_text :: "effect_kind \<Rightarrow> string" where
  "effect_kind_text EffectSendMessage = ''send_message''"
| "effect_kind_text EffectTimerFired = ''timer_fired''"
| "effect_kind_text EffectModelEvent = ''model_event''"
| "effect_kind_text (EffectKindOther s) = s"

fun failure_kind_text :: "failure_kind \<Rightarrow> string" where
  "failure_kind_text FailureSUTPanic = ''sut_panic''"
| "failure_kind_text FailureRuntimeError = ''runtime_error''"
| "failure_kind_text (FailureKindOther s) = s"

fun termination_text :: "termination_reason \<Rightarrow> string" where
  "termination_text TerminationNone = []"
| "termination_text TerminationPlanComplete = ''plan_complete''"
| "termination_text TerminationPolicyComplete = ''policy_complete''"
| "termination_text TerminationPlanActionBudget = ''plan_action_budget''"
| "termination_text TerminationRuntimeBudget = ''runtime_budget''"
| "termination_text TerminationConsecutiveNoops = ''consecutive_noops''"
| "termination_text TerminationModelBound = ''model_bound_reached''"

section \<open>Collecting the metrics of a run\<close>

record run_metrics =
  mt_actions :: counts
  mt_effects :: counts
  mt_message_types :: counts
  mt_resolutions :: counts
  mt_decisions :: counts
  mt_model_events :: counts
  mt_oracles :: counts
  mt_timer_fires :: counts
  mt_failures :: counts
  mt_termination :: string
  mt_snapshots_created :: int
  mt_snapshots_sent :: int
  mt_snapshots_delivered :: int
  mt_snapshots_applied :: int
  mt_snapshots_rejected :: int
  mt_logs_compacted :: int
  mt_compacted_entries :: u64
  mt_snapshot_bytes :: u64
  mt_initial_queued :: int
  mt_final_queued :: int
  mt_peak_queued :: int
  mt_max_age :: u64

text \<open>\<open>unsignedMetric\<close>. Go leaves the conversion of a \<open>float64\<close> that does not fit to the platform; here it
  gives \<open>2 ^ 63\<close>.\<close>

fun unsigned_metric :: "goval \<Rightarrow> u64" where
  "unsigned_metric (VUint64 w) = w"
| "unsigned_metric (VUint32 w) = ucast w"
| "unsigned_metric (VInt i) = (if 0 \<le> i then of_int i else 0)"
| "unsigned_metric (VInt64 i) = (if 0 \<le> i then of_int i else 0)"
| "unsigned_metric (VFloat (FFin q)) = (if 0 \<le> q then (if q < 2 ^ 64 then of_int \<lfloor>q\<rfloor> else 2 ^ 63) else 0)"
| "unsigned_metric (VFloat (FInf negative)) = (if negative then 0 else 2 ^ 63)"
| "unsigned_metric _ = 0"

definition resolution_metrics :: "resolution \<Rightarrow> run_metrics \<Rightarrow> run_metrics" where
  "resolution_metrics r m =
     (let m = m\<lparr>mt_resolutions := count_up (resolution_status_text (rs_status r)) (mt_resolutions m)\<rparr> in
      if rs_reason_code r \<noteq> [] then m\<lparr>mt_decisions := count_up (rs_reason_code r) (mt_decisions m)\<rparr> else m)"

definition model_event_metrics :: "model_event \<Rightarrow> run_metrics \<Rightarrow> run_metrics" where
  "model_event_metrics e m0 =
     (let m = m0\<lparr>mt_model_events := count_up (me_name e) (mt_model_events m0)\<rparr>; name = me_name e in
      if name = ''raft.snapshot_created''
      then m\<lparr>mt_snapshots_created := mt_snapshots_created m + 1,
             mt_snapshot_bytes := mt_snapshot_bytes m + unsigned_metric (any_at (me_params e) ''snapshot_bytes'')\<rparr>
      else if name = ''raft.snapshot_sent'' then m\<lparr>mt_snapshots_sent := mt_snapshots_sent m + 1\<rparr>
      else if name = ''raft.snapshot_delivered'' then m\<lparr>mt_snapshots_delivered := mt_snapshots_delivered m + 1\<rparr>
      else if name = ''raft.snapshot_applied'' then m\<lparr>mt_snapshots_applied := mt_snapshots_applied m + 1\<rparr>
      else if name = ''raft.snapshot_rejected_or_stale''
      then m\<lparr>mt_snapshots_rejected := mt_snapshots_rejected m + 1\<rparr>
      else if name = ''raft.log_compacted''
      then m\<lparr>mt_logs_compacted := mt_logs_compacted m + 1,
             mt_compacted_entries := mt_compacted_entries m + unsigned_metric (any_at (me_params e) ''compacted_entries'')\<rparr>
      else m)"

text \<open>The loops carry the metrics and the estimated length of the queue.\<close>

definition effect_metrics :: "effect \<Rightarrow> run_metrics \<times> int \<Rightarrow> run_metrics \<times> int" where
  "effect_metrics e state =
     (let (m, queued) = state;
          m = m\<lparr>mt_effects := count_up (effect_kind_text (eff_kind e)) (mt_effects m)\<rparr>;
          m = (case (eff_kind e, eff_model_event e) of
                 (EffectModelEvent, Some event) \<Rightarrow> model_event_metrics event m | _ \<Rightarrow> m);
          (m, queued) =
            (if eff_kind e = EffectSendMessage
             then (case eff_message e of
                     Some msg \<Rightarrow>
                       m\<lparr>mt_message_types := count_up
                          (if msg_type_hint msg = [] then ''unknown'' else msg_type_hint msg) (mt_message_types m)\<rparr>
                   | None \<Rightarrow> m, queued + 1)
             else (m, queued));
          m = (case (eff_kind e, eff_timer_fired e) of
                 (EffectTimerFired, Some t) \<Rightarrow>
                   m\<lparr>mt_timer_fires := count_up (timer_fire_source_text (tf_source t) @
                      (if tf_type_hint t \<noteq> [] then '':'' @ tf_type_hint t else [])) (mt_timer_fires m)\<rparr>
               | _ \<Rightarrow> m)
      in (m, queued))"

definition queued_by_action :: "action_kind \<Rightarrow> int \<Rightarrow> int" where
  "queued_by_action k queued =
     (if k \<in> {ActionDeliver, ActionDrop} then (if queued > 0 then queued - 1 else queued)
      else if k = ActionDuplicate then queued + 1 else queued)"

definition step_metrics :: "step_record \<Rightarrow> run_metrics \<times> int \<Rightarrow> run_metrics \<times> int" where
  "step_metrics s state =
     (let (m, queued) = state;
          (m, queued) = fold effect_metrics (sr_effects s) (m, queued_by_action (act_kind (sr_action s)) queued)
      in (if queued > mt_peak_queued m then m\<lparr>mt_peak_queued := queued\<rparr> else m, queued))"

definition event_metrics :: "event \<Rightarrow> run_metrics \<Rightarrow> run_metrics" where
  "event_metrics e m =
     m\<lparr>mt_model_events := count_up (if ev_reset e then ''reset'' else ev_name e) (mt_model_events m)\<rparr>"

definition message_age :: "logical_time \<Rightarrow> message_observation \<Rightarrow> run_metrics \<Rightarrow> run_metrics" where
  "message_age now msg m =
     (if now \<ge> mo_enqueued_at msg \<and> now - mo_enqueued_at msg > mt_max_age m
      then m\<lparr>mt_max_age := now - mo_enqueued_at msg\<rparr> else m)"

definition empty_metrics :: run_metrics where
  "empty_metrics = \<lparr>mt_actions = [], mt_effects = [], mt_message_types = [], mt_resolutions = [], mt_decisions = [],
     mt_model_events = [], mt_oracles = [], mt_timer_fires = [], mt_failures = [], mt_termination = [],
     mt_snapshots_created = 0, mt_snapshots_sent = 0, mt_snapshots_delivered = 0, mt_snapshots_applied = 0,
     mt_snapshots_rejected = 0, mt_logs_compacted = 0, mt_compacted_entries = 0, mt_snapshot_bytes = 0,
     mt_initial_queued = 0, mt_final_queued = 0, mt_peak_queued = 0, mt_max_age = 0\<rparr>"

definition collect :: "engine_result \<Rightarrow> run_metrics" where
  "collect r =
     (let initial = int (length (obs_messages (er_initial r))); final = int (length (obs_messages (er_final r)));
          m = empty_metrics\<lparr>mt_termination := termination_text (er_termination r), mt_initial_queued := initial,
                mt_final_queued := final, mt_peak_queued := initial\<rparr>;
          m = fold (\<lambda>a m. m\<lparr>mt_actions := count_up (action_kind_text (act_kind a)) (mt_actions m)\<rparr>) (er_actions r) m;
          m = fold resolution_metrics (er_resolutions r) m;
          (m, queued) = fold step_metrics (tr_steps (er_trace r)) (m, initial);
          m = (if final > mt_peak_queued m then m\<lparr>mt_peak_queued := final\<rparr> else m);
          m = fold event_metrics (er_events r) m;
          m = fold (\<lambda>f m. m\<lparr>mt_oracles := count_up (fd_oracle f @ '':'' @ fd_code f) (mt_oracles m)\<rparr>) (er_findings r) m;
          m = (case er_failure r of
                 Some f \<Rightarrow> m\<lparr>mt_failures := count_up (failure_kind_text (fr_kind f)) (mt_failures m)\<rparr>
               | None \<Rightarrow> m)
      in fold (message_age (obs_time (er_final r))) (obs_messages (er_final r)) m)"

section \<open>Durations\<close>

record duration_summary =
  ds_min :: int
  ds_max :: int
  ds_mean :: rat
  ds_p50 :: int
  ds_p95 :: int
  ds_p99 :: int

definition percentile :: "int list \<Rightarrow> nat \<Rightarrow> int" where
  "percentile xs percent =
     (let index = (percent * length xs + 99) div 100; index = (if index < 1 then 1 else index)
      in xs ! (index - 1))"

definition durations :: "int list \<Rightarrow> duration_summary" where
  "durations values =
     (if values = [] then \<lparr>ds_min = 0, ds_max = 0, ds_mean = 0, ds_p50 = 0, ds_p95 = 0, ds_p99 = 0\<rparr>
      else
        let copy = sort values; total = fold (\<lambda>v t. wrap64 (t + v)) copy 0 in
        \<lparr>ds_min = copy ! 0, ds_max = copy ! (length copy - 1), ds_mean = of_int total / of_nat (length copy),
         ds_p50 = percentile copy 50, ds_p95 = percentile copy 95, ds_p99 = percentile copy 99\<rparr>)"

section \<open>The counters are exact\<close>

lemma fold_keeps: "(\<And>x m. sel (f x m) = sel m) \<Longrightarrow> sel (fold f xs m) = sel m"
  by (induction xs arbitrary: m) simp_all

lemma fold_counts:
  "(\<And>x m. count_at (sel (f x m)) k = count_at (sel m) k + (if P x then 1 else 0)) \<Longrightarrow>
     count_at (sel (fold f xs m)) k = count_at (sel m) k + int (length (filter P xs))"
  by (induction xs arbitrary: m) simp_all

lemma model_event_metrics_sel [simp]:
  "mt_actions (model_event_metrics e m) = mt_actions m" "mt_effects (model_event_metrics e m) = mt_effects m"
  "mt_resolutions (model_event_metrics e m) = mt_resolutions m" "mt_oracles (model_event_metrics e m) = mt_oracles m"
  "mt_decisions (model_event_metrics e m) = mt_decisions m"
  "mt_peak_queued (model_event_metrics e m) = mt_peak_queued m"
  "count_at (mt_model_events (model_event_metrics e m)) k = count_at (mt_model_events m) k + (if me_name e = k then 1 else 0)"
  by (simp_all add: model_event_metrics_def Let_def)

text \<open>What one effect changes.\<close>

lemma effect_metrics_sel [simp]:
  "mt_actions (fst (effect_metrics e s)) = mt_actions (fst s)"
  "mt_resolutions (fst (effect_metrics e s)) = mt_resolutions (fst s)"
  "mt_decisions (fst (effect_metrics e s)) = mt_decisions (fst s)"
  "mt_oracles (fst (effect_metrics e s)) = mt_oracles (fst s)"
  "mt_peak_queued (fst (effect_metrics e s)) = mt_peak_queued (fst s)"
  "count_at (mt_effects (fst (effect_metrics e s))) k =
     count_at (mt_effects (fst s)) k + (if effect_kind_text (eff_kind e) = k then 1 else 0)"
  "snd (effect_metrics e s) = snd s + int (sent [e])"
  by (cases s; simp add: effect_metrics_def Let_def is_send_message_def split: effect_kind.split option.split)+

lemma fold_effect_metrics:
  "mt_actions (fst (fold effect_metrics es s)) = mt_actions (fst s)"
  "mt_resolutions (fst (fold effect_metrics es s)) = mt_resolutions (fst s)"
  "mt_decisions (fst (fold effect_metrics es s)) = mt_decisions (fst s)"
  "mt_oracles (fst (fold effect_metrics es s)) = mt_oracles (fst s)"
  "mt_peak_queued (fst (fold effect_metrics es s)) = mt_peak_queued (fst s)"
  "count_at (mt_effects (fst (fold effect_metrics es s))) k =
     count_at (mt_effects (fst s)) k + int (length (filter (\<lambda>e. effect_kind_text (eff_kind e) = k) es))"
  "snd (fold effect_metrics es s) = snd s + int (sent es)"
  by (induction es arbitrary: s) auto

lemma step_metrics_sel [simp]:
  "mt_actions (fst (step_metrics x s)) = mt_actions (fst s)"
  "mt_resolutions (fst (step_metrics x s)) = mt_resolutions (fst s)"
  "mt_decisions (fst (step_metrics x s)) = mt_decisions (fst s)"
  "mt_oracles (fst (step_metrics x s)) = mt_oracles (fst s)"
  "count_at (mt_effects (fst (step_metrics x s))) k =
     count_at (mt_effects (fst s)) k + int (length (filter (\<lambda>e. effect_kind_text (eff_kind e) = k) (sr_effects x)))"
  "snd (step_metrics x s) = queued_by_action (act_kind (sr_action x)) (snd s) + int (sent (sr_effects x))"
  "mt_peak_queued (fst (step_metrics x s)) = max (mt_peak_queued (fst s)) (snd (step_metrics x s))"
  by (cases s; simp add: step_metrics_def case_prod_beta fold_effect_metrics Let_def)+

lemma fold_step_metrics:
  "mt_actions (fst (fold step_metrics xs s)) = mt_actions (fst s)"
  "mt_resolutions (fst (fold step_metrics xs s)) = mt_resolutions (fst s)"
  "mt_decisions (fst (fold step_metrics xs s)) = mt_decisions (fst s)"
  "mt_oracles (fst (fold step_metrics xs s)) = mt_oracles (fst s)"
  "count_at (mt_effects (fst (fold step_metrics xs s))) k =
     count_at (mt_effects (fst s)) k +
     int (length (filter (\<lambda>e. effect_kind_text (eff_kind e) = k) (concat (map sr_effects xs))))"
  by (induction xs arbitrary: s) auto

lemma empty_metrics_sel [simp]:
  "mt_actions empty_metrics = []" "mt_effects empty_metrics = []" "mt_resolutions empty_metrics = []"
  "mt_decisions empty_metrics = []" "mt_oracles empty_metrics = []"
  by (simp_all add: empty_metrics_def)

text \<open>The stages of \<open>collect\<close>.\<close>

definition collected_before :: "engine_result \<Rightarrow> run_metrics" where
  "collected_before r =
     fold resolution_metrics (er_resolutions r)
       (fold (\<lambda>a m. m\<lparr>mt_actions := count_up (action_kind_text (act_kind a)) (mt_actions m)\<rparr>) (er_actions r)
         (empty_metrics\<lparr>mt_termination := termination_text (er_termination r),
            mt_initial_queued := int (length (obs_messages (er_initial r))),
            mt_final_queued := int (length (obs_messages (er_final r))),
            mt_peak_queued := int (length (obs_messages (er_initial r)))\<rparr>))"

definition collected_steps :: "engine_result \<Rightarrow> run_metrics \<times> int" where
  "collected_steps r =
     fold step_metrics (tr_steps (er_trace r)) (collected_before r, int (length (obs_messages (er_initial r))))"

lemma resolution_metrics_sel [simp]:
  "mt_actions (resolution_metrics x m) = mt_actions m" "mt_effects (resolution_metrics x m) = mt_effects m"
  "mt_oracles (resolution_metrics x m) = mt_oracles m" "mt_peak_queued (resolution_metrics x m) = mt_peak_queued m"
  "count_at (mt_resolutions (resolution_metrics x m)) k =
     count_at (mt_resolutions m) k + (if resolution_status_text (rs_status x) = k then 1 else 0)"
  "count_at (mt_decisions (resolution_metrics x m)) k =
     count_at (mt_decisions m) k + (if rs_reason_code x \<noteq> [] \<and> rs_reason_code x = k then 1 else 0)"
  by (simp_all add: resolution_metrics_def Let_def)

lemma collected_before_sel:
  "count_at (mt_actions (collected_before r)) k =
     int (length (filter (\<lambda>a. action_kind_text (act_kind a) = k) (er_actions r)))"
  "count_at (mt_resolutions (collected_before r)) k =
     int (length (filter (\<lambda>x. resolution_status_text (rs_status x) = k) (er_resolutions r)))"
  "count_at (mt_decisions (collected_before r)) k =
     int (length (filter (\<lambda>x. rs_reason_code x \<noteq> [] \<and> rs_reason_code x = k) (er_resolutions r)))"
  "mt_effects (collected_before r) = []" "mt_oracles (collected_before r) = []"
  "mt_peak_queued (collected_before r) = int (length (obs_messages (er_initial r)))"
  unfolding collected_before_def
  subgoal by (subst fold_keeps [where sel = mt_actions], simp, subst fold_counts [where sel = mt_actions]) simp_all
  subgoal by (subst fold_counts [where sel = mt_resolutions], simp, subst fold_keeps [where sel = mt_resolutions]) simp_all
  subgoal by (subst fold_counts [where sel = mt_decisions], simp, subst fold_keeps [where sel = mt_decisions]) simp_all
  subgoal by (subst fold_keeps [where sel = mt_effects], simp)+ simp
  subgoal by (subst fold_keeps [where sel = mt_oracles], simp)+ simp
  subgoal by (subst fold_keeps [where sel = mt_peak_queued], simp)+ simp
  done

lemma collect_stages:
  "collect r =
     (let m = fst (collected_steps r);
          final = int (length (obs_messages (er_final r)));
          m = (if final > mt_peak_queued m then m\<lparr>mt_peak_queued := final\<rparr> else m);
          m = fold event_metrics (er_events r) m;
          m = fold (\<lambda>f m. m\<lparr>mt_oracles := count_up (fd_oracle f @ '':'' @ fd_code f) (mt_oracles m)\<rparr>) (er_findings r) m;
          m = (case er_failure r of
                 Some f \<Rightarrow> m\<lparr>mt_failures := count_up (failure_kind_text (fr_kind f)) (mt_failures m)\<rparr>
               | None \<Rightarrow> m)
      in fold (message_age (obs_time (er_final r))) (obs_messages (er_final r)) m)"
  by (simp add: collect_def collected_steps_def collected_before_def Let_def case_prod_beta)

lemma late_stages_keep:
  assumes "\<And>e m. sel (event_metrics e m) = sel m" and "\<And>t x m. sel (message_age t x m) = sel m"
    and "\<And>m x. sel (m\<lparr>mt_failures := x\<rparr>) = sel m" and "\<And>m x. sel (m\<lparr>mt_peak_queued := x\<rparr>) = sel m"
    and "\<And>m x. sel (m\<lparr>mt_oracles := x\<rparr>) = sel m"
  shows "sel (collect r) = sel (fst (collected_steps r))"
  by (simp add: collect_stages Let_def assms fold_keeps [where sel = sel] split: option.split)

lemma event_metrics_sel [simp]:
  "mt_actions (event_metrics e m) = mt_actions m" "mt_effects (event_metrics e m) = mt_effects m"
  "mt_resolutions (event_metrics e m) = mt_resolutions m" "mt_decisions (event_metrics e m) = mt_decisions m"
  "mt_oracles (event_metrics e m) = mt_oracles m" "mt_peak_queued (event_metrics e m) = mt_peak_queued m"
  by (simp_all add: event_metrics_def)

lemma message_age_sel [simp]:
  "mt_actions (message_age t x m) = mt_actions m" "mt_effects (message_age t x m) = mt_effects m"
  "mt_resolutions (message_age t x m) = mt_resolutions m" "mt_decisions (message_age t x m) = mt_decisions m"
  "mt_oracles (message_age t x m) = mt_oracles m" "mt_peak_queued (message_age t x m) = mt_peak_queued m"
  by (simp_all add: message_age_def)

lemma collect_oracles:
  "count_at (mt_oracles (collect r)) k = int (length (filter (\<lambda>f. fd_oracle f @ '':'' @ fd_code f = k) (er_findings r)))"
proof -
  let ?f = "\<lambda>f m. m\<lparr>mt_oracles := count_up (fd_oracle f @ '':'' @ fd_code f) (mt_oracles m)\<rparr>"
  have counts: "count_at (mt_oracles (fold ?f fs m)) k =
      count_at (mt_oracles m) k + int (length (filter (\<lambda>f. fd_oracle f @ '':'' @ fd_code f = k) fs))" for fs m
    by (rule fold_counts [where sel = mt_oracles]) simp
  have before: "mt_oracles (fst (collected_steps r)) = []"
    by (simp add: collected_steps_def fold_step_metrics collected_before_sel)
  show ?thesis
    by (simp add: collect_stages Let_def counts [simplified] before fold_keeps [where sel = mt_oracles] split: option.split)
qed

text \<open>the counters of a run are exact: for every kind of action, status and reason of a resolution,
  kind of effect and finding, the counter is the number of actions executed, resolutions, effects
  recorded in the trace and findings of that kind in the result of the run.\<close>
theorem metrics_counts_exact:
  "count_at (mt_actions (collect r)) k =
     int (length (filter (\<lambda>a. action_kind_text (act_kind a) = k) (er_actions r))) \<and>
   count_at (mt_resolutions (collect r)) k =
     int (length (filter (\<lambda>x. resolution_status_text (rs_status x) = k) (er_resolutions r))) \<and>
   count_at (mt_decisions (collect r)) k =
     int (length (filter (\<lambda>x. rs_reason_code x \<noteq> [] \<and> rs_reason_code x = k) (er_resolutions r))) \<and>
   count_at (mt_effects (collect r)) k =
     int (length (filter (\<lambda>e. effect_kind_text (eff_kind e) = k) (concat (map sr_effects (tr_steps (er_trace r)))))) \<and>
   count_at (mt_oracles (collect r)) k =
     int (length (filter (\<lambda>f. fd_oracle f @ '':'' @ fd_code f = k) (er_findings r)))"
  using collect_oracles [of r k]
  by (simp add: late_stages_keep [where sel = mt_actions] late_stages_keep [where sel = mt_resolutions]
      late_stages_keep [where sel = mt_decisions] late_stages_keep [where sel = mt_effects] collected_steps_def
      fold_step_metrics collected_before_sel)

section \<open>The peak of the queue\<close>

lemma queued_performed:
  assumes "performed t"
  shows "queued_by_action (act_kind (sr_action (tn_record t))) (int (length (obs_messages (tn_before t)))) +
    int (sent (sr_effects (tn_record t))) = int (length (obs_messages (tn_after t)))"
  using assms by (auto simp: performed_def queue_after_def queued_by_action_def split: if_splits)

definition queue_length :: "observation \<Rightarrow> int" where
  "queue_length ob = int (length (obs_messages ob))"

lemma peak_of_steps:
  assumes "chained ob ts ob'" and "list_all performed ts"
  shows "mt_peak_queued (fst (fold step_metrics (map tn_record ts) (m, queue_length ob))) =
    Max (insert (mt_peak_queued m) (set (map (queue_length \<circ> tn_after) ts)))"
  using assms
proof (induction ts arbitrary: ob m)
  case (Cons t ts)
  obtain m1 q1 where step: "step_metrics (tn_record t) (m, queue_length ob) = (m1, q1)" by fastforce
  have "q1 = snd (step_metrics (tn_record t) (m, queue_length ob))" by (simp only: step snd_conv)
  also have "\<dots> = queue_length (tn_after t)" using queued_performed [of t] Cons.prems by (simp add: queue_length_def)
  finally have q1: "q1 = queue_length (tn_after t)" .
  have m1: "mt_peak_queued m1 = max (mt_peak_queued m) q1"
    using step_metrics_sel(7) [of "tn_record t" "(m, queue_length ob)"] by (simp only: step fst_conv snd_conv)
  have "mt_peak_queued (fst (fold step_metrics (map tn_record ts) (m1, q1))) =
      Max (insert (mt_peak_queued m1) (set (map (queue_length \<circ> tn_after) ts)))"
    unfolding q1 using Cons.IH [of "tn_after t" m1] Cons.prems by simp
  then show ?case
    using step m1 q1 by (cases "ts = []") (simp_all add: Max_insert2 max.assoc max.left_commute max.commute)
qed simp

lemma chained_last: "chained ob ts ob' \<Longrightarrow> ob' \<in> insert ob (set (map tn_after ts))"
  by (induction ts arbitrary: ob) auto

lemma collect_peak:
  assumes "chained (er_initial r) ts (er_final r)" and "list_all performed ts" and "map tn_record ts = tr_steps (er_trace r)"
  shows "mt_peak_queued (collect r) = Max (set (map queue_length (er_initial r # map tn_after ts)))"
proof -
  define peak where "peak = Max (set (map queue_length (er_initial r # map tn_after ts)))"
  have "mt_peak_queued (fst (collected_steps r)) = peak"
    using peak_of_steps [OF assms(1,2), of "collected_before r"] assms(3)
    by (simp add: collected_steps_def queue_length_def collected_before_sel comp_def peak_def)
  moreover have "queue_length (er_final r) \<le> peak"
    unfolding peak_def by (rule Max_ge) (use chained_last [OF assms(1)] in auto)
  ultimately show ?thesis
    unfolding peak_def [symmetric]
    by (auto simp: collect_stages Let_def fold_keeps [where sel = mt_peak_queued] queue_length_def split: option.split)
qed

lemma completed_peak:
  assumes "outcome_ok e ks outcome"
  shows "case outcome of
      None \<Rightarrow> True
    | Some (res, err, st) \<Rightarrow>
        if er_status res = StatusCompleted
        then \<exists>ts. chained (er_initial res) ts (er_final res) \<and> map tn_record ts = tr_steps (er_trace res) \<and>
          mt_peak_queued (collect res) = Max (set (map queue_length (er_initial res # map tn_after ts)))
        else err \<noteq> None"
proof (cases outcome)
  case (Some out)
  obtain res err st where out: "out = (res, err, st)" by (cases out)
  show ?thesis
  proof (cases "er_status res = StatusCompleted")
    case True
    with assms Some out have "completed_ok e ks res" by (simp add: outcome_ok_def)
    then obtain ts where "chained (er_initial res) ts (er_final res)" "list_all performed ts"
      "map tn_record ts = tr_steps (er_trace res)" by (auto simp: completed_ok_def)
    with collect_peak [OF this] Some out True show ?thesis by auto
  next
    case False
    with assms Some out show ?thesis by (auto simp: outcome_ok_def)
  qed
qed simp

text \<open>the peak of the queue, which the metrics reconstruct from the actions and effects of the trace
  alone, is the true one: in a completed run of the engine it is the largest number of queued messages in
  the initial observation and in the observations after the executed steps.\<close>
theorem metrics_peak_is_true_peak:
  "case runtime_new ad c w of
     Inl _ \<Rightarrow> True
   | Inr r0 \<Rightarrow>
     (case engine_run_sequence e sequence (runtime_run r0 calls) ks of
        None \<Rightarrow> True
      | Some (res, err, st) \<Rightarrow>
          if er_status res = StatusCompleted
          then \<exists>ts. chained (er_initial res) ts (er_final res) \<and> map tn_record ts = tr_steps (er_trace res) \<and>
            mt_peak_queued (collect res) = Max (set (map queue_length (er_initial res # map tn_after ts)))
          else err \<noteq> None)"
proof (cases "runtime_new ad c w")
  case (Inr r0)
  have "runtime_ok (runtime_run r0 calls)" by (intro runtime_run_ok new_runtime_ok [OF Inr])
  from completed_peak [OF engine_runs_ok(1) [OF this]] Inr show ?thesis by simp
qed simp

section \<open>Percentiles\<close>

text \<open>The nearest rank: the least of the values such that at least \<open>percent\<close> of all are not above it.\<close>

definition nearest_rank :: "int list \<Rightarrow> nat \<Rightarrow> int \<Rightarrow> bool" where
  "nearest_rank vs percent v \<longleftrightarrow>
     v \<in> set vs \<and> percent * length vs \<le> 100 * length (filter (\<lambda>x. x \<le> v) vs) \<and>
     (\<forall>u \<in> set vs. u < v \<longrightarrow> 100 * length (filter (\<lambda>x. x \<le> u) vs) < percent * length vs)"

lemma length_filter_split:
  "length (filter P xs) = length (filter P (take k xs)) + length (filter P (drop k xs))"
  by (metis append_take_drop_id filter_append length_append)

lemma sorted_filter_le:
  assumes "sorted xs" and "i < length xs"
  shows "Suc i \<le> length (filter (\<lambda>x. x \<le> xs ! i) xs)"
proof -
  have "take (Suc i) xs = filter (\<lambda>x. x \<le> xs ! i) (take (Suc i) xs)"
    using assms by (auto simp: filter_id_conv set_conv_nth sorted_nth_mono intro!: sym [OF filter_True])
  then have "Suc i = length (filter (\<lambda>x. x \<le> xs ! i) (take (Suc i) xs))"
    using assms(2) by (metis Suc_leI length_take min.absorb2)
  also have "\<dots> \<le> length (filter (\<lambda>x. x \<le> xs ! i) xs)" by (subst (2) length_filter_split [of _ _ "Suc i"]) simp
  finally show ?thesis .
qed

lemma sorted_filter_less:
  assumes "sorted xs" and "i < length xs" and "u < xs ! i"
  shows "length (filter (\<lambda>x. x \<le> u) xs) \<le> i"
proof -
  have "x > u" if "x \<in> set (drop i xs)" for x
  proof -
    from that obtain j where "x = drop i xs ! j" "j < length (drop i xs)" by (metis in_set_conv_nth)
    then have "x = xs ! (i + j)" "i + j < length xs" by auto
    then have "xs ! i \<le> x" using assms(1) by (simp add: sorted_nth_mono)
    with assms(3) show ?thesis by simp
  qed
  then have "filter (\<lambda>x. x \<le> u) (drop i xs) = []" by (auto simp: filter_empty_conv not_le)
  then have "length (filter (\<lambda>x. x \<le> u) xs) = length (filter (\<lambda>x. x \<le> u) (take i xs))"
    by (subst length_filter_split [of _ _ i]) simp
  also have "\<dots> \<le> length (take i xs)" by (rule length_filter_le)
  also have "\<dots> \<le> i" by simp
  finally show ?thesis .
qed

lemma percentile_nearest_rank:
  assumes "vs \<noteq> []" and "0 < percent" and "percent \<le> 100"
  shows "nearest_rank vs percent (percentile (sort vs) percent)"
proof -
  let ?n = "length vs" and ?xs = "sort vs"
  define k where "k = (percent * ?n + 99) div 100"
  have n: "0 < ?n" using assms(1) by simp
  have "0 < percent * ?n" using assms(2) n by simp
  then have k: "1 \<le> k" unfolding k_def by linarith
  have "percent * ?n \<le> 100 * ?n" using assms(3) by (rule mult_le_mono1)
  then have kn: "k \<le> ?n" unfolding k_def by linarith
  have lower: "percent * ?n \<le> 100 * k" unfolding k_def by linarith
  have upper: "100 * (k - 1) < percent * ?n" using k unfolding k_def by linarith
  have p: "percentile ?xs percent = ?xs ! (k - 1)" using k by (simp add: percentile_def Let_def k_def)
  have i: "k - 1 < length ?xs" using k kn by simp
  have same: "length (filter P ?xs) = length (filter P vs)" for P
    by (metis filter_sort length_sort)
  have "k \<le> length (filter (\<lambda>x. x \<le> ?xs ! (k - 1)) vs)"
    using sorted_filter_le [OF sorted_sort i] k same by simp
  with lower have "percent * ?n \<le> 100 * length (filter (\<lambda>x. x \<le> ?xs ! (k - 1)) vs)" by linarith
  moreover have "100 * length (filter (\<lambda>x. x \<le> u) vs) < percent * ?n" if "u < ?xs ! (k - 1)" for u
    using sorted_filter_less [OF sorted_sort i that] upper same [of "\<lambda>x. x \<le> u"] by linarith
  moreover have "?xs ! (k - 1) \<in> set vs" using i by (metis nth_mem set_sort)
  ultimately show ?thesis by (simp add: nearest_rank_def p)
qed

text \<open>the summary of durations is right for every list of durations: the minimum and maximum are
  those of the list, and P50, P95 and P99 are the nearest-rank percentiles, the least duration that at
  least 50, 95 and 99 percent of the durations do not exceed; no duration means all zeros.\<close>
theorem durations_nearest_rank:
  "case durations vs of s \<Rightarrow>
     if vs = [] then ds_min s = 0 \<and> ds_max s = 0 \<and> ds_p50 s = 0 \<and> ds_p95 s = 0 \<and> ds_p99 s = 0
     else ds_min s = Min (set vs) \<and> ds_max s = Max (set vs) \<and>
       nearest_rank vs 50 (ds_p50 s) \<and> nearest_rank vs 95 (ds_p95 s) \<and> nearest_rank vs 99 (ds_p99 s)"
proof (cases "vs = []")
  case False
  have "sort vs ! 0 = Min (set vs)"
  proof (rule Min_eqI [symmetric])
    fix y assume "y \<in> set vs"
    then obtain j where "y = sort vs ! j" "j < length (sort vs)" by (metis in_set_conv_nth set_sort)
    then show "sort vs ! 0 \<le> y" by (simp add: sorted_nth_mono)
  next
    show "sort vs ! 0 \<in> set vs" using False by (metis length_greater_0_conv length_sort nth_mem set_sort)
  qed simp
  moreover have "sort vs ! (length (sort vs) - 1) = Max (set vs)"
  proof (rule Max_eqI [symmetric])
    fix y assume "y \<in> set vs"
    then obtain j where "y = sort vs ! j" "j < length (sort vs)" by (metis in_set_conv_nth set_sort)
    then show "y \<le> sort vs ! (length (sort vs) - 1)" by (simp add: sorted_nth_mono)
  next
    show "sort vs ! (length (sort vs) - 1) \<in> set vs"
      using False by (metis diff_less length_greater_0_conv length_sort less_numeral_extra(1) nth_mem set_sort)
  qed simp
  ultimately show ?thesis using False by (simp add: durations_def Let_def percentile_nearest_rank)
qed (simp add: durations_def)

end
