(* ===== verification/Corpus.thy ===== *)
theory Corpus
  imports Model Plan
begin

text \<open>
  internal/corpus/corpus.go: the plans that reached new model states, with the coverage they are judged
  by. A Go map to \<open>struct{}\<close> is a set of keys; every listing of such a map in the code is sorted, so
  the order of iteration never shows. The mutex makes every operation atomic, so the operations of
  concurrent callers are a sequence. A nil receiver is \<open>None\<close>.
\<close>

section \<open>Data\<close>

datatype admission_reason =
    NoAdmissionReason
  | AdmissionRetainedRaw | AdmissionRetainedSemanticState | AdmissionRetainedSemanticTransition
  | AdmissionRetainedSemanticStateAndTransition
  | AdmissionRejectedRawThreshold | AdmissionRejectedNoSemanticNovelty

record corpus_input =
  in_parent :: string
  in_source :: string
  in_depth :: int
  in_run_index :: int
  in_seed :: int
  in_plan :: plan_sequence
  in_states :: "model_state list"
  in_semantic_states :: "int list"
  in_semantic_transitions :: "int list"

record corpus_config =
  cc_min_new_states :: int
  cc_require_semantic :: bool

record corpus_entry =
  en_id :: string
  en_parent :: string
  en_source :: string
  en_depth :: int
  en_run_index :: int
  en_seed :: int
  en_plan :: plan_sequence
  en_new_states :: "int list"
  en_new_semantic_states :: "int list"
  en_new_semantic_transitions :: "int list"
  en_reason :: admission_reason

record corpus =
  cp_config :: corpus_config
  cp_coverage :: "int set"
  cp_semantic_states :: "int set"
  cp_semantic_transitions :: "int set"
  cp_entries :: "corpus_entry list"

record snapshot =
  sn_coverage :: "int list"
  sn_semantic_states :: "int list"
  sn_semantic_transitions :: "int list"
  sn_entries :: "corpus_entry list"

record corpus_checkpoint =
  ckp_coverage :: "int list"
  ckp_semantic_states :: "int list"
  ckp_semantic_transitions :: "int list"
  ckp_entry_count :: int

definition empty_entry :: corpus_entry where
  "empty_entry = \<lparr>en_id = [], en_parent = [], en_source = [], en_depth = 0, en_run_index = 0, en_seed = 0,
     en_plan = \<lparr>ps_actions = [], ps_metadata = []\<rparr>, en_new_states = [], en_new_semantic_states = [],
     en_new_semantic_transitions = [], en_reason = NoAdmissionReason\<rparr>"

definition corpus_new :: "corpus_config \<Rightarrow> corpus" where
  "corpus_new c = \<lparr>cp_config = (if cc_min_new_states c \<le> 0 then c\<lparr>cc_min_new_states := 1\<rparr> else c),
     cp_coverage = {}, cp_semantic_states = {}, cp_semantic_transitions = {}, cp_entries = []\<rparr>"

section \<open>Considering an input\<close>

definition unique_keys :: "int list \<Rightarrow> int list" where
  "unique_keys keys = sort (remdups keys)"

definition unique_state_keys :: "model_state list \<Rightarrow> int list" where
  "unique_state_keys states = sort (remdups (map ms_key states))"

definition unseen_keys :: "int list \<Rightarrow> int set \<Rightarrow> int list" where
  "unseen_keys keys seen = filter (\<lambda>k. k \<notin> seen) keys"

definition retained_reason :: "bool \<Rightarrow> int list \<Rightarrow> int list \<Rightarrow> admission_reason" where
  "retained_reason require_semantic states transitions =
     (if \<not> require_semantic then AdmissionRetainedRaw
      else if states \<noteq> [] \<and> transitions \<noteq> [] then AdmissionRetainedSemanticStateAndTransition
      else if states \<noteq> [] then AdmissionRetainedSemanticState
      else AdmissionRetainedSemanticTransition)"

definition entry_name :: "nat \<Rightarrow> string" where
  "entry_name i = ''corpus-'' @ pad6 i"

definition corpus_consider :: "corpus option \<Rightarrow> corpus_input \<Rightarrow> go_error + corpus_entry \<times> bool \<times> corpus" where
  "corpus_consider receiver i =
     (case receiver of
        None \<Rightarrow> Inl (plain_error ''corpus is nil'')
      | Some c \<Rightarrow>
        (case plan_sequence_validate (in_plan i) of
           Some e \<Rightarrow> Inl (wrap_text ''invalid corpus plan'' e)
         | None \<Rightarrow>
             if ps_actions (in_plan i) = [] then Inl (plain_error ''corpus plan must not be empty'')
             else if in_depth i < 0 \<or> in_run_index i < 0
             then Inl (plain_error ''corpus depth and run index must be non-negative'')
             else
               let state_keys = unique_state_keys (in_states i);
                   semantic_state_keys = unique_keys (in_semantic_states i);
                   semantic_transition_keys = unique_keys (in_semantic_transitions i);
                   new_keys = unseen_keys state_keys (cp_coverage c);
                   new_states = unseen_keys semantic_state_keys (cp_semantic_states c);
                   new_transitions = unseen_keys semantic_transition_keys (cp_semantic_transitions c);
                   covered = c\<lparr>cp_coverage := cp_coverage c \<union> set state_keys,
                     cp_semantic_states := cp_semantic_states c \<union> set semantic_state_keys,
                     cp_semantic_transitions := cp_semantic_transitions c \<union> set semantic_transition_keys\<rparr>;
                   entry = empty_entry\<lparr>en_source := in_source i, en_depth := in_depth i, en_run_index := in_run_index i,
                     en_seed := in_seed i, en_new_states := new_keys, en_new_semantic_states := new_states,
                     en_new_semantic_transitions := new_transitions\<rparr>
               in if int (length new_keys) < cc_min_new_states (cp_config c)
                  then Inr (entry\<lparr>en_reason := AdmissionRejectedRawThreshold\<rparr>, False, covered)
                  else if cc_require_semantic (cp_config c) \<and> length new_states + length new_transitions = 0
                  then Inr (entry\<lparr>en_reason := AdmissionRejectedNoSemanticNovelty\<rparr>, False, covered)
                  else
                    let kept = entry\<lparr>en_id := entry_name (length (cp_entries c)), en_parent := in_parent i,
                          en_plan := in_plan i,
                          en_reason := retained_reason (cc_require_semantic (cp_config c)) new_states new_transitions\<rparr>
                    in Inr (kept, True, covered\<lparr>cp_entries := cp_entries covered @ [kept]\<rparr>)))"

definition rollback_last :: "corpus option \<Rightarrow> corpus_entry \<Rightarrow> go_error + corpus" where
  "rollback_last receiver e =
     (case receiver of
        None \<Rightarrow> Inl (plain_error ''corpus is nil'')
      | Some c \<Rightarrow>
          if cp_entries c = [] \<or> en_id (last (cp_entries c)) \<noteq> en_id e
          then Inl (plain_error (''corpus rollback entry '' @ en_id e @ '' is not the latest entry''))
          else Inr (c\<lparr>cp_coverage := cp_coverage c - set (en_new_states e),
                      cp_semantic_states := cp_semantic_states c - set (en_new_semantic_states e),
                      cp_semantic_transitions := cp_semantic_transitions c - set (en_new_semantic_transitions e),
                      cp_entries := butlast (cp_entries c)\<rparr>))"

section \<open>Reading\<close>

definition corpus_len :: "corpus option \<Rightarrow> nat" where
  "corpus_len receiver = (case receiver of None \<Rightarrow> 0 | Some c \<Rightarrow> length (cp_entries c))"

definition coverage_len :: "corpus option \<Rightarrow> nat" where
  "coverage_len receiver = (case receiver of None \<Rightarrow> 0 | Some c \<Rightarrow> card (cp_coverage c))"

definition semantic_coverage_len :: "corpus option \<Rightarrow> nat \<times> nat" where
  "semantic_coverage_len receiver =
     (case receiver of None \<Rightarrow> (0, 0) | Some c \<Rightarrow> (card (cp_semantic_states c), card (cp_semantic_transitions c)))"

definition corpus_lookup :: "corpus option \<Rightarrow> string \<Rightarrow> corpus_entry option" where
  "corpus_lookup receiver i =
     (case receiver of None \<Rightarrow> None | Some c \<Rightarrow> find (\<lambda>e. en_id e = i) (cp_entries c))"

definition corpus_snapshot :: "corpus option \<Rightarrow> snapshot" where
  "corpus_snapshot receiver =
     (case receiver of
        None \<Rightarrow> \<lparr>sn_coverage = [], sn_semantic_states = [], sn_semantic_transitions = [], sn_entries = []\<rparr>
      | Some c \<Rightarrow> \<lparr>sn_coverage = sorted_list_of_set (cp_coverage c),
          sn_semantic_states = sorted_list_of_set (cp_semantic_states c),
          sn_semantic_transitions = sorted_list_of_set (cp_semantic_transitions c), sn_entries = cp_entries c\<rparr>)"

definition corpus_checkpoint_of :: "corpus option \<Rightarrow> corpus_checkpoint" where
  "corpus_checkpoint_of receiver =
     (case receiver of
        None \<Rightarrow> \<lparr>ckp_coverage = [], ckp_semantic_states = [], ckp_semantic_transitions = [], ckp_entry_count = 0\<rparr>
      | Some c \<Rightarrow> \<lparr>ckp_coverage = sorted_list_of_set (cp_coverage c),
          ckp_semantic_states = sorted_list_of_set (cp_semantic_states c),
          ckp_semantic_transitions = sorted_list_of_set (cp_semantic_transitions c),
          ckp_entry_count = int (length (cp_entries c))\<rparr>)"

section \<open>Restoring\<close>

fun unique_key_set :: "string \<Rightarrow> int set \<Rightarrow> int list \<Rightarrow> go_error + int set" where
  "unique_key_set label seen [] = Inr seen"
| "unique_key_set label seen (k # ks) =
     (if k \<in> seen
      then Inl (plain_error (''corpus snapshot contains duplicate '' @ label @ '' key '' @ show_int k))
      else unique_key_set label (insert k seen) ks)"

text \<open>The new keys of an entry, with the keys that earlier entries brought.\<close>

fun validate_entry_keys :: "string \<Rightarrow> string \<Rightarrow> int set \<Rightarrow> int set \<Rightarrow> int list \<Rightarrow> go_error + int set" where
  "validate_entry_keys i label coverage seen [] = Inr seen"
| "validate_entry_keys i label coverage seen (k # ks) =
     (if k \<notin> coverage
      then Inl (plain_error (''corpus entry '' @ i @ '' new '' @ label @ '' '' @ show_int k @ '' is absent from coverage''))
      else if k \<in> seen
      then Inl (plain_error (''corpus '' @ label @ '' '' @ show_int k @ '' is new in more than one entry''))
      else validate_entry_keys i label coverage (insert k seen) ks)"

definition check_entry :: "nat \<Rightarrow> corpus_entry \<Rightarrow> go_error option" where
  "check_entry index e =
     (if en_id e \<noteq> entry_name index
      then Some (plain_error (''corpus entry '' @ show_nat index @ '' has unexpected ID '' @ go_quote (en_id e)))
      else if en_depth e < 0 \<or> en_run_index e < 0
      then Some (plain_error (''corpus entry '' @ en_id e @ '' has negative depth or run index''))
      else case plan_sequence_validate (en_plan e) of
        Some err \<Rightarrow> Some (wrap_text (''corpus entry '' @ en_id e @ '' plan'') err)
      | None \<Rightarrow> None)"

text \<open>The keys seen so far: states, semantic states and semantic transitions.\<close>

fun restore_entries ::
  "int set \<Rightarrow> int set \<Rightarrow> int set \<Rightarrow> nat \<Rightarrow> int set \<times> int set \<times> int set \<Rightarrow> corpus_entry list \<Rightarrow> go_error option" where
  "restore_entries coverage states transitions index seen [] = None"
| "restore_entries coverage states transitions index (new_seen, states_seen, transitions_seen) (e # es) =
     (case check_entry index e of
        Some err \<Rightarrow> Some err
      | None \<Rightarrow>
        (case validate_entry_keys (en_id e) ''state'' coverage new_seen (en_new_states e) of
           Inl err \<Rightarrow> Some err
         | Inr new_seen' \<Rightarrow>
           (case validate_entry_keys (en_id e) ''semantic state'' states states_seen (en_new_semantic_states e) of
              Inl err \<Rightarrow> Some err
            | Inr states_seen' \<Rightarrow>
              (case validate_entry_keys (en_id e) ''semantic transition'' transitions transitions_seen
                      (en_new_semantic_transitions e) of
                 Inl err \<Rightarrow> Some err
               | Inr transitions_seen' \<Rightarrow>
                   restore_entries coverage states transitions (Suc index) (new_seen', states_seen', transitions_seen') es))))"

definition restore :: "snapshot \<Rightarrow> corpus_config \<Rightarrow> go_error + corpus" where
  "restore s cfg =
     (case unique_key_set ''coverage'' {} (sn_coverage s) of
        Inl e \<Rightarrow> Inl e
      | Inr coverage \<Rightarrow>
        (case unique_key_set ''semantic state'' {} (sn_semantic_states s) of
           Inl e \<Rightarrow> Inl e
         | Inr states \<Rightarrow>
           (case unique_key_set ''semantic transition'' {} (sn_semantic_transitions s) of
              Inl e \<Rightarrow> Inl e
            | Inr transitions \<Rightarrow>
              (case restore_entries coverage states transitions 0 ({}, {}, {}) (sn_entries s) of
                 Some e \<Rightarrow> Inl e
               | None \<Rightarrow> Inr ((corpus_new cfg)\<lparr>cp_coverage := coverage, cp_semantic_states := states,
                   cp_semantic_transitions := transitions, cp_entries := sn_entries s\<rparr>)))))"

definition restore_checkpoint :: "corpus_checkpoint \<Rightarrow> corpus_entry list \<Rightarrow> corpus_config \<Rightarrow> go_error + corpus" where
  "restore_checkpoint p entries cfg =
     (if ckp_entry_count p < 0 \<or> ckp_entry_count p \<noteq> int (length entries)
      then Inl (plain_error (''corpus checkpoint requires '' @ show_int (ckp_entry_count p) @ '' entries, got '' @
             show_nat (length entries)))
      else restore \<lparr>sn_coverage = ckp_coverage p, sn_semantic_states = ckp_semantic_states p,
             sn_semantic_transitions = ckp_semantic_transitions p, sn_entries = entries\<rparr> cfg)"

section \<open>The invariant\<close>

text \<open>Every key is new in at most one entry, and covered.\<close>

definition attributed :: "(corpus_entry \<Rightarrow> int list) \<Rightarrow> corpus_entry list \<Rightarrow> int set \<Rightarrow> bool" where
  "attributed keys es coverage \<longleftrightarrow> finite coverage \<and> distinct (concat (map keys es)) \<and> set (concat (map keys es)) \<subseteq> coverage"

fun entries_checked :: "nat \<Rightarrow> corpus_entry list \<Rightarrow> bool" where
  "entries_checked i [] = True"
| "entries_checked i (e # es) = (check_entry i e = None \<and> entries_checked (Suc i) es)"

definition corpus_ok :: "corpus \<Rightarrow> bool" where
  "corpus_ok c \<longleftrightarrow> 1 \<le> cc_min_new_states (cp_config c) \<and> entries_checked 0 (cp_entries c) \<and>
     attributed en_new_states (cp_entries c) (cp_coverage c) \<and>
     attributed en_new_semantic_states (cp_entries c) (cp_semantic_states c) \<and>
     attributed en_new_semantic_transitions (cp_entries c) (cp_semantic_transitions c)"

lemma attributed_Nil [simp]: "attributed keys [] coverage = finite coverage"
  by (simp add: attributed_def)

lemma attributed_mono [intro]: "attributed keys es coverage \<Longrightarrow> finite extra \<Longrightarrow> attributed keys es (coverage \<union> extra)"
  by (auto simp: attributed_def)

lemma attributed_snoc:
  "attributed keys es coverage \<Longrightarrow> keys e = unseen_keys ks coverage \<Longrightarrow> distinct ks \<Longrightarrow>
     attributed keys (es @ [e]) (coverage \<union> set ks)"
  by (auto simp: attributed_def unseen_keys_def)

lemma attributed_butlast:
  "attributed keys es coverage \<Longrightarrow> es \<noteq> [] \<Longrightarrow> attributed keys (butlast es) (coverage - set (keys (last es)))"
proof (induction es rule: rev_induct)
  case (snoc e es)
  then show ?case by (auto simp: attributed_def)
qed simp

lemma entries_checked_append [simp]:
  "entries_checked i (es @ fs) \<longleftrightarrow> entries_checked i es \<and> entries_checked (i + length es) fs"
  by (induction es arbitrary: i) simp_all

lemma distinct_unique_keys [simp]: "distinct (unique_keys ks)" "distinct (unique_state_keys ss)"
  by (simp_all add: unique_keys_def unique_state_keys_def)

lemma set_unique_keys [simp]: "set (unique_keys ks) = set ks" "set (unique_state_keys ss) = ms_key ` set ss"
  by (simp_all add: unique_keys_def unique_state_keys_def)

lemma corpus_ok_new [simp]: "corpus_ok (corpus_new cfg)"
  by (simp add: corpus_ok_def corpus_new_def)

text \<open>What an accepted input does, retained or not.\<close>

definition covers :: "corpus \<Rightarrow> corpus_input \<Rightarrow> corpus" where
  "covers c i = c\<lparr>cp_coverage := cp_coverage c \<union> ms_key ` set (in_states i),
     cp_semantic_states := cp_semantic_states c \<union> set (in_semantic_states i),
     cp_semantic_transitions := cp_semantic_transitions c \<union> set (in_semantic_transitions i)\<rparr>"

definition input_valid :: "corpus_input \<Rightarrow> bool" where
  "input_valid i \<longleftrightarrow> plan_sequence_validate (in_plan i) = None \<and> ps_actions (in_plan i) \<noteq> [] \<and>
     0 \<le> in_depth i \<and> 0 \<le> in_run_index i"

definition novel :: "corpus \<Rightarrow> corpus_input \<Rightarrow> bool" where
  "novel c i \<longleftrightarrow> cc_min_new_states (cp_config c) \<le> int (card (ms_key ` set (in_states i) - cp_coverage c)) \<and>
     (cc_require_semantic (cp_config c) \<longrightarrow>
        \<not> set (in_semantic_states i) \<subseteq> cp_semantic_states c \<or>
        \<not> set (in_semantic_transitions i) \<subseteq> cp_semantic_transitions c)"

lemma consider_Inl_iff: "(\<exists>e. corpus_consider (Some c) i = Inl e) \<longleftrightarrow> \<not> input_valid i"
  by (auto simp: corpus_consider_def input_valid_def Let_def not_le split: option.splits)

lemma unseen_keys_set: "set (unseen_keys ks seen) = set ks - seen"
  by (auto simp: unseen_keys_def)

lemma length_unseen: "distinct ks \<Longrightarrow> length (unseen_keys ks seen) = card (set ks - seen)"
  using distinct_card [of "unseen_keys ks seen"] by (simp add: unseen_keys_set) (simp add: unseen_keys_def)

lemma consider_cases:
  assumes "corpus_consider (Some c) i = Inr (e, retained, c')"
  shows "input_valid i \<and> (retained \<longleftrightarrow> novel c i) \<and>
    en_new_states e = unseen_keys (unique_state_keys (in_states i)) (cp_coverage c) \<and>
    en_new_semantic_states e = unseen_keys (unique_keys (in_semantic_states i)) (cp_semantic_states c) \<and>
    en_new_semantic_transitions e = unseen_keys (unique_keys (in_semantic_transitions i)) (cp_semantic_transitions c) \<and>
    (if retained
     then c' = (covers c i)\<lparr>cp_entries := cp_entries c @ [e]\<rparr> \<and> en_id e = entry_name (length (cp_entries c)) \<and>
       en_plan e = in_plan i \<and> en_depth e = in_depth i \<and> en_run_index e = in_run_index i
     else c' = covers c i)"
proof -
  let ?new = "unseen_keys (unique_state_keys (in_states i)) (cp_coverage c)"
  let ?states = "unseen_keys (unique_keys (in_semantic_states i)) (cp_semantic_states c)"
  let ?transitions = "unseen_keys (unique_keys (in_semantic_transitions i)) (cp_semantic_transitions c)"
  have valid: "input_valid i" using assms consider_Inl_iff [of c i] by auto
  then have valid': "plan_sequence_validate (in_plan i) = None" "ps_actions (in_plan i) \<noteq> []"
    "\<not> (in_depth i < 0 \<or> in_run_index i < 0)" by (auto simp: input_valid_def)
  have empty: "length (unseen_keys ks seen) = 0 \<longleftrightarrow> set ks \<subseteq> seen" for ks seen
    by (auto simp: unseen_keys_def filter_empty_conv)
  have novel: "novel c i \<longleftrightarrow> \<not> int (length ?new) < cc_min_new_states (cp_config c) \<and>
      \<not> (cc_require_semantic (cp_config c) \<and> length ?states + length ?transitions = 0)"
    using empty [of "unique_keys (in_semantic_states i)"] empty [of "unique_keys (in_semantic_transitions i)"]
    by (auto simp: novel_def length_unseen)
  show ?thesis
    using assms valid valid' novel
    by (auto simp: corpus_consider_def Let_def covers_def empty_entry_def split: if_splits)
qed
section \<open>Runs\<close>

lemma consider_ok: "corpus_ok c \<Longrightarrow> corpus_consider (Some c) i = Inr (e, retained, c') \<Longrightarrow> corpus_ok c'"
proof -
  assume ok: "corpus_ok c" and step: "corpus_consider (Some c) i = Inr (e, retained, c')"
  note facts = consider_cases [OF step]
  have grown: "attributed keys es cov \<Longrightarrow> attributed keys es (cov \<union> set ks)" for keys es cov and ks :: "int list"
    by auto
  show ?thesis
  proof (cases retained)
    case True
    have valid: "check_entry (length (cp_entries c)) e = None"
      using facts True by (auto simp: check_entry_def input_valid_def)
    have snoc: "attributed keys (cp_entries c @ [e]) (cov \<union> set ks)"
      if "attributed keys (cp_entries c) cov" "keys e = unseen_keys ks cov" "distinct ks" for keys cov ks
      using that by (rule attributed_snoc)
    show ?thesis
      using ok facts True valid snoc [of en_new_states "cp_coverage c" "unique_state_keys (in_states i)"]
        snoc [of en_new_semantic_states "cp_semantic_states c" "unique_keys (in_semantic_states i)"]
        snoc [of en_new_semantic_transitions "cp_semantic_transitions c" "unique_keys (in_semantic_transitions i)"]
      by (simp add: corpus_ok_def covers_def)
  next
    case False
    with ok facts show ?thesis by (auto simp: corpus_ok_def covers_def)
  qed
qed

lemma rollback_ok: "corpus_ok c \<Longrightarrow> cp_entries c \<noteq> [] \<Longrightarrow> rollback_last (Some c) (last (cp_entries c)) = Inr c' \<Longrightarrow> corpus_ok c'"
proof -
  assume ok: "corpus_ok c" and some: "cp_entries c \<noteq> []"
    and step: "rollback_last (Some c) (last (cp_entries c)) = Inr c'"
  have "entries_checked 0 (butlast (cp_entries c) @ [last (cp_entries c)])" using ok some by (simp add: corpus_ok_def)
  then have "entries_checked 0 (butlast (cp_entries c))" by (simp only: entries_checked_append)
  with ok some step show ?thesis
    by (auto simp: rollback_last_def corpus_ok_def intro!: attributed_butlast)
qed

text \<open>Everything that can happen to a corpus: an input is considered (a refused one leaves the corpus as
  it is), or the latest entry is taken back.\<close>

datatype corpus_op = Consider corpus_input | RollbackLatest

fun corpus_apply :: "corpus \<Rightarrow> corpus_op \<Rightarrow> corpus" where
  "corpus_apply c (Consider i) = (case corpus_consider (Some c) i of Inl _ \<Rightarrow> c | Inr (_, _, c') \<Rightarrow> c')"
| "corpus_apply c RollbackLatest =
     (if cp_entries c = [] then c
      else case rollback_last (Some c) (last (cp_entries c)) of Inl _ \<Rightarrow> c | Inr c' \<Rightarrow> c')"

definition corpus_run :: "corpus_config \<Rightarrow> corpus_op list \<Rightarrow> corpus" where
  "corpus_run cfg ops = fold (\<lambda>op c. corpus_apply c op) ops (corpus_new cfg)"

lemma corpus_apply_ok: "corpus_ok c \<Longrightarrow> corpus_ok (corpus_apply c op)"
  by (cases op) (auto split: sum.splits intro: consider_ok rollback_ok)

lemma corpus_run_ok: "corpus_ok (corpus_run cfg ops)"
proof -
  have "corpus_ok c \<Longrightarrow> corpus_ok (fold (\<lambda>op c. corpus_apply c op) ops c)" for c
    by (induction ops arbitrary: c) (simp_all add: corpus_apply_ok)
  then show ?thesis by (simp add: corpus_run_def)
qed

lemma consider_config: "corpus_consider (Some c) i = Inr (e, retained, c') \<Longrightarrow> cp_config c' = cp_config c"
  using consider_cases [of c i e retained c'] by (auto simp: covers_def split: if_splits)

lemma corpus_run_config: "cp_config (corpus_run cfg ops) = cp_config (corpus_new cfg)"
proof -
  have step: "cp_config (corpus_apply c op) = cp_config c" for c op
    by (cases op) (auto simp: rollback_last_def dest: consider_config split: sum.splits)
  have "cp_config (fold (\<lambda>op c. corpus_apply c op) ops c) = cp_config c" for c
    by (induction ops arbitrary: c) (simp_all add: step)
  then show ?thesis by (simp add: corpus_run_def)
qed

text \<open>whatever inputs are considered in whatever order, with entries taken back in between, entry k
  of the corpus is named corpus-k, holds a valid plan, a non-negative depth and run index, and each
  state, semantic state and semantic transition key is new in at most one entry and is covered.\<close>
theorem corpus_run_well_formed:
  "corpus_ok (corpus_run cfg ops)"
  by (rule corpus_run_ok)

section \<open>Restoring what was stored\<close>

lemma unique_key_set_Inr: "distinct ks \<Longrightarrow> set ks \<inter> seen = {} \<Longrightarrow> unique_key_set label seen ks = Inr (seen \<union> set ks)"
  by (induction ks arbitrary: seen) auto

lemma validate_entry_keys_Inr:
  "set ks \<subseteq> coverage \<Longrightarrow> distinct ks \<Longrightarrow> set ks \<inter> seen = {} \<Longrightarrow>
     validate_entry_keys i label coverage seen ks = Inr (seen \<union> set ks)"
  by (induction ks arbitrary: seen) auto

lemma restore_entries_None:
  "entries_checked index es \<Longrightarrow> attributed en_new_states es coverage \<Longrightarrow>
     attributed en_new_semantic_states es states \<Longrightarrow> attributed en_new_semantic_transitions es transitions \<Longrightarrow>
     set (concat (map en_new_states es)) \<inter> a = {} \<Longrightarrow> set (concat (map en_new_semantic_states es)) \<inter> b = {} \<Longrightarrow>
     set (concat (map en_new_semantic_transitions es)) \<inter> d = {} \<Longrightarrow>
     restore_entries coverage states transitions index (a, b, d) es = None"
proof (induction es arbitrary: index a b d)
  case (Cons e es)
  have keys: "validate_entry_keys i label cov seen (keys e) = Inr (seen \<union> set (keys e)) \<and>
      attributed keys es cov \<and> set (concat (map keys es)) \<inter> (seen \<union> set (keys e)) = {}"
    if "attributed keys (e # es) cov" "set (concat (map keys (e # es))) \<inter> seen = {}" for keys cov seen i label
  proof -
    have "set (keys e) \<subseteq> cov" "distinct (keys e)" "set (keys e) \<inter> seen = {}"
      using that by (auto simp: attributed_def)
    then have "validate_entry_keys i label cov seen (keys e) = Inr (seen \<union> set (keys e))" by (rule validate_entry_keys_Inr)
    moreover have "attributed keys es cov \<and> set (concat (map keys es)) \<inter> (seen \<union> set (keys e)) = {}"
      using that by (auto simp: attributed_def)
    ultimately show ?thesis by simp
  qed
  note new = keys [OF Cons.prems(2,5)] and states = keys [OF Cons.prems(3,6)] and transitions = keys [OF Cons.prems(4,7)]
  have "entries_checked (Suc index) es" "check_entry index e = None" using Cons.prems(1) by simp_all
  with Cons.IH [of "Suc index" "a \<union> set (en_new_states e)" "b \<union> set (en_new_semantic_states e)"
      "d \<union> set (en_new_semantic_transitions e)"] new states transitions
  show ?case by simp
qed simp

lemma restore_ok:
  assumes "corpus_ok c" and "cp_config c = cp_config (corpus_new cfg)"
  shows "restore (corpus_snapshot (Some c)) cfg = Inr c"
proof -
  have finite: "finite (cp_coverage c)" "finite (cp_semantic_states c)" "finite (cp_semantic_transitions c)"
    using assms(1) by (simp_all add: corpus_ok_def attributed_def)
  have "restore_entries (cp_coverage c) (cp_semantic_states c) (cp_semantic_transitions c) 0 ({}, {}, {}) (cp_entries c) = None"
    using assms(1) by (intro restore_entries_None) (simp_all add: corpus_ok_def)
  then have "restore (corpus_snapshot (Some c)) cfg = Inr ((corpus_new cfg)\<lparr>cp_coverage := cp_coverage c,
      cp_semantic_states := cp_semantic_states c, cp_semantic_transitions := cp_semantic_transitions c,
      cp_entries := cp_entries c\<rparr>)"
    using finite by (simp add: restore_def corpus_snapshot_def unique_key_set_Inr)
  also have "\<dots> = Inr c" using assms(2) by (cases c) (simp add: corpus_new_def)
  finally show ?thesis .
qed

text \<open>C13: a corpus that was stored comes back as it was: for every corpus that operations can produce,
  restoring its snapshot, or its checkpoint together with its entries, under the same configuration
  succeeds and gives exactly that corpus.\<close>
theorem corpus_restore_roundtrip:
  "restore (corpus_snapshot (Some (corpus_run cfg ops))) cfg = Inr (corpus_run cfg ops) \<and>
   restore_checkpoint (corpus_checkpoint_of (Some (corpus_run cfg ops))) (cp_entries (corpus_run cfg ops)) cfg
     = Inr (corpus_run cfg ops)"
proof -
  note snapshot = restore_ok [OF corpus_run_ok corpus_run_config, of cfg ops]
  then show ?thesis by (simp add: restore_checkpoint_def corpus_checkpoint_of_def corpus_snapshot_def)
qed

text \<open>taking back an entry undoes considering its input completely: if an input was retained,
  rolling back the returned entry gives the very corpus that was there before, coverage included.\<close>
theorem rollback_undoes_consider:
  "case corpus_consider (Some c) i of
     Inr (e, True, c') \<Rightarrow> rollback_last (Some c') e = Inr c
   | _ \<Rightarrow> True"
proof (cases "corpus_consider (Some c) i")
  case (Inr r)
  then obtain e retained c' where r: "corpus_consider (Some c) i = Inr (e, retained, c')" by (cases r) auto
  have undo: "s \<union> set ks - set (unseen_keys ks s) = s" for s and ks :: "int list"
    by (auto simp: unseen_keys_set)
  show ?thesis
  proof (cases retained)
    case True
    with consider_cases [OF r] undo [of "cp_coverage c" "unique_state_keys (in_states i)"]
      undo [of "cp_semantic_states c" "unique_keys (in_semantic_states i)"]
      undo [of "cp_semantic_transitions c" "unique_keys (in_semantic_transitions i)"]
    have "rollback_last (Some c') e = Inr c" by (cases c) (simp add: rollback_last_def covers_def)
    with r True show ?thesis by simp
  qed (simp add: r)
qed simp
section \<open>Admission and attribution\<close>

text \<open>considering an input fails exactly on an invalid plan, an empty plan, a negative depth or a
  negative run index, and then changes nothing; otherwise all its keys become covered, and it is
  retained as the last entry exactly if it brings the configured number of new states and, when semantic
  novelty is required, a new semantic state or transition.\<close>
theorem corpus_admission:
  "case corpus_consider (Some c) i of
     Inl e \<Rightarrow> \<not> input_valid i
   | Inr (e, retained, c') \<Rightarrow>
       input_valid i \<and> (retained \<longleftrightarrow> novel c i) \<and> cp_config c' = cp_config c \<and>
       cp_coverage c' = cp_coverage c \<union> ms_key ` set (in_states i) \<and>
       cp_semantic_states c' = cp_semantic_states c \<union> set (in_semantic_states i) \<and>
       cp_semantic_transitions c' = cp_semantic_transitions c \<union> set (in_semantic_transitions i) \<and>
       cp_entries c' = cp_entries c @ (if retained then [e] else [])"
proof (cases "corpus_consider (Some c) i")
  case (Inl e)
  then show ?thesis using consider_Inl_iff [of c i] by auto
next
  case (Inr r)
  then obtain e retained c' where r: "corpus_consider (Some c) i = Inr (e, retained, c')" by (cases r) auto
  with consider_cases [OF r] show ?thesis by (auto simp: covers_def)
qed

fun consider_all :: "corpus \<Rightarrow> corpus_input list \<Rightarrow> corpus_entry list \<times> corpus" where
  "consider_all c [] = ([], c)"
| "consider_all c (i # rest) =
     (case corpus_consider (Some c) i of
        Inl _ \<Rightarrow> consider_all c rest
      | Inr (e, _, c') \<Rightarrow> (let (es, c'') = consider_all c' rest in (e # es, c'')))"

lemma consider_all_coverage:
  "consider_all c inputs = (es, c') \<Longrightarrow>
     cp_coverage c' = cp_coverage c \<union> (\<Union>i \<in> {i \<in> set inputs. input_valid i}. ms_key ` set (in_states i)) \<and>
     distinct (concat (map en_new_states es)) \<and>
     set (concat (map en_new_states es)) = cp_coverage c' - cp_coverage c"
proof (induction inputs arbitrary: c es)
  case (Cons i rest)
  show ?case
  proof (cases "corpus_consider (Some c) i")
    case (Inl e)
    then have "\<not> input_valid i" using consider_Inl_iff [of c i] by auto
    moreover have "{j \<in> set (i # rest). input_valid j} = {j \<in> set rest. input_valid j}" using calculation by auto
    ultimately show ?thesis using Cons Inl by simp
  next
    case (Inr r)
    then obtain e retained d where r: "corpus_consider (Some c) i = Inr (e, retained, d)" by (cases r) auto
    obtain fs where fs: "consider_all d rest = (fs, c')" and es: "es = e # fs"
      using Cons.prems r by (auto simp: Let_def split: prod.splits)
    note facts = consider_cases [OF r]
    have d: "cp_coverage d = cp_coverage c \<union> ms_key ` set (in_states i)" and "input_valid i"
      using facts by (auto simp: covers_def split: if_splits)
    then have inputs: "{j \<in> set (i # rest). input_valid j} = insert i {j \<in> set rest. input_valid j}" by auto
    have e: "set (en_new_states e) = ms_key ` set (in_states i) - cp_coverage c" "distinct (en_new_states e)"
      using facts by (simp_all add: unseen_keys_set) (simp add: unseen_keys_def)
    show ?thesis unfolding es inputs UN_insert using Cons.IH [OF fs] d e by auto
  qed
qed simp

text \<open>C28: coverage does not depend on the order in which runs finish, and counts no state twice: after
  any list of inputs the covered states are exactly the states of the valid inputs, and the new states
  reported one input after the other, retained or not, list every covered state exactly once.\<close>
theorem corpus_coverage_attribution:
  "case consider_all (corpus_new cfg) inputs of (es, c) \<Rightarrow>
     cp_coverage c = (\<Union>i \<in> {i \<in> set inputs. input_valid i}. ms_key ` set (in_states i)) \<and>
     distinct (concat (map en_new_states es)) \<and> set (concat (map en_new_states es)) = cp_coverage c"
proof (cases "consider_all (corpus_new cfg) inputs")
  case (Pair es c)
  from consider_all_coverage [OF this] Pair show ?thesis by (simp add: corpus_new_def)
qed

lemma consider_all_config: "consider_all c inputs = (es, c') \<Longrightarrow> cp_config c' = cp_config c"
proof (induction inputs arbitrary: c es)
  case (Cons i rest)
  show ?case
  proof (cases "corpus_consider (Some c) i")
    case (Inl e)
    with Cons show ?thesis by simp
  next
    case (Inr r)
    then obtain e retained d where r: "corpus_consider (Some c) i = Inr (e, retained, d)" by (cases r) auto
    then obtain fs where "consider_all d rest = (fs, c')"
      using Cons.prems by (auto simp: Let_def split: prod.splits)
    with Cons.IH consider_config [OF r] show ?thesis by simp
  qed
qed simp

text \<open>An input never gets in twice: if it is considered again, right away or after any other
  inputs and without a rollback, it is not retained.\<close>
theorem corpus_input_retained_once:
  "case corpus_consider (Some (corpus_run cfg ops)) i of
     Inl e \<Rightarrow> True
   | Inr (e, retained, c) \<Rightarrow>
       (case corpus_consider (Some (snd (consider_all c inputs))) i of
          Inl e \<Rightarrow> False
        | Inr (e', retained', c') \<Rightarrow> \<not> retained' \<and> en_new_states e' = [])"
proof (cases "corpus_consider (Some (corpus_run cfg ops)) i")
  case (Inr r)
  then obtain e retained c where r: "corpus_consider (Some (corpus_run cfg ops)) i = Inr (e, retained, c)" by (cases r) auto
  obtain es d where d: "consider_all c inputs = (es, d)" by fastforce
  from consider_all_config [OF d] have config: "1 \<le> cc_min_new_states (cp_config d)"
    using consider_config [OF r] corpus_run_ok [of cfg ops] by (simp add: corpus_ok_def)
  have "ms_key ` set (in_states i) \<subseteq> cp_coverage c" and valid: "input_valid i"
    using consider_cases [OF r] by (auto simp: covers_def split: if_splits)
  then have covered: "ms_key ` set (in_states i) \<subseteq> cp_coverage d" using consider_all_coverage [OF d] by auto
  obtain e' retained' c' where r': "corpus_consider (Some d) i = Inr (e', retained', c')"
    using valid consider_Inl_iff [of d i] by (cases "corpus_consider (Some d) i") auto
  from covered have none: "ms_key ` set (in_states i) - cp_coverage d = {}" by auto
  have "set (en_new_states e') = {}" using consider_cases [OF r'] none by (simp add: unseen_keys_set)
  moreover have "\<not> novel d i" unfolding novel_def none using config by simp
  ultimately have "\<not> retained'" "en_new_states e' = []" using consider_cases [OF r'] by simp_all
  then show ?thesis by (simp add: r d r')
qed simp

end
