(* ===== verification/Mutation.thy ===== *)
theory Mutation
  imports Corpus "HOL-Library.Monad_Syntax"
begin

text \<open>
  internal/mutation/random.go: the random mutation of a plan that has been executed. A function that can
  panic returns an option, None being the panic, and threads the state of the random generator.

  math/rand: a generator is a state and a function \<open>draw\<close> that gives an arbitrary number and the next
  state; \<open>Intn\<close> and \<open>Int63n\<close> panic for a bound that is not positive and otherwise return a number below
  it. Which one is left to \<open>draw\<close>, so the lemmas hold for every sequence of random numbers.
\<close>

section \<open>Random numbers\<close>

definition intn :: "('g \<Rightarrow> nat \<times> 'g) \<Rightarrow> int \<Rightarrow> 'g \<Rightarrow> (nat \<times> 'g) option" where
  "intn draw n g = (if n \<le> 0 then None else let (v, g') = draw g in Some (v mod nat n, g'))"

section \<open>Configuration\<close>

record mutation_config =
  mc_node_ids :: "node_id list"
  mc_max_value :: int
  mc_max_ticks :: u64
  mc_max_actions :: int
  mc_max_crashed :: int
  mc_cooldown :: int
  mc_max_episodes :: int
  mc_pair_percent :: int

fun check_node_ids :: "node_id list \<Rightarrow> node_id set \<Rightarrow> go_error option" where
  "check_node_ids [] seen = None"
| "check_node_ids (n # ns) seen =
     (if \<not> node_id_valid n
      then Some (plain_error (''random mutation contains invalid node '' @ format_uint n))
      else if n \<in> seen
      then Some (plain_error (''random mutation contains duplicate node '' @ format_uint n))
      else check_node_ids ns (insert n seen))"

text \<open>\<open>NewRandom\<close>; the mutator is its configuration.\<close>

definition new_random_mutation :: "mutation_config \<Rightarrow> go_error + mutation_config" where
  "new_random_mutation c0 =
     (if length (mc_node_ids c0) < 2 then Inl (plain_error ''random mutation needs at least two nodes'')
      else case check_node_ids (mc_node_ids c0) {} of
        Some e \<Rightarrow> Inl e
      | None \<Rightarrow>
          if mc_max_value c0 \<le> 0 \<or> mc_max_ticks c0 = 0 \<or> mc_max_ticks c0 > 2 ^ 63 - 1 \<or> mc_max_actions c0 \<le> 0
          then Inl (plain_error ''random mutation bounds must be positive'')
          else
            let c = c0\<lparr>mc_max_crashed := (if mc_max_crashed c0 = 0 then 1 else mc_max_crashed c0),
                       mc_max_episodes := (if mc_max_episodes c0 = 0 then 4 else mc_max_episodes c0)\<rparr> in
            if mc_max_crashed c < 0 \<or> mc_max_crashed c \<ge> int (length (mc_node_ids c))
            then Inl (plain_error (''random mutation MaxCrashed must be in 1..'' @
                   show_int (int (length (mc_node_ids c)) - 1)))
            else if mc_cooldown c < 0 \<or> mc_max_episodes c \<le> 0 \<or> mc_pair_percent c < 0 \<or> mc_pair_percent c > 100
            then Inl (plain_error ''random mutation lifecycle bounds are invalid'')
            else Inr c)"

section \<open>Random choices\<close>

definition random_node :: "('g \<Rightarrow> nat \<times> 'g) \<Rightarrow> mutation_config \<Rightarrow> 'g \<Rightarrow> (node_id \<times> 'g) option" where
  "random_node draw c g =
     do { (i, g) \<leftarrow> intn draw (int (length (mc_node_ids c))) g; Some (mc_node_ids c ! i, g) }"

fun node_except_loop ::
  "('g \<Rightarrow> nat \<times> 'g) \<Rightarrow> mutation_config \<Rightarrow> node_id \<Rightarrow> nat \<Rightarrow> 'g \<Rightarrow> (node_id \<times> 'g) option" where
  "node_except_loop draw c excluded 0 g = Some (excluded, g)"
| "node_except_loop draw c excluded (Suc attempts) g =
     do { (node, g) \<leftarrow> random_node draw c g;
          if node \<noteq> excluded then Some (node, g) else node_except_loop draw c excluded attempts g }"

definition random_node_except ::
  "('g \<Rightarrow> nat \<times> 'g) \<Rightarrow> mutation_config \<Rightarrow> node_id \<Rightarrow> 'g \<Rightarrow> (node_id \<times> 'g) option" where
  "random_node_except draw c excluded g = node_except_loop draw c excluded (length (mc_node_ids c) * 2) g"

definition random_link :: "('g \<Rightarrow> nat \<times> 'g) \<Rightarrow> mutation_config \<Rightarrow> 'g \<Rightarrow> (link_id \<times> 'g) option" where
  "random_link draw c g =
     do { (from, g) \<leftarrow> random_node draw c g;
          (to, g) \<leftarrow> random_node_except draw c from g;
          Some (LinkID from to, g) }"

definition empty_plan_action :: "plan_kind \<Rightarrow> plan_action" where
  "empty_plan_action k = \<lparr>pa_kind = k, pa_node = 0, pa_messages = None, pa_ticks = 0, pa_request = []\<rparr>"

definition random_ticks :: "('g \<Rightarrow> nat \<times> 'g) \<Rightarrow> mutation_config \<Rightarrow> 'g \<Rightarrow> (u64 \<times> 'g) option" where
  "random_ticks draw c g = do { (n, g) \<leftarrow> intn draw (sint (mc_max_ticks c)) g; Some (1 + of_nat n, g) }"

definition random_request :: "('g \<Rightarrow> nat \<times> 'g) \<Rightarrow> mutation_config \<Rightarrow> 'g \<Rightarrow> (string \<times> 'g) option" where
  "random_request draw c g = do { (n, g) \<leftarrow> intn draw (mc_max_value c) g; Some (show_nat (1 + n), g) }"

definition random_action :: "('g \<Rightarrow> nat \<times> 'g) \<Rightarrow> mutation_config \<Rightarrow> 'g \<Rightarrow> (plan_action \<times> 'g) option" where
  "random_action draw c g =
     do { (k, g) \<leftarrow> intn draw 10 g;
          if k = 0 then
            do { (node, g) \<leftarrow> random_node draw c g; Some ((empty_plan_action PlanTimeout)\<lparr>pa_node := node\<rparr>, g) }
          else if k \<in> {1, 2} then
            do { (ticks, g) \<leftarrow> random_ticks draw c g;
                 Some ((empty_plan_action PlanAdvanceTicks)\<lparr>pa_ticks := ticks\<rparr>, g) }
          else if k \<in> {3, 4, 5} then
            do { (node, g) \<leftarrow> random_node draw c g;
                 (request, g) \<leftarrow> random_request draw c g;
                 Some ((empty_plan_action PlanRequest)\<lparr>pa_node := node, pa_request := request\<rparr>, g) }
          else
            do { (link, g) \<leftarrow> random_link draw c g;
                 Some ((empty_plan_action PlanDeliver)
                   \<lparr>pa_messages := Some \<lparr>rng_link = link, rng_start = 0, rng_count = 1\<rparr>\<rparr>, g) } }"

section \<open>The lifecycle of a plan\<close>

text \<open>What \<open>validateLifecycle\<close> keeps while it goes through the actions.\<close>

record lifecycle =
  lf_running :: "node_id \<Rightarrow> bool option"
  lf_crashed :: int
  lf_episodes :: int
  lf_last_restart :: int

definition lifecycle_start :: "mutation_config \<Rightarrow> lifecycle" where
  "lifecycle_start c = \<lparr>lf_running = (\<lambda>n. if n \<in> set (mc_node_ids c) then Some True else None),
     lf_crashed = 0, lf_episodes = 0, lf_last_restart = -1\<rparr>"

definition lifecycle_error :: "int \<Rightarrow> string \<Rightarrow> go_error + lifecycle" where
  "lifecycle_error index reason = Inl (plain_error (''action '' @ show_int index @ '' '' @ reason))"

definition lifecycle_step :: "mutation_config \<Rightarrow> int \<Rightarrow> plan_action \<Rightarrow> lifecycle \<Rightarrow> go_error + lifecycle" where
  "lifecycle_step c index a s =
     (case pa_kind a of
        PlanCrash \<Rightarrow>
          if lf_running s (pa_node a) = None
          then lifecycle_error index (''crashes unknown node '' @ format_uint (pa_node a))
          else if lf_running s (pa_node a) = Some False
          then lifecycle_error index (''crashes node '' @ format_uint (pa_node a) @ '' twice'')
          else if lf_crashed s \<ge> mc_max_crashed c
          then lifecycle_error index (''exceeds MaxCrashed '' @ show_int (mc_max_crashed c))
          else if lf_episodes s \<ge> mc_max_episodes c
          then lifecycle_error index (''exceeds MaxCrashEpisodes '' @ show_int (mc_max_episodes c))
          else if lf_last_restart s \<ge> 0 \<and> index - lf_last_restart s - 1 < mc_cooldown c
          then lifecycle_error index (''violates lifecycle cooldown '' @ show_int (mc_cooldown c))
          else Inr (s\<lparr>lf_running := (lf_running s)(pa_node a \<mapsto> False), lf_crashed := lf_crashed s + 1,
                      lf_episodes := lf_episodes s + 1\<rparr>)
      | PlanRestart \<Rightarrow>
          if lf_running s (pa_node a) = None
          then lifecycle_error index (''restarts unknown node '' @ format_uint (pa_node a))
          else if lf_running s (pa_node a) = Some True
          then lifecycle_error index (''restarts running node '' @ format_uint (pa_node a))
          else Inr (s\<lparr>lf_running := (lf_running s)(pa_node a \<mapsto> True), lf_crashed := lf_crashed s - 1,
                      lf_last_restart := index\<rparr>)
      | _ \<Rightarrow> Inr s)"

fun lifecycle_from :: "mutation_config \<Rightarrow> nat \<Rightarrow> plan_action list \<Rightarrow> lifecycle \<Rightarrow> go_error + lifecycle" where
  "lifecycle_from c index [] s = Inr s"
| "lifecycle_from c index (a # as) s =
     (case lifecycle_step c (int index) a s of
        Inl e \<Rightarrow> Inl e
      | Inr s' \<Rightarrow> lifecycle_from c (Suc index) as s')"

definition validate_lifecycle :: "mutation_config \<Rightarrow> plan_action list \<Rightarrow> go_error option" where
  "validate_lifecycle c as =
     (case lifecycle_from c 0 as (lifecycle_start c) of Inl e \<Rightarrow> Some e | Inr _ \<Rightarrow> None)"

section \<open>The operations\<close>

definition perturb_messages ::
  "('g \<Rightarrow> nat \<times> 'g) \<Rightarrow> mutation_config \<Rightarrow> plan_action \<Rightarrow> 'g \<Rightarrow> (plan_action \<times> 'g) option" where
  "perturb_messages draw c a g =
     do { (k, g) \<leftarrow> intn draw 3 g;
          sel \<leftarrow> pa_messages a;
          if k = 0 then
            do { (start, g) \<leftarrow> intn draw 3 g;
                 Some (a\<lparr>pa_messages := Some (sel\<lparr>rng_start := int start\<rparr>)\<rparr>, g) }
          else if k = 1 then
            do { (n, g) \<leftarrow> intn draw 3 g;
                 Some (a\<lparr>pa_messages := Some (sel\<lparr>rng_count := 1 + int n\<rparr>)\<rparr>, g) }
          else
            do { (link, g) \<leftarrow> random_link draw c g;
                 Some (a\<lparr>pa_messages := Some (sel\<lparr>rng_link := link\<rparr>)\<rparr>, g) } }"

definition perturb_node ::
  "('g \<Rightarrow> nat \<times> 'g) \<Rightarrow> mutation_config \<Rightarrow> plan_action \<Rightarrow> 'g \<Rightarrow> (plan_action \<times> 'g) option" where
  "perturb_node draw c a g =
     do { (node, g) \<leftarrow> random_node_except draw c (pa_node a) g; Some (a\<lparr>pa_node := node\<rparr>, g) }"

definition perturb_one ::
  "('g \<Rightarrow> nat \<times> 'g) \<Rightarrow> mutation_config \<Rightarrow> plan_action \<Rightarrow> 'g \<Rightarrow> (plan_action \<times> 'g) option" where
  "perturb_one draw c a g =
     (case pa_kind a of
        PlanDeliver \<Rightarrow> perturb_messages draw c a g
      | PlanDrop \<Rightarrow> perturb_messages draw c a g
      | PlanDuplicate \<Rightarrow> perturb_messages draw c a g
      | PlanAdvanceTicks \<Rightarrow>
          do { (ticks, g) \<leftarrow> random_ticks draw c g; Some (a\<lparr>pa_ticks := ticks\<rparr>, g) }
      | PlanTimeout \<Rightarrow> perturb_node draw c a g
      | PlanCrash \<Rightarrow> perturb_node draw c a g
      | PlanRestart \<Rightarrow> perturb_node draw c a g
      | PlanRequest \<Rightarrow>
          do { (k, g) \<leftarrow> intn draw 2 g;
               if k = 0 then perturb_node draw c a g
               else do { (request, g) \<leftarrow> random_request draw c g; Some (a\<lparr>pa_request := request\<rparr>, g) } }
      | PlanKindOther _ \<Rightarrow> Some (a, g))"

type_synonym 'g operation = "plan_action list \<Rightarrow> 'g \<Rightarrow> (plan_action list \<times> 'g) option"

definition perturb_action :: "('g \<Rightarrow> nat \<times> 'g) \<Rightarrow> mutation_config \<Rightarrow> 'g operation" where
  "perturb_action draw c as g =
     do { (i, g) \<leftarrow> intn draw (int (length as)) g;
          (a, g) \<leftarrow> perturb_one draw c (as ! i) g;
          Some (as[i := a], g) }"

definition swap_actions :: "('g \<Rightarrow> nat \<times> 'g) \<Rightarrow> mutation_config \<Rightarrow> 'g operation" where
  "swap_actions draw c as g =
     (if length as < 2 then perturb_action draw c as g
      else do { (first, g) \<leftarrow> intn draw (int (length as)) g;
                (second, g) \<leftarrow> intn draw (int (length as) - 1) g;
                let second = (if second \<ge> first then second + 1 else second) in
                Some (as[first := as ! second, second := as ! first], g) })"

definition delete_action :: "('g \<Rightarrow> nat \<times> 'g) \<Rightarrow> mutation_config \<Rightarrow> 'g operation" where
  "delete_action draw c as g =
     (if length as = 1 then perturb_action draw c as g
      else do { (i, g) \<leftarrow> intn draw (int (length as)) g; Some (take i as @ drop (Suc i) as, g) })"

definition duplicate_action :: "('g \<Rightarrow> nat \<times> 'g) \<Rightarrow> mutation_config \<Rightarrow> 'g operation" where
  "duplicate_action draw c as g =
     (if int (length as) \<ge> mc_max_actions c then perturb_action draw c as g
      else do { (i, g) \<leftarrow> intn draw (int (length as)) g;
                Some (take (Suc i) as @ [as ! i] @ drop (Suc i) as, g) })"

definition insert_action :: "('g \<Rightarrow> nat \<times> 'g) \<Rightarrow> mutation_config \<Rightarrow> 'g operation" where
  "insert_action draw c as g =
     (if int (length as) \<ge> mc_max_actions c then perturb_action draw c as g
      else do { (a, g) \<leftarrow> random_action draw c g;
                (i, g) \<leftarrow> intn draw (int (length as) + 1) g;
                Some (take i as @ [a] @ drop i as, g) })"

section \<open>A crash and a restart around existing actions\<close>

definition insert_lifecycle_pair :: "plan_action list \<Rightarrow> node_id \<Rightarrow> nat \<Rightarrow> nat \<Rightarrow> plan_action list" where
  "insert_lifecycle_pair as node start stop =
     take start as @ [(empty_plan_action PlanCrash)\<lparr>pa_node := node\<rparr>] @ drop start (take stop as) @
     [(empty_plan_action PlanRestart)\<lparr>pa_node := node\<rparr>] @ drop stop as"

text \<open>The sampled windows; Some of the new actions when one of them is valid.\<close>

fun pair_attempts ::
  "('g \<Rightarrow> nat \<times> 'g) \<Rightarrow> mutation_config \<Rightarrow> plan_action list \<Rightarrow> nat \<Rightarrow> 'g \<Rightarrow> (plan_action list option \<times> 'g) option" where
  "pair_attempts draw c as 0 g = Some (None, g)"
| "pair_attempts draw c as (Suc attempts) g =
     do { (node, g) \<leftarrow> random_node draw c g;
          (start, g) \<leftarrow> intn draw (int (length as)) g;
          (width, g) \<leftarrow> intn draw (int (length as - start)) g;
          let candidate = insert_lifecycle_pair as node start (start + 1 + width) in
          if validate_lifecycle c candidate = None then Some (Some candidate, g)
          else pair_attempts draw c as attempts g }"

text \<open>The windows of one action, in the order of the two loops.\<close>

fun first_window :: "mutation_config \<Rightarrow> plan_action list \<Rightarrow> (node_id \<times> nat) list \<Rightarrow> plan_action list option" where
  "first_window c as [] = None"
| "first_window c as ((node, start) # windows) =
     (let candidate = insert_lifecycle_pair as node start (start + 1) in
      if validate_lifecycle c candidate = None then Some candidate else first_window c as windows)"

definition insert_crash_restart_pair ::
  "('g \<Rightarrow> nat \<times> 'g) \<Rightarrow> mutation_config \<Rightarrow> plan_action list \<Rightarrow> 'g \<Rightarrow> (plan_action list option \<times> 'g) option" where
  "insert_crash_restart_pair draw c as g =
     (if int (length as) + 2 > mc_max_actions c \<or> as = [] then Some (None, g)
      else do { (found, g) \<leftarrow> pair_attempts draw c as 64 g;
                case found of
                  Some candidate \<Rightarrow> Some (Some candidate, g)
                | None \<Rightarrow> Some (first_window c as (List.product (mc_node_ids c) [0..<length as]), g) })"

section \<open>Mutating a plan\<close>

record mutation_request =
  mr_entry :: corpus_entry
  mr_count :: int
  mr_seed :: int

text \<open>One candidate, with the name of the operation that made it.\<close>

definition mutate_once ::
  "('g \<Rightarrow> nat \<times> 'g) \<Rightarrow> mutation_config \<Rightarrow> plan_action list \<Rightarrow> 'g \<Rightarrow> ((plan_action list \<times> string) \<times> 'g) option" where
  "mutate_once draw c as g =
     do { (operation, g) \<leftarrow> intn draw 5 g;
          (percent, g) \<leftarrow> intn draw 100 g;
          if int percent < mc_pair_percent c then
            do { (found, g) \<leftarrow> insert_crash_restart_pair draw c as g;
                 case found of
                   Some candidate \<Rightarrow> Some ((candidate, ''crash_restart_pair''), g)
                 | None \<Rightarrow> do { (as', g) \<leftarrow> perturb_action draw c as g; Some ((as', ''perturb''), g) } }
          else if operation = 0 then do { (as', g) \<leftarrow> swap_actions draw c as g; Some ((as', ''swap''), g) }
          else if operation = 1 then do { (as', g) \<leftarrow> perturb_action draw c as g; Some ((as', ''perturb''), g) }
          else if operation = 2 then do { (as', g) \<leftarrow> delete_action draw c as g; Some ((as', ''delete''), g) }
          else if operation = 3 then do { (as', g) \<leftarrow> duplicate_action draw c as g; Some ((as', ''duplicate''), g) }
          else do { (as', g) \<leftarrow> insert_action draw c as g; Some ((as', ''insert''), g) } }"

definition mutation_metadata :: "mutation_request \<Rightarrow> string \<Rightarrow> string_map" where
  "mutation_metadata r operation =
     [(''source'', ''random_mutation''), (''parent_id'', en_id (mr_entry r)),
      (''mutation_seed'', show_int (mr_seed r)), (''mutation_operation'', operation)]"

text \<open>The check of the context before attempt \<open>i\<close> is \<open>ctx i\<close>, the digest of a plan is \<open>digest\<close>.\<close>

fun mutate_loop ::
  "('g \<Rightarrow> nat \<times> 'g) \<Rightarrow> (plan_action list \<Rightarrow> string) \<Rightarrow> (nat \<Rightarrow> go_error option) \<Rightarrow> mutation_config \<Rightarrow>
   mutation_request \<Rightarrow> nat \<Rightarrow> nat \<Rightarrow> string set \<Rightarrow> plan_sequence list \<Rightarrow> 'g \<Rightarrow>
   (plan_sequence list \<times> go_error option) option" where
  "mutate_loop draw digest ctx c r 0 attempt seen result g = Some (result, None)"
| "mutate_loop draw digest ctx c r (Suc remaining) attempt seen result g =
     (if int (length result) \<ge> mr_count r then Some (result, None)
      else case ctx attempt of
        Some e \<Rightarrow> Some (result, Some e)
      | None \<Rightarrow>
          do { ((as, operation), g) \<leftarrow> mutate_once draw c (ps_actions (en_plan (mr_entry r))) g;
               if as = [] \<or> int (length as) > mc_max_actions c
                 \<or> plan_sequence_validate \<lparr>ps_actions = as, ps_metadata = []\<rparr> \<noteq> None
                 \<or> validate_lifecycle c as \<noteq> None \<or> digest as \<in> seen
               then mutate_loop draw digest ctx c r remaining (Suc attempt) seen result g
               else mutate_loop draw digest ctx c r remaining (Suc attempt) (insert (digest as) seen)
                      (result @ [\<lparr>ps_actions = as, ps_metadata = mutation_metadata r operation\<rparr>]) g })"

definition mutate ::
  "(int \<Rightarrow> 'g) \<Rightarrow> ('g \<Rightarrow> nat \<times> 'g) \<Rightarrow> (plan_action list \<Rightarrow> string) \<Rightarrow> (nat \<Rightarrow> go_error option) \<Rightarrow>
   mutation_config option \<Rightarrow> mutation_request \<Rightarrow> (plan_sequence list \<times> go_error option) option" where
  "mutate seeded draw digest ctx receiver r =
     (let p = en_plan (mr_entry r) in
      case receiver of
        None \<Rightarrow> Some ([], Some (plain_error ''random mutator is nil''))
      | Some c \<Rightarrow>
          if mr_count r \<le> 0 then Some ([], Some (plain_error ''mutation count must be positive''))
          else case plan_sequence_validate p of
            Some e \<Rightarrow> Some ([], Some (wrap_text ''invalid parent plan'' e))
          | None \<Rightarrow>
              if ps_actions p = [] then Some ([], Some (plain_error ''cannot mutate an empty plan''))
              else
                do { (result, err) \<leftarrow> mutate_loop draw digest ctx c r (nat (wrap64 (mr_count r * 32))) 0
                       {digest (ps_actions p)} [] (seeded (mr_seed r));
                     case err of
                       Some e \<Rightarrow> Some (result, Some e)
                     | None \<Rightarrow>
                         if result = [] then Some ([], Some (plain_error ''could not produce a distinct valid mutation''))
                         else Some (result, None) })"

section \<open>No panic, and valid candidates\<close>

text \<open>\<open>gives r P\<close>: the computation does not panic and its value satisfies \<open>P\<close>.\<close>

definition gives :: "('a \<times> 'g) option \<Rightarrow> ('a \<Rightarrow> bool) \<Rightarrow> bool" where
  "gives r P \<longleftrightarrow> (\<exists>x g. r = Some (x, g) \<and> P x)"

named_theorems gives_intros \<open>rules for the steps of a random computation\<close>

lemma gives_Some [gives_intros]: "P x \<Longrightarrow> gives (Some (x, g)) P"
  by (simp add: gives_def)

lemma gives_if [gives_intros]: "(b \<Longrightarrow> gives r P) \<Longrightarrow> (\<not> b \<Longrightarrow> gives r' P) \<Longrightarrow> gives (if b then r else r') P"
  by simp

lemma gives_bind: "gives r P \<Longrightarrow> (\<And>x g. P x \<Longrightarrow> gives (f x g) Q) \<Longrightarrow> gives (Option.bind r (\<lambda>(x, g). f x g)) Q"
  by (fastforce simp: gives_def)

lemma gives_weaken: "gives r P \<Longrightarrow> (\<And>x. P x \<Longrightarrow> Q x) \<Longrightarrow> gives r Q"
  by (auto simp: gives_def)

lemma intn_gives: "0 < n \<Longrightarrow> gives (intn draw n g) (\<lambda>i. int i < n)"
  by (simp add: gives_def intn_def of_nat_mod split: prod.split)

lemmas bind_intn [gives_intros] = gives_bind [OF intn_gives]

text \<open>What \<open>NewRandom\<close> guarantees, and plans that validate.\<close>

definition mutation_config_ok :: "mutation_config \<Rightarrow> bool" where
  "mutation_config_ok c \<longleftrightarrow>
     2 \<le> length (mc_node_ids c) \<and> distinct (mc_node_ids c) \<and> 0 \<notin> set (mc_node_ids c) \<and> 0 < mc_max_value c \<and>
     0 < mc_max_ticks c \<and> mc_max_ticks c \<le> 2 ^ 63 - 1 \<and> 0 < mc_max_actions c \<and>
     0 < mc_max_crashed c \<and> mc_max_crashed c < int (length (mc_node_ids c)) \<and> 0 \<le> mc_cooldown c \<and>
     0 < mc_max_episodes c \<and> 0 \<le> mc_pair_percent c \<and> mc_pair_percent c \<le> 100"

lemma check_node_ids_None:
  "check_node_ids ns seen = None \<longleftrightarrow> distinct ns \<and> 0 \<notin> set ns \<and> set ns \<inter> seen = {}"
  by (induction ns arbitrary: seen) auto

lemma new_random_mutation_ok: "new_random_mutation c0 = Inr c \<Longrightarrow> mutation_config_ok c"
  by (auto simp: new_random_mutation_def mutation_config_ok_def check_node_ids_None Let_def word_gt_0
      split: if_splits option.splits)

definition plan_valid :: "plan_action list \<Rightarrow> bool" where
  "plan_valid as \<longleftrightarrow> (\<forall>a \<in> set as. plan_action_validate a = None)"

lemma plan_sequence_validate_from_None: "plan_sequence_validate_from i as = None \<longleftrightarrow> plan_valid as"
  by (induction as arbitrary: i) (auto simp: plan_valid_def split: option.split)

lemma plan_sequence_validate_None [validate_simps]: "plan_sequence_validate p = None \<longleftrightarrow> plan_valid (ps_actions p)"
  by (simp add: plan_sequence_validate_def plan_sequence_validate_from_None)

lemma random_node_gives: "mutation_config_ok c \<Longrightarrow> gives (random_node draw c g) (\<lambda>n. n \<noteq> 0)"
  unfolding random_node_def by (intro gives_intros) (auto simp: mutation_config_ok_def dest: nth_mem)

lemmas bind_random_node [gives_intros] = gives_bind [OF random_node_gives]

lemma node_except_gives:
  assumes "mutation_config_ok c" and "n \<noteq> 0"
  shows "gives (random_node_except draw c n g) (\<lambda>m. m \<noteq> 0)"
proof -
  have "gives (node_except_loop draw c n k g) (\<lambda>m. m \<noteq> 0)" for k
  proof (induction k arbitrary: g)
    case (Suc k)
    show ?case unfolding node_except_loop.simps by (intro gives_intros assms(1) Suc)
  qed (simp add: gives_def assms(2))
  then show ?thesis by (simp add: random_node_except_def)
qed

lemmas bind_node_except [gives_intros] = gives_bind [OF node_except_gives]

lemma random_link_gives:
  "mutation_config_ok c \<Longrightarrow> gives (random_link draw c g) (\<lambda>l. link_from l \<noteq> 0 \<and> link_to l \<noteq> 0)"
  unfolding random_link_def by (intro gives_intros) auto

lemmas bind_random_link [gives_intros] = gives_bind [OF random_link_gives]

lemma random_ticks_gives: "mutation_config_ok c \<Longrightarrow> gives (random_ticks draw c g) (\<lambda>t. t \<noteq> 0)"
proof -
  assume ok: "mutation_config_ok c"
  then have bound: "unat (mc_max_ticks c) \<le> 2 ^ 63 - 1" "0 < unat (mc_max_ticks c)"
    by (auto simp: mutation_config_ok_def word_le_nat_alt word_less_nat_alt unat_sub_if_size)
  then have "unat (mc_max_ticks c) < 2 ^ 63" by simp
  then have "int (unat (mc_max_ticks c)) < 2 ^ 63" by (metis of_nat_less_numeral_power_cancel_iff)
  then have "uint (mc_max_ticks c) < 2 ^ 63" by (simp only: of_nat_unat)
  then have ticks: "sint (mc_max_ticks c) = int (unat (mc_max_ticks c))"
    using signed_take_bit_int_eq_self [of 63 "uint (mc_max_ticks c)"] uint_ge_0 [of "mc_max_ticks c"]
    by (simp add: sint_uint)
  have "1 + (of_nat n :: u64) \<noteq> 0" if "int n < sint (mc_max_ticks c)" for n
  proof -
    have "n < 2 ^ 63 - 1" using that bound unfolding ticks by linarith
    then have "unat (1 + of_nat n :: u64) = 1 + n" by (simp add: unat_word_ariths unat_of_nat)
    then show ?thesis by (metis One_nat_def add_is_0 nat.simps(3) unat_0)
  qed
  moreover have "0 < sint (mc_max_ticks c)" using bound unfolding ticks by linarith
  ultimately show ?thesis unfolding random_ticks_def by (intro gives_intros)
qed

lemmas bind_random_ticks [gives_intros] = gives_bind [OF random_ticks_gives]

lemma random_request_gives: "mutation_config_ok c \<Longrightarrow> gives (random_request draw c g) (\<lambda>s. s \<noteq> [])"
  unfolding random_request_def by (intro gives_intros) (simp_all add: mutation_config_ok_def)

lemmas bind_random_request [gives_intros] = gives_bind [OF random_request_gives]

lemma empty_plan_action_sel [simp]:
  "pa_kind (empty_plan_action k) = k" "pa_node (empty_plan_action k) = 0" "pa_messages (empty_plan_action k) = None"
  "pa_ticks (empty_plan_action k) = 0" "pa_request (empty_plan_action k) = []"
  by (simp_all add: empty_plan_action_def)

lemma random_action_gives:
  assumes "mutation_config_ok c"
  shows "gives (random_action draw c g) (\<lambda>a. plan_action_validate a = None)"
  unfolding random_action_def
  by (intro gives_intros assms) (simp_all add: plan_action_validate_None range_validate_def)

lemmas bind_random_action [gives_intros] = gives_bind [OF random_action_gives]

lemma perturb_messages_gives:
  assumes "mutation_config_ok c" and "pa_messages a = Some s" and "range_validate s = None"
  shows "gives (perturb_messages draw c a g)
    (\<lambda>b. \<exists>s'. b = a\<lparr>pa_messages := Some s'\<rparr> \<and> range_validate s' = None)"
  unfolding perturb_messages_def assms(2) bind.simps
  by (intro gives_intros assms(1)) (use assms(3) in \<open>auto simp: range_validate_None\<close>)

lemma perturb_node_gives:
  assumes "mutation_config_ok c" and "pa_node a \<noteq> 0"
  shows "gives (perturb_node draw c a g) (\<lambda>b. \<exists>n. n \<noteq> 0 \<and> b = a\<lparr>pa_node := n\<rparr>)"
  unfolding perturb_node_def by (intro gives_intros assms) auto

lemma perturb_one_gives:
  assumes c: "mutation_config_ok c" and a: "plan_action_validate a = None"
  shows "gives (perturb_one draw c a g) (\<lambda>b. plan_action_validate b = None)"
proof -
  have messages: "gives (perturb_messages draw c a g) (\<lambda>b. plan_action_validate b = None)"
    if kind: "is_plan_message_kind (pa_kind a)"
  proof -
    obtain s where "pa_messages a = Some s" "range_validate s = None"
      using a kind by (cases "pa_kind a") (auto simp: plan_action_validate_None is_plan_message_kind_def)
    from perturb_messages_gives [OF c this] show ?thesis
      by (rule gives_weaken) (use a kind in \<open>auto simp: plan_action_validate_None is_plan_message_kind_def\<close>)
  qed
  have node: "gives (perturb_node draw c a g) (\<lambda>b. plan_action_validate b = None)"
    if "pa_kind a \<in> {PlanTimeout, PlanCrash, PlanRestart, PlanRequest}" for g
  proof -
    have "pa_node a \<noteq> 0" using a that by (auto simp: plan_action_validate_None)
    from perturb_node_gives [OF c this] show ?thesis
      by (rule gives_weaken) (use a that in \<open>auto simp: plan_action_validate_None\<close>)
  qed
  show ?thesis
  proof (cases "pa_kind a")
    case PlanAdvanceTicks
    then show ?thesis unfolding perturb_one_def plan_kind.case
      by (simp only: plan_kind.case, intro gives_intros c) (use a in \<open>auto simp: plan_action_validate_None\<close>)
  next
    case PlanRequest
    then show ?thesis unfolding perturb_one_def
      by (simp only: plan_kind.case, intro gives_intros c node)
        (use a in \<open>auto simp: plan_action_validate_None\<close>)
  next
    case (PlanKindOther k)
    with a show ?thesis by (simp add: plan_action_validate_None)
  qed (use messages node in \<open>simp_all add: perturb_one_def is_plan_message_kind_def\<close>)
qed

lemmas bind_perturb_one [gives_intros] = gives_bind [OF perturb_one_gives]

section \<open>Every operation keeps a plan valid\<close>

definition keeps_valid :: "'g operation \<Rightarrow> bool" where
  "keeps_valid f \<longleftrightarrow> (\<forall>as g. plan_valid as \<longrightarrow> as \<noteq> [] \<longrightarrow> gives (f as g) plan_valid)"

lemma plan_valid_append [simp]: "plan_valid (as @ bs) \<longleftrightarrow> plan_valid as \<and> plan_valid bs"
  by (auto simp: plan_valid_def)

lemma plan_valid_Cons [simp]: "plan_valid (a # as) \<longleftrightarrow> plan_action_validate a = None \<and> plan_valid as"
  by (simp add: plan_valid_def)

lemma plan_valid_Nil [simp]: "plan_valid []"
  by (simp add: plan_valid_def)

lemma plan_valid_sub: "plan_valid as \<Longrightarrow> set bs \<subseteq> set as \<Longrightarrow> plan_valid bs"
  by (auto simp: plan_valid_def)

lemma plan_valid_nth: "plan_valid as \<Longrightarrow> i < length as \<Longrightarrow> plan_action_validate (as ! i) = None"
  by (simp add: plan_valid_def)

lemma plan_valid_update: "plan_valid as \<Longrightarrow> plan_action_validate a = None \<Longrightarrow> plan_valid (as[i := a])"
  using set_update_subset_insert [of as i a] by (auto simp: plan_valid_def)

lemma plan_valid_take_drop [simp]: "plan_valid as \<Longrightarrow> plan_valid (take n as)" "plan_valid as \<Longrightarrow> plan_valid (drop n as)"
  by (auto simp: plan_valid_def dest: in_set_takeD in_set_dropD)

lemma perturb_action_valid:
  assumes "mutation_config_ok c"
  shows "keeps_valid (perturb_action draw c)"
  unfolding keeps_valid_def perturb_action_def
  by (intro allI impI gives_intros assms) (auto intro: plan_valid_nth plan_valid_update)

lemma swap_actions_valid:
  assumes "mutation_config_ok c"
  shows "keeps_valid (swap_actions draw c)"
  using perturb_action_valid [OF assms, of draw] unfolding keeps_valid_def swap_actions_def Let_def
  by (intro allI impI gives_intros) (auto intro!: plan_valid_update plan_valid_nth)

lemma delete_action_valid:
  assumes "mutation_config_ok c"
  shows "keeps_valid (delete_action draw c)"
  using perturb_action_valid [OF assms, of draw] unfolding keeps_valid_def delete_action_def
  by (intro allI impI gives_intros) auto

lemma duplicate_action_valid:
  assumes "mutation_config_ok c"
  shows "keeps_valid (duplicate_action draw c)"
  using perturb_action_valid [OF assms, of draw] unfolding keeps_valid_def duplicate_action_def
  by (intro allI impI gives_intros) (auto intro: plan_valid_nth)

lemma insert_action_valid:
  assumes "mutation_config_ok c"
  shows "keeps_valid (insert_action draw c)"
  using perturb_action_valid [OF assms, of draw] unfolding keeps_valid_def insert_action_def
  by (intro allI impI gives_intros assms) auto

section \<open>What a valid lifecycle is\<close>

text \<open>The declarative reading of \<open>validateLifecycle\<close>: a node is down when its last crash or restart is a
  crash, and each crash and restart is allowed by the actions before it.\<close>

definition node_down :: "plan_action list \<Rightarrow> node_id \<Rightarrow> bool" where
  "node_down past n \<longleftrightarrow>
     last (PlanRestart # map pa_kind (filter (\<lambda>a. pa_node a = n \<and> pa_kind a \<in> {PlanCrash, PlanRestart}) past)) = PlanCrash"

definition lifecycle_allowed :: "mutation_config \<Rightarrow> plan_action list \<Rightarrow> plan_action \<Rightarrow> bool" where
  "lifecycle_allowed c past a =
     (case pa_kind a of
        PlanCrash \<Rightarrow>
          pa_node a \<in> set (mc_node_ids c) \<and> \<not> node_down past (pa_node a) \<and>
          int (length (filter (node_down past) (mc_node_ids c))) < mc_max_crashed c \<and>
          int (length (filter (\<lambda>b. pa_kind b = PlanCrash) past)) < mc_max_episodes c \<and>
          (\<forall>j < length past. pa_kind (past ! j) = PlanRestart \<longrightarrow> int (length past) - int j - 1 \<ge> mc_cooldown c)
      | PlanRestart \<Rightarrow> pa_node a \<in> set (mc_node_ids c) \<and> node_down past (pa_node a)
      | _ \<Rightarrow> True)"

definition lifecycle_ok :: "mutation_config \<Rightarrow> plan_action list \<Rightarrow> bool" where
  "lifecycle_ok c as \<longleftrightarrow> (\<forall>i < length as. lifecycle_allowed c (take i as) (as ! i))"

lemma node_down_snoc [simp]:
  "node_down (past @ [a]) n \<longleftrightarrow>
     (if pa_node a = n \<and> pa_kind a \<in> {PlanCrash, PlanRestart} then pa_kind a = PlanCrash else node_down past n)"
  by (auto simp: node_down_def)

lemma node_down_Nil [simp]: "\<not> node_down [] n"
  by (simp add: node_down_def)

text \<open>The counters of the validator describe the actions so far.\<close>

definition describes :: "mutation_config \<Rightarrow> plan_action list \<Rightarrow> lifecycle \<Rightarrow> bool" where
  "describes c past s \<longleftrightarrow>
     lf_running s = (\<lambda>n. if n \<in> set (mc_node_ids c) then Some (\<not> node_down past n) else None) \<and>
     lf_crashed s = int (length (filter (node_down past) (mc_node_ids c))) \<and>
     lf_episodes s = int (length (filter (\<lambda>b. pa_kind b = PlanCrash) past)) \<and>
     (\<forall>j < length past. pa_kind (past ! j) = PlanRestart \<longrightarrow> int j \<le> lf_last_restart s) \<and>
     (lf_last_restart s = -1 \<or>
        (\<exists>j < length past. int j = lf_last_restart s \<and> pa_kind (past ! j) = PlanRestart))"

lemma describes_start: "describes c [] (lifecycle_start c)"
  by (auto simp: describes_def lifecycle_start_def)

lemma length_filter_insert:
  assumes "distinct xs" and "x \<in> set xs" and "\<not> P x"
  shows "length (filter (\<lambda>y. y = x \<or> P y) xs) = Suc (length (filter P xs))"
proof -
  have "set (filter (\<lambda>y. y = x \<or> P y) xs) = insert x (set (filter P xs))" "x \<notin> set (filter P xs)"
    using assms(2,3) by auto
  then show ?thesis using assms(1) by (metis List.finite_set card_insert_disjoint distinct_card distinct_filter)
qed

lemma cooldown_iff:
  assumes "describes c past s"
  shows "(\<forall>j < length past. pa_kind (past ! j) = PlanRestart \<longrightarrow> int (length past) - int j - 1 \<ge> mc_cooldown c) \<longleftrightarrow>
    \<not> (0 \<le> lf_last_restart s \<and> int (length past) - lf_last_restart s - 1 < mc_cooldown c)"
proof
  assume far: "\<forall>j < length past. pa_kind (past ! j) = PlanRestart \<longrightarrow> int (length past) - int j - 1 \<ge> mc_cooldown c"
  show "\<not> (0 \<le> lf_last_restart s \<and> int (length past) - lf_last_restart s - 1 < mc_cooldown c)"
    using assms far unfolding describes_def by force
next
  assume near: "\<not> (0 \<le> lf_last_restart s \<and> int (length past) - lf_last_restart s - 1 < mc_cooldown c)"
  show "\<forall>j < length past. pa_kind (past ! j) = PlanRestart \<longrightarrow> int (length past) - int j - 1 \<ge> mc_cooldown c"
  proof (intro allI impI)
    fix j assume "j < length past" "pa_kind (past ! j) = PlanRestart"
    then have "int j \<le> lf_last_restart s" using assms by (simp add: describes_def)
    with near show "mc_cooldown c \<le> int (length past) - int j - 1" by linarith
  qed
qed

lemma lifecycle_step_exact:
  assumes ids: "distinct (mc_node_ids c)" and rep: "describes c past s"
  shows "case lifecycle_step c (int (length past)) a s of
      Inl e \<Rightarrow> \<not> lifecycle_allowed c past a
    | Inr s' \<Rightarrow> lifecycle_allowed c past a \<and> describes c (past @ [a]) s'"
proof -
  note cooldown = cooldown_iff [OF rep]
  have nth: "j < length (past @ [a]) \<longleftrightarrow> j < length past \<or> j = length past" for j by auto
  consider "pa_kind a = PlanCrash" | "pa_kind a = PlanRestart" | "pa_kind a \<notin> {PlanCrash, PlanRestart}" by blast
  then show ?thesis
  proof cases
    case 1
    show ?thesis
    proof (cases "lifecycle_allowed c past a")
      case True
      then have a: "pa_node a \<in> set (mc_node_ids c)" "\<not> node_down past (pa_node a)"
        by (auto simp: lifecycle_allowed_def 1)
      have "filter (node_down (past @ [a])) (mc_node_ids c) = filter (\<lambda>n. n = pa_node a \<or> node_down past n) (mc_node_ids c)"
        by (intro filter_cong) (auto simp: 1)
      moreover note length_filter_insert [OF ids a(1), of "node_down past", OF a(2)]
      ultimately show ?thesis
        using rep a 1 True cooldown
        by (auto simp: lifecycle_step_def lifecycle_error_def describes_def nth_append nth lifecycle_allowed_def
            fun_eq_iff less_Suc_eq)
    next
      case False
      then show ?thesis
        using rep 1 cooldown by (auto simp: lifecycle_step_def lifecycle_error_def lifecycle_allowed_def describes_def)
    qed
  next
    case 2
    show ?thesis
    proof (cases "lifecycle_allowed c past a")
      case True
      then have a: "pa_node a \<in> set (mc_node_ids c)" "node_down past (pa_node a)"
        by (auto simp: lifecycle_allowed_def 2)
      have "filter (node_down past) (mc_node_ids c) = filter (\<lambda>n. n = pa_node a \<or> node_down (past @ [a]) n) (mc_node_ids c)"
        by (intro filter_cong) (auto simp: 2 a)
      moreover have "\<not> node_down (past @ [a]) (pa_node a)" by (simp add: 2)
      moreover note length_filter_insert [OF ids a(1), of "node_down (past @ [a])"]
      ultimately have "int (length (filter (node_down (past @ [a])) (mc_node_ids c))) = lf_crashed s - 1"
        using rep by (simp add: describes_def)
      then show ?thesis
        using rep a 2 True
        by (auto simp: lifecycle_step_def lifecycle_error_def describes_def nth_append lifecycle_allowed_def
            fun_eq_iff less_Suc_eq)
    next
      case False
      then show ?thesis
        using rep 2 by (auto simp: lifecycle_step_def lifecycle_error_def lifecycle_allowed_def describes_def)
    qed
  next
    case 3
    then have "lifecycle_step c (int (length past)) a s = Inr s" "lifecycle_allowed c past a"
      by (auto simp: lifecycle_step_def lifecycle_allowed_def split: plan_kind.split)
    moreover have "node_down (past @ [a]) = node_down past" using 3 by (auto simp: fun_eq_iff)
    ultimately show ?thesis
      using rep 3 by (auto simp: describes_def nth_append less_Suc_eq)
  qed
qed

lemma lifecycle_from_exact:
  assumes "distinct (mc_node_ids c)" and "describes c past s"
  shows "(\<exists>s'. lifecycle_from c (length past) as s = Inr s') \<longleftrightarrow>
    (\<forall>i < length as. lifecycle_allowed c (past @ take i as) (as ! i))"
  using assms(2)
proof (induction as arbitrary: past s)
  case (Cons a as)
  note step = lifecycle_step_exact [OF assms(1) Cons.prems, of a]
  show ?case
  proof (cases "lifecycle_step c (int (length past)) a s")
    case (Inl e)
    with step show ?thesis by (auto intro!: exI [of _ 0])
  next
    case (Inr s')
    with step have now: "lifecycle_allowed c past a" and after: "describes c (past @ [a]) s'" by auto
    show ?thesis
      using Cons.IH [OF after] Inr now by (auto simp: All_less_Suc2)
  qed
qed simp

lemma validate_lifecycle_exact:
  assumes "distinct (mc_node_ids c)"
  shows "validate_lifecycle c as = None \<longleftrightarrow> lifecycle_ok c as"
  using lifecycle_from_exact [OF assms describes_start, of as]
  by (auto simp: validate_lifecycle_def lifecycle_ok_def split: sum.splits)

text \<open>C39: the lifecycle validator is exact for every configuration the mutator accepts: it accepts a plan
  if and only if every crash hits a running node of the cluster, keeps the nodes that are down at most
  MaxCrashed and the crashes at most MaxCrashEpisodes and comes at least the cooldown after every restart
  before it, and every restart hits a node of the cluster that is down.\<close>
theorem lifecycle_validator_exact:
  "case new_random_mutation c0 of
     Inl _ \<Rightarrow> True
   | Inr c \<Rightarrow> validate_lifecycle c as = None \<longleftrightarrow> lifecycle_ok c as"
  by (auto simp: validate_lifecycle_exact mutation_config_ok_def split: sum.split dest: new_random_mutation_ok)

section \<open>The pair of a crash and a restart\<close>

text \<open>A valid plan that goes around a non-empty stretch of the given one.\<close>

definition wraps :: "mutation_config \<Rightarrow> plan_action list \<Rightarrow> plan_action list \<Rightarrow> bool" where
  "wraps c as bs \<longleftrightarrow> validate_lifecycle c bs = None \<and>
     (\<exists>node start stop. node \<in> set (mc_node_ids c) \<and> start < stop \<and> stop \<le> length as \<and>
        bs = insert_lifecycle_pair as node start stop)"

lemma wrapsI:
  "node \<in> set (mc_node_ids c) \<Longrightarrow> start < stop \<Longrightarrow> stop \<le> length as \<Longrightarrow>
     validate_lifecycle c (insert_lifecycle_pair as node start stop) = None \<Longrightarrow>
     wraps c as (insert_lifecycle_pair as node start stop)"
  by (auto simp: wraps_def)

lemma random_node_member: "mutation_config_ok c \<Longrightarrow> gives (random_node draw c g) (\<lambda>n. n \<in> set (mc_node_ids c))"
  unfolding random_node_def by (intro gives_intros) (auto simp: mutation_config_ok_def)

lemma pair_attempts_gives:
  assumes c: "mutation_config_ok c" and as: "as \<noteq> []"
  shows "gives (pair_attempts draw c as k g) (\<lambda>found. case found of None \<Rightarrow> True | Some bs \<Rightarrow> wraps c as bs)"
proof (induction k arbitrary: g)
  case (Suc k)
  show ?case
    unfolding pair_attempts.simps Let_def
    by (intro gives_bind [OF random_node_member [OF c]] gives_intros Suc)
      (use as in \<open>auto intro: wrapsI\<close>)
qed (simp add: gives_def)

lemma first_window_cases:
  "case first_window c as ws of
     None \<Rightarrow> \<forall>(node, start) \<in> set ws. validate_lifecycle c (insert_lifecycle_pair as node start (start + 1)) \<noteq> None
   | Some bs \<Rightarrow> \<exists>(node, start) \<in> set ws. bs = insert_lifecycle_pair as node start (start + 1) \<and> validate_lifecycle c bs = None"
  by (induction c as ws rule: first_window.induct) (auto simp: Let_def split: option.splits)

definition pair_result :: "mutation_config \<Rightarrow> plan_action list \<Rightarrow> plan_action list option \<Rightarrow> bool" where
  "pair_result c as found \<longleftrightarrow>
     (case found of
        Some bs \<Rightarrow> wraps c as bs
      | None \<Rightarrow> int (length as) + 2 > mc_max_actions c \<or> as = [] \<or>
          (\<forall>node \<in> set (mc_node_ids c). \<forall>start < length as.
             validate_lifecycle c (insert_lifecycle_pair as node start (start + 1)) \<noteq> None))"

lemma insert_pair_gives:
  assumes c: "mutation_config_ok c"
  shows "gives (insert_crash_restart_pair draw c as g) (pair_result c as)"
proof (cases "int (length as) + 2 > mc_max_actions c \<or> as = []")
  case True
  then show ?thesis by (auto simp: insert_crash_restart_pair_def gives_def pair_result_def)
next
  case False
  have windows: "pair_result c as (first_window c as (List.product (mc_node_ids c) [0..<length as]))"
    using first_window_cases [where c = c and as = as and ws = "List.product (mc_node_ids c) [0..<length as]"] False
    by (auto simp: pair_result_def wraps_def split: option.splits) (metis Suc_leI less_Suc_eq)
  show ?thesis
    unfolding insert_crash_restart_pair_def
    by (simp only: False if_False)
      (rule gives_bind [OF pair_attempts_gives [OF c]],
        use False windows in \<open>auto simp: gives_def pair_result_def split: option.splits\<close>)
qed

text \<open>inserting a crash and a restart never panics; what it inserts is a valid lifecycle that crashes
  and restarts one node around at least one action of the plan, and it gives up only when there is no
  room for two more actions or no node can be crashed around any single action.\<close>
theorem crash_restart_pair_complete:
  "case new_random_mutation c0 of
     Inl _ \<Rightarrow> True
   | Inr c \<Rightarrow>
     (case insert_crash_restart_pair draw c as g of
        None \<Rightarrow> False
      | Some (Some bs, _) \<Rightarrow> validate_lifecycle c bs = None \<and>
          (\<exists>node start stop. node \<in> set (mc_node_ids c) \<and> start < stop \<and> stop \<le> length as \<and>
             bs = insert_lifecycle_pair as node start stop)
      | Some (None, _) \<Rightarrow> int (length as) + 2 > mc_max_actions c \<or> as = [] \<or>
          list_all (\<lambda>node. list_all (\<lambda>start.
            validate_lifecycle c (insert_lifecycle_pair as node start (start + 1)) \<noteq> None) [0..<length as])
            (mc_node_ids c))"
proof (cases "new_random_mutation c0")
  case (Inr c)
  obtain found g' where found: "insert_crash_restart_pair draw c as g = Some (found, g')" "pair_result c as found"
    using insert_pair_gives [OF new_random_mutation_ok [OF Inr], of draw as g] by (auto simp: gives_def)
  then show ?thesis
    by (cases found) (auto simp: Inr pair_result_def wraps_def list_all_iff)
qed simp

section \<open>The mutator\<close>

lemma keeps_validD: "keeps_valid f \<Longrightarrow> plan_valid as \<Longrightarrow> as \<noteq> [] \<Longrightarrow> gives (f as g) plan_valid"
  by (simp add: keeps_valid_def)

lemma wraps_valid:
  "mutation_config_ok c \<Longrightarrow> plan_valid as \<Longrightarrow> wraps c as bs \<Longrightarrow> plan_valid bs"
  by (auto simp: wraps_def insert_lifecycle_pair_def plan_action_validate_None mutation_config_ok_def)

lemma named_operation:
  assumes "mutation_config_ok c" and "keeps_valid f" and "plan_valid as" and "as \<noteq> []"
  shows "gives (Option.bind (f as g) (\<lambda>(as', g). Some ((as', name), g))) (\<lambda>(bs, operation). plan_valid bs)"
  by (rule gives_bind [OF keeps_validD [OF assms(2-4)]]) (simp add: gives_Some)

lemma mutate_once_gives:
  assumes c: "mutation_config_ok c" and as: "plan_valid as" "as \<noteq> []"
  shows "gives (mutate_once draw c as g) (\<lambda>(bs, operation). plan_valid bs)"
proof -
  note operations = perturb_action_valid [OF c] swap_actions_valid [OF c] delete_action_valid [OF c]
    duplicate_action_valid [OF c] insert_action_valid [OF c]
  have pair: "gives (case found of
        Some candidate \<Rightarrow> Some ((candidate, ''crash_restart_pair''), g)
      | None \<Rightarrow> Option.bind (perturb_action draw c as g) (\<lambda>(as', g). Some ((as', ''perturb''), g)))
      (\<lambda>(bs, operation). plan_valid bs)" if "pair_result c as found" for found and g :: 'a
    using that wraps_valid [OF c as(1)] named_operation [OF c operations(1) as]
    by (cases found) (auto simp: pair_result_def gives_Some)
  show ?thesis
    unfolding mutate_once_def
    by (intro gives_intros gives_bind [OF insert_pair_gives [OF c]] pair named_operation [OF c _ as] operations) simp_all
qed

text \<open>What the mutator has put together so far.\<close>

definition produced ::
  "(plan_action list \<Rightarrow> string) \<Rightarrow> mutation_config \<Rightarrow> plan_sequence \<Rightarrow> plan_sequence list \<Rightarrow> bool" where
  "produced digest c parent ps \<longleftrightarrow>
     list_all (\<lambda>p. plan_sequence_validate p = None \<and> ps_actions p \<noteq> [] \<and> int (length (ps_actions p)) \<le> mc_max_actions c \<and>
       validate_lifecycle c (ps_actions p) = None) ps \<and>
     distinct (map (digest \<circ> ps_actions) (parent # ps))"

lemma produced_Nil [simp]: "produced digest c parent []"
  by (simp add: produced_def)

lemma produced_snoc:
  "produced digest c parent ps \<Longrightarrow> plan_valid as \<Longrightarrow> as \<noteq> [] \<Longrightarrow> int (length as) \<le> mc_max_actions c \<Longrightarrow>
     validate_lifecycle c as = None \<Longrightarrow> digest as \<notin> set (map (digest \<circ> ps_actions) (parent # ps)) \<Longrightarrow>
     produced digest c parent (ps @ [\<lparr>ps_actions = as, ps_metadata = m\<rparr>])"
  by (auto simp: produced_def plan_sequence_validate_None)

lemma mutate_loop_produces:
  assumes c: "mutation_config_ok c" and p: "plan_valid (ps_actions p)" "ps_actions p \<noteq> []" "p = en_plan (mr_entry r)"
  shows "produced digest c p ps \<Longrightarrow> seen = set (map (digest \<circ> ps_actions) (p # ps)) \<Longrightarrow> int (length ps) \<le> mr_count r \<Longrightarrow>
    \<exists>ps' err. mutate_loop draw digest ctx c r k i seen ps g = Some (ps', err) \<and> produced digest c p ps' \<and>
      int (length ps') \<le> mr_count r"
proof (induction k arbitrary: i seen ps g)
  case (Suc k)
  show ?case
  proof (cases "int (length ps) \<ge> mr_count r \<or> ctx i \<noteq> None")
    case True
    then show ?thesis using Suc.prems by (auto split: option.split)
  next
    case False
    then have room: "\<not> mr_count r \<le> int (length ps)" "ctx i = None" by auto
    obtain as operation g' where once: "mutate_once draw c (ps_actions p) g = Some ((as, operation), g')" "plan_valid as"
      using mutate_once_gives [OF c p(1,2), of draw g] by (fastforce simp: gives_def)
    have valid: "plan_sequence_validate \<lparr>ps_actions = as, ps_metadata = []\<rparr> = None"
      using once(2) by (simp add: plan_sequence_validate_None)
    let ?skip = "as = [] \<or> int (length as) > mc_max_actions c \<or> validate_lifecycle c as \<noteq> None \<or> digest as \<in> seen"
    show ?thesis
    proof (cases ?skip)
      case True
      then show ?thesis using Suc room once(1) valid by (simp add: p(3) [symmetric])
    next
      case False
      let ?ps = "ps @ [\<lparr>ps_actions = as, ps_metadata = mutation_metadata r operation\<rparr>]"
      have "produced digest c p ?ps" using produced_snoc [OF Suc.prems(1) once(2)] False Suc.prems(2) by simp
      moreover have "insert (digest as) seen = set (map (digest \<circ> ps_actions) (p # ?ps))"
        using Suc.prems(2) by auto
      ultimately obtain ps' err where
        "mutate_loop draw digest ctx c r k (Suc i) (insert (digest as) seen) ?ps g' = Some (ps', err)"
        "produced digest c p ps'" "int (length ps') \<le> mr_count r"
        using Suc.IH [of ?ps "insert (digest as) seen" "Suc i" g'] room by fastforce
      then show ?thesis using False room once(1) valid by (simp add: p(3) [symmetric])
    qed
  qed
qed simp


end
