(* ===== verification/Experiment_Report.thy ===== *)
theory Experiment_Report
  imports Metrics Mutation "HOL-Library.List_Lexorder" "HOL-Library.Char_ord"
begin

text \<open>
  internal/experiment: what an experiment records of its runs. The types of runner.go, the digests and
  the novelty of digest.go, and the report: computed from a list of runs at once (\<open>aggregate\<close>, runner.go)
  or run by run by the accumulator of a feedback experiment (aggregation.go), and its projection to
  statistics (statistics.go).

  A \<open>float64\<close> is an exact rational here: the ratios and rates are quotients of counters and are only
  compared with the same quotient. Counters count runs, actions and the like, and do not wrap. A set is
  a Go map to \<open>struct{}\<close>. The digest of a value (SHA-256 of its JSON form, hexadecimal, empty when the
  value cannot be encoded) is a parameter.
\<close>

section \<open>Candidates and runs (runner.go)\<close>

datatype candidate_kind = CandidateInitial | CandidateMutation | CandidatePeriodicRandom | CandidateKindOther string

record candidate =
  cd_id :: string
  cd_parent :: string
  cd_kind :: candidate_kind
  cd_source :: string
  cd_depth :: int
  cd_plan :: "plan_sequence option"

record experiment_config =
  xc_runs :: int
  xc_base_seed :: int
  xc_parallelism :: int
  xc_initial_population :: int
  xc_mutations_per_new_state :: int
  xc_max_mutations_per_corpus :: int
  xc_random_seed_interval :: int
  xc_random_seeds_per_interval :: int
  xc_max_ready_candidates :: int
  xc_min_new_model_states :: int
  xc_semantic_coverage :: bool
  xc_lifecycle_cooldown :: int
  xc_max_crash_episodes :: int
  xc_crash_restart_pair_percent :: int
  xc_crash_weight :: int
  xc_restart_weight :: int

record run =
  rn_completed :: bool
  rn_index :: int
  rn_seed :: int
  rn_status :: engine_status
  rn_error :: string
  rn_succeeded :: bool
  rn_duration_millis :: int
  rn_duration_micros :: int
  rn_actions :: int
  rn_effects :: int
  rn_model_events :: int
  rn_model_states :: int
  rn_oracle_findings :: int
  rn_budget_exhausted :: bool
  rn_state_keys :: "int list"
  rn_candidate_id :: string
  rn_candidate_kind :: candidate_kind
  rn_parent :: string
  rn_source :: string
  rn_depth :: int
  rn_retained :: bool
  rn_corpus_id :: string
  rn_new_state_keys :: "int list"
  rn_new_raw_states :: int
  rn_new_semantic_states :: int
  rn_new_semantic_transitions :: int
  rn_admission :: string
  rn_novelty_per_100 :: rat
  rn_termination :: termination_reason
  rn_termination_code :: string
  rn_termination_detail :: string
  rn_metrics :: "run_metrics option"
  rn_plan_digest :: string
  rn_trace_digest :: string
  rn_path_digest :: string
  rn_new_plan :: bool
  rn_new_trace :: bool
  rn_new_path :: bool

fun engine_status_text :: "engine_status \<Rightarrow> string" where
  "engine_status_text StatusNone = []"
| "engine_status_text StatusCompleted = ''completed''"
| "engine_status_text StatusCanceled = ''canceled''"
| "engine_status_text StatusInvalidPlan = ''invalid_plan''"
| "engine_status_text StatusResolutionFailed = ''resolution_failed''"
| "engine_status_text StatusRuntimeFailed = ''runtime_failed''"
| "engine_status_text StatusMappingFailed = ''mapping_failed''"
| "engine_status_text StatusUnsupported = ''unsupported_by_model''"
| "engine_status_text StatusOracleFailed = ''oracle_failed''"
| "engine_status_text StatusPolicyFailed = ''policy_failed''"
| "engine_status_text StatusModelFailed = ''model_failed''"

fun admission_text :: "admission_reason \<Rightarrow> string" where
  "admission_text NoAdmissionReason = []"
| "admission_text AdmissionRetainedRaw = ''retained_raw''"
| "admission_text AdmissionRetainedSemanticState = ''retained_semantic_state''"
| "admission_text AdmissionRetainedSemanticTransition = ''retained_semantic_transition''"
| "admission_text AdmissionRetainedSemanticStateAndTransition = ''retained_semantic_state_and_transition''"
| "admission_text AdmissionRejectedRawThreshold = ''rejected_raw_threshold''"
| "admission_text AdmissionRejectedNoSemanticNovelty = ''rejected_no_semantic_novelty''"

section \<open>Digests (digest.go)\<close>

datatype digested = DigestActions "plan_action list" | DigestTrace u32 "step_record list" | DigestKeys "int list"

definition digest_plan :: "(digested \<Rightarrow> string) \<Rightarrow> plan_sequence \<Rightarrow> string" where
  "digest_plan digest p = (if ps_actions p = [] then [] else digest (DigestActions (ps_actions p)))"

definition digest_trace :: "(digested \<Rightarrow> string) \<Rightarrow> trace \<Rightarrow> string" where
  "digest_trace digest t = (if tr_version t = 0 then [] else digest (DigestTrace (tr_version t) (tr_steps t)))"

definition digest_state_path :: "(digested \<Rightarrow> string) \<Rightarrow> model_state list \<Rightarrow> string" where
  "digest_state_path digest states = (if states = [] then [] else digest (DigestKeys (map ms_key states)))"

text \<open>\<open>markNew\<close>: whether a digest is new, and the set with it; \<open>remember\<close>.\<close>

definition mark_new :: "string set \<Rightarrow> string \<Rightarrow> bool \<times> string set" where
  "mark_new seen digest =
     (if digest = [] then (False, seen) else if digest \<in> seen then (False, seen) else (True, insert digest seen))"

definition remember :: "string set \<Rightarrow> string \<Rightarrow> string set" where
  "remember seen digest = (if digest \<noteq> [] then insert digest seen else seen)"

section \<open>Summary of a run (runner.go)\<close>

definition count_effects :: "engine_result \<Rightarrow> int" where
  "count_effects r = int (sum_list (map (\<lambda>s. length (sr_effects s)) (tr_steps (er_trace r))))"

definition empty_run :: run where
  "empty_run = \<lparr>rn_completed = False, rn_index = 0, rn_seed = 0, rn_status = StatusNone, rn_error = [],
     rn_succeeded = False, rn_duration_millis = 0, rn_duration_micros = 0, rn_actions = 0, rn_effects = 0,
     rn_model_events = 0, rn_model_states = 0, rn_oracle_findings = 0, rn_budget_exhausted = False,
     rn_state_keys = [], rn_candidate_id = [], rn_candidate_kind = CandidateKindOther [], rn_parent = [],
     rn_source = [], rn_depth = 0, rn_retained = False, rn_corpus_id = [], rn_new_state_keys = [],
     rn_new_raw_states = 0, rn_new_semantic_states = 0, rn_new_semantic_transitions = 0, rn_admission = [],
     rn_novelty_per_100 = 0, rn_termination = TerminationNone, rn_termination_code = [],
     rn_termination_detail = [], rn_metrics = None, rn_plan_digest = [], rn_trace_digest = [],
     rn_path_digest = [], rn_new_plan = False, rn_new_trace = False, rn_new_path = False\<rparr>"

text \<open>The duration is given in microseconds.\<close>

definition summarize_result :: "int \<Rightarrow> int \<Rightarrow> engine_result \<Rightarrow> go_error option \<Rightarrow> int \<Rightarrow> run" where
  "summarize_result index seed r err micros =
     empty_run\<lparr>rn_completed := True, rn_index := index, rn_seed := seed, rn_status := er_status r,
       rn_error := (case err of Some e \<Rightarrow> err_text e | None \<Rightarrow> []),
       rn_succeeded := (err = None \<and> er_status r = StatusCompleted),
       rn_duration_millis := micros div 1000, rn_duration_micros := micros,
       rn_actions := int (length (er_actions r)), rn_effects := count_effects r,
       rn_model_events := int (length (er_events r)), rn_model_states := int (length (er_states r)),
       rn_oracle_findings := int (length (er_findings r)), rn_budget_exhausted := er_budget_exhausted r,
       rn_state_keys := unique_state_keys (er_states r), rn_termination := er_termination r,
       rn_termination_code := er_termination_code r, rn_termination_detail := er_termination_detail r,
       rn_metrics := Some (collect r)\<rparr>"

section \<open>The report (runner.go)\<close>

record source_novelty =
  nv_executions :: int
  nv_plans :: int
  nv_traces :: int
  nv_paths :: int
  nv_unique_plans :: int
  nv_unique_traces :: int
  nv_unique_paths :: int
  nv_new_states :: int
  nv_new_semantic_states :: int
  nv_new_semantic_transitions :: int

definition no_novelty :: source_novelty where
  "no_novelty = \<lparr>nv_executions = 0, nv_plans = 0, nv_traces = 0, nv_paths = 0, nv_unique_plans = 0,
     nv_unique_traces = 0, nv_unique_paths = 0, nv_new_states = 0, nv_new_semantic_states = 0,
     nv_new_semantic_transitions = 0\<rparr>"

record coverage_point =
  pt_completed :: int
  pt_actions :: int
  pt_states :: int
  pt_semantic_states :: int
  pt_semantic_transitions :: int
  pt_plans :: int
  pt_traces :: int
  pt_paths :: int
  pt_corpus_entries :: int
  pt_elapsed :: int

record report =
  rp_config :: experiment_config
  rp_runs :: "run list"
  rp_completed :: int
  rp_succeeded :: int
  rp_failed :: int
  rp_status_counts :: counts
  rp_actions :: int
  rp_effects :: int
  rp_model_events :: int
  rp_unique_states :: int
  rp_unique_semantic_states :: int
  rp_unique_semantic_transitions :: int
  rp_novelty_per_100 :: rat
  rp_feedback :: bool
  rp_corpus_entries :: int
  rp_retained :: int
  rp_rejected_raw :: int
  rp_rejected_semantic :: int
  rp_retained_by_state :: int
  rp_retained_by_transition :: int
  rp_admission_counts :: counts
  rp_initial_executions :: int
  rp_generated :: int
  rp_admitted :: int
  rp_discarded :: int
  rp_executed_mutations :: int
  rp_mutation_errors :: "string list"
  rp_action_counts :: counts
  rp_effect_counts :: counts
  rp_message_type_counts :: counts
  rp_resolution_counts :: counts
  rp_decision_counts :: counts
  rp_decisions_by_source :: "(string \<times> counts) list"
  rp_model_event_counts :: counts
  rp_oracle_counts :: counts
  rp_timer_fire_counts :: counts
  rp_failure_counts :: counts
  rp_termination_counts :: counts
  rp_duration :: duration_summary
  rp_actions_per_second :: rat
  rp_runs_per_second :: rat
  rp_max_depth :: int
  rp_max_queued :: int
  rp_peak_ready :: int
  rp_timeline :: "coverage_point list"
  rp_elapsed :: int
  rp_plans :: int
  rp_traces :: int
  rp_paths :: int
  rp_unique_plans :: int
  rp_unique_traces :: int
  rp_unique_paths :: int
  rp_plan_ratio :: rat
  rp_trace_ratio :: rat
  rp_path_ratio :: rat
  rp_novelty :: "(string \<times> source_novelty) list"
  rp_periodic :: int
  rp_snapshots_created :: int
  rp_snapshots_sent :: int
  rp_snapshots_delivered :: int
  rp_snapshots_applied :: int
  rp_snapshots_rejected :: int
  rp_logs_compacted :: int
  rp_compacted_entries :: u64
  rp_snapshot_bytes :: u64

definition no_duration :: duration_summary where
  "no_duration = \<lparr>ds_min = 0, ds_max = 0, ds_mean = 0, ds_p50 = 0, ds_p95 = 0, ds_p99 = 0\<rparr>"

definition new_report :: "experiment_config \<Rightarrow> bool \<Rightarrow> report" where
  "new_report config feedback = \<lparr>rp_config = config, rp_runs = replicate (nat (xc_runs config)) empty_run,
     rp_completed = 0, rp_succeeded = 0, rp_failed = 0, rp_status_counts = [], rp_actions = 0, rp_effects = 0,
     rp_model_events = 0, rp_unique_states = 0, rp_unique_semantic_states = 0, rp_unique_semantic_transitions = 0,
     rp_novelty_per_100 = 0, rp_feedback = feedback, rp_corpus_entries = 0, rp_retained = 0, rp_rejected_raw = 0,
     rp_rejected_semantic = 0, rp_retained_by_state = 0, rp_retained_by_transition = 0, rp_admission_counts = [],
     rp_initial_executions = 0, rp_generated = 0, rp_admitted = 0, rp_discarded = 0, rp_executed_mutations = 0,
     rp_mutation_errors = [], rp_action_counts = [], rp_effect_counts = [], rp_message_type_counts = [],
     rp_resolution_counts = [], rp_decision_counts = [], rp_decisions_by_source = [], rp_model_event_counts = [],
     rp_oracle_counts = [], rp_timer_fire_counts = [], rp_failure_counts = [], rp_termination_counts = [],
     rp_duration = no_duration, rp_actions_per_second = 0, rp_runs_per_second = 0, rp_max_depth = 0,
     rp_max_queued = 0, rp_peak_ready = 0, rp_timeline = [], rp_elapsed = 0, rp_plans = 0, rp_traces = 0,
     rp_paths = 0, rp_unique_plans = 0, rp_unique_traces = 0, rp_unique_paths = 0, rp_plan_ratio = 0,
     rp_trace_ratio = 0, rp_path_ratio = 0, rp_novelty = [], rp_periodic = 0, rp_snapshots_created = 0,
     rp_snapshots_sent = 0, rp_snapshots_delivered = 0, rp_snapshots_applied = 0, rp_snapshots_rejected = 0,
     rp_logs_compacted = 0, rp_compacted_entries = 0, rp_snapshot_bytes = 0\<rparr>"

definition new_feedback_report :: "experiment_config \<Rightarrow> report" where
  "new_feedback_report config = (new_report config True)\<lparr>rp_runs := []\<rparr>"

definition merge_counts :: "counts \<Rightarrow> counts \<Rightarrow> counts" where
  "merge_counts destination source = fold (\<lambda>(k, n) m. count_add k n m) source destination"

definition counts_of_source :: "(string \<times> counts) list \<Rightarrow> string \<Rightarrow> counts" where
  "counts_of_source m source = (case map_of m source of Some counts \<Rightarrow> counts | None \<Rightarrow> [])"

definition novelty_of_source :: "(string \<times> source_novelty) list \<Rightarrow> string \<Rightarrow> source_novelty" where
  "novelty_of_source m source = (case map_of m source of Some n \<Rightarrow> n | None \<Rightarrow> no_novelty)"

definition duplicate_ratio :: "int \<Rightarrow> int \<Rightarrow> rat" where
  "duplicate_ratio observed unique = (if observed = 0 then 0 else of_int (observed - unique) / of_int observed)"

definition novelty_per_100 :: "int \<Rightarrow> int \<Rightarrow> int \<Rightarrow> rat" where
  "novelty_per_100 states transitions actions =
     (if actions = 0 then 0 else of_int (states + transitions) * 100 / of_int actions)"

definition add_corpus_admission :: "string \<Rightarrow> report \<Rightarrow> report" where
  "add_corpus_admission reason r0 =
     (if reason = [] then r0
      else
        let r = r0\<lparr>rp_admission_counts := count_up reason (rp_admission_counts r0)\<rparr> in
        if reason = admission_text AdmissionRejectedRawThreshold then r\<lparr>rp_rejected_raw := rp_rejected_raw r + 1\<rparr>
        else if reason = admission_text AdmissionRejectedNoSemanticNovelty
        then r\<lparr>rp_rejected_semantic := rp_rejected_semantic r + 1\<rparr>
        else if reason = admission_text AdmissionRetainedSemanticState
        then r\<lparr>rp_retained_by_state := rp_retained_by_state r + 1\<rparr>
        else if reason = admission_text AdmissionRetainedSemanticTransition
        then r\<lparr>rp_retained_by_transition := rp_retained_by_transition r + 1\<rparr>
        else if reason = admission_text AdmissionRetainedSemanticStateAndTransition
        then r\<lparr>rp_retained_by_state := rp_retained_by_state r + 1,
               rp_retained_by_transition := rp_retained_by_transition r + 1\<rparr>
        else r)"

section \<open>Counting one run (aggregation.go, and the loop of aggregate)\<close>

text \<open>What \<open>addRun\<close> and the loop of \<open>aggregate\<close> have in common, in the order of the code. First the
  novelty of the source of the run.\<close>

definition source_novelty_of :: "run \<Rightarrow> source_novelty \<Rightarrow> source_novelty" where
  "source_novelty_of run n =
     \<lparr>nv_executions = nv_executions n + 1,
      nv_plans = nv_plans n + (if rn_plan_digest run \<noteq> [] then 1 else 0),
      nv_traces = nv_traces n + (if rn_trace_digest run \<noteq> [] then 1 else 0),
      nv_paths = nv_paths n + (if rn_path_digest run \<noteq> [] then 1 else 0),
      nv_unique_plans = nv_unique_plans n + (if rn_new_plan run then 1 else 0),
      nv_unique_traces = nv_unique_traces n + (if rn_new_trace run then 1 else 0),
      nv_unique_paths = nv_unique_paths n + (if rn_new_path run then 1 else 0),
      nv_new_states = nv_new_states n + int (length (rn_new_state_keys run)),
      nv_new_semantic_states = nv_new_semantic_states n + rn_new_semantic_states run,
      nv_new_semantic_transitions = nv_new_semantic_transitions n + rn_new_semantic_transitions run\<rparr>"

definition count_metrics :: "run \<Rightarrow> run_metrics \<Rightarrow> report \<Rightarrow> report" where
  "count_metrics run m r =
     r\<lparr>rp_snapshots_created := rp_snapshots_created r + mt_snapshots_created m,
       rp_snapshots_sent := rp_snapshots_sent r + mt_snapshots_sent m,
       rp_snapshots_delivered := rp_snapshots_delivered r + mt_snapshots_delivered m,
       rp_snapshots_applied := rp_snapshots_applied r + mt_snapshots_applied m,
       rp_snapshots_rejected := rp_snapshots_rejected r + mt_snapshots_rejected m,
       rp_logs_compacted := rp_logs_compacted r + mt_logs_compacted m,
       rp_compacted_entries := rp_compacted_entries r + mt_compacted_entries m,
       rp_snapshot_bytes := rp_snapshot_bytes r + mt_snapshot_bytes m,
       rp_action_counts := merge_counts (rp_action_counts r) (mt_actions m),
       rp_effect_counts := merge_counts (rp_effect_counts r) (mt_effects m),
       rp_message_type_counts := merge_counts (rp_message_type_counts r) (mt_message_types m),
       rp_resolution_counts := merge_counts (rp_resolution_counts r) (mt_resolutions m),
       rp_decision_counts := merge_counts (rp_decision_counts r) (mt_decisions m),
       rp_decisions_by_source :=
         (if rn_source run \<noteq> [] \<and> mt_decisions m \<noteq> []
          then AList.update (rn_source run)
                 (merge_counts (counts_of_source (rp_decisions_by_source r) (rn_source run)) (mt_decisions m))
                 (rp_decisions_by_source r)
          else rp_decisions_by_source r),
       rp_model_event_counts := merge_counts (rp_model_event_counts r) (mt_model_events m),
       rp_oracle_counts := merge_counts (rp_oracle_counts r) (mt_oracles m),
       rp_timer_fire_counts := merge_counts (rp_timer_fire_counts r) (mt_timer_fires m),
       rp_failure_counts := merge_counts (rp_failure_counts r) (mt_failures m),
       rp_max_queued := max (rp_max_queued r) (mt_peak_queued m)\<rparr>"

definition count_totals :: "run \<Rightarrow> report \<Rightarrow> report" where
  "count_totals run r =
     r\<lparr>rp_completed := rp_completed r + 1,
       rp_succeeded := rp_succeeded r + (if rn_succeeded run then 1 else 0),
       rp_failed := rp_failed r + (if rn_succeeded run then 0 else 1),
       rp_status_counts := count_up (engine_status_text (rn_status run)) (rp_status_counts r),
       rp_actions := rp_actions r + rn_actions run,
       rp_effects := rp_effects r + rn_effects run,
       rp_model_events := rp_model_events r + rn_model_events run\<rparr>"

definition count_novelty :: "run \<Rightarrow> report \<Rightarrow> report" where
  "count_novelty run r =
     r\<lparr>rp_plans := rp_plans r + (if rn_plan_digest run \<noteq> [] then 1 else 0),
       rp_traces := rp_traces r + (if rn_trace_digest run \<noteq> [] then 1 else 0),
       rp_paths := rp_paths r + (if rn_path_digest run \<noteq> [] then 1 else 0),
       rp_novelty :=
         (if rn_source run \<noteq> []
          then AList.update (rn_source run)
                 (source_novelty_of run (novelty_of_source (rp_novelty r) (rn_source run))) (rp_novelty r)
          else rp_novelty r),
       rp_unique_semantic_states := rp_unique_semantic_states r + rn_new_semantic_states run,
       rp_unique_semantic_transitions := rp_unique_semantic_transitions r + rn_new_semantic_transitions run\<rparr>"

definition count_outcome :: "run \<Rightarrow> report \<Rightarrow> report" where
  "count_outcome run r =
     r\<lparr>rp_termination_counts :=
         (if rn_termination run \<noteq> TerminationNone
          then count_up (termination_text (rn_termination run)) (rp_termination_counts r)
          else rp_termination_counts r),
       rp_max_depth := max (rp_max_depth r) (rn_depth run)\<rparr>"

definition count_run :: "run \<Rightarrow> report \<Rightarrow> report" where
  "count_run run r =
     (let r = count_novelty run (count_totals run r);
          r = add_corpus_admission (rn_admission run) r;
          r = (if rn_candidate_kind run = CandidatePeriodicRandom then r\<lparr>rp_periodic := rp_periodic r + 1\<rparr> else r);
          r = (case rn_metrics run of Some m \<Rightarrow> count_metrics run m r | None \<Rightarrow> r)
      in count_outcome run r)"

section \<open>The accumulator of a feedback experiment (aggregation.go)\<close>

record accumulator =
  ac_report :: report
  ac_indices :: "int set"
  ac_states :: "int set"
  ac_plans :: "string set"
  ac_traces :: "string set"
  ac_paths :: "string set"
  ac_durations :: "int list"

definition new_accumulator :: "experiment_config \<Rightarrow> accumulator" where
  "new_accumulator config = \<lparr>ac_report = new_feedback_report config, ac_indices = {}, ac_states = {}, ac_plans = {},
     ac_traces = {}, ac_paths = {}, ac_durations = []\<rparr>"

definition classify :: "run \<Rightarrow> accumulator \<Rightarrow> run \<times> accumulator" where
  "classify run a =
     (let (new_plan, plans) = mark_new (ac_plans a) (rn_plan_digest run);
          (new_trace, traces) = mark_new (ac_traces a) (rn_trace_digest run);
          (new_path, paths) = mark_new (ac_paths a) (rn_path_digest run)
      in (run\<lparr>rn_new_plan := new_plan, rn_new_trace := new_trace, rn_new_path := new_path\<rparr>,
          a\<lparr>ac_plans := plans, ac_traces := traces, ac_paths := paths\<rparr>))"

definition unique_counts :: "int set \<Rightarrow> string set \<Rightarrow> string set \<Rightarrow> string set \<Rightarrow> report \<Rightarrow> report" where
  "unique_counts states plans traces paths r =
     r\<lparr>rp_unique_states := int (card states), rp_unique_plans := int (card plans),
       rp_unique_traces := int (card traces), rp_unique_paths := int (card paths),
       rp_plan_ratio := duplicate_ratio (rp_plans r) (int (card plans)),
       rp_trace_ratio := duplicate_ratio (rp_traces r) (int (card traces)),
       rp_path_ratio := duplicate_ratio (rp_paths r) (int (card paths))\<rparr>"

definition should_keep_coverage_point :: "coverage_point list \<Rightarrow> coverage_point \<Rightarrow> bool" where
  "should_keep_coverage_point existing p =
     (if pt_completed p \<le> 100 \<or> pt_completed p mod 100 = 0 \<or> existing = [] then True
      else
        let l = last existing in
        pt_states p \<noteq> pt_states l \<or> pt_semantic_states p \<noteq> pt_semantic_states l \<or>
        pt_semantic_transitions p \<noteq> pt_semantic_transitions l \<or> pt_corpus_entries p \<noteq> pt_corpus_entries l)"

definition point_of :: "report \<Rightarrow> int \<Rightarrow> int \<Rightarrow> coverage_point" where
  "point_of r corpus_entries elapsed = \<lparr>pt_completed = rp_completed r, pt_actions = rp_actions r,
     pt_states = rp_unique_states r, pt_semantic_states = rp_unique_semantic_states r,
     pt_semantic_transitions = rp_unique_semantic_transitions r, pt_plans = rp_unique_plans r,
     pt_traces = rp_unique_traces r, pt_paths = rp_unique_paths r, pt_corpus_entries = corpus_entries,
     pt_elapsed = elapsed\<rparr>"

definition add_run :: "run \<Rightarrow> int \<Rightarrow> int \<Rightarrow> accumulator \<Rightarrow> go_error + accumulator" where
  "add_run run corpus_entries elapsed a =
     (if rn_index run \<in> ac_indices a
      then Inl (plain_error (''run '' @ show_int (rn_index run) @ '' was aggregated more than once''))
      else
        let states = ac_states a \<union> set (rn_state_keys run);
            r = unique_counts states (ac_plans a) (ac_traces a) (ac_paths a) (count_run run (ac_report a));
            r = r\<lparr>rp_corpus_entries := corpus_entries, rp_retained := corpus_entries\<rparr>;
            p = point_of r corpus_entries elapsed;
            r = (if should_keep_coverage_point (rp_timeline r) p then r\<lparr>rp_timeline := rp_timeline r @ [p]\<rparr> else r)
        in Inr (a\<lparr>ac_report := r, ac_indices := insert (rn_index run) (ac_indices a), ac_states := states,
                  ac_durations := ac_durations a @ [rn_duration_micros run]\<rparr>))"

text \<open>The rates of a report for an elapsed time in seconds, and its density of semantic novelty.\<close>

definition report_rates :: "rat \<Rightarrow> report \<Rightarrow> report" where
  "report_rates seconds r = r\<lparr>rp_actions_per_second := of_int (rp_actions r) / seconds,
     rp_runs_per_second := of_int (rp_completed r) / seconds\<rparr>"

definition report_density :: "report \<Rightarrow> report" where
  "report_density r = r\<lparr>rp_novelty_per_100 :=
     novelty_per_100 (rp_unique_semantic_states r) (rp_unique_semantic_transitions r) (rp_actions r)\<rparr>"

text \<open>\<open>finalize\<close> changes the report of the accumulator and returns it.\<close>

definition finalize :: "int \<Rightarrow> int \<Rightarrow> accumulator \<Rightarrow> accumulator" where
  "finalize corpus_entries elapsed a =
     (let r = (ac_report a)\<lparr>rp_elapsed := elapsed, rp_corpus_entries := corpus_entries,
                rp_retained := corpus_entries, rp_duration := durations (ac_durations a)\<rparr>;
          r = (if elapsed > 0 then report_rates (of_int elapsed / 1000) r else r)
      in a\<lparr>ac_report := report_density r\<rparr>)"

record aggregation_snapshot =
  ag_report :: report
  ag_indices :: "int list"
  ag_states :: "int list"
  ag_plans :: "string list"
  ag_traces :: "string list"
  ag_paths :: "string list"
  ag_durations :: "int list"

text \<open>Strings are compared by bytes, as \<open>sort.Strings\<close> does.\<close>

definition sorted_strings :: "string set \<Rightarrow> string list" where
  "sorted_strings s = sorted_list_of_set s"

definition accumulator_snapshot :: "int \<Rightarrow> int \<Rightarrow> accumulator \<Rightarrow> aggregation_snapshot \<times> accumulator" where
  "accumulator_snapshot corpus_entries elapsed a0 =
     (let a = finalize corpus_entries elapsed a0 in
      (\<lparr>ag_report = (ac_report a)\<lparr>rp_runs := []\<rparr>, ag_indices = sorted_list_of_set (ac_indices a),
        ag_states = sorted_list_of_set (ac_states a), ag_plans = sorted_strings (ac_plans a),
        ag_traces = sorted_strings (ac_traces a), ag_paths = sorted_strings (ac_paths a),
        ag_durations = ac_durations a\<rparr>, a))"

definition restore_accumulator :: "aggregation_snapshot \<Rightarrow> accumulator" where
  "restore_accumulator s = \<lparr>ac_report = ag_report s, ac_indices = set (ag_indices s), ac_states = set (ag_states s),
     ac_plans = set (ag_plans s), ac_traces = set (ag_traces s), ac_paths = set (ag_paths s),
     ac_durations = ag_durations s\<rparr>"

section \<open>The report of a list of runs (runner.go)\<close>

text \<open>\<open>aggregate\<close>: the loop goes over the completed runs with the sets of what it has seen.\<close>

definition aggregate_start :: "report \<Rightarrow> report" where
  "aggregate_start r = r\<lparr>rp_succeeded := 0, rp_failed := 0, rp_completed := 0, rp_actions := 0, rp_effects := 0,
     rp_model_events := 0, rp_unique_states := 0, rp_unique_semantic_states := 0,
     rp_unique_semantic_transitions := 0, rp_rejected_raw := 0, rp_rejected_semantic := 0,
     rp_retained_by_state := 0, rp_retained_by_transition := 0, rp_admission_counts := [], rp_status_counts := [],
     rp_action_counts := [], rp_effect_counts := [], rp_message_type_counts := [], rp_resolution_counts := [],
     rp_decision_counts := [], rp_decisions_by_source := [], rp_model_event_counts := [], rp_oracle_counts := [],
     rp_timer_fire_counts := [], rp_failure_counts := [], rp_termination_counts := [], rp_max_depth := 0,
     rp_max_queued := 0, rp_plans := 0, rp_traces := 0, rp_paths := 0, rp_periodic := 0, rp_novelty := []\<rparr>"

definition aggregate :: "report \<Rightarrow> report" where
  "aggregate report0 =
     (let runs = filter rn_completed (rp_runs report0);
          r = fold count_run runs (aggregate_start report0);
          states = (\<Union>run \<in> set runs. set (rn_state_keys run));
          plans = fold (\<lambda>run s. remember s (rn_plan_digest run)) runs {};
          traces = fold (\<lambda>run s. remember s (rn_trace_digest run)) runs {};
          paths = fold (\<lambda>run s. remember s (rn_path_digest run)) runs {};
          micros = map rn_duration_micros runs; total = fold (\<lambda>v t. wrap64 (t + v)) micros 0;
          r = (unique_counts states plans traces paths r)\<lparr>rp_duration := durations micros\<rparr>;
          r = (if rp_elapsed r > 0 then report_rates (of_int (rp_elapsed r) / 1000) r
               else if total > 0 then report_rates (of_int total / 1000000) r
               else r\<lparr>rp_actions_per_second := 0, rp_runs_per_second := 0\<rparr>)
      in report_density r)"

section \<open>Run by run, or all at once\<close>

text \<open>The report without what the accumulator sets anew after every run, and \<open>aggregate\<close> at the end.\<close>

definition counters_only :: "report \<Rightarrow> report" where
  "counters_only r = r\<lparr>rp_runs := [], rp_corpus_entries := 0, rp_retained := 0, rp_timeline := [], rp_unique_states := 0,
     rp_unique_plans := 0, rp_unique_traces := 0, rp_unique_paths := 0, rp_plan_ratio := 0, rp_trace_ratio := 0,
     rp_path_ratio := 0, rp_elapsed := 0, rp_duration := no_duration, rp_actions_per_second := 0,
     rp_runs_per_second := 0, rp_novelty_per_100 := 0\<rparr>"

lemma counters_only_sel [simp]:
  "rp_plans (counters_only r) = rp_plans r" "rp_traces (counters_only r) = rp_traces r"
  "rp_paths (counters_only r) = rp_paths r" "rp_actions (counters_only r) = rp_actions r"
  "rp_completed (counters_only r) = rp_completed r"
  "rp_unique_semantic_states (counters_only r) = rp_unique_semantic_states r"
  "rp_unique_semantic_transitions (counters_only r) = rp_unique_semantic_transitions r"
  by (simp_all add: counters_only_def)

lemma counters_only_admission:
  "counters_only (add_corpus_admission reason r) = add_corpus_admission reason (counters_only r)"
  by (simp add: counters_only_def add_corpus_admission_def Let_def)

lemma counters_only_metrics:
  "counters_only (count_metrics run m r) = count_metrics run m (counters_only r)"
  by (simp add: counters_only_def count_metrics_def)

lemma counters_only_totals: "counters_only (count_totals run r) = count_totals run (counters_only r)"
  by (simp add: counters_only_def count_totals_def)

lemma counters_only_novelty: "counters_only (count_novelty run r) = count_novelty run (counters_only r)"
  by (simp add: counters_only_def count_novelty_def)

lemma counters_only_outcome: "counters_only (count_outcome run r) = count_outcome run (counters_only r)"
  by (simp add: counters_only_def count_outcome_def)

lemma counters_only_periodic:
  "counters_only (r\<lparr>rp_periodic := rp_periodic r + 1\<rparr>) = (counters_only r)\<lparr>rp_periodic := rp_periodic (counters_only r) + 1\<rparr>"
  by (simp add: counters_only_def)

lemma counters_only_run:
  "counters_only (count_run run r) = count_run run (counters_only r)"
  unfolding count_run_def Let_def
  by (cases "rn_metrics run"; cases "rn_candidate_kind run = CandidatePeriodicRandom")
    (simp_all only: option.case if_True if_False counters_only_outcome counters_only_metrics counters_only_periodic
      counters_only_admission counters_only_novelty counters_only_totals refl if_True simp_thms)

lemma counters_only_fold: "counters_only (fold count_run runs r) = fold count_run runs (counters_only r)"
  by (induction runs arbitrary: r) (simp_all add: counters_only_run)

lemma report_eqI:
  assumes "counters_only r = counters_only s" and "rp_runs r = rp_runs s" and "rp_corpus_entries r = rp_corpus_entries s"
    and "rp_retained r = rp_retained s" and "rp_timeline r = rp_timeline s" and "rp_unique_states r = rp_unique_states s"
    and "rp_unique_plans r = rp_unique_plans s" and "rp_unique_traces r = rp_unique_traces s"
    and "rp_unique_paths r = rp_unique_paths s" and "rp_plan_ratio r = rp_plan_ratio s"
    and "rp_trace_ratio r = rp_trace_ratio s" and "rp_path_ratio r = rp_path_ratio s" and "rp_elapsed r = rp_elapsed s"
    and "rp_duration r = rp_duration s" and "rp_actions_per_second r = rp_actions_per_second s"
    and "rp_runs_per_second r = rp_runs_per_second s" and "rp_novelty_per_100 r = rp_novelty_per_100 s"
  shows "r = s"
  using assms by (cases r; cases s) (simp add: counters_only_def)

text \<open>Runs one after the other, each with the corpus size and the elapsed time at its end.\<close>

fun add_runs :: "(run \<times> int \<times> int) list \<Rightarrow> accumulator \<Rightarrow> go_error + run list \<times> accumulator" where
  "add_runs [] a = Inr ([], a)"
| "add_runs ((run, entries, elapsed) # rest) a =
     (let (classified, a1) = classify run a in
      case add_run classified entries elapsed a1 of
        Inl e \<Rightarrow> Inl e
      | Inr a2 \<Rightarrow>
          (case add_runs rest a2 of Inl e \<Rightarrow> Inl e | Inr (runs, a3) \<Rightarrow> Inr (classified # runs, a3)))"

text \<open>What the accumulator knows after some runs.\<close>

definition accumulates :: "experiment_config \<Rightarrow> run list \<Rightarrow> accumulator \<Rightarrow> bool" where
  "accumulates c runs a \<longleftrightarrow>
     counters_only (ac_report a) = fold count_run runs (counters_only (new_feedback_report c)) \<and>
     ac_indices a = rn_index ` set runs \<and> ac_states a = (\<Union>run \<in> set runs. set (rn_state_keys run)) \<and>
     ac_plans a = fold (\<lambda>run s. remember s (rn_plan_digest run)) runs {} \<and>
     ac_traces a = fold (\<lambda>run s. remember s (rn_trace_digest run)) runs {} \<and>
     ac_paths a = fold (\<lambda>run s. remember s (rn_path_digest run)) runs {} \<and>
     ac_durations a = map rn_duration_micros runs \<and>
     unique_counts (ac_states a) (ac_plans a) (ac_traces a) (ac_paths a) (ac_report a) = ac_report a"

lemma accumulates_new: "accumulates c [] (new_accumulator c)"
  by (simp add: accumulates_def new_accumulator_def unique_counts_def new_feedback_report_def new_report_def
      duplicate_ratio_def)

lemma mark_new_remember: "snd (mark_new s d) = remember s d"
  by (auto simp: mark_new_def remember_def)

lemma classify_sel:
  "rn_index (fst (classify run a)) = rn_index run" "ac_indices (snd (classify run a)) = ac_indices a"
  "ac_report (snd (classify run a)) = ac_report a" "ac_states (snd (classify run a)) = ac_states a"
  "ac_durations (snd (classify run a)) = ac_durations a"
  "ac_plans (snd (classify run a)) = remember (ac_plans a) (rn_plan_digest (fst (classify run a)))"
  "ac_traces (snd (classify run a)) = remember (ac_traces a) (rn_trace_digest (fst (classify run a)))"
  "ac_paths (snd (classify run a)) = remember (ac_paths a) (rn_path_digest (fst (classify run a)))"
  by (simp_all add: classify_def case_prod_beta Let_def mark_new_remember)

lemma counters_only_unique [simp]: "counters_only (unique_counts s p t q r) = counters_only r"
  by (simp add: counters_only_def unique_counts_def)

lemma counters_only_added [simp]:
  "counters_only (r\<lparr>rp_corpus_entries := n, rp_retained := m\<rparr>) = counters_only r"
  "counters_only (r\<lparr>rp_timeline := ts\<rparr>) = counters_only r"
  by (simp_all add: counters_only_def)

lemma unique_counts_again [simp]:
  "unique_counts s p t q ((unique_counts s p t q r)\<lparr>rp_corpus_entries := n, rp_retained := m\<rparr>) =
     (unique_counts s p t q r)\<lparr>rp_corpus_entries := n, rp_retained := m\<rparr>"
  "unique_counts s p t q ((unique_counts s p t q r)\<lparr>rp_corpus_entries := n, rp_retained := m, rp_timeline := ts\<rparr>) =
     (unique_counts s p t q r)\<lparr>rp_corpus_entries := n, rp_retained := m, rp_timeline := ts\<rparr>"
  by (simp_all add: unique_counts_def)

lemma accumulates_step:
  assumes acc: "accumulates c runs a" and classified: "classify run a = (run', a1)"
    and added: "add_run run' entries elapsed a1 = Inr a2"
  shows "accumulates c (runs @ [run']) a2"
proof -
  note sel = classify_sel [of run a, unfolded classified fst_conv snd_conv]
  let ?states = "ac_states a1 \<union> set (rn_state_keys run')"
  let ?r = "unique_counts ?states (ac_plans a1) (ac_traces a1) (ac_paths a1) (count_run run' (ac_report a1))"
  obtain ts where a2: "a2 = a1\<lparr>ac_report := ?r\<lparr>rp_corpus_entries := entries, rp_retained := entries, rp_timeline := ts\<rparr>,
      ac_indices := insert (rn_index run') (ac_indices a1), ac_states := ?states,
      ac_durations := ac_durations a1 @ [rn_duration_micros run']\<rparr>
    \<or> a2 = a1\<lparr>ac_report := ?r\<lparr>rp_corpus_entries := entries, rp_retained := entries\<rparr>,
      ac_indices := insert (rn_index run') (ac_indices a1), ac_states := ?states,
      ac_durations := ac_durations a1 @ [rn_duration_micros run']\<rparr>"
    using added by (auto simp: add_run_def Let_def split: if_splits)
  have "counters_only (?r\<lparr>rp_corpus_entries := entries, rp_retained := entries, rp_timeline := ts\<rparr>)
      = count_run run' (counters_only (ac_report a))"
    using counters_only_added(2) [where r = "?r\<lparr>rp_corpus_entries := entries, rp_retained := entries\<rparr>" and ts = ts]
    by (simp add: counters_only_run sel)
  moreover have "counters_only (?r\<lparr>rp_corpus_entries := entries, rp_retained := entries\<rparr>)
      = count_run run' (counters_only (ac_report a))"
    by (simp add: counters_only_run sel)
  ultimately show ?thesis
    using acc a2 by (auto simp: accumulates_def sel)
qed

lemma add_run_refused: "(\<exists>e. add_run run n t a = Inl e) \<longleftrightarrow> rn_index run \<in> ac_indices a"
  by (simp add: add_run_def Let_def)

lemma add_runs_accumulates:
  "accumulates c done_runs a \<Longrightarrow>
     (case add_runs xs a of
        Inl e \<Rightarrow> \<not> distinct (map rn_index done_runs @ map (rn_index \<circ> fst) xs)
      | Inr (runs, b) \<Rightarrow> accumulates c (done_runs @ runs) b \<and> map rn_index runs = map (rn_index \<circ> fst) xs \<and>
          (distinct (map rn_index done_runs) \<longrightarrow> distinct (map rn_index done_runs @ map (rn_index \<circ> fst) xs)))"
proof (induction xs arbitrary: a done_runs)
  case (Cons x xs)
  obtain run n t where x: "x = (run, n, t)" by (cases x)
  obtain run' a1 where classified: "classify run a = (run', a1)" by fastforce
  have index: "rn_index run' = rn_index run" "ac_indices a1 = ac_indices a"
    using classify_sel(1,2) [of run a] by (simp_all add: classified)
  have indices: "ac_indices a = rn_index ` set done_runs" using Cons.prems by (simp add: accumulates_def)
  show ?case
  proof (cases "add_run run' n t a1")
    case (Inl e)
    then have "rn_index run \<in> rn_index ` set done_runs" using add_run_refused [of run' n t a1] index indices by auto
    then show ?thesis using Inl by (auto simp: x classified)
  next
    case (Inr a2)
    then have fresh: "rn_index run \<notin> rn_index ` set done_runs"
      using add_run_refused [of run' n t a1] index indices by simp
    note IH = Cons.IH [OF accumulates_step [OF Cons.prems classified Inr]]
    show ?thesis
    proof (cases "add_runs xs a2")
      case (Inl e)
      then show ?thesis using IH fresh Inr by (auto simp: x classified index)
    next
      case ok: (Inr p)
      obtain runs b where p: "p = (runs, b)" by (cases p)
      from IH ok p fresh Inr show ?thesis by (auto simp: x classified index)
    qed
  qed
qed simp

text \<open>Counting a run leaves the rest of the report alone.\<close>

definition uncounted :: "report \<Rightarrow> run list \<times> int \<times> int \<times> coverage_point list \<times> int" where
  "uncounted r = (rp_runs r, rp_corpus_entries r, rp_retained r, rp_timeline r, rp_elapsed r)"

lemma uncounted_stages [simp]:
  "uncounted (count_outcome run r) = uncounted r" "uncounted (count_metrics run m r) = uncounted r"
  "uncounted (add_corpus_admission reason r) = uncounted r" "uncounted (count_novelty run r) = uncounted r"
  "uncounted (count_totals run r) = uncounted r" "uncounted (r\<lparr>rp_periodic := n\<rparr>) = uncounted r"
  by (simp_all add: uncounted_def count_outcome_def count_metrics_def add_corpus_admission_def count_novelty_def
      count_totals_def Let_def)

lemma uncounted_run: "uncounted (count_run run r) = uncounted r"
  unfolding count_run_def Let_def by (cases "rn_metrics run") simp_all

lemma count_run_keeps [simp]:
  "rp_runs (count_run run r) = rp_runs r" "rp_corpus_entries (count_run run r) = rp_corpus_entries r"
  "rp_retained (count_run run r) = rp_retained r" "rp_timeline (count_run run r) = rp_timeline r"
  "rp_elapsed (count_run run r) = rp_elapsed r"
  using uncounted_run [of run r] by (simp_all add: uncounted_def)

lemma fold_count_run_keeps [simp]:
  "rp_runs (fold count_run runs r) = rp_runs r" "rp_corpus_entries (fold count_run runs r) = rp_corpus_entries r"
  "rp_retained (fold count_run runs r) = rp_retained r" "rp_timeline (fold count_run runs r) = rp_timeline r"
  "rp_elapsed (fold count_run runs r) = rp_elapsed r"
  by (induction runs arbitrary: r) simp_all

lemma aggregate_start_sel [simp]:
  "rp_runs (aggregate_start r) = rp_runs r" "rp_corpus_entries (aggregate_start r) = rp_corpus_entries r"
  "rp_retained (aggregate_start r) = rp_retained r" "rp_timeline (aggregate_start r) = rp_timeline r"
  "rp_elapsed (aggregate_start r) = rp_elapsed r"
  by (simp_all add: aggregate_start_def)

lemma new_report_sel [simp]:
  "rp_corpus_entries (new_report c f) = 0" "rp_retained (new_report c f) = 0" "rp_timeline (new_report c f) = []"
  by (simp_all add: new_report_def)

lemma counters_only_final [simp]:
  "counters_only (report_density r) = counters_only r" "counters_only (report_rates seconds r) = counters_only r"
  "counters_only (r\<lparr>rp_actions_per_second := x, rp_runs_per_second := y\<rparr>) = counters_only r"
  "counters_only (r\<lparr>rp_duration := d\<rparr>) = counters_only r"
  "counters_only (r\<lparr>rp_elapsed := t\<rparr>) = counters_only r"
  by (simp_all add: counters_only_def report_density_def report_rates_def)

lemma counters_only_finalize [simp]: "counters_only (ac_report (finalize n t a)) = counters_only (ac_report a)"
  by (simp add: finalize_def Let_def)

lemma counters_only_aggregate:
  "counters_only (aggregate r) = counters_only (fold count_run (filter rn_completed (rp_runs r)) (aggregate_start r))"
  unfolding aggregate_def Let_def by simp

lemma counters_only_cleared [simp]: "counters_only (r\<lparr>rp_runs := rs\<rparr>) = counters_only r"
  by (simp add: counters_only_def)


end
