(* ===== verification/Experiment_Checkpoint.thy ===== *)
theory Experiment_Checkpoint
  imports Experiment_Report
begin

text \<open>
  internal/experiment/lifecycle.go and the checks of aggregation.go: what a feedback experiment stores
  to go on later, and when a stored state is accepted. \<open>SavedAt\<close> has no counterpart, since nothing
  reads it. Where a check ranges over a Go map the error it returns first depends on the order of
  iteration; here it is the order of the association list. Whether there is an error does not.
\<close>

section \<open>Data (lifecycle.go)\<close>

definition checkpoint_version :: u32 where
  "checkpoint_version = 7"

record scheduled =
  sd_index :: int
  sd_seed :: int
  sd_candidate :: candidate

record pending_mutation =
  pm_entry :: string
  pm_count :: int
  pm_seed :: int

record checkpoint =
  ck_version :: u32
  ck_config :: experiment_config
  ck_aggregation :: aggregation_snapshot
  ck_corpus :: corpus_checkpoint
  ck_ready :: "candidate list"
  ck_in_flight :: "scheduled list"
  ck_pending :: "pending_mutation list"
  ck_next_candidate :: int
  ck_next_run :: int
  ck_completed :: int
  ck_summaries :: int
  ck_next_seed_at :: int
  ck_seeds_due :: int
  ck_events :: u64
  ck_elapsed :: int
  ck_fingerprint :: string

section \<open>Lists without repetition (aggregation.go)\<close>

fun validate_unique_ints :: "int \<Rightarrow> int \<Rightarrow> int set \<Rightarrow> int list \<Rightarrow> go_error option" where
  "validate_unique_ints minimum maximum seen [] = None"
| "validate_unique_ints minimum maximum seen (v # vs) =
     (if v < minimum \<or> v \<ge> maximum then Some (plain_error (''value '' @ show_int v @ '' is out of range''))
      else if v \<in> seen then Some (plain_error (''duplicate value '' @ show_int v))
      else validate_unique_ints minimum maximum (insert v seen) vs)"

fun validate_unique_int64s :: "int set \<Rightarrow> int list \<Rightarrow> go_error option" where
  "validate_unique_int64s seen [] = None"
| "validate_unique_int64s seen (v # vs) =
     (if v \<in> seen then Some (plain_error (''duplicate value '' @ show_int v))
      else validate_unique_int64s (insert v seen) vs)"

fun validate_unique_strings :: "string set \<Rightarrow> string list \<Rightarrow> go_error option" where
  "validate_unique_strings seen [] = None"
| "validate_unique_strings seen (v # vs) =
     (if v = [] then Some (plain_error ''empty digest'')
      else if v \<in> seen then Some (plain_error (''duplicate digest '' @ v))
      else validate_unique_strings (insert v seen) vs)"

section \<open>The counters of a report (aggregation.go)\<close>

definition known_admissions :: "string list" where
  "known_admissions = map admission_text [AdmissionRetainedRaw, AdmissionRetainedSemanticState,
     AdmissionRetainedSemanticTransition, AdmissionRetainedSemanticStateAndTransition,
     AdmissionRejectedRawThreshold, AdmissionRejectedNoSemanticNovelty]"

fun check_admission_counts :: "counts \<Rightarrow> go_error option" where
  "check_admission_counts [] = None"
| "check_admission_counts ((reason, n) # rest) =
     (if reason \<notin> set known_admissions \<or> n < 0
      then Some (plain_error (''summary contains invalid corpus admission '' @ go_quote reason @ ''='' @ show_int n))
      else check_admission_counts rest)"

text \<open>How many inputs were admitted for a reason.\<close>

definition admitted_for :: "report \<Rightarrow> admission_reason \<Rightarrow> int" where
  "admitted_for r reason = count_at (rp_admission_counts r) (admission_text reason)"

definition validate_corpus_admissions :: "report \<Rightarrow> go_error option" where
  "validate_corpus_admissions r =
     (case check_admission_counts (rp_admission_counts r) of
        Some e \<Rightarrow> Some e
      | None \<Rightarrow>
          let all = sum_list (map snd (rp_admission_counts r));
              retained = admitted_for r AdmissionRetainedRaw + admitted_for r AdmissionRetainedSemanticState +
                admitted_for r AdmissionRetainedSemanticTransition +
                admitted_for r AdmissionRetainedSemanticStateAndTransition;
              state = admitted_for r AdmissionRetainedSemanticState +
                admitted_for r AdmissionRetainedSemanticStateAndTransition;
              transition = admitted_for r AdmissionRetainedSemanticTransition +
                admitted_for r AdmissionRetainedSemanticStateAndTransition
          in if all > rp_succeeded r \<or> retained \<noteq> rp_corpus_entries r \<or>
                rp_rejected_raw r \<noteq> admitted_for r AdmissionRejectedRawThreshold \<or>
                rp_rejected_semantic r \<noteq> admitted_for r AdmissionRejectedNoSemanticNovelty \<or>
                rp_retained_by_state r \<noteq> state \<or> rp_retained_by_transition r \<noteq> transition
             then Some (plain_error ''summary corpus admission counters are inconsistent'')
             else if rp_novelty_per_100 r \<noteq>
                novelty_per_100 (rp_unique_semantic_states r) (rp_unique_semantic_transitions r) (rp_actions r)
             then Some (plain_error ''summary semantic novelty density is inconsistent'')
             else None)"

definition snapshot_validate :: "aggregation_snapshot \<Rightarrow> experiment_config \<Rightarrow> int \<Rightarrow> go_error option" where
  "snapshot_validate s config completed =
     (let r = ag_report s in
      if rp_config r \<noteq> config \<or> \<not> rp_feedback r \<or> rp_runs r \<noteq> []
      then Some (plain_error ''summary report has incompatible config, mode, or embedded runs'')
      else if rp_completed r \<noteq> completed \<or> int (length (ag_indices s)) \<noteq> completed \<or>
         int (length (ag_durations s)) \<noteq> completed
      then Some (plain_error (''summary counters do not match completed count '' @ show_int completed))
      else if rp_succeeded r + rp_failed r \<noteq> completed \<or>
         rp_initial_executions r + rp_executed_mutations r + rp_periodic r \<noteq> completed
      then Some (plain_error ''summary success or candidate-source counters do not match completed count'')
      else if rp_generated r < 0 \<or> rp_admitted r < 0 \<or> rp_discarded r < 0 \<or>
         rp_executed_mutations r > rp_admitted r \<or> rp_peak_ready r < 0 \<or>
         rp_peak_ready r > xc_max_ready_candidates config \<or> rp_unique_semantic_states r < 0 \<or>
         rp_unique_semantic_transitions r < 0
      then Some (plain_error ''summary mutation queue counters are invalid'')
      else case validate_corpus_admissions r of Some e \<Rightarrow> Some e
      | None \<Rightarrow> (case validate_unique_ints 0 (xc_runs config) {} (ag_indices s) of
          Some e \<Rightarrow> Some (wrap_text ''completed run indices'' e)
      | None \<Rightarrow> (case validate_unique_int64s {} (ag_states s) of Some e \<Rightarrow> Some (wrap_text ''model state keys'' e)
      | None \<Rightarrow> (case validate_unique_strings {} (ag_plans s) of Some e \<Rightarrow> Some (wrap_text ''plan digests'' e)
      | None \<Rightarrow> (case validate_unique_strings {} (ag_traces s) of Some e \<Rightarrow> Some (wrap_text ''trace digests'' e)
      | None \<Rightarrow> (case validate_unique_strings {} (ag_paths s) of
          Some e \<Rightarrow> Some (wrap_text ''model state path digests'' e)
      | None \<Rightarrow>
          if rp_unique_states r \<noteq> int (length (ag_states s)) \<or> rp_unique_plans r \<noteq> int (length (ag_plans s)) \<or>
             rp_unique_traces r \<noteq> int (length (ag_traces s)) \<or> rp_unique_paths r \<noteq> int (length (ag_paths s))
          then Some (plain_error ''unique counters do not match persisted sets'')
          else None))))))"

section \<open>Accepting a checkpoint (lifecycle.go)\<close>

text \<open>The three loops of \<open>Checkpoint.Validate\<close>: over the pending mutations, over the runs that were
  being executed, and over the run indices given out.\<close>

fun check_pending :: "int \<Rightarrow> string set \<Rightarrow> pending_mutation list \<Rightarrow> go_error option" where
  "check_pending entries seen [] = None"
| "check_pending entries seen (p # ps) =
     (if pm_entry p = [] \<or> pm_count p \<le> 0 then Some (plain_error ''checkpoint contains invalid pending mutation'')
      else if pm_entry p \<in> seen
      then Some (plain_error (''checkpoint contains duplicate pending mutation for '' @ pm_entry p))
      else if pm_entry p \<notin> entry_name ` {0..<nat entries}
      then Some (plain_error (''checkpoint pending mutation references unknown corpus entry '' @ pm_entry p))
      else check_pending entries (insert (pm_entry p) seen) ps)"

fun check_in_flight :: "experiment_config \<Rightarrow> int \<Rightarrow> int set \<Rightarrow> int set \<Rightarrow> scheduled list \<Rightarrow> go_error option" where
  "check_in_flight config next_run completed seen [] = None"
| "check_in_flight config next_run completed seen (s # ss) =
     (if sd_index s < 0 \<or> sd_index s \<ge> next_run \<or> sd_seed s \<noteq> wrap64 (xc_base_seed config + sd_index s)
      then Some (plain_error (''checkpoint in-flight run '' @ show_int (sd_index s) @ '' has invalid index or seed''))
      else if sd_index s \<in> completed
      then Some (plain_error (''checkpoint run '' @ show_int (sd_index s) @ '' is both completed and in-flight''))
      else if sd_index s \<in> seen
      then Some (plain_error (''checkpoint contains duplicate in-flight run '' @ show_int (sd_index s)))
      else check_in_flight config next_run completed (insert (sd_index s) seen) ss)"

fun check_scheduling :: "int set \<Rightarrow> int set \<Rightarrow> int list \<Rightarrow> go_error option" where
  "check_scheduling completed scheduled [] = None"
| "check_scheduling completed scheduled (i # is) =
     (if (i \<in> completed) = (i \<in> scheduled)
      then Some (plain_error (''checkpoint run '' @ show_int i @ '' is not in exactly one scheduling state''))
      else check_scheduling completed scheduled is)"

fun check_covered :: "int set \<Rightarrow> int list \<Rightarrow> go_error option" where
  "check_covered states [] = None"
| "check_covered states (k # ks) =
     (if k \<notin> states
      then Some (plain_error (''checkpoint corpus state '' @ show_int k @ '' is absent from aggregate coverage''))
      else check_covered states ks)"

text \<open>The checks before the loops, the checks of the schedule, and those of the corpus.\<close>

definition check_counters :: "checkpoint \<Rightarrow> experiment_config \<Rightarrow> string \<Rightarrow> go_error option" where
  "check_counters c config fingerprint =
     (if ck_version c \<noteq> checkpoint_version
      then Some (plain_error (''unsupported checkpoint version '' @ show_nat (unat (ck_version c))))
      else if ck_config c \<noteq> config
      then Some (plain_error ''checkpoint experiment config does not match requested config'')
      else if ck_fingerprint c \<noteq> fingerprint
      then Some (plain_error ''checkpoint configuration fingerprint does not match current configuration'')
      else if ck_completed c < 0 \<or> ck_completed c > xc_runs config \<or> ck_next_run c < ck_completed c \<or>
         ck_next_run c > xc_runs config
      then Some (plain_error ''checkpoint scheduling counters are invalid'')
      else if ck_next_seed_at c < 0 \<or> ck_seeds_due c < 0
      then Some (plain_error ''checkpoint periodic random seed counters are invalid'')
      else if xc_random_seed_interval config = 0 \<and> (ck_next_seed_at c \<noteq> 0 \<or> ck_seeds_due c \<noteq> 0)
      then Some (plain_error ''checkpoint has periodic random seed state while injection is disabled'')
      else if xc_random_seed_interval config \<noteq> 0 \<and> ck_next_seed_at c \<le> ck_completed c
      then Some (plain_error (''checkpoint next random seed threshold '' @ show_int (ck_next_seed_at c) @
             '' is not after completed count '' @ show_int (ck_completed c)))
      else if ck_summaries c \<noteq> ck_completed c
      then Some (plain_error (''checkpoint has '' @ show_int (ck_completed c) @ '' completed runs but '' @
             show_int (ck_summaries c) @ '' committed run summaries''))
      else if int (length (ck_ready c)) > xc_max_ready_candidates config \<or>
         rp_peak_ready (ag_report (ck_aggregation c)) < int (length (ck_ready c))
      then Some (plain_error ''checkpoint ready queue counters are invalid'')
      else None)"

definition check_schedule :: "checkpoint \<Rightarrow> experiment_config \<Rightarrow> go_error option" where
  "check_schedule c config =
     (let completed = set (ag_indices (ck_aggregation c)) in
      case check_in_flight config (ck_next_run c) completed {} (ck_in_flight c) of Some e \<Rightarrow> Some e
      | None \<Rightarrow>
          if ck_completed c + int (length (ck_in_flight c)) \<noteq> ck_next_run c
          then Some (plain_error ''checkpoint assigned runs are neither completed nor in-flight'')
          else check_scheduling completed (sd_index ` set (ck_in_flight c)) [0..ck_next_run c - 1])"

definition check_corpus :: "checkpoint \<Rightarrow> go_error option" where
  "check_corpus c =
     (let p = ck_corpus c; a = ck_aggregation c; r = ag_report a in
      if ckp_entry_count p < 0 then Some (plain_error ''checkpoint corpus entry count is negative'')
      else case validate_unique_int64s {} (ckp_coverage p) of
        Some e \<Rightarrow> Some (wrap_text ''checkpoint corpus coverage'' e)
      | None \<Rightarrow> (case validate_unique_int64s {} (ckp_semantic_states p) of
        Some e \<Rightarrow> Some (wrap_text ''checkpoint corpus semantic-state coverage'' e)
      | None \<Rightarrow> (case validate_unique_int64s {} (ckp_semantic_transitions p) of
        Some e \<Rightarrow> Some (wrap_text ''checkpoint corpus semantic-transition coverage'' e)
      | None \<Rightarrow>
          if rp_corpus_entries r \<noteq> ckp_entry_count p
          then Some (plain_error ''checkpoint summary and corpus entry counts differ'')
          else if rp_unique_states r \<noteq> int (length (ag_states a))
          then Some (plain_error ''checkpoint aggregate model-state count is inconsistent'')
          else if rp_unique_semantic_states r \<noteq> int (length (ckp_semantic_states p)) \<or>
             rp_unique_semantic_transitions r \<noteq> int (length (ckp_semantic_transitions p))
          then Some (plain_error ''checkpoint semantic coverage counters are inconsistent'')
          else check_covered (set (ag_states a)) (ckp_coverage p))))"

definition checkpoint_validate :: "checkpoint \<Rightarrow> experiment_config \<Rightarrow> string \<Rightarrow> go_error option" where
  "checkpoint_validate c config fingerprint =
     (case check_counters c config fingerprint of Some e \<Rightarrow> Some e
      | None \<Rightarrow> (case check_pending (ckp_entry_count (ck_corpus c)) {} (ck_pending c) of Some e \<Rightarrow> Some e
      | None \<Rightarrow> (case snapshot_validate (ck_aggregation c) config (ck_completed c) of
          Some e \<Rightarrow> Some (wrap_text ''checkpoint aggregation'' e)
      | None \<Rightarrow> (case check_schedule c config of Some e \<Rightarrow> Some e | None \<Rightarrow> check_corpus c))))"

section \<open>What the checks mean\<close>

lemma validate_unique_ints_None [simp]:
  "validate_unique_ints lo hi seen vs = None \<longleftrightarrow> set vs \<subseteq> {lo..<hi} \<and> distinct vs \<and> set vs \<inter> seen = {}"
  by (induction vs arbitrary: seen) auto

lemma validate_unique_int64s_None [simp]:
  "validate_unique_int64s seen vs = None \<longleftrightarrow> distinct vs \<and> set vs \<inter> seen = {}"
  by (induction vs arbitrary: seen) auto

lemma validate_unique_strings_None [simp]:
  "validate_unique_strings seen vs = None \<longleftrightarrow> [] \<notin> set vs \<and> distinct vs \<and> set vs \<inter> seen = {}"
  by (induction vs arbitrary: seen) auto

lemma check_admission_counts_None [simp]:
  "check_admission_counts m = None \<longleftrightarrow> (\<forall>(reason, n) \<in> set m. reason \<in> set known_admissions \<and> 0 \<le> n)"
  by (induction m rule: check_admission_counts.induct) auto

lemma check_pending_None [simp]:
  "check_pending n seen ps = None \<longleftrightarrow>
     (\<forall>p \<in> set ps. 0 < pm_count p) \<and> distinct (map pm_entry ps) \<and>
     pm_entry ` set ps \<subseteq> entry_name ` {0..<nat n} \<and> pm_entry ` set ps \<inter> seen = {}"
  by (induction ps arbitrary: seen) (auto simp: entry_name_def)

lemma check_in_flight_None [simp]:
  "check_in_flight config n completed seen ss = None \<longleftrightarrow>
     (\<forall>s \<in> set ss. sd_seed s = wrap64 (xc_base_seed config + sd_index s)) \<and>
     sd_index ` set ss \<subseteq> {0..<n} - completed - seen \<and> distinct (map sd_index ss)"
  by (induction ss arbitrary: seen) auto

lemma check_scheduling_None [simp]:
  "check_scheduling completed scheduled is = None \<longleftrightarrow> (\<forall>i \<in> set is. (i \<in> completed) \<noteq> (i \<in> scheduled))"
  by (induction "is") auto

lemma check_covered_None [simp]: "check_covered states ks = None \<longleftrightarrow> set ks \<subseteq> states"
  by (induction ks) auto

text \<open>What a stored report says: its counters are those of \<open>completed\<close> runs, the reasons of admission add
  up, and the stored sets have the sizes it reports.\<close>

definition admissions_ok :: "report \<Rightarrow> bool" where
  "admissions_ok r \<longleftrightarrow>
     (\<forall>(reason, n) \<in> set (rp_admission_counts r). reason \<in> set known_admissions \<and> 0 \<le> n) \<and>
     sum_list (map snd (rp_admission_counts r)) \<le> rp_succeeded r \<and>
     rp_corpus_entries r = admitted_for r AdmissionRetainedRaw + admitted_for r AdmissionRetainedSemanticState +
       admitted_for r AdmissionRetainedSemanticTransition + admitted_for r AdmissionRetainedSemanticStateAndTransition \<and>
     rp_rejected_raw r = admitted_for r AdmissionRejectedRawThreshold \<and>
     rp_rejected_semantic r = admitted_for r AdmissionRejectedNoSemanticNovelty \<and>
     rp_retained_by_state r = admitted_for r AdmissionRetainedSemanticState +
       admitted_for r AdmissionRetainedSemanticStateAndTransition \<and>
     rp_retained_by_transition r = admitted_for r AdmissionRetainedSemanticTransition +
       admitted_for r AdmissionRetainedSemanticStateAndTransition"

lemma validate_corpus_admissions_None [simp]:
  "validate_corpus_admissions r = None \<longleftrightarrow> admissions_ok r \<and>
     rp_novelty_per_100 r = novelty_per_100 (rp_unique_semantic_states r) (rp_unique_semantic_transitions r) (rp_actions r)"
  unfolding validate_corpus_admissions_def Let_def admissions_ok_def by (auto simp: not_less)

definition stored_counters_ok :: "report \<Rightarrow> experiment_config \<Rightarrow> int \<Rightarrow> bool" where
  "stored_counters_ok r config completed \<longleftrightarrow>
     rp_config r = config \<and> rp_feedback r \<and> rp_completed r = completed \<and>
     rp_succeeded r + rp_failed r = completed \<and>
     rp_initial_executions r + rp_executed_mutations r + rp_periodic r = completed \<and>
     0 \<le> rp_generated r \<and> 0 \<le> rp_discarded r \<and> 0 \<le> rp_admitted r \<and> rp_executed_mutations r \<le> rp_admitted r \<and>
     0 \<le> rp_peak_ready r \<and> rp_peak_ready r \<le> xc_max_ready_candidates config \<and>
     0 \<le> rp_unique_semantic_states r \<and> 0 \<le> rp_unique_semantic_transitions r \<and> admissions_ok r"

definition snapshot_ok :: "aggregation_snapshot \<Rightarrow> experiment_config \<Rightarrow> int \<Rightarrow> bool" where
  "snapshot_ok s config completed \<longleftrightarrow>
     stored_counters_ok (ag_report s) config completed \<and> rp_runs (ag_report s) = [] \<and>
     rp_novelty_per_100 (ag_report s) = novelty_per_100 (rp_unique_semantic_states (ag_report s))
       (rp_unique_semantic_transitions (ag_report s)) (rp_actions (ag_report s)) \<and>
     int (length (ag_indices s)) = completed \<and> int (length (ag_durations s)) = completed \<and>
     set (ag_indices s) \<subseteq> {0..<xc_runs config} \<and> distinct (ag_indices s) \<and> distinct (ag_states s) \<and>
     [] \<notin> set (ag_plans s) \<union> set (ag_traces s) \<union> set (ag_paths s) \<and>
     distinct (ag_plans s) \<and> distinct (ag_traces s) \<and> distinct (ag_paths s) \<and>
     rp_unique_states (ag_report s) = int (length (ag_states s)) \<and>
     rp_unique_plans (ag_report s) = int (length (ag_plans s)) \<and>
     rp_unique_traces (ag_report s) = int (length (ag_traces s)) \<and>
     rp_unique_paths (ag_report s) = int (length (ag_paths s))"

lemma snapshot_validate_None: "snapshot_validate s config completed = None \<longleftrightarrow> snapshot_ok s config completed"
  unfolding snapshot_validate_def Let_def snapshot_ok_def stored_counters_ok_def by (simp add: not_less) (argo)

text \<open>What a stored schedule says: the run indices given out are those of the completed runs and of the
  runs being executed, each exactly once.\<close>

definition schedule_ok :: "checkpoint \<Rightarrow> experiment_config \<Rightarrow> bool" where
  "schedule_ok c config \<longleftrightarrow>
     (\<forall>s \<in> set (ck_in_flight c). sd_seed s = wrap64 (xc_base_seed config + sd_index s)) \<and>
     distinct (ag_indices (ck_aggregation c) @ map sd_index (ck_in_flight c)) \<and>
     set (ag_indices (ck_aggregation c)) \<union> sd_index ` set (ck_in_flight c) = {0..<ck_next_run c}"

definition corpus_part_ok :: "checkpoint \<Rightarrow> bool" where
  "corpus_part_ok c \<longleftrightarrow>
     0 \<le> ckp_entry_count (ck_corpus c) \<and> distinct (ckp_coverage (ck_corpus c)) \<and>
     distinct (ckp_semantic_states (ck_corpus c)) \<and> distinct (ckp_semantic_transitions (ck_corpus c)) \<and>
     rp_corpus_entries (ag_report (ck_aggregation c)) = ckp_entry_count (ck_corpus c) \<and>
     rp_unique_semantic_states (ag_report (ck_aggregation c)) = int (length (ckp_semantic_states (ck_corpus c))) \<and>
     rp_unique_semantic_transitions (ag_report (ck_aggregation c)) =
       int (length (ckp_semantic_transitions (ck_corpus c))) \<and>
     set (ckp_coverage (ck_corpus c)) \<subseteq> set (ag_states (ck_aggregation c))"

definition counters_ok :: "checkpoint \<Rightarrow> experiment_config \<Rightarrow> string \<Rightarrow> bool" where
  "counters_ok c config fingerprint \<longleftrightarrow>
     ck_version c = checkpoint_version \<and> ck_config c = config \<and> ck_fingerprint c = fingerprint \<and>
     0 \<le> ck_completed c \<and> ck_completed c \<le> ck_next_run c \<and> ck_next_run c \<le> xc_runs config \<and>
     (if xc_random_seed_interval config = 0 then ck_next_seed_at c = 0 \<and> ck_seeds_due c = 0
      else ck_completed c < ck_next_seed_at c \<and> 0 \<le> ck_seeds_due c) \<and>
     ck_summaries c = ck_completed c \<and> int (length (ck_ready c)) \<le> xc_max_ready_candidates config \<and>
     int (length (ck_ready c)) \<le> rp_peak_ready (ag_report (ck_aggregation c))"

definition pending_ok :: "checkpoint \<Rightarrow> bool" where
  "pending_ok c \<longleftrightarrow> (\<forall>p \<in> set (ck_pending c). 0 < pm_count p) \<and> distinct (map pm_entry (ck_pending c)) \<and>
     pm_entry ` set (ck_pending c) \<subseteq> entry_name ` {0..<nat (ckp_entry_count (ck_corpus c))}"

definition checkpoint_ok :: "checkpoint \<Rightarrow> experiment_config \<Rightarrow> string \<Rightarrow> bool" where
  "checkpoint_ok c config fingerprint \<longleftrightarrow>
     counters_ok c config fingerprint \<and> pending_ok c \<and> snapshot_ok (ck_aggregation c) config (ck_completed c) \<and>
     schedule_ok c config \<and> corpus_part_ok c"

lemma check_counters_None: "check_counters c config fingerprint = None \<longleftrightarrow> counters_ok c config fingerprint"
  unfolding check_counters_def counters_ok_def by (auto simp: not_less)

lemma length_card_int: "distinct xs \<Longrightarrow> int (length xs) = int (card (set xs))"
  by (simp add: distinct_card)

lemma exact_schedule:
  fixes xs ys :: "int list"
  assumes "distinct xs" and "int (length xs) \<le> n"
  shows "set ys \<subseteq> {0..<n} - set xs \<and> distinct ys \<and> int (length xs) + int (length ys) = n \<and>
      (\<forall>i \<in> {0..<n}. (i \<in> set xs) \<noteq> (i \<in> set ys)) \<longleftrightarrow>
    distinct (xs @ ys) \<and> set xs \<union> set ys = {0..<n}" (is "?l \<longleftrightarrow> ?r")
proof
  assume l: ?l
  then have distinct: "distinct (xs @ ys)" using assms(1) by auto
  have "int (length (xs @ ys)) = n" using l by simp
  then have "card (set xs \<union> set ys) = nat n" using distinct_card [OF distinct] by simp
  moreover have "{0..<n} \<subseteq> set xs \<union> set ys" using l by auto
  ultimately have "{0..<n} = set xs \<union> set ys" by (intro card_subset_eq) simp_all
  with distinct show ?r by simp
next
  assume r: ?r
  then have "length (xs @ ys) = card {0..<n}" using distinct_card [of "xs @ ys"] by simp
  then have "int (length xs) + int (length ys) = n" using assms(2) by simp
  with r show ?l by auto
qed

lemma check_schedule_None:
  assumes "distinct (ag_indices (ck_aggregation c))" and "int (length (ag_indices (ck_aggregation c))) = ck_completed c"
    and "ck_completed c \<le> ck_next_run c"
  shows "check_schedule c config = None \<longleftrightarrow> schedule_ok c config"
proof -
  let ?n = "ck_next_run c"
  have all: "set [0..?n - 1] = {0..<?n}" by auto
  have "check_schedule c config = None \<longleftrightarrow>
      (\<forall>s \<in> set (ck_in_flight c). sd_seed s = wrap64 (xc_base_seed config + sd_index s)) \<and>
      (set (map sd_index (ck_in_flight c)) \<subseteq> {0..<?n} - set (ag_indices (ck_aggregation c)) \<and>
       distinct (map sd_index (ck_in_flight c)) \<and>
       int (length (ag_indices (ck_aggregation c))) + int (length (map sd_index (ck_in_flight c))) = ?n \<and>
       (\<forall>i \<in> {0..<?n}. (i \<in> set (ag_indices (ck_aggregation c))) \<noteq> (i \<in> set (map sd_index (ck_in_flight c)))))"
    unfolding check_schedule_def Let_def first_error_None_id check_in_flight_None
    by (simp only: if_split_eq1 option.distinct check_scheduling_None all assms(2) length_map set_map Diff_empty) blast
  also have "\<dots> \<longleftrightarrow> schedule_ok c config"
    unfolding schedule_ok_def by (subst exact_schedule) (use assms in simp_all)
  finally show ?thesis .
qed

lemma check_corpus_None:
  assumes "rp_unique_states (ag_report (ck_aggregation c)) = int (length (ag_states (ck_aggregation c)))"
  shows "check_corpus c = None \<longleftrightarrow> corpus_part_ok c"
  unfolding check_corpus_def Let_def corpus_part_ok_def using assms by (auto simp: not_less)

lemma checkpoint_validate_None:
  "checkpoint_validate c config fingerprint = None \<longleftrightarrow> checkpoint_ok c config fingerprint"
proof -
  have "check_schedule c config = None \<and> check_corpus c = None \<longleftrightarrow> schedule_ok c config \<and> corpus_part_ok c"
    if "counters_ok c config fingerprint" "snapshot_ok (ck_aggregation c) config (ck_completed c)"
    using check_schedule_None [of c config] check_corpus_None [of c] that
    by (simp add: counters_ok_def snapshot_ok_def)
  then show ?thesis
    by (auto simp: checkpoint_validate_def checkpoint_ok_def check_counters_None snapshot_validate_None pending_ok_def)
qed


end
