(* ===== verification/Feedback_Setup.thy ===== *)
theory Feedback_Setup
  imports Experiment_Checkpoint
begin

text \<open>
  internal/experiment/runner.go, the parts around the feedback loop: the configuration a runner accepts
  (\<open>New\<close>), the experiment without feedback (\<open>Run\<close>), the candidates an experiment starts from
  (\<open>initialCandidates\<close>), the seed and the number of mutations, and the order in which stored runs and
  mutations are listed.
\<close>

section \<open>Configuration\<close>

text \<open>The defaults that \<open>New\<close> fills in, and its checks in the order of the code. The seed of the last run
  must fit \<open>int64\<close>, so that no seed \<open>BaseSeed + index\<close> overflows.\<close>

definition with_defaults :: "experiment_config \<Rightarrow> experiment_config" where
  "with_defaults c =
     c\<lparr>xc_parallelism := (if xc_parallelism c > xc_runs c then xc_runs c else xc_parallelism c),
       xc_initial_population := (if xc_initial_population c = 0 then min 4 (xc_runs c) else xc_initial_population c),
       xc_mutations_per_new_state := (if xc_mutations_per_new_state c = 0 then 1 else xc_mutations_per_new_state c),
       xc_max_mutations_per_corpus := (if xc_max_mutations_per_corpus c = 0 then 2 else xc_max_mutations_per_corpus c),
       xc_max_ready_candidates := (if xc_max_ready_candidates c = 0 then 4096 else xc_max_ready_candidates c),
       xc_min_new_model_states := (if xc_min_new_model_states c = 0 then 1 else xc_min_new_model_states c),
       xc_max_crash_episodes := (if xc_max_crash_episodes c = 0 then 4 else xc_max_crash_episodes c)\<rparr>"

definition negative_bounds :: "experiment_config \<Rightarrow> bool" where
  "negative_bounds c \<longleftrightarrow>
     xc_initial_population c < 0 \<or> xc_mutations_per_new_state c < 0 \<or> xc_max_mutations_per_corpus c < 0 \<or>
     xc_max_ready_candidates c < 0 \<or> xc_min_new_model_states c < 0 \<or> xc_lifecycle_cooldown c < 0 \<or>
     xc_max_crash_episodes c < 0 \<or> xc_crash_restart_pair_percent c < 0 \<or> xc_crash_restart_pair_percent c > 100 \<or>
     xc_crash_weight c < 0 \<or> xc_restart_weight c < 0"

definition experiment_new :: "experiment_config \<Rightarrow> go_error + experiment_config" where
  "experiment_new c0 =
     (if xc_runs c0 \<le> 0 then Inl (plain_error ''experiment runs must be positive'')
      else if xc_parallelism c0 \<le> 0 then Inl (plain_error ''experiment parallelism must be positive'')
      else if xc_base_seed c0 > max_int64 - (xc_runs c0 - 1)
      then Inl (plain_error ''experiment seed range overflows int64'')
      else
        let c = with_defaults c0 in
        if negative_bounds c then Inl (plain_error ''feedback experiment bounds must be non-negative'')
        else if xc_random_seed_interval c < 0 \<or> xc_random_seeds_per_interval c < 0
        then Inl (plain_error ''periodic random seed settings must be non-negative'')
        else if xc_random_seed_interval c > 0 \<and> xc_random_seeds_per_interval c = 0
        then Inl (plain_error ''positive random seed interval requires seeds per interval'')
        else Inr (if xc_initial_population c > xc_runs c then c\<lparr>xc_initial_population := xc_runs c\<rparr> else c))"

definition zero_config :: experiment_config where
  "zero_config = \<lparr>xc_runs = 0, xc_base_seed = 0, xc_parallelism = 0, xc_initial_population = 0,
     xc_mutations_per_new_state = 0, xc_max_mutations_per_corpus = 0, xc_random_seed_interval = 0,
     xc_random_seeds_per_interval = 0, xc_max_ready_candidates = 0, xc_min_new_model_states = 0,
     xc_semantic_coverage = False, xc_lifecycle_cooldown = 0, xc_max_crash_episodes = 0,
     xc_crash_restart_pair_percent = 0, xc_crash_weight = 0, xc_restart_weight = 0\<rparr>"

section \<open>The experiment without feedback\<close>

text \<open>\<open>Run\<close>: the workers execute the indices given out, each into its own place of the report, so the
  order in which they finish does not show. \<open>canceled\<close> is the number of indices given out before the end
  of the context, with its error; \<open>execute\<close> gives result, error and duration of an index.\<close>

definition execute_run :: "(int \<Rightarrow> int \<Rightarrow> engine_result \<times> go_error option \<times> int) \<Rightarrow> int \<Rightarrow> int \<Rightarrow> run" where
  "execute_run execute index seed =
     (case execute index seed of (result, err, micros) \<Rightarrow> summarize_result index seed result err micros)"

definition experiment_run ::
  "experiment_config option \<Rightarrow> (int \<Rightarrow> int \<Rightarrow> engine_result \<times> go_error option \<times> int) option \<Rightarrow>
   (nat \<times> go_error) option \<Rightarrow> int \<Rightarrow> report \<times> go_error option" where
  "experiment_run receiver callback canceled elapsed =
     (case (receiver, callback) of
        (Some config, Some execute) \<Rightarrow>
          let (started, err) = (case canceled of
                  Some (k, e) \<Rightarrow> if k < nat (xc_runs config) then (k, Some e) else (nat (xc_runs config), None)
                | None \<Rightarrow> (nat (xc_runs config), None));
              r = new_report config False;
              r = r\<lparr>rp_runs := map (\<lambda>i. if i < started
                        then execute_run execute (int i) (wrap64 (xc_base_seed config + int i)) else empty_run)
                      [0..<nat (xc_runs config)]\<rparr>
          in (aggregate (r\<lparr>rp_elapsed := elapsed\<rparr>), err)
      | _ \<Rightarrow> (new_report zero_config False,
              Some (plain_error ''experiment runner and execute callback must not be nil'')))"

section \<open>Seeds and numbers of mutations\<close>

unbundle bit_operations_syntax

definition mutation_seed :: "int \<Rightarrow> int \<Rightarrow> int" where
  "mutation_seed base run_index =
     sint ((word_of_int base :: u64) XOR push_bit 32 (word_of_int (run_index + 1)) XOR 0x4d5554415445)"

definition mutation_count :: "int \<Rightarrow> int \<Rightarrow> int \<Rightarrow> int" where
  "mutation_count new_states per_state maximum =
     (if new_states \<le> 0 \<or> per_state \<le> 0 \<or> maximum \<le> 0 then 0
      else if new_states > maximum div per_state then maximum
      else min (wrap64 (new_states * per_state)) maximum)"

definition join_error_text :: "string \<Rightarrow> string \<Rightarrow> string" where
  "join_error_text existing added = (if existing = [] then added else existing @ ''; '' @ added)"

text \<open>\<open>fmt.Errorf("persist corpus entry: %w; rollback: %v", ...)\<close>: only the first error is wrapped.\<close>

definition rollback_failed :: "go_error \<Rightarrow> go_error \<Rightarrow> go_error" where
  "rollback_failed cause failure =
     cause\<lparr>err_text := ''persist corpus entry: '' @ err_text cause @ ''; rollback: '' @ err_text failure\<rparr>"

text \<open>The keys of the states as semantic states, and no transitions.\<close>

definition default_projection :: "model_state list \<Rightarrow> event list \<Rightarrow> int list \<times> int list" where
  "default_projection states events = (unique_state_keys states, [])"

section \<open>Candidates\<close>

text \<open>\<open>fmt.Sprintf("candidate-%06d", n)\<close>: the sign counts for the width.\<close>

definition pad6_int :: "int \<Rightarrow> string" where
  "pad6_int i =
     (if 0 \<le> i then pad6 (nat i)
      else let digits = show_nat (nat (- i)) in CHR ''-'' # replicate (5 - length digits) (CHR ''0'') @ digits)"

definition candidate_name :: "int \<Rightarrow> string" where
  "candidate_name i = ''candidate-'' @ pad6_int i"

definition initial_candidate :: "string \<Rightarrow> int \<Rightarrow> plan_sequence option \<Rightarrow> candidate" where
  "initial_candidate source i p = \<lparr>cd_id = candidate_name i, cd_parent = [], cd_kind = CandidateInitial,
     cd_source = source, cd_depth = 0, cd_plan = p\<rparr>"

text \<open>The candidates made of generated plans, in order; the first bad plan ends it.\<close>

fun planned_candidates :: "string \<Rightarrow> nat \<Rightarrow> int \<Rightarrow> plan_sequence list \<Rightarrow> go_error + candidate list" where
  "planned_candidates name index next_id [] = Inr []"
| "planned_candidates name index next_id (p # ps) =
     (if ps_actions p = [] then Inl (plain_error (name @ '' returned empty plan '' @ show_nat index))
      else case plan_sequence_validate p of
        Some e \<Rightarrow> Inl (wrap_text (name @ '' returned invalid plan '' @ show_nat index) e)
      | None \<Rightarrow>
          (case planned_candidates name (Suc index) (next_id + 1) ps of
             Inl e \<Rightarrow> Inl e | Inr cs \<Rightarrow> Inr (initial_candidate name next_id (Some p) # cs)))"

text \<open>\<open>initialCandidates\<close>: \<open>generated\<close> is what the initializer returned, None without one. The result comes
  with the next candidate number.\<close>

definition initial_candidates ::
  "string \<Rightarrow> (go_error + plan_sequence list) option \<Rightarrow> int \<Rightarrow> int \<Rightarrow> go_error + candidate list \<times> int" where
  "initial_candidates name generated wanted next_id =
     (if wanted \<le> 0 then Inl (plain_error ''initial candidate count must be positive'')
      else case generated of
        None \<Rightarrow> Inr (map (\<lambda>i. initial_candidate name (next_id + int i) None) [0..<nat wanted], next_id + wanted)
      | Some (Inl e) \<Rightarrow> Inl (wrap_text (name @ '' failed'') e)
      | Some (Inr ps) \<Rightarrow>
          if ps = [] then Inl (plain_error (name @ '' returned no plans''))
          else (case planned_candidates name 0 next_id (take (nat wanted) ps) of
                  Inl e \<Rightarrow> Inl e | Inr cs \<Rightarrow> Inr (cs, next_id + int (length cs))))"

section \<open>Listings\<close>

definition merge_scheduled :: "scheduled list list \<Rightarrow> scheduled list" where
  "merge_scheduled groups = sort_key sd_index (concat groups)"

definition scheduled_values :: "(int \<times> scheduled) list \<Rightarrow> scheduled list" where
  "scheduled_values m = sort_key sd_index (map snd m)"

definition pending_values :: "(string \<times> mutation_request) list \<Rightarrow> mutation_request list" where
  "pending_values m = sort_key (\<lambda>r. en_run_index (mr_entry r)) (map snd m)"

definition pending_checkpoint_values :: "(string \<times> mutation_request) list \<Rightarrow> pending_mutation list" where
  "pending_checkpoint_values m =
     map (\<lambda>r. \<lparr>pm_entry = en_id (mr_entry r), pm_count = mr_count r, pm_seed = mr_seed r\<rparr>) (pending_values m)"

end
