(* ===== verification/Feedback_Loop.thy ===== *)
theory Feedback_Loop
  imports Feedback_Setup
begin

text \<open>
  internal/experiment/runner.go, \<open>RunFeedback\<close>: the loop seed, execution, coverage, corpus, mutation, new
  candidate. The function owns its state; goroutines execute candidates and mutate plans, and send their
  results on channels that the loop selects from. So the state is a record, and what the goroutines and
  the context do is a list of arrivals, in the order in which \<open>select\<close> takes them. The mutation
  worker takes the requests one by one, so a mutation that arrives answers the oldest request.

  The hooks, the initializer and the clock belong to the surroundings. A hook sees all calls made before
  (\<open>log\<close>), which is all its answer can depend on apart from its own state; the elapsed time is what the
  clock shows at each reading, in milliseconds. Waiting for the goroutines at the end, and the times of
  events and checkpoints, have no counterpart.
\<close>

section \<open>Data\<close>

datatype event_kind =
    EventExperimentStarted | EventExperimentResumed | EventRunCompleted | EventMutationCompleted
  | EventExperimentCompleted | EventExperimentCanceled

text \<open>The runner sets neither the run nor the candidate of an event.\<close>

record progress_event =
  ev_sequence :: u64
  ev_kind :: event_kind
  ev_run_index :: int
  ev_candidate :: string
  ev_corpus :: string
  ev_mutation_count :: int
  ev_error :: string
  ev_completed :: int
  ev_entries :: int

record feedback_execution =
  fe_result :: engine_result
  fe_plan :: plan_sequence

record completion =
  cm_run :: run
  cm_candidate :: candidate
  cm_execution :: feedback_execution

text \<open>The calls the loop makes: the four hooks, and the initializer with a number and a seed.\<close>

datatype call =
    OnEvent progress_event
  | OnCorpusEntry corpus_entry
  | OnRunComplete completion
  | OnCheckpoint checkpoint
  | CallInitializer int int

text \<open>Each call with the error it returned.\<close>

type_synonym log = "(call \<times> go_error option) list"

record feedback_options =
  fo_initializer_name :: string
  fo_initializer :: "(log \<Rightarrow> int \<Rightarrow> int \<Rightarrow> go_error + plan_sequence list) option"
  fo_mutator :: "string option"
  fo_projector :: "(model_state list \<Rightarrow> event list \<Rightarrow> int list \<times> int list) option"
  fo_resume :: "checkpoint option"
  fo_resume_entries :: "corpus_entry list"
  fo_on_event :: "(log \<Rightarrow> progress_event \<Rightarrow> go_error option) option"
  fo_on_corpus_entry :: "(log \<Rightarrow> corpus_entry \<Rightarrow> go_error option) option"
  fo_on_run_complete :: "(log \<Rightarrow> completion \<Rightarrow> go_error option) option"
  fo_on_checkpoint :: "(log \<Rightarrow> checkpoint \<Rightarrow> go_error option) option"
  fo_checkpoint_every :: int
  fo_fingerprint :: string

text \<open>A mutator is its name; its answers are arrivals. What a call is made with: the configuration of the
  runner, the options after their defaults, the digest of a value and the clock.\<close>

record feedback_env =
  fv_config :: experiment_config
  fv_options :: feedback_options
  fv_digest :: "digested \<Rightarrow> string"
  fv_clock :: "nat \<Rightarrow> int"

record feedback_state =
  fs_accumulator :: accumulator
  fs_corpus :: corpus
  fs_ready :: "candidate list"
  fs_rerun :: "scheduled list"
  fs_pending :: "(string \<times> mutation_request) list"
  fs_requests :: "mutation_request list"
  fs_next_candidate :: int
  fs_next_run :: int
  fs_completed :: int
  fs_next_seed_at :: int
  fs_seeds_due :: int
  fs_events :: u64
  fs_offset :: int
  fs_in_flight :: "(int \<times> scheduled) list"
  fs_running :: int
  fs_log :: log
  fs_reads :: nat

text \<open>The state after some steps, or what the call has returned: report, corpus and error, with the last
  state. \<open>Diverges\<close> is a loop of the code that does not end.\<close>

datatype outcome =
    Returned report corpus_checkpoint "go_error option" feedback_state
  | Diverges

datatype arrival =
    ContextDone go_error
  | ExecutionArrives int feedback_execution "go_error option" int
  | MutationArrives "plan_sequence list" "go_error option"

section \<open>Hooks, clock and checkpoints\<close>

definition corpus_size :: "feedback_state \<Rightarrow> int" where
  "corpus_size s = int (length (cp_entries (fs_corpus s)))"

definition record_call :: "call \<Rightarrow> go_error option \<Rightarrow> feedback_state \<Rightarrow> feedback_state" where
  "record_call c err s = s\<lparr>fs_log := fs_log s @ [(c, err)]\<rparr>"

definition elapsed_millis :: "feedback_env \<Rightarrow> feedback_state \<Rightarrow> int \<times> feedback_state" where
  "elapsed_millis v s = (fs_offset s + fv_clock v (fs_reads s), s\<lparr>fs_reads := Suc (fs_reads s)\<rparr>)"

definition plain_event :: "event_kind \<Rightarrow> progress_event" where
  "plain_event k = \<lparr>ev_sequence = 0, ev_kind = k, ev_run_index = 0, ev_candidate = [], ev_corpus = [],
     ev_mutation_count = 0, ev_error = [], ev_completed = 0, ev_entries = 0\<rparr>"

definition emit :: "feedback_env \<Rightarrow> progress_event \<Rightarrow> feedback_state \<Rightarrow> go_error option \<times> feedback_state" where
  "emit v e0 s =
     (case fo_on_event (fv_options v) of
        None \<Rightarrow> (None, s)
      | Some hook \<Rightarrow>
          let next_sequence = fs_events s + 1;
              e = e0\<lparr>ev_sequence := next_sequence, ev_completed := fs_completed s, ev_entries := corpus_size s\<rparr>;
              err = hook (fs_log s) e;
              s = record_call (OnEvent e) err s
          in (case err of Some _ \<Rightarrow> (err, s) | None \<Rightarrow> (None, s\<lparr>fs_events := next_sequence\<rparr>)))"

text \<open>The checkpoint of a state, with the snapshot of the accumulator.\<close>

definition checkpoint_of :: "feedback_env \<Rightarrow> aggregation_snapshot \<Rightarrow> int \<Rightarrow> feedback_state \<Rightarrow> checkpoint" where
  "checkpoint_of v snapshot elapsed s =
     \<lparr>ck_version = checkpoint_version, ck_config = fv_config v, ck_aggregation = snapshot,
      ck_corpus = corpus_checkpoint_of (Some (fs_corpus s)), ck_ready = fs_ready s,
      ck_in_flight = merge_scheduled [fs_rerun s, scheduled_values (fs_in_flight s)],
      ck_pending = pending_checkpoint_values (fs_pending s), ck_next_candidate = fs_next_candidate s,
      ck_next_run = fs_next_run s, ck_completed = fs_completed s, ck_summaries = fs_completed s,
      ck_next_seed_at = fs_next_seed_at s, ck_seeds_due = fs_seeds_due s, ck_events = fs_events s,
      ck_elapsed = elapsed, ck_fingerprint = fo_fingerprint (fv_options v)\<rparr>"

text \<open>\<open>checkpoint\<close>: the snapshot finalizes the report of the accumulator on the way.\<close>

definition save :: "feedback_env \<Rightarrow> bool \<Rightarrow> feedback_state \<Rightarrow> go_error option \<times> feedback_state" where
  "save v force s =
     (case fo_on_checkpoint (fv_options v) of
        None \<Rightarrow> (None, s)
      | Some hook \<Rightarrow>
          if \<not> force \<and> fs_completed s mod fo_checkpoint_every (fv_options v) \<noteq> 0 then (None, s)
          else
            let (elapsed, s) = elapsed_millis v s;
                (snapshot, a) = accumulator_snapshot (corpus_size s) elapsed (fs_accumulator s);
                s = s\<lparr>fs_accumulator := a\<rparr>;
                c = checkpoint_of v snapshot elapsed s;
                err = hook (fs_log s) c
            in (err, record_call (OnCheckpoint c) err s))"

text \<open>The final report: the values the call returns.\<close>

definition finish_with :: "feedback_env \<Rightarrow> go_error option \<Rightarrow> feedback_state \<Rightarrow> outcome" where
  "finish_with v err s =
     (let (elapsed, s) = elapsed_millis v s;
          s = s\<lparr>fs_accumulator := finalize (corpus_size s) elapsed (fs_accumulator s)\<rparr>
      in Returned (ac_report (fs_accumulator s)) (corpus_checkpoint_of (Some (fs_corpus s))) err s)"

definition stop_with_error :: "feedback_env \<Rightarrow> go_error \<Rightarrow> feedback_state \<Rightarrow> outcome" where
  "stop_with_error v cause s =
     (let s = snd (emit v ((plain_event EventExperimentCanceled)\<lparr>ev_error := err_text cause\<rparr>) s);
          s = snd (save v True s)
      in finish_with v (Some cause) s)"

text \<open>Go on if there is no error.\<close>

definition unless_failed ::
  "feedback_env \<Rightarrow> go_error option \<times> feedback_state \<Rightarrow> (feedback_state \<Rightarrow> outcome + feedback_state) \<Rightarrow>
   outcome + feedback_state" where
  "unless_failed v r f = (case r of (Some e, s) \<Rightarrow> Inl (stop_with_error v e s) | (None, s) \<Rightarrow> f s)"

section \<open>Handing out work\<close>

definition launch :: "scheduled \<Rightarrow> feedback_state \<Rightarrow> feedback_state" where
  "launch task s =
     s\<lparr>fs_in_flight := AList.update (sd_index task) task (fs_in_flight s), fs_running := fs_running s + 1\<rparr>"

function dispatch_rerun :: "feedback_env \<Rightarrow> feedback_state \<Rightarrow> feedback_state" where
  "dispatch_rerun v s =
     (if fs_running s < xc_parallelism (fv_config v) \<and> fs_rerun s \<noteq> []
      then dispatch_rerun v (launch (hd (fs_rerun s)) (s\<lparr>fs_rerun := tl (fs_rerun s)\<rparr>))
      else s)"
  by auto

termination
  by (relation "measure (\<lambda>(v, s). length (fs_rerun s))") (auto simp: launch_def)

text \<open>The next candidate: a periodic random seed that is due, or the first of the queue.\<close>

definition take_candidate :: "feedback_state \<Rightarrow> candidate \<times> feedback_state" where
  "take_candidate s =
     (if fs_seeds_due s > 0
      then (\<lparr>cd_id = candidate_name (fs_next_candidate s), cd_parent = [], cd_kind = CandidatePeriodicRandom,
              cd_source = ''periodic_random'', cd_depth = 0, cd_plan = None\<rparr>,
            s\<lparr>fs_next_candidate := fs_next_candidate s + 1, fs_seeds_due := fs_seeds_due s - 1\<rparr>)
      else (hd (fs_ready s), s\<lparr>fs_ready := tl (fs_ready s)\<rparr>))"

definition launch_next :: "feedback_env \<Rightarrow> feedback_state \<Rightarrow> feedback_state" where
  "launch_next v s0 =
     (let (candidate, s) = take_candidate s0;
          task = \<lparr>sd_index = fs_next_run s, sd_seed = wrap64 (xc_base_seed (fv_config v) + fs_next_run s),
                  sd_candidate = candidate\<rparr>
      in launch task (s\<lparr>fs_next_run := fs_next_run s + 1\<rparr>))"

lemma launch_next_run [simp]: "fs_next_run (launch_next v s) = fs_next_run s + 1"
  by (simp add: launch_next_def take_candidate_def launch_def split: prod.split)

function dispatch_ready :: "feedback_env \<Rightarrow> feedback_state \<Rightarrow> feedback_state" where
  "dispatch_ready v s =
     (if fs_next_run s < xc_runs (fv_config v) \<and> fs_running s < xc_parallelism (fv_config v) \<and>
         (fs_seeds_due s > 0 \<or> fs_ready s \<noteq> [])
      then dispatch_ready v (launch_next v s)
      else s)"
  by auto

termination
  by (relation "measure (\<lambda>(v, s). nat (xc_runs (fv_config v) - fs_next_run s))") auto

declare dispatch_rerun.simps [simp del] dispatch_ready.simps [simp del]

definition dispatch :: "feedback_env \<Rightarrow> feedback_state \<Rightarrow> feedback_state" where
  "dispatch v s = dispatch_ready v (dispatch_rerun v s)"

section \<open>New seeds\<close>

definition call_initializer :: "feedback_env \<Rightarrow> int \<Rightarrow> int \<Rightarrow> feedback_state \<Rightarrow> (go_error + plan_sequence list) option \<times> feedback_state" where
  "call_initializer v wanted seed s =
     (case fo_initializer (fv_options v) of
        None \<Rightarrow> (None, s)
      | Some f \<Rightarrow>
          let answer = f (fs_log s) wanted seed
          in (Some answer, record_call (CallInitializer wanted seed) (case answer of Inl e \<Rightarrow> Some e | Inr _ \<Rightarrow> None) s))"

definition needs_seed :: "feedback_env \<Rightarrow> feedback_state \<Rightarrow> bool" where
  "needs_seed v s \<longleftrightarrow> fs_running s = 0 \<and> fs_ready s = [] \<and> fs_pending s = [] \<and> fs_next_run s < xc_runs (fv_config v)"

definition refill :: "feedback_env \<Rightarrow> feedback_state \<Rightarrow> go_error option \<times> feedback_state" where
  "refill v s0 =
     (let (generated, s) = call_initializer v 1 (wrap64 (xc_base_seed (fv_config v) + fs_next_run s0)) s0 in
      case initial_candidates (fo_initializer_name (fv_options v)) generated 1 (fs_next_candidate s) of
        Inl e \<Rightarrow> (Some e, s)
      | Inr (seeds, next_id) \<Rightarrow> (None, s\<lparr>fs_ready := fs_ready s @ seeds, fs_next_candidate := next_id\<rparr>))"

text \<open>The end of a call whose runs are all completed.\<close>

definition finish :: "feedback_env \<Rightarrow> feedback_state \<Rightarrow> outcome" where
  "finish v s0 =
     (case emit v (plain_event EventExperimentCompleted) (s0\<lparr>fs_ready := [], fs_seeds_due := 0, fs_pending := []\<rparr>) of
        (Some e, s) \<Rightarrow> finish_with v (Some e) s
      | (None, s) \<Rightarrow>
          (case save v True s of (Some e, s) \<Rightarrow> finish_with v (Some e) s | (None, s) \<Rightarrow> finish_with v None s))"

text \<open>The head of the loop up to \<open>select\<close>: hand out work, and ask for a new seed when nothing is left to do
  and nothing can arrive. A new seed starts the loop anew.\<close>

lemma dispatch_rerun_next_run [simp]:
  "fs_next_run (dispatch_rerun v s) = fs_next_run s \<and> fs_ready (dispatch_rerun v s) = fs_ready s"
proof (induction v s rule: dispatch_rerun.induct)
  case (1 v s)
  then show ?case by (subst (1 2) dispatch_rerun.simps) (simp add: launch_def)
qed

lemma dispatch_ready_next_run:
  "fs_next_run s \<le> fs_next_run (dispatch_ready v s) \<and>
     (fs_ready (dispatch_ready v s) = [] \<longrightarrow> fs_ready s = [] \<or>
        fs_next_run s < xc_runs (fv_config v) \<and> fs_next_run s < fs_next_run (dispatch_ready v s))"
proof (induction v s rule: dispatch_ready.induct)
  case (1 v s)
  show ?case
  proof (cases "fs_next_run s < xc_runs (fv_config v) \<and> fs_running s < xc_parallelism (fv_config v) \<and>
         (fs_seeds_due s > 0 \<or> fs_ready s \<noteq> [])")
    case True
    then have "dispatch_ready v s = dispatch_ready v (launch_next v s)" by (simp add: dispatch_ready.simps)
    with 1 [OF True] True show ?thesis by auto
  next
    case False
    then have "dispatch_ready v s = s" by (subst dispatch_ready.simps) (simp only: if_False)
    then show ?thesis by simp
  qed
qed

lemma planned_candidates_length: "planned_candidates name i n ps = Inr cs \<Longrightarrow> length cs = length ps"
  by (induction ps arbitrary: i n cs) (auto split: if_splits option.splits sum.splits)

lemma initial_candidates_some:
  "initial_candidates name generated wanted n = Inr (cs, n') \<Longrightarrow> cs \<noteq> [] \<and> int (length cs) \<le> wanted \<and> n' = n + int (length cs)"
  by (auto simp: initial_candidates_def min_def dest!: planned_candidates_length split: if_splits option.splits sum.splits)

lemma call_initializer_state: "\<exists>l. snd (call_initializer v wanted seed s) = s\<lparr>fs_log := l\<rparr>"
  unfolding call_initializer_def record_call_def Let_def
  by (cases "fo_initializer (fv_options v)") (auto intro: exI [of _ "fs_log s"])

lemma refill_next_run: "refill v s = (None, s') \<Longrightarrow> fs_next_run s' = fs_next_run s \<and> fs_ready s' \<noteq> []"
proof -
  assume step: "refill v s = (None, s')"
  obtain generated s1 where call: "call_initializer v 1 (wrap64 (xc_base_seed (fv_config v) + fs_next_run s)) s = (generated, s1)"
    by fastforce
  then have "\<exists>l. s1 = s\<lparr>fs_log := l\<rparr>" using call_initializer_state by (metis snd_conv)
  then obtain l where s1: "s1 = s\<lparr>fs_log := l\<rparr>" ..
  show ?thesis
  proof (cases "initial_candidates (fo_initializer_name (fv_options v)) generated 1 (fs_next_candidate s1)")
    case (Inl e)
    with step call show ?thesis by (simp add: refill_def)
  next
    case (Inr p)
    obtain seeds n where p: "p = (seeds, n)" by (cases p)
    from step call Inr initial_candidates_some [of "fo_initializer_name (fv_options v)" generated 1] show ?thesis
      by (auto simp: refill_def p s1)
  qed
qed

lemma dispatch_next_run:
  "fs_next_run s \<le> fs_next_run (dispatch v s) \<and>
     (fs_ready (dispatch v s) = [] \<longrightarrow> fs_ready s = [] \<or>
        fs_next_run s < xc_runs (fv_config v) \<and> fs_next_run s < fs_next_run (dispatch v s))"
  using dispatch_ready_next_run [of "dispatch_rerun v s" v] by (simp add: dispatch_def)

function settle :: "feedback_env \<Rightarrow> feedback_state \<Rightarrow> outcome + feedback_state" where
  "settle v s0 =
     (if fs_completed s0 \<ge> xc_runs (fv_config v) then Inl (finish v s0)
      else
        let s = dispatch v s0 in
        if fs_completed s = xc_runs (fv_config v) then Inl (finish v s)
        else if needs_seed v s
        then (case refill v s of (Some e, s) \<Rightarrow> Inl (stop_with_error v e s) | (None, s) \<Rightarrow> settle v s)
        else Inr s)"
  by auto

termination
proof (relation "measure (\<lambda>(v, s). 2 * nat (xc_runs (fv_config v) - fs_next_run s) + (if fs_ready s = [] then 1 else 0))", goal_cases)
  case (2 v s0 s e s')
  then have s': "fs_next_run s' = fs_next_run s" "fs_ready s' \<noteq> []" using refill_next_run by fastforce+
  from 2 dispatch_next_run [of s0 v] s' show ?case by (auto simp: needs_seed_def)
qed simp

declare settle.simps [simp del]

section \<open>An execution has finished\<close>

text \<open>The thresholds of the periodic seeds: a loop that does not end when the interval is 0.\<close>

function seed_threshold :: "int \<Rightarrow> int \<Rightarrow> int \<Rightarrow> int \<Rightarrow> int \<Rightarrow> (int \<times> int) option" where
  "seed_threshold interval per completed next_at due =
     (if next_at > 0 \<and> completed \<ge> next_at
      then if interval = 0 then None
           else seed_threshold interval per completed (next_at + interval) (wrap64 (due + per))
      else Some (next_at, due))"
  by auto

termination
  by (relation "measure (\<lambda>(interval, per, completed, next_at, due).
        if interval > 0 then nat (completed - next_at + 1) else nat next_at)") auto

declare seed_threshold.simps [simp del]

definition feedback_run :: "feedback_env \<Rightarrow> scheduled \<Rightarrow> feedback_execution \<Rightarrow> go_error option \<Rightarrow> int \<Rightarrow> run" where
  "feedback_run v task x err micros =
     (let c = sd_candidate task in
      (summarize_result (sd_index task) (sd_seed task) (fe_result x) err micros)\<lparr>
        rn_candidate_id := cd_id c, rn_candidate_kind := cd_kind c, rn_parent := cd_parent c,
        rn_source := cd_source c, rn_depth := cd_depth c, rn_plan_digest := digest_plan (fv_digest v) (fe_plan x),
        rn_trace_digest := digest_trace (fv_digest v) (er_trace (fe_result x)),
        rn_path_digest := digest_state_path (fv_digest v) (er_states (fe_result x))\<rparr>)"

text \<open>The counters of the kinds of candidates.\<close>

definition count_candidate :: "candidate_kind \<Rightarrow> report \<Rightarrow> report" where
  "count_candidate k r =
     (case k of
        CandidateMutation \<Rightarrow> r\<lparr>rp_executed_mutations := rp_executed_mutations r + 1\<rparr>
      | CandidateInitial \<Rightarrow> r\<lparr>rp_initial_executions := rp_initial_executions r + 1\<rparr>
      | _ \<Rightarrow> r)"

definition corpus_input_of :: "feedback_env \<Rightarrow> scheduled \<Rightarrow> feedback_execution \<Rightarrow> corpus_input" where
  "corpus_input_of v task x =
     (let c = sd_candidate task; r = fe_result x;
          (states, transitions) = (case fo_projector (fv_options v) of
              None \<Rightarrow> default_projection (er_states r) (er_events r)
            | Some f \<Rightarrow> f (er_states r) (er_events r))
      in \<lparr>in_parent = cd_parent c, in_source = cd_source c, in_depth = cd_depth c, in_run_index = sd_index task,
          in_seed = sd_seed task, in_plan = fe_plan x, in_states = er_states r,
          in_semantic_states = states, in_semantic_transitions = transitions\<rparr>)"

text \<open>What the corpus found new in a run; on an error the entry is empty.\<close>

definition with_novelty :: "corpus_entry \<Rightarrow> run \<Rightarrow> run" where
  "with_novelty e run0 =
     (let r = run0\<lparr>rn_new_state_keys := en_new_states e, rn_new_raw_states := int (length (en_new_states e)),
            rn_new_semantic_states := int (length (en_new_semantic_states e)),
            rn_new_semantic_transitions := int (length (en_new_semantic_transitions e)),
            rn_admission := admission_text (en_reason e)\<rparr>
      in if rn_actions r > 0
         then r\<lparr>rn_novelty_per_100 := of_int (rn_new_semantic_states r + rn_new_semantic_transitions r) * 100 /
                  of_int (rn_actions r)\<rparr>
         else r)"

text \<open>A retained entry becomes the parent of mutations, as long as there are runs left.\<close>

definition request_mutations :: "feedback_env \<Rightarrow> corpus_entry \<Rightarrow> feedback_state \<Rightarrow> feedback_state" where
  "request_mutations v e s =
     (let config = fv_config v;
          novelty = int (length (en_new_semantic_states e) + length (en_new_semantic_transitions e));
          wanted = mutation_count (max 1 novelty) (xc_mutations_per_new_state config) (xc_max_mutations_per_corpus config)
      in if wanted > 0 \<and> fs_next_run s < xc_runs config
         then let request = \<lparr>mr_entry = e, mr_count = wanted, mr_seed = mutation_seed (xc_base_seed config) (en_run_index e)\<rparr>
              in s\<lparr>fs_pending := AList.update (en_id e) request (fs_pending s),
                   fs_requests := fs_requests s @ [request]\<rparr>
         else s)"

definition commit_entry :: "feedback_env \<Rightarrow> corpus_entry \<Rightarrow> run \<Rightarrow> feedback_state \<Rightarrow> outcome + run \<times> feedback_state" where
  "commit_entry v e run s0 =
     (let (err, s) = (case fo_on_corpus_entry (fv_options v) of
              None \<Rightarrow> (None, s0)
            | Some hook \<Rightarrow> let err = hook (fs_log s0) e in (err, record_call (OnCorpusEntry e) err s0))
      in case err of
           Some cause \<Rightarrow>
             (case rollback_last (Some (fs_corpus s)) e of
                Inl failure \<Rightarrow> Inl (stop_with_error v (rollback_failed cause failure) s)
              | Inr c \<Rightarrow> Inl (stop_with_error v (wrap_text ''persist corpus entry'' cause) (s\<lparr>fs_corpus := c\<rparr>)))
         | None \<Rightarrow> Inr (run\<lparr>rn_retained := True, rn_corpus_id := en_id e\<rparr>, request_mutations v e s))"

definition consider_run ::
  "feedback_env \<Rightarrow> scheduled \<Rightarrow> feedback_execution \<Rightarrow> run \<Rightarrow> feedback_state \<Rightarrow> outcome + run \<times> feedback_state" where
  "consider_run v task x run s =
     (if \<not> rn_succeeded run \<or> er_states (fe_result x) = [] then Inr (run, s)
      else case corpus_consider (Some (fs_corpus s)) (corpus_input_of v task x) of
        Inl e \<Rightarrow> Inr ((with_novelty empty_entry run)\<lparr>
            rn_error := join_error_text (rn_error run) (err_text e), rn_succeeded := False\<rparr>, s)
      | Inr (entry, retained, c) \<Rightarrow>
          let run = with_novelty entry run; s = s\<lparr>fs_corpus := c\<rparr>
          in if retained then commit_entry v entry run s else Inr (run, s))"

text \<open>The run is added to the report, and made known.\<close>

definition complete_run ::
  "feedback_env \<Rightarrow> scheduled \<Rightarrow> feedback_execution \<Rightarrow> run \<Rightarrow> feedback_state \<Rightarrow> outcome + feedback_state" where
  "complete_run v task x run s0 =
     (let (elapsed, s) = elapsed_millis v s0 in
      case add_run run (corpus_size s) elapsed (fs_accumulator s) of
        Inl e \<Rightarrow> Inl (stop_with_error v e s)
      | Inr a \<Rightarrow>
          let s = s\<lparr>fs_accumulator := a\<rparr>;
              c = \<lparr>cm_run = run, cm_candidate = sd_candidate task, cm_execution = x\<rparr>;
              r = (case fo_on_run_complete (fv_options v) of
                     None \<Rightarrow> (None, s)
                   | Some hook \<Rightarrow> let err = hook (fs_log s) c in (err, record_call (OnRunComplete c) err s))
          in unless_failed v r (\<lambda>s.
               unless_failed v
                 (emit v ((plain_event EventRunCompleted)\<lparr>ev_run_index := rn_index run,
                    ev_candidate := cd_id (sd_candidate task), ev_corpus := rn_corpus_id run\<rparr>) s)
                 (\<lambda>s. unless_failed v (save v False s) Inr)))"

text \<open>A run that has arrived is classified and counted before the corpus sees it. None: the loop over the
  thresholds does not end.\<close>

definition take_run :: "feedback_env \<Rightarrow> scheduled \<Rightarrow> run \<Rightarrow> feedback_state \<Rightarrow> (run \<times> feedback_state) option" where
  "take_run v task run0 s0 =
     (let s = s0\<lparr>fs_running := fs_running s0 - 1, fs_in_flight := AList.delete (sd_index task) (fs_in_flight s0),
                 fs_completed := fs_completed s0 + 1\<rparr>
      in case seed_threshold (xc_random_seed_interval (fv_config v)) (xc_random_seeds_per_interval (fv_config v))
                (fs_completed s) (fs_next_seed_at s) (fs_seeds_due s) of
           None \<Rightarrow> None
         | Some (next_at, due) \<Rightarrow>
             let (run, a) = classify run0 (fs_accumulator s);
                 a = a\<lparr>ac_report := count_candidate (cd_kind (sd_candidate task)) (ac_report a)\<rparr>
             in Some (run, s\<lparr>fs_next_seed_at := next_at, fs_seeds_due := due, fs_accumulator := a\<rparr>))"

definition handle_execution ::
  "feedback_env \<Rightarrow> scheduled \<Rightarrow> feedback_execution \<Rightarrow> go_error option \<Rightarrow> int \<Rightarrow> feedback_state \<Rightarrow> outcome + feedback_state" where
  "handle_execution v task x err micros s =
     (case take_run v task (feedback_run v task x err micros) s of
        None \<Rightarrow> Inl Diverges
      | Some (run, s) \<Rightarrow>
          (case consider_run v task x run s of
             Inl out \<Rightarrow> Inl out
           | Inr (run, s) \<Rightarrow> complete_run v task x run s))"

section \<open>A mutation has finished\<close>

text \<open>One mutated plan: discarded when the queue already covers the runs left, otherwise queued, in place of
  the oldest candidate if the queue is full.\<close>

definition peaked :: "feedback_state \<Rightarrow> feedback_state" where
  "peaked s =
     (let a = fs_accumulator s; n = int (length (fs_ready s)) in
      if n > rp_peak_ready (ac_report a)
      then s\<lparr>fs_accumulator := a\<lparr>ac_report := (ac_report a)\<lparr>rp_peak_ready := n\<rparr>\<rparr>\<rparr>
      else s)"

definition update_report :: "(report \<Rightarrow> report) \<Rightarrow> feedback_state \<Rightarrow> feedback_state" where
  "update_report f s = s\<lparr>fs_accumulator := (fs_accumulator s)\<lparr>ac_report := f (ac_report (fs_accumulator s))\<rparr>\<rparr>"

definition count_discarded :: "report \<Rightarrow> report" where
  "count_discarded r = r\<lparr>rp_discarded := rp_discarded r + 1\<rparr>"

definition admit_mutation :: "feedback_env \<Rightarrow> string \<Rightarrow> corpus_entry \<Rightarrow> plan_sequence \<Rightarrow> feedback_state \<Rightarrow> feedback_state" where
  "admit_mutation v name e p s =
     (if fs_next_run s + int (length (fs_ready s)) \<ge> xc_runs (fv_config v) then update_report count_discarded s
      else
        let c = \<lparr>cd_id = candidate_name (fs_next_candidate s), cd_parent = en_id e, cd_kind = CandidateMutation,
                  cd_source = name, cd_depth = en_depth e + 1, cd_plan = Some p\<rparr>;
            s = (if int (length (fs_ready s)) = xc_max_ready_candidates (fv_config v)
                 then update_report count_discarded (s\<lparr>fs_ready := tl (fs_ready s)\<rparr>) else s);
            s = s\<lparr>fs_ready := fs_ready s @ [c]\<rparr>;
            s = peaked (update_report (\<lambda>r. r\<lparr>rp_admitted := rp_admitted r + 1\<rparr>) s)
        in s\<lparr>fs_next_candidate := fs_next_candidate s + 1\<rparr>)"

text \<open>The answer to the oldest request \<open>q\<close>.\<close>

definition handle_mutation ::
  "feedback_env \<Rightarrow> mutation_request \<Rightarrow> plan_sequence list \<Rightarrow> go_error option \<Rightarrow> feedback_state \<Rightarrow> outcome + feedback_state" where
  "handle_mutation v q plans err s0 =
     (let e = mr_entry q; finished = (plain_event EventMutationCompleted)\<lparr>ev_corpus := en_id e\<rparr>;
          s = s0\<lparr>fs_requests := tl (fs_requests s0), fs_pending := AList.delete (en_id e) (fs_pending s0)\<rparr>
      in case err of
           Some cause \<Rightarrow>
             unless_failed v
               (emit v (finished\<lparr>ev_error := err_text cause\<rparr>)
                 (update_report (\<lambda>r. r\<lparr>rp_mutation_errors := rp_mutation_errors r @ [en_id e @ '': '' @ err_text cause]\<rparr>) s))
               Inr
         | None \<Rightarrow>
             let s = update_report (\<lambda>r. r\<lparr>rp_generated := rp_generated r + int (length plans)\<rparr>) s;
                 name = (case fo_mutator (fv_options v) of Some n \<Rightarrow> n | None \<Rightarrow> []);
                 s = fold (admit_mutation v name e) plans s
             in unless_failed v (emit v (finished\<lparr>ev_mutation_count := int (length plans)\<rparr>) s) Inr)"

section \<open>The loop\<close>

text \<open>What can arrive: the end of the context at any time, the result of a run in flight, the answer to the
  oldest mutation request.\<close>

fun possible :: "feedback_state \<Rightarrow> arrival \<Rightarrow> bool" where
  "possible s (ContextDone e) = True"
| "possible s (ExecutionArrives i x err micros) = (map_of (fs_in_flight s) i \<noteq> None)"
| "possible s (MutationArrives plans err) = (fs_requests s \<noteq> [])"

fun handle :: "feedback_env \<Rightarrow> arrival \<Rightarrow> feedback_state \<Rightarrow> outcome + feedback_state" where
  "handle v (ContextDone e) s = Inl (stop_with_error v e s)"
| "handle v (ExecutionArrives i x err micros) s =
     (case map_of (fs_in_flight s) i of Some task \<Rightarrow> handle_execution v task x err micros s | None \<Rightarrow> Inr s)"
| "handle v (MutationArrives plans err) s =
     (case fs_requests s of q # _ \<Rightarrow> handle_mutation v q plans err s | [] \<Rightarrow> Inr s)"

text \<open>The loop from a state that waits in \<open>select\<close>: \<open>Inr\<close> a state that waits, \<open>Inl\<close> what was returned.
  None: an arrival that is not possible where it stands. What would arrive after the return is not
  looked at.\<close>

fun drive :: "feedback_env \<Rightarrow> arrival list \<Rightarrow> feedback_state \<Rightarrow> (outcome + feedback_state) option" where
  "drive v [] s = Some (Inr s)"
| "drive v (a # as) s =
     (if \<not> possible s a then None
      else case handle v a s of
        Inl out \<Rightarrow> Some (Inl out)
      | Inr s \<Rightarrow> (case settle v s of Inl out \<Rightarrow> Some (Inl out) | Inr s \<Rightarrow> drive v as s))"

section \<open>The whole call\<close>

definition corpus_config_of :: "experiment_config \<Rightarrow> corpus_config" where
  "corpus_config_of c = \<lparr>cc_min_new_states = xc_min_new_model_states c, cc_require_semantic = xc_semantic_coverage c\<rparr>"

definition fresh_state :: "experiment_config \<Rightarrow> feedback_state" where
  "fresh_state c =
     \<lparr>fs_accumulator = new_accumulator c, fs_corpus = corpus_new (corpus_config_of c), fs_ready = [], fs_rerun = [],
      fs_pending = [], fs_requests = [], fs_next_candidate = 0, fs_next_run = 0, fs_completed = 0,
      fs_next_seed_at = (if xc_random_seed_interval c > 0 then xc_random_seed_interval c else 0), fs_seeds_due = 0,
      fs_events = 0, fs_offset = 0, fs_in_flight = [], fs_running = 0, fs_log = [], fs_reads = 0\<rparr>"

text \<open>The pending mutations of a checkpoint with their entries.\<close>

fun restore_pending ::
  "corpus \<Rightarrow> pending_mutation list \<Rightarrow> (string \<times> mutation_request) list \<Rightarrow> go_error + (string \<times> mutation_request) list" where
  "restore_pending c [] m = Inr m"
| "restore_pending c (p # ps) m =
     (case corpus_lookup (Some c) (pm_entry p) of
        None \<Rightarrow> Inl (plain_error (''pending mutation references missing corpus entry '' @ pm_entry p))
      | Some e \<Rightarrow>
          restore_pending c ps (AList.update (pm_entry p) \<lparr>mr_entry = e, mr_count = pm_count p, mr_seed = pm_seed p\<rparr> m))"

text \<open>The report and the corpus returned with an error at the start: the accumulator is finalized with the
  size of the given corpus and no elapsed time.\<close>

definition refuse :: "accumulator \<Rightarrow> int \<Rightarrow> corpus_checkpoint \<Rightarrow> go_error \<Rightarrow> feedback_state \<Rightarrow> outcome" where
  "refuse a entries p e s = Returned (ac_report (finalize entries 0 a)) p (Some e) s"

definition resume_state :: "feedback_env \<Rightarrow> checkpoint \<Rightarrow> feedback_state \<Rightarrow> outcome + feedback_state" where
  "resume_state v c s0 =
     (case checkpoint_validate c (fv_config v) (fo_fingerprint (fv_options v)) of
        Some e \<Rightarrow> Inl (refuse (fs_accumulator s0) (corpus_size s0) (corpus_checkpoint_of (Some (fs_corpus s0))) e s0)
      | None \<Rightarrow>
        (case restore_checkpoint (ck_corpus c) (fo_resume_entries (fv_options v)) (corpus_config_of (fv_config v)) of
           Inl e \<Rightarrow> Inl (refuse (fs_accumulator s0) 0 (corpus_checkpoint_of None) e s0)
         | Inr collection \<Rightarrow>
             let a = restore_accumulator (ck_aggregation c) in
             case restore_pending collection (ck_pending c) [] of
               Inl e \<Rightarrow> Inl (refuse a (int (length (cp_entries collection))) (corpus_checkpoint_of (Some collection)) e s0)
             | Inr pending \<Rightarrow>
                 Inr (s0\<lparr>fs_accumulator := a, fs_corpus := collection, fs_ready := ck_ready c, fs_rerun := ck_in_flight c,
                   fs_pending := pending, fs_next_candidate := ck_next_candidate c, fs_next_run := ck_next_run c,
                   fs_completed := ck_completed c, fs_next_seed_at := ck_next_seed_at c,
                   fs_seeds_due := ck_seeds_due c, fs_events := ck_events c, fs_offset := ck_elapsed c\<rparr>)))"

definition seeded_state :: "feedback_env \<Rightarrow> feedback_state \<Rightarrow> outcome + feedback_state" where
  "seeded_state v s0 =
     (let config = fv_config v;
          (generated, s) = (if xc_initial_population config \<le> 0 then (None, s0)
                            else call_initializer v (xc_initial_population config) (xc_base_seed config) s0)
      in case initial_candidates (fo_initializer_name (fv_options v)) generated (xc_initial_population config) 0 of
           Inl e \<Rightarrow> Inl (refuse (fs_accumulator s) (corpus_size s) (corpus_checkpoint_of (Some (fs_corpus s))) e s)
         | Inr (cs, next_id) \<Rightarrow>
             Inr (s\<lparr>fs_ready := (if int (length cs) > xc_max_ready_candidates config
                                 then drop (nat (int (length cs) - xc_max_ready_candidates config)) cs else cs),
                    fs_next_candidate := next_id\<rparr>))"

text \<open>The defaults of the options.\<close>

definition option_defaults :: "feedback_options \<Rightarrow> feedback_options" where
  "option_defaults o1 =
     (let o2 = (if fo_initializer_name o1 = []
                then o1\<lparr>fo_initializer_name := (if fo_initializer o1 = None then ''random_init'' else ''external_init'')\<rparr>
                else o1)
      in if fo_checkpoint_every o2 \<le> 0 then o2\<lparr>fo_checkpoint_every := 1\<rparr> else o2)"

text \<open>From the arguments to the first \<open>select\<close>: restore or seed, announce, save, hand the pending
  mutations to the worker.\<close>

definition begin_feedback :: "feedback_env \<Rightarrow> outcome + feedback_state" where
  "begin_feedback v =
     (let s0 = fresh_state (fv_config v) in
      case (case fo_resume (fv_options v) of Some c \<Rightarrow> resume_state v c s0 | None \<Rightarrow> seeded_state v s0) of
        Inl out \<Rightarrow> Inl out
      | Inr s \<Rightarrow>
          unless_failed v
            (emit v (plain_event (if fo_resume (fv_options v) \<noteq> None then EventExperimentResumed
                                  else EventExperimentStarted)) (peaked s))
            (\<lambda>s. unless_failed v (save v True s)
              (\<lambda>s. settle v (s\<lparr>fs_requests := pending_values (fs_pending s)\<rparr>))))"

definition run_feedback ::
  "feedback_env option \<Rightarrow> bool \<Rightarrow> arrival list \<Rightarrow> (outcome + feedback_state) option" where
  "run_feedback receiver executes arrivals =
     (case receiver of
        Some v \<Rightarrow>
          let s0 = fresh_state (fv_config v); nothing = corpus_checkpoint_of None; zero = new_report zero_config False in
          if \<not> executes
          then Some (Inl (Returned zero nothing
                 (Some (plain_error ''experiment runner and feedback execute callback must not be nil'')) s0))
          else if fo_mutator (fv_options v) = None
          then Some (Inl (Returned zero nothing (Some (plain_error ''feedback mutator must not be nil'')) s0))
          else let v = v\<lparr>fv_options := option_defaults (fv_options v)\<rparr> in
            (case begin_feedback v of Inl out \<Rightarrow> Some (Inl out) | Inr s \<Rightarrow> drive v arrivals s)
      | None \<Rightarrow>
          Some (Inl (Returned (new_report zero_config False) (corpus_checkpoint_of None)
            (Some (plain_error ''experiment runner and feedback execute callback must not be nil''))
            (fresh_state zero_config))))"

end
