(* ===== verification/Feedback_Invariant.thy ===== *)
theory Feedback_Invariant
  imports Feedback_Loop
begin

text \<open>
  The invariant of the feedback loop: what holds of the state whenever a checkpoint can be taken, as a
  conjunction of the schedule, the queues, the accumulated report and the corpus, with the lemmas that
  every operation keeps it.
\<close>

section \<open>Accepted configurations\<close>

definition config_ok :: "experiment_config \<Rightarrow> bool" where
  "config_ok c \<longleftrightarrow> 0 < xc_runs c \<and> 0 < xc_parallelism c \<and> xc_base_seed c + (xc_runs c - 1) \<le> max_int64 \<and>
     0 < xc_initial_population c \<and> xc_initial_population c \<le> xc_runs c \<and> 0 < xc_max_ready_candidates c \<and>
     0 < xc_min_new_model_states c \<and> 0 < xc_mutations_per_new_state c \<and> 0 < xc_max_mutations_per_corpus c \<and>
     0 \<le> xc_random_seed_interval c \<and> 0 \<le> xc_random_seeds_per_interval c"

lemma experiment_new_ok: "experiment_new c0 = Inr c \<Longrightarrow> config_ok c"
proof -
  assume new: "experiment_new c0 = Inr c"
  define d where "d = with_defaults c0"
  have pos: "0 < xc_runs c0" "0 < xc_parallelism c0" "xc_base_seed c0 + (xc_runs c0 - 1) \<le> max_int64"
    and d: "\<not> negative_bounds d" "0 \<le> xc_random_seed_interval d" "0 \<le> xc_random_seeds_per_interval d"
    and c: "c = (if xc_initial_population d > xc_runs d then d\<lparr>xc_initial_population := xc_runs d\<rparr> else d)"
    using new unfolding experiment_new_def Let_def d_def by (auto split: if_splits)
  have "0 < xc_initial_population d" "0 < xc_mutations_per_new_state d" "0 < xc_max_mutations_per_corpus d"
    "0 < xc_max_ready_candidates d" "0 < xc_min_new_model_states d" "0 < xc_runs d" "0 < xc_parallelism d"
    "xc_base_seed d + (xc_runs d - 1) \<le> max_int64"
    using d(1) pos by (simp_all add: negative_bounds_def d_def with_defaults_def split: if_splits)
  then show ?thesis using d(2,3) by (simp add: c config_ok_def)
qed

section \<open>The parts of the invariant\<close>

definition kinds :: "feedback_state \<Rightarrow> candidate_kind list" where
  "kinds s = map cd_kind (fs_ready s) @ map (cd_kind \<circ> sd_candidate) (fs_rerun s @ map snd (fs_in_flight s))"

definition assigned :: "feedback_state \<Rightarrow> int list" where
  "assigned s = map sd_index (fs_rerun s) @ map fst (fs_in_flight s)"

text \<open>The run indices given out: \<open>finished\<close> are those of the completed runs.\<close>

definition schedule_inv :: "experiment_config \<Rightarrow> int set \<Rightarrow> feedback_state \<Rightarrow> bool" where
  "schedule_inv c finished s \<longleftrightarrow>
     (\<forall>(i, t) \<in> set (fs_in_flight s). sd_index t = i) \<and>
     (\<forall>t \<in> set (fs_rerun s) \<union> snd ` set (fs_in_flight s). sd_seed t = wrap64 (xc_base_seed c + sd_index t)) \<and>
     distinct (assigned s) \<and> finished \<inter> set (assigned s) = {} \<and>
     finished \<union> set (assigned s) = {0..<fs_next_run s} \<and> 0 \<le> fs_next_run s \<and> fs_next_run s \<le> xc_runs c \<and>
     fs_running s = int (length (fs_in_flight s)) \<and> int (card finished) = fs_completed s"

definition seeds_inv :: "experiment_config \<Rightarrow> feedback_state \<Rightarrow> bool" where
  "seeds_inv c s \<longleftrightarrow>
     (if xc_random_seed_interval c = 0 then fs_next_seed_at s = 0 \<and> fs_seeds_due s = 0
      else fs_completed s < fs_next_seed_at s \<and> 0 \<le> fs_seeds_due s \<and>
        fs_seeds_due s \<le> fs_completed s * xc_random_seeds_per_interval c)"

definition candidates_inv :: "experiment_config \<Rightarrow> report \<Rightarrow> feedback_state \<Rightarrow> bool" where
  "candidates_inv c r s \<longleftrightarrow>
     set (kinds s) \<subseteq> {CandidateInitial, CandidateMutation, CandidatePeriodicRandom} \<and>
     rp_executed_mutations r + int (length (filter (\<lambda>k. k = CandidateMutation) (kinds s))) \<le> rp_admitted r \<and>
     int (length (fs_ready s)) \<le> xc_max_ready_candidates c \<and> int (length (fs_ready s)) \<le> rp_peak_ready r \<and>
     1 \<le> rp_peak_ready r"

definition pending_inv :: "feedback_state \<Rightarrow> bool" where
  "pending_inv s \<longleftrightarrow> distinct (map fst (fs_pending s)) \<and>
     (\<forall>(k, q) \<in> set (fs_pending s). k = en_id (mr_entry q) \<and> 0 < mr_count q \<and> mr_entry q \<in> set (cp_entries (fs_corpus s)))"

definition corpus_inv :: "experiment_config \<Rightarrow> corpus \<Rightarrow> bool" where
  "corpus_inv c k \<longleftrightarrow> corpus_ok k \<and> cp_config k = cp_config (corpus_new (corpus_config_of c))"

text \<open>The accumulator after \<open>n\<close> runs, next to a corpus. The number of entries is brought up to date when a
  snapshot is taken.\<close>

definition sets_inv :: "accumulator \<Rightarrow> bool" where
  "sets_inv a \<longleftrightarrow> finite (ac_indices a) \<and> finite (ac_states a) \<and> finite (ac_plans a) \<and> finite (ac_traces a) \<and>
     finite (ac_paths a) \<and> [] \<notin> ac_plans a \<union> ac_traces a \<union> ac_paths a"

definition unique_inv :: "accumulator \<Rightarrow> bool" where
  "unique_inv a \<longleftrightarrow> rp_unique_states (ac_report a) = int (card (ac_states a)) \<and>
     rp_unique_plans (ac_report a) = int (card (ac_plans a)) \<and>
     rp_unique_traces (ac_report a) = int (card (ac_traces a)) \<and> rp_unique_paths (ac_report a) = int (card (ac_paths a))"

definition semantic_inv :: "corpus \<Rightarrow> accumulator \<Rightarrow> bool" where
  "semantic_inv k a \<longleftrightarrow> rp_unique_semantic_states (ac_report a) = int (card (cp_semantic_states k)) \<and>
     rp_unique_semantic_transitions (ac_report a) = int (card (cp_semantic_transitions k)) \<and>
     cp_coverage k \<subseteq> ac_states a"

definition with_entries :: "corpus \<Rightarrow> report \<Rightarrow> report" where
  "with_entries k r = r\<lparr>rp_corpus_entries := int (length (cp_entries k))\<rparr>"

definition accumulator_inv :: "experiment_config \<Rightarrow> corpus \<Rightarrow> int \<Rightarrow> accumulator \<Rightarrow> bool" where
  "accumulator_inv c k n a \<longleftrightarrow>
     stored_counters_ok (with_entries k (ac_report a)) c n \<and> rp_runs (ac_report a) = [] \<and>
     int (length (ac_durations a)) = n \<and> sets_inv a \<and> unique_inv a \<and> semantic_inv k a"

definition state_inv :: "experiment_config \<Rightarrow> feedback_state \<Rightarrow> bool" where
  "state_inv c s \<longleftrightarrow>
     schedule_inv c (ac_indices (fs_accumulator s)) s \<and> seeds_inv c s \<and>
     candidates_inv c (ac_report (fs_accumulator s)) s \<and> pending_inv s \<and> corpus_inv c (fs_corpus s) \<and>
     accumulator_inv c (fs_corpus s) (fs_completed s) (fs_accumulator s)"

section \<open>Taking a checkpoint\<close>

lemma finalize_report:
  obtains d x y where "finalize n t a = a\<lparr>ac_report := (ac_report a)\<lparr>rp_elapsed := t, rp_corpus_entries := n,
     rp_retained := n, rp_duration := d, rp_actions_per_second := x, rp_runs_per_second := y,
     rp_novelty_per_100 := novelty_per_100 (rp_unique_semantic_states (ac_report a))
       (rp_unique_semantic_transitions (ac_report a)) (rp_actions (ac_report a))\<rparr>\<rparr>"
proof (cases "t > 0")
  case True
  show ?thesis
    by (rule that [where d = "durations (ac_durations a)" and x = "of_int (rp_actions (ac_report a)) / (of_int t / 1000)"
          and y = "of_int (rp_completed (ac_report a)) / (of_int t / 1000)"],
        simp add: finalize_def Let_def report_rates_def report_density_def True)
next
  case False
  show ?thesis
    by (rule that [where d = "durations (ac_durations a)" and x = "rp_actions_per_second (ac_report a)"
          and y = "rp_runs_per_second (ac_report a)"],
        simp add: finalize_def Let_def report_density_def False)
qed

lemma finalize_sel [simp]:
  "ac_indices (finalize n t a) = ac_indices a" "ac_states (finalize n t a) = ac_states a"
  "ac_plans (finalize n t a) = ac_plans a" "ac_traces (finalize n t a) = ac_traces a"
  "ac_paths (finalize n t a) = ac_paths a" "ac_durations (finalize n t a) = ac_durations a"
  by (simp_all add: finalize_def Let_def)

lemma finalize_inv:
  "accumulator_inv c k n a \<Longrightarrow> accumulator_inv c k n (finalize m t a)"
  "candidates_inv c (ac_report a) s \<Longrightarrow> candidates_inv c (ac_report (finalize m t a)) s"
  by (rule finalize_report [of m t a]; simp add: accumulator_inv_def with_entries_def stored_counters_ok_def
      admissions_ok_def admitted_for_def sets_inv_def unique_inv_def semantic_inv_def candidates_inv_def)+

lemma length_sorted_set: "finite A \<Longrightarrow> length (sorted_list_of_set A) = card A"
  by simp

lemma snapshot_inv:
  assumes a: "accumulator_inv c k n a" and indices: "ac_indices a \<subseteq> {0..<xc_runs c}" "int (card (ac_indices a)) = n"
  shows "snapshot_ok (fst (accumulator_snapshot (int (length (cp_entries k))) t a)) c n"
proof -
  have "sets_inv a" using a by (simp add: accumulator_inv_def)
  then show ?thesis
    using a indices
    by (rule_tac finalize_report [of "int (length (cp_entries k))" t a])
      (simp add: accumulator_snapshot_def Let_def snapshot_ok_def accumulator_inv_def with_entries_def
      stored_counters_ok_def admissions_ok_def admitted_for_def unique_inv_def sorted_strings_def sets_inv_def)
qed

lemma accumulator_snapshot_snd [simp]: "snd (accumulator_snapshot n t a) = finalize n t a"
  by (simp add: accumulator_snapshot_def Let_def)

lemma sort_key_perm: "mset (sort_key f xs) = mset xs" "set (sort_key f xs) = set xs" "length (sort_key f xs) = length xs"
  by simp_all

text \<open>The checkpoint of a state: consistent, and of the corpus as it is.\<close>

lemma entry_names:
  "entries_checked i es \<Longrightarrow> en_id ` set es = entry_name ` {i..<i + length es}"
proof (induction es arbitrary: i)
  case (Cons e es)
  have "en_id e = entry_name i" using Cons.prems by (auto simp: check_entry_def split: if_splits)
  moreover have "{i..<i + length (e # es)} = insert i {Suc i..<Suc i + length es}" by auto
  moreover have "en_id ` set es = entry_name ` {Suc i..<Suc i + length es}" using Cons by (intro Cons.IH) simp
  ultimately show ?case by simp
qed simp

lemma map_entry_pending:
  "map pm_entry (pending_checkpoint_values m) = map (\<lambda>q. en_id (mr_entry q)) (pending_values m)"
  by (simp add: pending_checkpoint_values_def)

lemma set_pending_values [simp]: "set (pending_values m) = snd ` set m"
  by (simp add: pending_values_def)

lemma distinct_pending:
  assumes "pending_inv s"
  shows "distinct (map (\<lambda>q. en_id (mr_entry q)) (pending_values (fs_pending s)))"
proof -
  have "map fst (fs_pending s) = map (\<lambda>q. en_id (mr_entry q)) (map snd (fs_pending s))"
    using assms by (auto simp: pending_inv_def)
  then have "distinct (map (\<lambda>q. en_id (mr_entry q)) (map snd (fs_pending s)))"
    using assms by (metis pending_inv_def)
  moreover have "mset (map (\<lambda>q. en_id (mr_entry q)) (pending_values (fs_pending s)))
      = mset (map (\<lambda>q. en_id (mr_entry q)) (map snd (fs_pending s)))"
    by (simp add: pending_values_def image_mset.compositionality comp_def)
  ultimately show ?thesis using mset_eq_imp_distinct_iff by blast
qed

lemma scheduled_listing:
  assumes "\<forall>(i, t) \<in> set m. sd_index t = i"
  shows "mset (map sd_index (merge_scheduled [rerun, scheduled_values m])) = mset (map sd_index rerun @ map fst m)"
    and "set (merge_scheduled [rerun, scheduled_values m]) = set rerun \<union> snd ` set m"
proof -
  have "map fst m = map sd_index (map snd m)" using assms by auto
  moreover have "mset (map sd_index (merge_scheduled [rerun, scheduled_values m])) =
      mset (map sd_index rerun @ map sd_index (map snd m))"
    by (simp add: merge_scheduled_def scheduled_values_def image_mset.compositionality comp_def)
  ultimately show "mset (map sd_index (merge_scheduled [rerun, scheduled_values m])) = mset (map sd_index rerun @ map fst m)"
    by (simp only:)
qed (simp add: merge_scheduled_def scheduled_values_def)

lemma state_inv_checkpoint:
  assumes inv: "state_inv (fv_config v) s" and config: "config_ok (fv_config v)"
    and snap: "snapshot = fst (accumulator_snapshot (corpus_size s) t (fs_accumulator s))"
  shows "checkpoint_ok (checkpoint_of v snapshot t s) (fv_config v) (fo_fingerprint (fv_options v))"
proof -
  let ?c = "checkpoint_of v snapshot t s" and ?a = "fs_accumulator s" and ?k = "fs_corpus s"
  have acc: "accumulator_inv (fv_config v) ?k (fs_completed s) ?a" and sched: "schedule_inv (fv_config v) (ac_indices ?a) s"
    and cand: "candidates_inv (fv_config v) (ac_report ?a) s" and pend: "pending_inv s" and corpus: "corpus_inv (fv_config v) ?k"
    and seeds: "seeds_inv (fv_config v) s"
    using inv by (simp_all add: state_inv_def)
  have sets: "sets_inv ?a" using acc by (simp add: accumulator_inv_def)
  have finite: "finite (cp_coverage ?k)" "finite (cp_semantic_states ?k)" "finite (cp_semantic_transitions ?k)"
    using corpus by (simp_all add: corpus_inv_def corpus_ok_def attributed_def)
  have range: "ac_indices ?a \<union> set (assigned s) = {0..<fs_next_run s}" "fs_next_run s \<le> xc_runs (fv_config v)" "0 \<le> fs_next_run s"
    "int (card (ac_indices ?a)) = fs_completed s" using sched by (simp_all add: schedule_inv_def)
  have next_run: "0 \<le> fs_completed s" "fs_completed s \<le> fs_next_run s"
  proof -
    have "card (ac_indices ?a) \<le> card {0..<fs_next_run s}" using range(1) by (intro card_mono) auto
    then show "0 \<le> fs_completed s" "fs_completed s \<le> fs_next_run s" using range(3,4) by auto
  qed
  have sub: "ac_indices ?a \<subseteq> {0..<xc_runs (fv_config v)}"
  proof -
    have "ac_indices ?a \<subseteq> {0..<fs_next_run s}" using range(1) by blast
    with range(2) show ?thesis by auto
  qed
  have report: "rp_peak_ready (ag_report snapshot) = rp_peak_ready (ac_report ?a)"
    "rp_corpus_entries (ag_report snapshot) = corpus_size s"
    "rp_unique_semantic_states (ag_report snapshot) = rp_unique_semantic_states (ac_report ?a)"
    "rp_unique_semantic_transitions (ag_report snapshot) = rp_unique_semantic_transitions (ac_report ?a)"
    "ag_indices snapshot = sorted_list_of_set (ac_indices ?a)" "ag_states snapshot = sorted_list_of_set (ac_states ?a)"
    by (rule finalize_report [of "corpus_size s" t ?a]; simp add: snap accumulator_snapshot_def Let_def)+
  have "counters_ok ?c (fv_config v) (fo_fingerprint (fv_options v))"
    using cand seeds next_run range by (auto simp: counters_ok_def checkpoint_of_def report candidates_inv_def seeds_inv_def)
  moreover have "pending_ok ?c"
  proof -
    have ids: "en_id ` set (cp_entries ?k) = entry_name ` {0..<length (cp_entries ?k)}"
      using corpus entry_names [of 0 "cp_entries ?k"] by (simp add: corpus_inv_def corpus_ok_def)
    have "pm_entry ` set (ck_pending ?c) \<subseteq> en_id ` set (cp_entries ?k)"
      using pend by (auto simp: checkpoint_of_def pending_checkpoint_values_def pending_inv_def)
    moreover have "\<forall>p \<in> set (ck_pending ?c). 0 < pm_count p"
      using pend by (auto simp: checkpoint_of_def pending_checkpoint_values_def pending_inv_def)
    moreover have "distinct (map pm_entry (ck_pending ?c))"
      using distinct_pending [OF pend] by (simp add: checkpoint_of_def map_entry_pending)
    ultimately show ?thesis by (simp add: pending_ok_def checkpoint_of_def corpus_checkpoint_of_def ids)
  qed
  moreover have "snapshot_ok (ck_aggregation ?c) (fv_config v) (ck_completed ?c)"
    using snapshot_inv [OF acc sub range(4), of t] by (simp add: checkpoint_of_def snap corpus_size_def)
  moreover have "schedule_ok ?c (fv_config v)"
  proof -
    have keys: "\<forall>(i, t) \<in> set (fs_in_flight s). sd_index t = i" using sched by (simp add: schedule_inv_def)
    note listing = scheduled_listing [OF keys, of "fs_rerun s"]
    have "distinct (map sd_index (ck_in_flight ?c))"
      using sched mset_eq_imp_distinct_iff [OF listing(1)] by (simp add: checkpoint_of_def schedule_inv_def assigned_def)
    moreover have "sd_index ` set (ck_in_flight ?c) = set (assigned s)"
      using mset_eq_setD [OF listing(1)] by (simp add: checkpoint_of_def assigned_def)
    moreover have "set (sorted_list_of_set (ac_indices ?a)) = ac_indices ?a" using sets by (simp add: sets_inv_def)
    ultimately show ?thesis
      using sched sets by (simp add: schedule_ok_def checkpoint_of_def report listing(2) schedule_inv_def sets_inv_def)
  qed
  moreover have "corpus_part_ok ?c"
    using acc finite sets
    by (simp add: corpus_part_ok_def checkpoint_of_def corpus_checkpoint_of_def report corpus_size_def accumulator_inv_def
        semantic_inv_def sets_inv_def)
  ultimately show ?thesis by (simp add: checkpoint_ok_def)
qed

section \<open>What is stored along a call\<close>

definition committed :: "log \<Rightarrow> corpus_entry list" where
  "committed l = concat (map (\<lambda>(c, err). case (c, err) of (OnCorpusEntry e, None) \<Rightarrow> [e] | _ \<Rightarrow> []) l)"

definition entry_failed :: "log \<Rightarrow> bool" where
  "entry_failed l \<longleftrightarrow> list_ex (\<lambda>(c, err). case (c, err) of (OnCorpusEntry e, Some _) \<Rightarrow> True | _ \<Rightarrow> False) l"

text \<open>The checkpoints handed out, each with the entries stored by then, given the entries stored at the start;
  up to the first entry that could not be stored.\<close>

fun saved_points :: "corpus_entry list \<Rightarrow> log \<Rightarrow> (checkpoint \<times> corpus_entry list) list" where
  "saved_points es [] = []"
| "saved_points es ((OnCheckpoint c, err) # l) = (c, es) # saved_points es l"
| "saved_points es ((OnCorpusEntry e, None) # l) = saved_points (es @ [e]) l"
| "saved_points es ((OnCorpusEntry e, Some err) # l) = []"
| "saved_points es ((OnEvent e, err) # l) = saved_points es l"
| "saved_points es ((OnRunComplete m, err) # l) = saved_points es l"
| "saved_points es ((CallInitializer n seed, err) # l) = saved_points es l"

lemma committed_simps [simp]: "committed [] = []" "committed (l @ l') = committed l @ committed l'"
  "committed [(OnCorpusEntry e, None)] = [e]" "committed [(OnCorpusEntry e, Some x)] = []"
  "committed [(OnEvent ev, err)] = []" "committed [(OnRunComplete m, err)] = []" "committed [(OnCheckpoint c, err)] = []"
  "committed [(CallInitializer n seed, err)] = []"
  by (simp_all add: committed_def)

lemma entry_failed_simps [simp]: "\<not> entry_failed []" "entry_failed (l @ l') \<longleftrightarrow> entry_failed l \<or> entry_failed l'"
  "\<not> entry_failed [(OnCorpusEntry e, None)]" "entry_failed [(OnCorpusEntry e, Some x)]"
  "\<not> entry_failed [(OnEvent ev, err)]" "\<not> entry_failed [(OnRunComplete m, err)]" "\<not> entry_failed [(OnCheckpoint c, err)]"
  "\<not> entry_failed [(CallInitializer n seed, err)]"
  by (simp_all add: entry_failed_def)

lemma saved_points_append:
  "saved_points es (l @ l') = saved_points es l @ (if entry_failed l then [] else saved_points (es @ committed l) l')"
  by (induction es l rule: saved_points.induct) (simp_all add: entry_failed_def committed_def)

definition candidates_of :: "checkpoint \<Rightarrow> candidate_kind list" where
  "candidates_of ck = map cd_kind (ck_ready ck) @ map (cd_kind \<circ> sd_candidate) (ck_in_flight ck)"

text \<open>A checkpoint a later call can start from, together with the entries of the corpus.\<close>

definition resumable :: "experiment_config \<Rightarrow> string \<Rightarrow> corpus_entry list \<Rightarrow> checkpoint \<Rightarrow> bool" where
  "resumable c fp es ck \<longleftrightarrow> checkpoint_ok ck c fp \<and>
     (\<exists>k. corpus_inv c k \<and> ck_corpus ck = corpus_checkpoint_of (Some k) \<and> cp_entries k = es) \<and>
     set (candidates_of ck) \<subseteq> {CandidateInitial, CandidateMutation, CandidatePeriodicRandom} \<and>
     rp_executed_mutations (ag_report (ck_aggregation ck)) +
       int (length (filter (\<lambda>k. k = CandidateMutation) (candidates_of ck))) \<le> rp_admitted (ag_report (ck_aggregation ck)) \<and>
     1 \<le> rp_peak_ready (ag_report (ck_aggregation ck)) \<and>
     ck_seeds_due ck \<le> ck_completed ck * xc_random_seeds_per_interval c"

definition points_ok :: "feedback_env \<Rightarrow> corpus_entry list \<Rightarrow> log \<Rightarrow> bool" where
  "points_ok v base l \<longleftrightarrow>
     (\<forall>(ck, es) \<in> set (saved_points base l). resumable (fv_config v) (fo_fingerprint (fv_options v)) es ck)"

definition log_inv :: "feedback_env \<Rightarrow> corpus_entry list \<Rightarrow> feedback_state \<Rightarrow> bool" where
  "log_inv v base s \<longleftrightarrow> \<not> entry_failed (fs_log s) \<and> cp_entries (fs_corpus s) = base @ committed (fs_log s) \<and>
     points_ok v base (fs_log s)"

definition run_inv :: "feedback_env \<Rightarrow> corpus_entry list \<Rightarrow> feedback_state \<Rightarrow> bool" where
  "run_inv v base s \<longleftrightarrow> state_inv (fv_config v) s \<and> log_inv v base s"

fun out_inv :: "feedback_env \<Rightarrow> corpus_entry list \<Rightarrow> outcome + feedback_state \<Rightarrow> bool" where
  "out_inv v base (Inl (Returned r p err s)) = points_ok v base (fs_log s)"
| "out_inv v base (Inl Diverges) = False"
| "out_inv v base (Inr s) = run_inv v base s"

text \<open>The parts of the state that the invariant does not read.\<close>

lemmas inv_defs = schedule_inv_def seeds_inv_def candidates_inv_def pending_inv_def kinds_def assigned_def

lemma state_inv_frame [simp]:
  "state_inv c (s\<lparr>fs_log := l\<rparr>) = state_inv c s" "state_inv c (s\<lparr>fs_events := n\<rparr>) = state_inv c s"
  "state_inv c (s\<lparr>fs_reads := k\<rparr>) = state_inv c s" "state_inv c (s\<lparr>fs_requests := qs\<rparr>) = state_inv c s"
  "state_inv c (s\<lparr>fs_next_candidate := i\<rparr>) = state_inv c s"
  by (simp_all add: state_inv_def inv_defs)

lemma run_inv_frame [simp]:
  "run_inv v base (s\<lparr>fs_events := n\<rparr>) = run_inv v base s" "run_inv v base (s\<lparr>fs_reads := k\<rparr>) = run_inv v base s"
  "run_inv v base (s\<lparr>fs_requests := qs\<rparr>) = run_inv v base s"
  "run_inv v base (s\<lparr>fs_next_candidate := i\<rparr>) = run_inv v base s"
  by (simp_all add: run_inv_def log_inv_def)

lemma points_ok_simps [simp]: "points_ok v base []"
  "points_ok v base (l @ [(OnEvent ev, err)]) = points_ok v base l"
  "points_ok v base (l @ [(OnRunComplete m, err)]) = points_ok v base l"
  "points_ok v base (l @ [(CallInitializer n seed, err)]) = points_ok v base l"
  "points_ok v base (l @ [(OnCorpusEntry e, err)]) = points_ok v base l"
  by (cases err; simp add: points_ok_def saved_points_append)+

lemma points_ok_failed: "entry_failed l \<Longrightarrow> points_ok v base (l @ l') = points_ok v base l"
  by (simp add: points_ok_def saved_points_append)

lemma record_call_inv [simp]:
  "run_inv v base (record_call (OnEvent e) err s) = run_inv v base s"
  "run_inv v base (record_call (OnRunComplete m) err s) = run_inv v base s"
  "run_inv v base (record_call (CallInitializer n seed) err s) = run_inv v base s"
  by (simp_all add: run_inv_def log_inv_def record_call_def)

lemma emit_inv: "run_inv v base s \<Longrightarrow> run_inv v base (snd (emit v e s))"
  by (simp add: emit_def Let_def split: option.split)

lemma accumulator_frame [simp]:
  "schedule_inv c finished (s\<lparr>fs_accumulator := a\<rparr>) = schedule_inv c finished s"
  "seeds_inv c (s\<lparr>fs_accumulator := a\<rparr>) = seeds_inv c s" "pending_inv (s\<lparr>fs_accumulator := a\<rparr>) = pending_inv s"
  "candidates_inv c r (s\<lparr>fs_accumulator := a\<rparr>) = candidates_inv c r s" "kinds (s\<lparr>fs_accumulator := a\<rparr>) = kinds s"
  by (simp_all add: inv_defs)

lemma finalize_state_inv:
  "state_inv c s \<Longrightarrow> state_inv c (s\<lparr>fs_accumulator := finalize m t (fs_accumulator s)\<rparr>)"
  by (simp add: state_inv_def finalize_inv)

lemma mset_candidates_of:
  "mset (candidates_of (checkpoint_of v snapshot t s)) = mset (kinds s)"
  by (simp add: candidates_of_def checkpoint_of_def kinds_def merge_scheduled_def scheduled_values_def
      image_mset.compositionality comp_assoc)

lemma state_inv_resumable:
  assumes inv: "state_inv (fv_config v) s" and config: "config_ok (fv_config v)"
    and snap: "snapshot = fst (accumulator_snapshot (corpus_size s) t (fs_accumulator s))"
  shows "resumable (fv_config v) (fo_fingerprint (fv_options v)) (cp_entries (fs_corpus s)) (checkpoint_of v snapshot t s)"
proof -
  let ?c = "checkpoint_of v snapshot t s"
  have report: "rp_executed_mutations (ag_report snapshot) = rp_executed_mutations (ac_report (fs_accumulator s))"
    "rp_admitted (ag_report snapshot) = rp_admitted (ac_report (fs_accumulator s))"
    "rp_peak_ready (ag_report snapshot) = rp_peak_ready (ac_report (fs_accumulator s))"
    by (rule finalize_report [of "corpus_size s" t "fs_accumulator s"]; simp add: snap accumulator_snapshot_def Let_def)+
  have kinds: "set (candidates_of ?c) = set (kinds s)"
    "length (filter P (candidates_of ?c)) = length (filter P (kinds s))" for P
    using mset_candidates_of [of v snapshot t s] mset_eq_setD mset_filter size_mset by metis+
  have "candidates_inv (fv_config v) (ac_report (fs_accumulator s)) s" "corpus_inv (fv_config v) (fs_corpus s)"
    "seeds_inv (fv_config v) s"
    using inv by (simp_all add: state_inv_def)
  moreover have "ck_seeds_due ?c = fs_seeds_due s" "ck_completed ?c = fs_completed s" "ck_aggregation ?c = snapshot"
    "ck_corpus ?c = corpus_checkpoint_of (Some (fs_corpus s))"
    by (simp_all add: checkpoint_of_def)
  moreover have "0 \<le> fs_completed s" "0 \<le> xc_random_seeds_per_interval (fv_config v)"
    using inv config by (auto simp: state_inv_def schedule_inv_def config_ok_def)
  ultimately show ?thesis
    using state_inv_checkpoint [OF inv config snap]
    by (auto simp: resumable_def kinds report candidates_inv_def seeds_inv_def split: if_splits)
qed

lemma save_inv:
  assumes config: "config_ok (fv_config v)" and inv: "run_inv v base s"
  shows "run_inv v base (snd (save v force s))"
proof (cases "fo_on_checkpoint (fv_options v) = None \<or> \<not> force \<and> fs_completed s mod fo_checkpoint_every (fv_options v) \<noteq> 0")
  case True
  then show ?thesis using inv by (auto simp: save_def split: option.split)
next
  case False
  then obtain hook where hook: "fo_on_checkpoint (fv_options v) = Some hook"
    "(\<not> force \<and> fs_completed s mod fo_checkpoint_every (fv_options v) \<noteq> 0) = False" by auto
  define t where "t = fs_offset s + fv_clock v (fs_reads s)"
  define snapshot where "snapshot = fst (accumulator_snapshot (corpus_size s) t (fs_accumulator s))"
  define s1 where "s1 = s\<lparr>fs_reads := Suc (fs_reads s), fs_accumulator := finalize (corpus_size s) t (fs_accumulator s)\<rparr>"
  have point: "checkpoint_of v snapshot t s1 = checkpoint_of v snapshot t s"
    by (simp add: s1_def checkpoint_of_def)
  have size: "corpus_size (s\<lparr>fs_reads := k\<rparr>) = corpus_size s" for k by (simp add: corpus_size_def)
  have split: "accumulator_snapshot n t a = (fst (accumulator_snapshot n t a), finalize n t a)" for n t a
    by (metis accumulator_snapshot_snd prod.collapse)
  have step: "\<exists>err. save v force s = (err, record_call (OnCheckpoint (checkpoint_of v snapshot t s)) err s1)"
    unfolding save_def hook option.case if_False elapsed_millis_def Let_def
    by (subst split) (simp add: size t_def [symmetric] snapshot_def [symmetric] s1_def [symmetric] point)
  have s1: "state_inv (fv_config v) s1" 
    using finalize_state_inv [of "fv_config v" "s\<lparr>fs_reads := Suc (fs_reads s)\<rparr>" "corpus_size s" t] inv
    by (simp add: s1_def run_inv_def)
  have "resumable (fv_config v) (fo_fingerprint (fv_options v)) (cp_entries (fs_corpus s)) (checkpoint_of v snapshot t s)"
    using inv by (intro state_inv_resumable config) (simp_all add: run_inv_def snapshot_def)
  then have "points_ok v base (fs_log s @ [(OnCheckpoint (checkpoint_of v snapshot t s), err)])" for err
    using inv by (auto simp: run_inv_def log_inv_def points_ok_def saved_points_append)
  then show ?thesis using step s1 inv by (auto simp: run_inv_def log_inv_def record_call_def s1_def)
qed

lemma finish_with_log: "\<exists>r p s'. finish_with v err s = Returned r p err s' \<and> fs_log s' = fs_log s"
  by (simp add: finish_with_def elapsed_millis_def)

lemma finish_with_out: "run_inv v base s \<Longrightarrow> out_inv v base (Inl (finish_with v err s))"
  using finish_with_log [of v err s] by (auto simp: run_inv_def log_inv_def)

lemma stop_inv:
  assumes "config_ok (fv_config v)" and "run_inv v base s"
  shows "out_inv v base (Inl (stop_with_error v cause s))"
  unfolding stop_with_error_def Let_def by (intro finish_with_out save_inv emit_inv assms)

text \<open>After an entry could not be stored nothing more is promised, and the earlier checkpoints remain.\<close>

lemma appends_log:
  "\<exists>l. fs_log (snd (emit v e s)) = fs_log s @ l" "\<exists>l. fs_log (snd (save v force s)) = fs_log s @ l"
  by (auto simp: emit_def save_def record_call_def elapsed_millis_def Let_def split: option.split prod.split)

lemma stop_failed:
  assumes "entry_failed (fs_log s)" and "points_ok v base (fs_log s)"
  shows "out_inv v base (Inl (stop_with_error v cause s))"
proof -
  define s1 where "s1 = snd (emit v ((plain_event EventExperimentCanceled)\<lparr>ev_error := err_text cause\<rparr>) s)"
  obtain l1 where l1: "fs_log s1 = fs_log s @ l1" unfolding s1_def using appends_log(1) by blast
  obtain l2 where l2: "fs_log (snd (save v True s1)) = fs_log s1 @ l2" using appends_log(2) by blast
  have "points_ok v base (fs_log (snd (save v True s1)))"
    using assms by (simp add: l1 l2 points_ok_failed)
  then show ?thesis
    using finish_with_log [of v "Some cause" "snd (save v True s1)"]
    by (auto simp: stop_with_error_def Let_def s1_def [symmetric])
qed

lemma unless_failed_inv:
  assumes "config_ok (fv_config v)" and "run_inv v base (snd r)" and "\<And>s. run_inv v base s \<Longrightarrow> out_inv v base (f s)"
  shows "out_inv v base (unless_failed v r f)"
  using assms stop_inv [OF assms(1)] by (cases r) (auto simp: unless_failed_def split: option.split)

section \<open>Handing out work keeps the invariant\<close>

lemma update_absent: "k \<notin> fst ` set m \<Longrightarrow> AList.update k x m = m @ [(k, x)]"
  by (induction m) auto

lemma launch_rerun_inv:
  assumes inv: "state_inv c s" and rerun: "fs_rerun s = t # ts"
  shows "state_inv c (launch t (s\<lparr>fs_rerun := ts\<rparr>))"
proof -
  have "sd_index t \<notin> fst ` set (fs_in_flight s)"
    using inv rerun by (auto simp: state_inv_def schedule_inv_def assigned_def)
  then have "AList.update (sd_index t) t (fs_in_flight s) = fs_in_flight s @ [(sd_index t, t)]" by (rule update_absent)
  then show ?thesis
    using inv rerun by (auto simp: state_inv_def launch_def inv_defs)
qed

lemma dispatch_rerun_inv: "run_inv v base s \<Longrightarrow> run_inv v base (dispatch_rerun v s)"
proof (induction v s rule: dispatch_rerun.induct)
  case (1 v s)
  show ?case
  proof (cases "fs_running s < xc_parallelism (fv_config v) \<and> fs_rerun s \<noteq> []")
    case True
    then obtain t ts where rerun: "fs_rerun s = t # ts" by (cases "fs_rerun s") auto
    have "run_inv v base (launch (hd (fs_rerun s)) (s\<lparr>fs_rerun := tl (fs_rerun s)\<rparr>))"
      using "1.prems" launch_rerun_inv [OF _ rerun] by (simp add: run_inv_def log_inv_def rerun) (simp add: launch_def)
    then show ?thesis using True "1.IH" by (simp add: dispatch_rerun.simps [of v s])
  next
    case False
    then have "dispatch_rerun v s = s" by (subst dispatch_rerun.simps) (simp only: if_False)
    then show ?thesis using "1.prems" by simp
  qed
qed

lemma schedule_launch:
  assumes inv: "schedule_inv c finished s" and less: "fs_next_run s < xc_runs c"
    and s': "fs_in_flight s' = fs_in_flight s @ [(fs_next_run s, task)]" "fs_rerun s' = fs_rerun s"
      "fs_next_run s' = fs_next_run s + 1" "fs_running s' = fs_running s + 1" "fs_completed s' = fs_completed s"
    and task: "sd_index task = fs_next_run s" "sd_seed task = wrap64 (xc_base_seed c + fs_next_run s)"
  shows "schedule_inv c finished s'"
proof -
  have assigned: "assigned s' = assigned s @ [fs_next_run s]" by (simp add: assigned_def s')
  have all: "finished \<union> set (assigned s) = {0..<fs_next_run s}" "0 \<le> fs_next_run s"
    using inv by (simp_all add: schedule_inv_def)
  then have "fs_next_run s \<notin> finished \<union> set (assigned s)" by simp
  moreover have "finished \<union> set (assigned s') = {0..<fs_next_run s + 1}"
    using all unfolding assigned by auto
  ultimately show ?thesis using inv less by (simp add: schedule_inv_def s' task assigned)
qed

lemma candidates_cong:
  assumes "candidates_inv c r s" and "mset (kinds s') = mset (kinds s)" and "length (fs_ready s') \<le> length (fs_ready s)"
  shows "candidates_inv c r s'"
proof -
  have "set (kinds s') = set (kinds s)" using assms(2) by (rule mset_eq_setD)
  moreover have "length (filter P (kinds s')) = length (filter P (kinds s))" for P
    using assms(2) by (metis mset_filter size_mset)
  ultimately show ?thesis using assms(1,3) by (simp add: candidates_inv_def)
qed

lemma candidates_extra:
  assumes "candidates_inv c r s" and "kinds s' = kinds s @ [k]" and "length (fs_ready s') \<le> length (fs_ready s)"
    and "k \<in> {CandidateInitial, CandidatePeriodicRandom}"
  shows "candidates_inv c r s'"
  using assms by (auto simp: candidates_inv_def)

lemma launch_next_inv:
  assumes inv: "state_inv (fv_config v) s" and less: "fs_next_run s < xc_runs (fv_config v)"
    and some: "0 < fs_seeds_due s \<or> fs_ready s \<noteq> []"
  shows "state_inv (fv_config v) (launch_next v s)"
proof -
  let ?c = "fv_config v" and ?n = "fs_next_run s"
  have parts: "schedule_inv ?c (ac_indices (fs_accumulator s)) s" "seeds_inv ?c s" "pending_inv s"
    "candidates_inv ?c (ac_report (fs_accumulator s)) s" "corpus_inv ?c (fs_corpus s)"
    "accumulator_inv ?c (fs_corpus s) (fs_completed s) (fs_accumulator s)"
    using inv by (simp_all add: state_inv_def)
  have "?n \<notin> fst ` set (fs_in_flight s)" using parts(1) by (auto simp: schedule_inv_def assigned_def)
  note update = update_absent [OF this]
  show ?thesis
  proof (cases "0 < fs_seeds_due s")
    case True
    define task where "task = \<lparr>sd_index = ?n, sd_seed = wrap64 (xc_base_seed ?c + ?n),
      sd_candidate = \<lparr>cd_id = candidate_name (fs_next_candidate s), cd_parent = [], cd_kind = CandidatePeriodicRandom,
        cd_source = ''periodic_random'', cd_depth = 0, cd_plan = None\<rparr>\<rparr>"
    define s' where "s' = launch_next v s"
    have s': "s' = s\<lparr>fs_next_candidate := fs_next_candidate s + 1, fs_seeds_due := fs_seeds_due s - 1,
        fs_next_run := ?n + 1, fs_in_flight := fs_in_flight s @ [(?n, task)], fs_running := fs_running s + 1\<rparr>"
      using True by (simp add: s'_def launch_next_def take_candidate_def launch_def update task_def)
    have "schedule_inv ?c (ac_indices (fs_accumulator s)) s'"
      by (rule schedule_launch [OF parts(1) less, of _ task]) (simp_all add: s' task_def)
    moreover have "candidates_inv ?c (ac_report (fs_accumulator s)) s'"
      by (rule candidates_extra [OF parts(4), of _ CandidatePeriodicRandom]) (simp_all add: s' task_def kinds_def)
    moreover have "seeds_inv ?c s'" "pending_inv s'" using parts(2,3) True by (auto simp: s' seeds_inv_def pending_inv_def)
    ultimately show ?thesis
      unfolding s'_def [symmetric] using parts(5,6) by (simp add: state_inv_def s')
  next
    case False
    then obtain candidate cs where ready: "fs_ready s = candidate # cs" using some by (cases "fs_ready s") auto
    define task where "task = \<lparr>sd_index = ?n, sd_seed = wrap64 (xc_base_seed ?c + ?n), sd_candidate = candidate\<rparr>"
    define s' where "s' = launch_next v s"
    have s': "s' = s\<lparr>fs_ready := cs, fs_next_run := ?n + 1, fs_in_flight := fs_in_flight s @ [(?n, task)],
        fs_running := fs_running s + 1\<rparr>"
      using False by (simp add: s'_def launch_next_def take_candidate_def launch_def update task_def ready)
    have "schedule_inv ?c (ac_indices (fs_accumulator s)) s'"
      by (rule schedule_launch [OF parts(1) less, of _ task]) (simp_all add: s' task_def)
    moreover have "candidates_inv ?c (ac_report (fs_accumulator s)) s'"
      by (rule candidates_cong [OF parts(4)]) (simp_all add: s' task_def kinds_def ready)
    moreover have "seeds_inv ?c s'" "pending_inv s'" using parts(2,3) by (auto simp: s' seeds_inv_def pending_inv_def)
    ultimately show ?thesis
      unfolding s'_def [symmetric] using parts(5,6) by (simp add: state_inv_def s')
  qed
qed

lemma launch_next_frame [simp]:
  "fs_log (launch_next v s) = fs_log s" "fs_corpus (launch_next v s) = fs_corpus s"
  by (simp_all add: launch_next_def take_candidate_def launch_def split: prod.split)

lemma dispatch_ready_inv: "run_inv v base s \<Longrightarrow> run_inv v base (dispatch_ready v s)"
proof (induction v s rule: dispatch_ready.induct)
  case (1 v s)
  show ?case
  proof (cases "fs_next_run s < xc_runs (fv_config v) \<and> fs_running s < xc_parallelism (fv_config v) \<and>
         (fs_seeds_due s > 0 \<or> fs_ready s \<noteq> [])")
    case True
    then have "run_inv v base (launch_next v s)"
      using "1.prems" launch_next_inv [of v s] by (simp add: run_inv_def log_inv_def)
    then show ?thesis using True "1.IH" by (simp add: dispatch_ready.simps [of v s])
  next
    case False
    then have "dispatch_ready v s = s" by (subst dispatch_ready.simps) (simp only: if_False)
    then show ?thesis using "1.prems" by simp
  qed
qed

lemma dispatch_inv: "run_inv v base s \<Longrightarrow> run_inv v base (dispatch v s)"
  by (simp add: dispatch_def dispatch_ready_inv dispatch_rerun_inv)

section \<open>New seeds and the end of the call keep the invariant\<close>

lemma planned_candidates_initial:
  "planned_candidates name i n ps = Inr cs \<Longrightarrow> \<forall>c \<in> set cs. cd_kind c = CandidateInitial"
  by (induction ps arbitrary: i n cs) (auto simp: initial_candidate_def split: if_splits option.splits sum.splits)

lemma initial_candidates_initial:
  "initial_candidates name generated wanted n = Inr (cs, n') \<Longrightarrow> \<forall>c \<in> set cs. cd_kind c = CandidateInitial"
  by (auto simp: initial_candidates_def initial_candidate_def dest!: planned_candidates_initial
      split: if_splits option.splits sum.splits)

lemma call_initializer_inv: "run_inv v base s \<Longrightarrow> run_inv v base (snd (call_initializer v wanted seed s))"
  by (simp add: call_initializer_def Let_def split: option.split)

lemma initial_kinds: "\<forall>c \<in> set cs. cd_kind c = CandidateInitial \<Longrightarrow> map cd_kind cs = replicate (length cs) CandidateInitial"
  by (induction cs) auto

lemma ready_inv:
  assumes inv: "state_inv c s" and empty: "fs_ready s = []" and initial: "\<forall>d \<in> set cs. cd_kind d = CandidateInitial"
    and small: "int (length cs) \<le> 1" and config: "config_ok c"
  shows "state_inv c (s\<lparr>fs_ready := cs\<rparr>)"
proof -
  have "candidates_inv c (ac_report (fs_accumulator s)) s" using inv by (simp add: state_inv_def)
  then have "candidates_inv c (ac_report (fs_accumulator s)) (s\<lparr>fs_ready := cs\<rparr>)"
    using empty small config initial_kinds [OF initial]
    by (auto simp: candidates_inv_def kinds_def config_ok_def)
  then show ?thesis using inv by (simp add: state_inv_def schedule_inv_def seeds_inv_def pending_inv_def assigned_def)
qed

lemma refill_inv:
  assumes inv: "run_inv v base s" and config: "config_ok (fv_config v)" and needs: "needs_seed v s"
  shows "run_inv v base (snd (refill v s))"
proof -
  let ?seed = "wrap64 (xc_base_seed (fv_config v) + fs_next_run s)"
  obtain generated s1 where call: "call_initializer v 1 ?seed s = (generated, s1)" by fastforce
  have s1: "run_inv v base s1" using call_initializer_inv [OF inv] call by (metis snd_conv)
  obtain l where l: "s1 = s\<lparr>fs_log := l\<rparr>" using call_initializer_state by (metis call snd_conv)
  show ?thesis
  proof (cases "initial_candidates (fo_initializer_name (fv_options v)) generated 1 (fs_next_candidate s1)")
    case (Inl e)
    then show ?thesis using s1 call by (simp add: refill_def)
  next
    case (Inr p)
    obtain cs n where p: "p = (cs, n)" by (cases p)
    have empty: "fs_ready s1 = []" using needs by (simp add: l needs_seed_def)
    have "state_inv (fv_config v) (s1\<lparr>fs_ready := cs\<rparr>)"
      using s1 config initial_candidates_some [OF Inr [unfolded p]] initial_candidates_initial [OF Inr [unfolded p]]
      by (intro ready_inv empty) (simp_all add: run_inv_def)
    then have "run_inv v base (s1\<lparr>fs_ready := cs\<rparr>)" using s1 by (simp add: run_inv_def log_inv_def)
    then show ?thesis using call Inr empty by (simp add: refill_def p)
  qed
qed

lemma cleared_inv:
  assumes inv: "run_inv v base s" and config: "config_ok (fv_config v)"
  shows "run_inv v base (s\<lparr>fs_ready := [], fs_seeds_due := 0, fs_pending := []\<rparr>)" (is "run_inv v base ?s")
proof -
  let ?c = "fv_config v"
  have parts: "schedule_inv ?c (ac_indices (fs_accumulator s)) s" "seeds_inv ?c s"
    "candidates_inv ?c (ac_report (fs_accumulator s)) s"
    using inv by (simp_all add: run_inv_def state_inv_def)
  have "candidates_inv ?c (ac_report (fs_accumulator s)) ?s"
    using parts(3) by (auto simp: candidates_inv_def kinds_def)
  moreover have "seeds_inv ?c ?s"
    using parts(1,2) config by (auto simp: seeds_inv_def schedule_inv_def config_ok_def split: if_splits)
  ultimately show ?thesis
    using inv by (simp add: run_inv_def log_inv_def state_inv_def schedule_inv_def pending_inv_def assigned_def)
qed

lemma finish_inv:
  assumes config: "config_ok (fv_config v)" and inv: "run_inv v base s"
  shows "out_inv v base (Inl (finish v s))"
proof -
  obtain err1 s1 where s1: "emit v (plain_event EventExperimentCompleted)
      (s\<lparr>fs_ready := [], fs_seeds_due := 0, fs_pending := []\<rparr>) = (err1, s1)" by fastforce
  obtain err2 s2 where s2: "save v True s1 = (err2, s2)" by fastforce
  have "run_inv v base s1" using emit_inv [OF cleared_inv [OF inv config]] s1 by (metis snd_conv)
  moreover from this have "run_inv v base s2" using save_inv [OF config] s2 by (metis snd_conv)
  ultimately show ?thesis
    by (cases err1; cases err2) (auto simp: finish_def s1 s2 intro: finish_with_out)
qed

lemma settle_inv: "config_ok (fv_config v) \<Longrightarrow> run_inv v base s \<Longrightarrow> out_inv v base (settle v s)"
proof (induction v s rule: settle.induct)
  case (1 v s)
  show ?case
  proof (cases "fs_completed s \<ge> xc_runs (fv_config v)")
    case True
    then show ?thesis using finish_inv 1 by (subst settle.simps) simp
  next
    case go: False
    define s1 where "s1 = dispatch v s"
    have s1: "run_inv v base s1" using "1.prems" by (simp add: s1_def dispatch_inv)
    show ?thesis
    proof (cases "fs_completed s1 \<noteq> xc_runs (fv_config v) \<and> needs_seed v s1")
      case True
      obtain err s2 where s2: "refill v s1 = (err, s2)" by fastforce
      have inv2: "run_inv v base s2" using refill_inv [OF s1 "1.prems"(1)] True s2 by (metis snd_conv)
      show ?thesis
      proof (cases err)
        case None
        with "1.IH" [OF go s1_def] True s2 inv2 "1.prems"(1) have "out_inv v base (settle v s2)" by simp
        then show ?thesis using go True s2 None
          by (subst settle.simps) (simp add: s1_def [symmetric] Let_def)
      next
        case (Some e)
        then show ?thesis using go True s2 stop_inv [OF "1.prems"(1) inv2]
          by (subst settle.simps) (simp add: s1_def [symmetric] Let_def)
      qed
    next
      case False
      then show ?thesis using go s1 finish_inv [OF "1.prems"(1) s1]
        by (subst settle.simps) (auto simp: s1_def [symmetric] Let_def)
    qed
  qed
qed

section \<open>A finished mutation keeps the invariant\<close>

lemma accumulator_counters:
  assumes "accumulator_inv c k n a" and "0 \<le> d" and "rp_admitted (ac_report a) \<le> x" and "0 \<le> p"
    and "p \<le> xc_max_ready_candidates c"
  shows "accumulator_inv c k n (a\<lparr>ac_report := (ac_report a)\<lparr>rp_discarded := d, rp_admitted := x, rp_peak_ready := p\<rparr>\<rparr>)"
  using assms by (simp add: accumulator_inv_def with_entries_def stored_counters_ok_def admissions_ok_def admitted_for_def
      sets_inv_def unique_inv_def semantic_inv_def)

text \<open>Admitting a candidate in closed form.\<close>

lemma admit_mutation_shape:
  fixes v s name e p
  defines "r \<equiv> ac_report (fs_accumulator s)"
    and "full \<equiv> int (length (fs_ready s)) = xc_max_ready_candidates (fv_config v)"
    and "c \<equiv> \<lparr>cd_id = candidate_name (fs_next_candidate s), cd_parent = en_id e, cd_kind = CandidateMutation,
           cd_source = name, cd_depth = en_depth e + 1, cd_plan = Some p\<rparr>"
  defines "cs \<equiv> (if full then tl (fs_ready s) else fs_ready s) @ [c]"
  shows "admit_mutation v name e p s =
     (if fs_next_run s + int (length (fs_ready s)) \<ge> xc_runs (fv_config v) then update_report count_discarded s
      else s\<lparr>fs_ready := cs,
          fs_accumulator := (fs_accumulator s)\<lparr>ac_report := r\<lparr>
            rp_discarded := (if full then rp_discarded r + 1 else rp_discarded r),
            rp_admitted := rp_admitted r + 1, rp_peak_ready := max (rp_peak_ready r) (int (length cs))\<rparr>\<rparr>,
          fs_next_candidate := fs_next_candidate s + 1\<rparr>)"
proof (cases full)
  case True
  show ?thesis
    by (simp add: admit_mutation_def peaked_def update_report_def count_discarded_def Let_def r_def cs_def c_def
        True True [unfolded full_def] max_def)
next
  case False
  show ?thesis
    by (simp add: admit_mutation_def peaked_def update_report_def count_discarded_def Let_def r_def cs_def c_def
        False False [unfolded full_def] max_def)
qed

lemma count_discarded_inv:
  assumes "state_inv c s"
  shows "state_inv c (update_report count_discarded s)"
proof -
  have "accumulator_inv c (fs_corpus s) (fs_completed s) (fs_accumulator s)"
    "candidates_inv c (ac_report (fs_accumulator s)) s" using assms by (simp_all add: state_inv_def)
  then show ?thesis
    using assms
    by (simp add: state_inv_def update_report_def count_discarded_def accumulator_inv_def with_entries_def
        stored_counters_ok_def admissions_ok_def admitted_for_def sets_inv_def unique_inv_def semantic_inv_def
        candidates_inv_def)
qed

lemma admit_mutation_inv:
  assumes inv: "state_inv (fv_config v) s" and config: "config_ok (fv_config v)"
  shows "state_inv (fv_config v) (admit_mutation v name e p s)"
proof (cases "fs_next_run s + int (length (fs_ready s)) \<ge> xc_runs (fv_config v)")
  case True
  then show ?thesis using count_discarded_inv [OF inv] by (simp add: admit_mutation_def)
next
  case False
  let ?c = "fv_config v" and ?r = "ac_report (fs_accumulator s)"
  define full where "full \<longleftrightarrow> int (length (fs_ready s)) = xc_max_ready_candidates ?c"
  define candidate where "candidate = \<lparr>cd_id = candidate_name (fs_next_candidate s), cd_parent = en_id e,
    cd_kind = CandidateMutation, cd_source = name, cd_depth = en_depth e + 1, cd_plan = Some p\<rparr>"
  define cs where "cs = (if full then tl (fs_ready s) else fs_ready s) @ [candidate]"
  define d where "d = (if full then rp_discarded ?r + 1 else rp_discarded ?r)"
  have cand: "candidates_inv ?c ?r s" and acc: "accumulator_inv ?c (fs_corpus s) (fs_completed s) (fs_accumulator s)"
    using inv by (simp_all add: state_inv_def)
  have peak: "0 \<le> rp_peak_ready ?r" "rp_peak_ready ?r \<le> xc_max_ready_candidates ?c" and "0 \<le> rp_discarded ?r"
    using acc by (simp_all add: accumulator_inv_def stored_counters_ok_def with_entries_def)
  then have d: "0 \<le> d" by (simp add: d_def)
  have "int (length (fs_ready s)) \<le> xc_max_ready_candidates ?c" "0 < xc_max_ready_candidates ?c"
    using cand config by (simp_all add: candidates_inv_def config_ok_def)
  then have small: "int (length cs) \<le> xc_max_ready_candidates ?c" by (auto simp: cs_def full_def)
  let ?s = "s\<lparr>fs_ready := cs, fs_accumulator := (fs_accumulator s)\<lparr>ac_report := ?r\<lparr>rp_discarded := d,
      rp_admitted := rp_admitted ?r + 1, rp_peak_ready := max (rp_peak_ready ?r) (int (length cs))\<rparr>\<rparr>,
      fs_next_candidate := fs_next_candidate s + 1\<rparr>"
  have shape: "admit_mutation v name e p s = ?s"
    using False by (subst admit_mutation_shape) (simp add: full_def d_def cs_def candidate_def)
  have "candidates_inv ?c (ac_report (fs_accumulator ?s)) ?s"
    using cand small by (cases "fs_ready s") (auto simp: candidates_inv_def kinds_def cs_def candidate_def)
  moreover have "accumulator_inv ?c (fs_corpus s) (fs_completed s) (fs_accumulator ?s)"
    using accumulator_counters [OF acc d, of "rp_admitted ?r + 1" "max (rp_peak_ready ?r) (int (length cs))"] peak small by simp
  ultimately show ?thesis
    unfolding shape using inv
    by (simp add: state_inv_def schedule_inv_def seeds_inv_def pending_inv_def assigned_def)
qed

lemma admit_mutation_frame:
  "fs_log (admit_mutation v name e p s) = fs_log s" "fs_corpus (admit_mutation v name e p s) = fs_corpus s"
  "fs_pending (admit_mutation v name e p s) = fs_pending s" "fs_requests (admit_mutation v name e p s) = fs_requests s"
  "fs_completed (admit_mutation v name e p s) = fs_completed s"
  by (simp_all add: admit_mutation_shape update_report_def)

lemma fold_admit_inv:
  "run_inv v base s \<Longrightarrow> config_ok (fv_config v) \<Longrightarrow> run_inv v base (fold (admit_mutation v name e) ps s)"
  by (induction ps arbitrary: s) (simp_all add: run_inv_def log_inv_def admit_mutation_inv admit_mutation_frame)

text \<open>Counters that the checks of a checkpoint do not read, or only from below.\<close>

lemma update_report_inv:
  assumes inv: "run_inv v base s"
    and "\<And>k n a. accumulator_inv (fv_config v) k n a \<Longrightarrow> accumulator_inv (fv_config v) k n (a\<lparr>ac_report := f (ac_report a)\<rparr>)"
    and "\<And>r. candidates_inv (fv_config v) r s \<Longrightarrow> candidates_inv (fv_config v) (f r) s"
  shows "run_inv v base (update_report f s)"
  using assms by (simp add: run_inv_def log_inv_def state_inv_def update_report_def)

lemma mutation_counters_inv:
  assumes "run_inv v base s"
  shows "run_inv v base (update_report (\<lambda>r. r\<lparr>rp_mutation_errors := f r\<rparr>) s)"
    and "run_inv v base (update_report (\<lambda>r. r\<lparr>rp_generated := rp_generated r + int n\<rparr>) s)"
  by (rule update_report_inv [OF assms]; simp add: accumulator_inv_def with_entries_def stored_counters_ok_def
      admissions_ok_def admitted_for_def sets_inv_def unique_inv_def semantic_inv_def candidates_inv_def)+

lemma delete_pending_inv:
  assumes "run_inv v base s"
  shows "run_inv v base (s\<lparr>fs_requests := qs, fs_pending := AList.delete k (fs_pending s)\<rparr>)"
proof -
  have "pending_inv s" using assms by (simp add: run_inv_def state_inv_def)
  then have "pending_inv (s\<lparr>fs_requests := qs, fs_pending := AList.delete k (fs_pending s)\<rparr>)"
    by (auto simp: pending_inv_def distinct_delete dest!: set_delete_subset)
  then show ?thesis
    using assms
    by (simp add: run_inv_def log_inv_def state_inv_def schedule_inv_def seeds_inv_def candidates_inv_def kinds_def assigned_def)
qed

lemma handle_mutation_inv:
  assumes config: "config_ok (fv_config v)" and inv: "run_inv v base s"
  shows "out_inv v base (handle_mutation v q plans err s)"
proof -
  define s1 where "s1 = s\<lparr>fs_requests := tl (fs_requests s), fs_pending := AList.delete (en_id (mr_entry q)) (fs_pending s)\<rparr>"
  have s1: "run_inv v base s1" unfolding s1_def by (rule delete_pending_inv [OF inv])
  show ?thesis
    unfolding handle_mutation_def Let_def s1_def [symmetric]
    by (cases err) (auto intro!: unless_failed_inv config emit_inv mutation_counters_inv s1 fold_admit_inv)
qed

end
