(* ===== verification/Feedback_Runs.thy ===== *)
theory Feedback_Runs
  imports Feedback_Invariant
begin

text \<open>
  A run that arrives keeps the invariant of the feedback loop: what the corpus says of it and what the
  report counts of it fit together. With it the invariant holds along a whole call, and what is stored on
  the way can be resumed.
\<close>

section \<open>Counting admissions\<close>

declare admission_text.simps [simp del]

lemma admission_text_inject [simp]: "admission_text r = admission_text r' \<longleftrightarrow> r = r'"
  by (cases r; cases r'; simp add: admission_text.simps)

lemma admission_text_empty [simp]: "admission_text r = [] \<longleftrightarrow> r = NoAdmissionReason"
  by (cases r) (simp_all add: admission_text.simps)

lemma known_admission: "admission_text reason \<in> set known_admissions \<longleftrightarrow> reason \<noteq> NoAdmissionReason"
  by (cases reason) (simp_all add: known_admissions_def)

lemma sum_count_add [simp]: "sum_list (map snd (count_add k n m)) = sum_list (map snd m) + n"
  unfolding count_add_def by (induction m) (auto simp: count_at_def)

lemma count_at_nonneg: "\<forall>(k, n) \<in> set m. 0 \<le> n \<Longrightarrow> 0 \<le> count_at m k"
  by (auto simp: count_at_def split: option.split dest: map_of_SomeD)

lemma set_count_add: "p \<in> set (count_add k n m) \<Longrightarrow> p \<in> set m \<or> p = (k, count_at m k + n)"
  unfolding count_add_def by (auto dest: set_update_subset)

definition retained_reasons :: "admission_reason set" where
  "retained_reasons = {AdmissionRetainedRaw, AdmissionRetainedSemanticState, AdmissionRetainedSemanticTransition,
     AdmissionRetainedSemanticStateAndTransition}"

lemma admissions_step:
  assumes ok: "admissions_ok (r\<lparr>rp_corpus_entries := n\<rparr>)" and some: "reason \<noteq> NoAdmissionReason"
    and m: "m = n + (if reason \<in> retained_reasons then 1 else 0)" and s: "s = rp_succeeded r + 1"
  shows "admissions_ok ((add_corpus_admission (admission_text reason) r)\<lparr>rp_corpus_entries := m, rp_succeeded := s\<rparr>)"
proof -
  let ?m = "count_up (admission_text reason) (rp_admission_counts r)"
  have known: "\<forall>(k, n) \<in> set (rp_admission_counts r). k \<in> set known_admissions \<and> 0 \<le> n"
    using ok by (simp add: admissions_ok_def)
  have "0 \<le> count_at (rp_admission_counts r) (admission_text reason)" by (rule count_at_nonneg) (use known in auto)
  then have known': "\<forall>(k, n) \<in> set ?m. k \<in> set known_admissions \<and> 0 \<le> n"
    using known some by (auto dest!: set_count_add simp: known_admission)
  show ?thesis
    using ok known' some m s
    by (cases reason) (simp_all add: admissions_ok_def admitted_for_def add_corpus_admission_def Let_def retained_reasons_def)
qed

lemma admission_frame [simp]:
  "rp_config (add_corpus_admission t r) = rp_config r" "rp_feedback (add_corpus_admission t r) = rp_feedback r"
  "rp_completed (add_corpus_admission t r) = rp_completed r" "rp_succeeded (add_corpus_admission t r) = rp_succeeded r"
  "rp_failed (add_corpus_admission t r) = rp_failed r"
  "rp_initial_executions (add_corpus_admission t r) = rp_initial_executions r"
  "rp_executed_mutations (add_corpus_admission t r) = rp_executed_mutations r"
  "rp_periodic (add_corpus_admission t r) = rp_periodic r" "rp_generated (add_corpus_admission t r) = rp_generated r"
  "rp_discarded (add_corpus_admission t r) = rp_discarded r" "rp_admitted (add_corpus_admission t r) = rp_admitted r"
  "rp_peak_ready (add_corpus_admission t r) = rp_peak_ready r"
  "rp_unique_semantic_states (add_corpus_admission t r) = rp_unique_semantic_states r"
  "rp_unique_semantic_transitions (add_corpus_admission t r) = rp_unique_semantic_transitions r"
  "rp_runs (add_corpus_admission t r) = rp_runs r"
  by (simp_all add: add_corpus_admission_def Let_def)

text \<open>The part of a report that the checks of a checkpoint read, run by run. The metrics of a run and its
  outcome are not in it.\<close>

lemma count_metrics_frame [simp]:
  "rp_config (count_metrics run m r) = rp_config r" "rp_feedback (count_metrics run m r) = rp_feedback r"
  "rp_completed (count_metrics run m r) = rp_completed r" "rp_succeeded (count_metrics run m r) = rp_succeeded r"
  "rp_failed (count_metrics run m r) = rp_failed r"
  "rp_initial_executions (count_metrics run m r) = rp_initial_executions r"
  "rp_executed_mutations (count_metrics run m r) = rp_executed_mutations r"
  "rp_periodic (count_metrics run m r) = rp_periodic r" "rp_generated (count_metrics run m r) = rp_generated r"
  "rp_discarded (count_metrics run m r) = rp_discarded r" "rp_admitted (count_metrics run m r) = rp_admitted r"
  "rp_peak_ready (count_metrics run m r) = rp_peak_ready r"
  "rp_unique_semantic_states (count_metrics run m r) = rp_unique_semantic_states r"
  "rp_unique_semantic_transitions (count_metrics run m r) = rp_unique_semantic_transitions r"
  "rp_admission_counts (count_metrics run m r) = rp_admission_counts r"
  "rp_rejected_raw (count_metrics run m r) = rp_rejected_raw r"
  "rp_rejected_semantic (count_metrics run m r) = rp_rejected_semantic r"
  "rp_retained_by_state (count_metrics run m r) = rp_retained_by_state r"
  "rp_retained_by_transition (count_metrics run m r) = rp_retained_by_transition r"
  by (simp_all add: count_metrics_def)

lemma count_totals_shape:
  "\<exists>sc n t e. count_totals run r = r\<lparr>rp_completed := rp_completed r + 1,
     rp_succeeded := rp_succeeded r + (if rn_succeeded run then 1 else 0),
     rp_failed := rp_failed r + (if rn_succeeded run then 0 else 1),
     rp_status_counts := sc, rp_actions := n, rp_effects := t, rp_model_events := e\<rparr>"
  unfolding count_totals_def by blast

lemma count_novelty_shape:
  "\<exists>a b d nv. count_novelty run r = r\<lparr>rp_plans := a, rp_traces := b, rp_paths := d, rp_novelty := nv,
     rp_unique_semantic_states := rp_unique_semantic_states r + rn_new_semantic_states run,
     rp_unique_semantic_transitions := rp_unique_semantic_transitions r + rn_new_semantic_transitions run\<rparr>"
  unfolding count_novelty_def by blast

lemma admission_commutes:
  "add_corpus_admission t (r\<lparr>rp_plans := a, rp_traces := b, rp_paths := d, rp_novelty := nv,
     rp_unique_semantic_states := x, rp_unique_semantic_transitions := y\<rparr>) =
   (add_corpus_admission t r)\<lparr>rp_plans := a, rp_traces := b, rp_paths := d, rp_novelty := nv,
     rp_unique_semantic_states := x, rp_unique_semantic_transitions := y\<rparr>"
  "add_corpus_admission t (r\<lparr>rp_completed := n, rp_succeeded := s, rp_failed := f, rp_status_counts := sc,
     rp_actions := p, rp_effects := q, rp_model_events := e\<rparr>) =
   (add_corpus_admission t r)\<lparr>rp_completed := n, rp_succeeded := s, rp_failed := f, rp_status_counts := sc,
     rp_actions := p, rp_effects := q, rp_model_events := e\<rparr>"
  by (simp_all add: add_corpus_admission_def Let_def)

definition admission_part :: "report \<Rightarrow> counts \<times> int \<times> int \<times> int \<times> int" where
  "admission_part r = (rp_admission_counts r, rp_rejected_raw r, rp_rejected_semantic r, rp_retained_by_state r,
     rp_retained_by_transition r)"

lemma count_run_sel [simp]:
  "rp_config (count_run run r) = rp_config r" "rp_feedback (count_run run r) = rp_feedback r"
  "rp_completed (count_run run r) = rp_completed r + 1"
  "rp_succeeded (count_run run r) = rp_succeeded r + (if rn_succeeded run then 1 else 0)"
  "rp_failed (count_run run r) = rp_failed r + (if rn_succeeded run then 0 else 1)"
  "rp_initial_executions (count_run run r) = rp_initial_executions r"
  "rp_executed_mutations (count_run run r) = rp_executed_mutations r"
  "rp_periodic (count_run run r) = rp_periodic r + (if rn_candidate_kind run = CandidatePeriodicRandom then 1 else 0)"
  "rp_generated (count_run run r) = rp_generated r"
  "rp_discarded (count_run run r) = rp_discarded r" "rp_admitted (count_run run r) = rp_admitted r"
  "rp_peak_ready (count_run run r) = rp_peak_ready r"
  "rp_unique_semantic_states (count_run run r) = rp_unique_semantic_states r + rn_new_semantic_states run"
  "rp_unique_semantic_transitions (count_run run r) = rp_unique_semantic_transitions r + rn_new_semantic_transitions run"
  by (cases "rn_metrics run"; simp add: count_run_def Let_def count_outcome_def count_novelty_def count_totals_def)+

lemma count_run_admissions: "admission_part (count_run run r) = admission_part (add_corpus_admission (rn_admission run) r)"
proof -
  obtain sc n t e where totals: "count_totals run r = r\<lparr>rp_completed := rp_completed r + 1,
     rp_succeeded := rp_succeeded r + (if rn_succeeded run then 1 else 0),
     rp_failed := rp_failed r + (if rn_succeeded run then 0 else 1),
     rp_status_counts := sc, rp_actions := n, rp_effects := t, rp_model_events := e\<rparr>"
    using count_totals_shape by blast
  define r1 where "r1 = count_totals run r"
  have r1: "admission_part (add_corpus_admission x r1) = admission_part (add_corpus_admission x r)" for x
    unfolding r1_def totals admission_commutes by (simp add: admission_part_def)
  obtain a b d nv where novelty: "count_novelty run r1 = r1\<lparr>rp_plans := a, rp_traces := b, rp_paths := d, rp_novelty := nv,
     rp_unique_semantic_states := rp_unique_semantic_states r1 + rn_new_semantic_states run,
     rp_unique_semantic_transitions := rp_unique_semantic_transitions r1 + rn_new_semantic_transitions run\<rparr>"
    using count_novelty_shape by blast
  define r2 where "r2 = count_novelty run r1"
  have r2: "admission_part (add_corpus_admission x r2) = admission_part (add_corpus_admission x r1)" for x
    unfolding r2_def novelty admission_commutes by (simp add: admission_part_def)
  have "admission_part (count_run run r) = admission_part (add_corpus_admission (rn_admission run) r2)"
    by (cases "rn_metrics run")
      (simp_all add: count_run_def Let_def count_outcome_def admission_part_def r1_def [symmetric] r2_def [symmetric])
  then show ?thesis by (simp add: r1 r2)
qed

lemma admissions_ok_cong:
  "admission_part r = admission_part r' \<Longrightarrow> rp_succeeded r = rp_succeeded r' \<Longrightarrow> rp_corpus_entries r = rp_corpus_entries r' \<Longrightarrow>
     admissions_ok r = admissions_ok r'"
  by (simp add: admissions_ok_def admitted_for_def admission_part_def)

section \<open>Adding a run to the report\<close>

text \<open>What the corpus made of a run: what became covered is new in the run or was covered before, the numbers
  of new keys are right, and an entry was added exactly if the reason of admission says so.\<close>

definition considered :: "corpus \<Rightarrow> run \<Rightarrow> corpus \<Rightarrow> bool" where
  "considered k run k' \<longleftrightarrow>
     rn_new_semantic_states run = int (card (cp_semantic_states k')) - int (card (cp_semantic_states k)) \<and>
     rn_new_semantic_transitions run = int (card (cp_semantic_transitions k')) - int (card (cp_semantic_transitions k)) \<and>
     cp_coverage k' \<subseteq> cp_coverage k \<union> set (rn_state_keys run) \<and>
     (\<exists>reason. rn_admission run = admission_text reason \<and>
        length (cp_entries k') = length (cp_entries k) + (if reason \<in> retained_reasons then 1 else 0) \<and>
        (reason \<noteq> NoAdmissionReason \<longrightarrow> rn_succeeded run))"

lemma count_candidate_frame [simp]:
  "rp_config (count_candidate k r) = rp_config r" "rp_feedback (count_candidate k r) = rp_feedback r"
  "rp_completed (count_candidate k r) = rp_completed r" "rp_succeeded (count_candidate k r) = rp_succeeded r"
  "rp_failed (count_candidate k r) = rp_failed r" "rp_periodic (count_candidate k r) = rp_periodic r"
  "rp_generated (count_candidate k r) = rp_generated r" "rp_discarded (count_candidate k r) = rp_discarded r"
  "rp_admitted (count_candidate k r) = rp_admitted r" "rp_peak_ready (count_candidate k r) = rp_peak_ready r"
  "rp_unique_semantic_states (count_candidate k r) = rp_unique_semantic_states r"
  "rp_unique_semantic_transitions (count_candidate k r) = rp_unique_semantic_transitions r"
  "rp_runs (count_candidate k r) = rp_runs r" "admission_part (count_candidate k r) = admission_part r"
  "rp_initial_executions (count_candidate k r) = rp_initial_executions r + (if k = CandidateInitial then 1 else 0)"
  "rp_executed_mutations (count_candidate k r) = rp_executed_mutations r + (if k = CandidateMutation then 1 else 0)"
  by (cases k; simp add: count_candidate_def admission_part_def)+

lemma admissions_run:
  assumes ok: "admissions_ok (with_entries k r)" and considered: "considered k run k'"
    and r': "admission_part r' = admission_part (count_run run q)" "admission_part q = admission_part r"
      "rp_succeeded q = rp_succeeded r" "rp_succeeded r' = rp_succeeded (count_run run q)"
  shows "admissions_ok (with_entries k' r')"
proof -
  obtain reason where reason: "rn_admission run = admission_text reason"
    "length (cp_entries k') = length (cp_entries k) + (if reason \<in> retained_reasons then 1 else 0)"
    "reason \<noteq> NoAdmissionReason \<Longrightarrow> rn_succeeded run"
    using considered by (auto simp: considered_def)
  have q: "admissions_ok (with_entries k q)"
    using ok r'(2,3) admissions_ok_cong [of "with_entries k r" "with_entries k q"]
    by (simp add: with_entries_def admission_part_def)
  show ?thesis
  proof (cases "reason = NoAdmissionReason")
    case True
    then have "admission_part r' = admission_part q" "length (cp_entries k') = length (cp_entries k)"
      "rp_succeeded q \<le> rp_succeeded r'"
      using r' reason by (simp_all add: count_run_admissions add_corpus_admission_def retained_reasons_def)
    then show ?thesis
      using q by (simp add: admissions_ok_def admitted_for_def with_entries_def admission_part_def)
  next
    case False
    let ?n = "int (length (cp_entries k))" and ?m = "int (length (cp_entries k'))"
    have "admissions_ok ((add_corpus_admission (admission_text reason) q)\<lparr>rp_corpus_entries := ?m,
        rp_succeeded := rp_succeeded q + 1\<rparr>)"
      using q False reason(2) by (intro admissions_step [where n = ?n]) (auto simp: with_entries_def)
    moreover have "admission_part (with_entries k' r') = admission_part ((add_corpus_admission (admission_text reason) q)
        \<lparr>rp_corpus_entries := ?m, rp_succeeded := rp_succeeded q + 1\<rparr>)"
      using r'(1) by (simp add: count_run_admissions reason(1)) (simp add: with_entries_def admission_part_def)
    ultimately show ?thesis
      using r'(4) reason(3) [OF False]
      by (subst admissions_ok_cong) (auto simp: with_entries_def)
  qed
qed

lemma remember_inv:
  "finite s \<Longrightarrow> [] \<notin> s \<Longrightarrow> finite (remember s d) \<and> [] \<notin> remember s d"
  by (auto simp: remember_def)

text \<open>The accumulator after \<open>addRun\<close>, whose report keeps a timeline of its own.\<close>

lemma add_run_shape:
  assumes "rn_index run \<notin> ac_indices a"
  shows "\<exists>ts. add_run run n t a = Inr (a\<lparr>
      ac_report := (unique_counts (ac_states a \<union> set (rn_state_keys run)) (ac_plans a) (ac_traces a) (ac_paths a)
        (count_run run (ac_report a)))\<lparr>rp_corpus_entries := n, rp_retained := n, rp_timeline := ts\<rparr>,
      ac_indices := insert (rn_index run) (ac_indices a), ac_states := ac_states a \<union> set (rn_state_keys run),
      ac_durations := ac_durations a @ [rn_duration_micros run]\<rparr>)"
proof -
  define r where "r = (unique_counts (ac_states a \<union> set (rn_state_keys run)) (ac_plans a) (ac_traces a) (ac_paths a)
        (count_run run (ac_report a)))\<lparr>rp_corpus_entries := n, rp_retained := n\<rparr>"
  define keep where "keep \<longleftrightarrow> should_keep_coverage_point (rp_timeline r) (point_of r n t)"
  have "add_run run n t a = Inr (a\<lparr>
      ac_report := (if keep then r\<lparr>rp_timeline := rp_timeline r @ [point_of r n t]\<rparr> else r),
      ac_indices := insert (rn_index run) (ac_indices a), ac_states := ac_states a \<union> set (rn_state_keys run),
      ac_durations := ac_durations a @ [rn_duration_micros run]\<rparr>)"
    using assms unfolding add_run_def Let_def r_def [symmetric] keep_def by simp
  moreover obtain ts where "(if keep then r\<lparr>rp_timeline := rp_timeline r @ [point_of r n t]\<rparr> else r) = r\<lparr>rp_timeline := ts\<rparr>"
  proof (cases keep)
    case True
    show ?thesis by (rule that [of "rp_timeline r @ [point_of r n t]"]) (simp add: True)
  next
    case False
    show ?thesis by (rule that [of "rp_timeline r"]) (simp add: False)
  qed
  ultimately have "add_run run n t a = Inr (a\<lparr>ac_report := r\<lparr>rp_timeline := ts\<rparr>,
      ac_indices := insert (rn_index run) (ac_indices a), ac_states := ac_states a \<union> set (rn_state_keys run),
      ac_durations := ac_durations a @ [rn_duration_micros run]\<rparr>)"
    by (simp only:)
  then show ?thesis unfolding r_def by (intro exI)
qed

lemma add_run_inv:
  fixes a :: accumulator
  assumes acc: "accumulator_inv c k n a" and fresh: "rn_index run \<notin> ac_indices a"
    and classified: "classify run0 a = (run1, a1)"
    and same: "rn_plan_digest run = rn_plan_digest run1" "rn_trace_digest run = rn_trace_digest run1"
      "rn_path_digest run = rn_path_digest run1" "rn_candidate_kind run = kind"
    and considered: "considered k run k'"
    and kind: "kind \<in> {CandidateInitial, CandidateMutation, CandidatePeriodicRandom}"
    and room: "kind = CandidateMutation \<Longrightarrow> rp_executed_mutations (ac_report a) < rp_admitted (ac_report a)"
  shows "\<exists>b. add_run run m t (a1\<lparr>ac_report := count_candidate kind (ac_report a1)\<rparr>) = Inr b \<and>
    accumulator_inv c k' (n + 1) b \<and> ac_indices b = insert (rn_index run) (ac_indices a) \<and>
    rp_peak_ready (ac_report b) = rp_peak_ready (ac_report a) \<and> rp_admitted (ac_report b) = rp_admitted (ac_report a) \<and>
    rp_executed_mutations (ac_report b) =
      rp_executed_mutations (ac_report a) + (if kind = CandidateMutation then 1 else 0)"
proof -
  note sel = classify_sel [of run0 a, unfolded classified fst_conv snd_conv]
  define a2 where "a2 = a1\<lparr>ac_report := count_candidate kind (ac_report a)\<rparr>"
  have "rn_index run \<notin> ac_indices a2" using fresh sel by (simp add: a2_def)
  from add_run_shape [OF this] obtain ts where b: "add_run run m t a2 = Inr (a2\<lparr>
      ac_report := (unique_counts (ac_states a2 \<union> set (rn_state_keys run)) (ac_plans a2) (ac_traces a2) (ac_paths a2)
        (count_run run (ac_report a2)))\<lparr>rp_corpus_entries := m, rp_retained := m, rp_timeline := ts\<rparr>,
      ac_indices := insert (rn_index run) (ac_indices a2), ac_states := ac_states a2 \<union> set (rn_state_keys run),
      ac_durations := ac_durations a2 @ [rn_duration_micros run]\<rparr>)" (is "_ = Inr ?b") by blast
  have parts: "stored_counters_ok (with_entries k (ac_report a)) c n" "sets_inv a" "semantic_inv k a"
    "rp_runs (ac_report a) = []" "int (length (ac_durations a)) = n"
    using acc by (simp_all add: accumulator_inv_def)
  have "admissions_ok (with_entries k' (ac_report ?b))"
    by (rule admissions_run [where r = "ac_report a" and q = "ac_report a2", OF _ considered])
      (use parts(1) in \<open>simp_all add: stored_counters_ok_def a2_def\<close>, simp_all add: admission_part_def unique_counts_def)
  moreover have semantic: "semantic_inv k' ?b"
    using parts(3) considered by (auto simp: semantic_inv_def considered_def unique_counts_def a2_def sel)
  ultimately have "stored_counters_ok (with_entries k' (ac_report ?b)) c (n + 1)"
    using parts(1) kind room
    by (auto simp: stored_counters_ok_def with_entries_def unique_counts_def a2_def same semantic_inv_def)
  moreover have "sets_inv ?b"
    using parts(2) remember_inv by (auto simp: sets_inv_def a2_def sel)
  moreover have "unique_inv ?b" by (simp add: unique_inv_def unique_counts_def)
  moreover have "rp_runs (ac_report ?b) = []" "int (length (ac_durations ?b)) = n + 1"
    using parts(4,5) by (simp_all add: a2_def sel unique_counts_def)
  ultimately have "accumulator_inv c k' (n + 1) ?b" using semantic by (simp only: accumulator_inv_def simp_thms)
  moreover have "ac_indices ?b = insert (rn_index run) (ac_indices a)"
    "rp_peak_ready (ac_report ?b) = rp_peak_ready (ac_report a)" "rp_admitted (ac_report ?b) = rp_admitted (ac_report a)"
    "rp_executed_mutations (ac_report ?b) =
      rp_executed_mutations (ac_report a) + (if kind = CandidateMutation then 1 else 0)"
    by (simp_all add: a2_def sel unique_counts_def)
  moreover have "a1\<lparr>ac_report := count_candidate kind (ac_report a1)\<rparr> = a2" by (simp add: a2_def sel)
  ultimately show ?thesis using b by metis
qed

section \<open>What the corpus says of a run\<close>

lemma consider_reason:
  "corpus_consider (Some k) i = Inr (e, retained, k') \<Longrightarrow>
     en_reason e \<noteq> NoAdmissionReason \<and> (en_reason e \<in> retained_reasons \<longleftrightarrow> retained)"
  by (auto simp: corpus_consider_def Let_def retained_reasons_def retained_reason_def split: option.splits if_splits)

lemma length_new_keys:
  assumes "finite covered"
  shows "int (length (unseen_keys (unique_keys ks) covered)) = int (card (covered \<union> set ks)) - int (card covered)"
proof -
  have "length (unseen_keys (unique_keys ks) covered) = card (set ks - covered)" by (simp add: length_unseen)
  moreover have "card (covered \<union> set ks) = card covered + card (set ks - covered)"
    using assms card_Un_disjoint [of covered "set ks - covered"] by (simp add: Un_Diff_cancel)
  ultimately show ?thesis by simp
qed

lemma with_novelty_sel [simp]:
  "rn_index (with_novelty e r) = rn_index r" "rn_plan_digest (with_novelty e r) = rn_plan_digest r"
  "rn_trace_digest (with_novelty e r) = rn_trace_digest r" "rn_path_digest (with_novelty e r) = rn_path_digest r"
  "rn_candidate_kind (with_novelty e r) = rn_candidate_kind r" "rn_state_keys (with_novelty e r) = rn_state_keys r"
  "rn_succeeded (with_novelty e r) = rn_succeeded r" "rn_admission (with_novelty e r) = admission_text (en_reason e)"
  "rn_new_semantic_states (with_novelty e r) = int (length (en_new_semantic_states e))"
  "rn_new_semantic_transitions (with_novelty e r) = int (length (en_new_semantic_transitions e))"
  by (simp_all add: with_novelty_def Let_def)

lemma considered_consider:
  assumes ok: "corpus_ok k" and step: "corpus_consider (Some k) i = Inr (e, retained, k')"
    and states: "set (rn_state_keys run) = ms_key ` set (in_states i)" and succeeded: "rn_succeeded run"
  shows "considered k (with_novelty e run) k'"
proof -
  have "finite (cp_semantic_states k)" "finite (cp_semantic_transitions k)"
    using ok by (simp_all add: corpus_ok_def attributed_def)
  note new = length_new_keys [OF this(1), of "in_semantic_states i"] length_new_keys [OF this(2), of "in_semantic_transitions i"]
  note facts = consider_cases [OF step] and reason = consider_reason [OF step]
  have "length (cp_entries k') = length (cp_entries k) + (if en_reason e \<in> retained_reasons then 1 else 0)"
    using facts reason by (auto simp: covers_def)
  moreover have "cp_coverage k' = cp_coverage k \<union> ms_key ` set (in_states i)"
    "cp_semantic_states k' = cp_semantic_states k \<union> set (in_semantic_states i)"
    "cp_semantic_transitions k' = cp_semantic_transitions k \<union> set (in_semantic_transitions i)"
    using facts by (auto simp: covers_def split: if_splits)
  ultimately show ?thesis
    using facts new states succeeded by (auto simp: considered_def intro: exI [of _ "en_reason e"])
qed

lemma considered_refl: "rn_admission run = [] \<Longrightarrow> rn_new_semantic_states run = 0 \<Longrightarrow> rn_new_semantic_transitions run = 0 \<Longrightarrow>
    considered k run k"
  by (auto simp: considered_def retained_reasons_def admission_text.simps intro!: exI [of _ NoAdmissionReason])

lemma feedback_run_sel [simp]:
  "rn_index (feedback_run v task x err t) = sd_index task" "rn_admission (feedback_run v task x err t) = []"
  "rn_new_semantic_states (feedback_run v task x err t) = 0" "rn_new_semantic_transitions (feedback_run v task x err t) = 0"
  "rn_candidate_kind (feedback_run v task x err t) = cd_kind (sd_candidate task)"
  "set (rn_state_keys (feedback_run v task x err t)) = ms_key ` set (er_states (fe_result x))"
  by (simp_all add: feedback_run_def summarize_result_def empty_run_def Let_def)

lemma classify_keeps:
  "classify run0 a = (run, a1) \<Longrightarrow> rn_index run = rn_index run0 \<and> rn_admission run = rn_admission run0 \<and>
     rn_new_semantic_states run = rn_new_semantic_states run0 \<and>
     rn_new_semantic_transitions run = rn_new_semantic_transitions run0 \<and>
     rn_candidate_kind run = rn_candidate_kind run0 \<and> rn_state_keys run = rn_state_keys run0"
  by (auto simp: classify_def split: prod.splits)

section \<open>Periodic seeds\<close>

text \<open>The number of seeds due stays below what \<open>int\<close> holds if all the thresholds of all runs do.\<close>

definition seeds_fit :: "experiment_config \<Rightarrow> bool" where
  "seeds_fit c \<longleftrightarrow> xc_runs c * xc_random_seeds_per_interval c < 2 ^ 63"

lemma seed_threshold_inv:
  assumes seeds: "seeds_inv c s" and config: "config_ok c" and fit: "seeds_fit c"
    and n: "0 \<le> fs_completed s" "fs_completed s + 1 \<le> xc_runs c"
  shows "\<exists>next_at due. seed_threshold (xc_random_seed_interval c) (xc_random_seeds_per_interval c) (fs_completed s + 1)
      (fs_next_seed_at s) (fs_seeds_due s) = Some (next_at, due) \<and>
    seeds_inv c (s\<lparr>fs_completed := fs_completed s + 1, fs_next_seed_at := next_at, fs_seeds_due := due\<rparr>)"
proof (cases "xc_random_seed_interval c = 0")
  case True
  then show ?thesis using seeds by (subst seed_threshold.simps) (simp add: seeds_inv_def)
next
  case False
  let ?i = "xc_random_seed_interval c" and ?p = "xc_random_seeds_per_interval c" and ?n = "fs_completed s + 1"
  have i: "0 < ?i" "0 \<le> ?p" using False config by (auto simp: config_ok_def)
  have due: "fs_completed s < fs_next_seed_at s" "0 \<le> fs_seeds_due s" "fs_seeds_due s \<le> fs_completed s * ?p"
    using seeds False by (simp_all add: seeds_inv_def)
  have "?n * ?p \<le> xc_runs c * ?p" using n(2) i(2) by (rule mult_right_mono)
  then have small: "fs_seeds_due s + ?p < 2 ^ 63" "fs_seeds_due s + ?p \<le> ?n * ?p"
    using due(3) fit by (simp_all add: seeds_fit_def algebra_simps)
  show ?thesis
  proof (cases "?n \<ge> fs_next_seed_at s")
    case True
    then have at_n: "fs_next_seed_at s = ?n" using due(1) by simp
    have "wrap64 (fs_seeds_due s + ?p) = fs_seeds_due s + ?p" using small due(2) i(2) by (intro wrap64_id) simp_all
    then have "seed_threshold ?i ?p ?n (fs_next_seed_at s) (fs_seeds_due s) = Some (?n + ?i, fs_seeds_due s + ?p)"
      using at_n n(1) i(1) by (subst seed_threshold.simps, subst seed_threshold.simps) simp
    then show ?thesis using small(2) due(2) i False by (auto simp: seeds_inv_def)
  next
    case False
    then have "seed_threshold ?i ?p ?n (fs_next_seed_at s) (fs_seeds_due s) = Some (fs_next_seed_at s, fs_seeds_due s)"
      by (subst seed_threshold.simps) simp
    then show ?thesis using due small(2) False i by (auto simp: seeds_inv_def)
  qed
qed

section \<open>A finished execution keeps the invariant\<close>

text \<open>Between the arrival of a run and its place in the report: \<open>a\<close> and \<open>k\<close> are the accumulator and the
  corpus from before.\<close>

definition mid_inv ::
  "experiment_config \<Rightarrow> scheduled \<Rightarrow> accumulator \<Rightarrow> corpus \<Rightarrow> run \<Rightarrow> feedback_state \<Rightarrow> bool" where
  "mid_inv c task a k run s \<longleftrightarrow>
     (let kind = cd_kind (sd_candidate task) in
      rn_index run = sd_index task \<and> sd_index task \<notin> ac_indices a \<and> rn_candidate_kind run = kind \<and>
      schedule_inv c (insert (sd_index task) (ac_indices a)) s \<and> seeds_inv c s \<and> pending_inv s \<and>
      corpus_inv c (fs_corpus s) \<and> accumulator_inv c k (fs_completed s - 1) a \<and> considered k run (fs_corpus s) \<and>
      kind \<in> {CandidateInitial, CandidateMutation, CandidatePeriodicRandom} \<and>
      set (kinds s) \<subseteq> {CandidateInitial, CandidateMutation, CandidatePeriodicRandom} \<and>
      rp_executed_mutations (ac_report a) + int (length (filter (\<lambda>k. k = CandidateMutation) (kind # kinds s)))
        \<le> rp_admitted (ac_report a) \<and>
      int (length (fs_ready s)) \<le> xc_max_ready_candidates c \<and>
      int (length (fs_ready s)) \<le> rp_peak_ready (ac_report a) \<and> 1 \<le> rp_peak_ready (ac_report a) \<and>
      (\<exists>run0 run1 a1. classify run0 a = (run1, a1) \<and>
         fs_accumulator s = a1\<lparr>ac_report := count_candidate kind (ac_report a1)\<rparr> \<and>
         rn_plan_digest run = rn_plan_digest run1 \<and> rn_trace_digest run = rn_trace_digest run1 \<and>
         rn_path_digest run = rn_path_digest run1))"

lemma filter_delete_kind:
  assumes "distinct (map fst m)" and "map_of m i = Some t"
  shows "mset (map f (map snd m)) = add_mset (f t) (mset (map f (map snd (AList.delete i m))))"
    and "mset (map fst m) = add_mset i (mset (map fst (AList.delete i m)))"
    and "length m = Suc (length (AList.delete i m))"
proof -
  have "mset m = add_mset (i, t) (mset (AList.delete i m))" using assms
  proof (induction m)
    case (Cons p m)
    then show ?case by (cases p) (auto split: if_splits)
  qed simp
  note m = this
  show "mset (map f (map snd m)) = add_mset (f t) (mset (map f (map snd (AList.delete i m))))"
    "mset (map fst m) = add_mset i (mset (map fst (AList.delete i m)))"
    "length m = Suc (length (AList.delete i m))"
    using arg_cong [OF m, of "image_mset (f \<circ> snd)"] arg_cong [OF m, of "image_mset fst"] arg_cong [OF m, of size]
    by (simp_all add: image_mset.compositionality)
qed

lemma taken_schedule:
  assumes inv: "schedule_inv c finished s" and task: "map_of (fs_in_flight s) i = Some t"
    and s': "fs_in_flight s' = AList.delete i (fs_in_flight s)" "fs_rerun s' = fs_rerun s"
      "fs_next_run s' = fs_next_run s" "fs_running s' = fs_running s - 1" "fs_completed s' = fs_completed s + 1"
  shows "schedule_inv c (insert i finished) s' \<and> i \<notin> finished \<and> sd_index t = i \<and> fs_completed s + 1 \<le> xc_runs c \<and>
    mset (map (cd_kind \<circ> sd_candidate) (map snd (fs_in_flight s))) =
      add_mset (cd_kind (sd_candidate t)) (mset (map (cd_kind \<circ> sd_candidate) (map snd (fs_in_flight s'))))"
proof -
  have parts: "distinct (assigned s)" "finished \<inter> set (assigned s) = {}"
    "finished \<union> set (assigned s) = {0..<fs_next_run s}" "fs_next_run s \<le> xc_runs c" "0 \<le> fs_next_run s"
    "int (card finished) = fs_completed s" "\<forall>(i, t) \<in> set (fs_in_flight s). sd_index t = i"
    using inv by (simp_all add: schedule_inv_def)
  have "distinct (map fst (fs_in_flight s))" using parts(1) by (simp add: assigned_def)
  note del = filter_delete_kind [OF this task]
  have i: "(i, t) \<in> set (fs_in_flight s)" using task by (rule map_of_SomeD)
  have mset: "mset (assigned s) = add_mset i (mset (assigned s'))"
    using del(2) by (simp add: assigned_def s')
  have set: "set (assigned s) = insert i (set (assigned s'))" using mset_eq_setD [of "assigned s" "i # assigned s'"] mset by simp
  have distinct: "distinct (i # assigned s')" using mset_eq_imp_distinct_iff [of "assigned s" "i # assigned s'"] mset parts(1) by simp
  have "finite finished" using parts(3) by (metis finite_Un finite_atLeastLessThan_int)
  moreover have fresh: "i \<notin> finished" using parts(2) set by blast
  ultimately have card: "int (card (insert i finished)) = fs_completed s + 1" using parts(6) by simp
  have "insert i finished \<subseteq> {0..<fs_next_run s}" using parts(3) set by blast
  then have "card (insert i finished) \<le> nat (fs_next_run s)" using card_mono [of "{0..<fs_next_run s}" "insert i finished"] by simp
  then have "fs_completed s + 1 \<le> xc_runs c" using card parts(4,5) by linarith
  moreover have "schedule_inv c (insert i finished) s'"
  proof -
    have sub: "set (fs_in_flight s') \<subseteq> set (fs_in_flight s)"
      unfolding s'(1) by (rule subsetI) (erule set_delete_subset)
    have seed: "\<forall>t \<in> set (fs_rerun s) \<union> snd ` set (fs_in_flight s). sd_seed t = wrap64 (xc_base_seed c + sd_index t)"
      using inv by (simp add: schedule_inv_def)
    have "insert i finished \<union> set (assigned s') = {0..<fs_next_run s}"
      "insert i finished \<inter> set (assigned s') = {}"
      using parts(2,3) set distinct by auto
    moreover have "\<forall>(i, t) \<in> set (fs_in_flight s'). sd_index t = i"
      "\<forall>t \<in> set (fs_rerun s') \<union> snd ` set (fs_in_flight s'). sd_seed t = wrap64 (xc_base_seed c + sd_index t)"
      using sub parts(7) seed by (auto simp: s'(2))
    moreover have "fs_running s' = int (length (fs_in_flight s'))"
      using inv del(3) by (simp add: schedule_inv_def s')
    ultimately show ?thesis using parts(4,5) distinct card by (simp add: schedule_inv_def s')
  qed
  ultimately show ?thesis using fresh del(1) [of "cd_kind \<circ> sd_candidate"] parts(7) i s' by auto
qed

lemma take_run_inv:
  assumes config: "config_ok (fv_config v)" and fit: "seeds_fit (fv_config v)" and inv: "run_inv v base s"
    and task: "map_of (fs_in_flight s) i = Some task"
  shows "\<exists>run s'. take_run v task (feedback_run v task x err t) s = Some (run, s') \<and>
    mid_inv (fv_config v) task (fs_accumulator s) (fs_corpus s) run s' \<and> log_inv v base s' \<and>
    fs_corpus s' = fs_corpus s \<and> considered (fs_corpus s) run (fs_corpus s) \<and>
    set (rn_state_keys run) = ms_key ` set (er_states (fe_result x))"
proof -
  let ?c = "fv_config v" and ?a = "fs_accumulator s" and ?run0 = "feedback_run v task x err t"
  have parts: "schedule_inv ?c (ac_indices ?a) s" "seeds_inv ?c s" "pending_inv s" "candidates_inv ?c (ac_report ?a) s"
    "corpus_inv ?c (fs_corpus s)" "accumulator_inv ?c (fs_corpus s) (fs_completed s) ?a" and log: "log_inv v base s"
    using inv by (simp_all add: run_inv_def state_inv_def)
  define s1 where "s1 = s\<lparr>fs_running := fs_running s - 1, fs_in_flight := AList.delete i (fs_in_flight s),
    fs_completed := fs_completed s + 1\<rparr>"
  from taken_schedule [OF parts(1) task, of s1]
  have sched: "schedule_inv ?c (insert i (ac_indices ?a)) s1" "i \<notin> ac_indices ?a" "sd_index task = i"
    "fs_completed s + 1 \<le> xc_runs ?c"
    and kinds: "mset (map (cd_kind \<circ> sd_candidate) (map snd (fs_in_flight s))) =
      add_mset (cd_kind (sd_candidate task)) (mset (map (cd_kind \<circ> sd_candidate) (map snd (fs_in_flight s1))))"
    by (simp_all add: s1_def)
  have "0 \<le> fs_completed s" using parts(1) by (auto simp: schedule_inv_def)
  from seed_threshold_inv [OF parts(2) config fit this sched(4)] obtain next_at due where
    threshold: "seed_threshold (xc_random_seed_interval ?c) (xc_random_seeds_per_interval ?c) (fs_completed s + 1)
      (fs_next_seed_at s) (fs_seeds_due s) = Some (next_at, due)"
    and seeds: "seeds_inv ?c (s\<lparr>fs_completed := fs_completed s + 1, fs_next_seed_at := next_at, fs_seeds_due := due\<rparr>)"
    by blast
  obtain run a1 where classified: "classify ?run0 ?a = (run, a1)" by fastforce
  note kept = classify_keeps [OF classified]
  define s2 where "s2 = s1\<lparr>fs_next_seed_at := next_at, fs_seeds_due := due,
    fs_accumulator := a1\<lparr>ac_report := count_candidate (cd_kind (sd_candidate task)) (ac_report a1)\<rparr>\<rparr>"
  have taken: "take_run v task ?run0 s = Some (run, s2)"
    by (simp add: take_run_def Let_def threshold classified s2_def s1_def sched(3))
  have "mset (Feedback_Invariant.kinds s) = add_mset (cd_kind (sd_candidate task)) (mset (Feedback_Invariant.kinds s2))"
    using kinds by (simp add: Feedback_Invariant.kinds_def s2_def s1_def image_mset.compositionality comp_assoc)
  then have "mset (Feedback_Invariant.kinds s) = mset (cd_kind (sd_candidate task) # Feedback_Invariant.kinds s2)" by simp
  then have all: "set (Feedback_Invariant.kinds s) = set (cd_kind (sd_candidate task) # Feedback_Invariant.kinds s2)"
    "length (filter P (Feedback_Invariant.kinds s)) = length (filter P (cd_kind (sd_candidate task) # Feedback_Invariant.kinds s2))" for P
    using mset_eq_setD mset_filter size_mset by metis+
  have considered: "considered (fs_corpus s) run (fs_corpus s)" by (rule considered_refl) (simp_all add: kept)
  have "schedule_inv ?c (insert i (ac_indices ?a)) s2" "pending_inv s2"
    using sched(1) parts(3) by (simp_all add: s2_def s1_def schedule_inv_def pending_inv_def assigned_def)
  moreover have "seeds_inv ?c s2" using seeds by (simp add: s2_def s1_def seeds_inv_def split: if_splits)
  moreover have "int (length (fs_ready s2)) \<le> xc_max_ready_candidates ?c"
    "int (length (fs_ready s2)) \<le> rp_peak_ready (ac_report ?a)" "1 \<le> rp_peak_ready (ac_report ?a)"
    "set (cd_kind (sd_candidate task) # Feedback_Invariant.kinds s2) \<subseteq> {CandidateInitial, CandidateMutation, CandidatePeriodicRandom}"
    "rp_executed_mutations (ac_report ?a) +
      int (length (filter (\<lambda>k. k = CandidateMutation) (cd_kind (sd_candidate task) # Feedback_Invariant.kinds s2)))
      \<le> rp_admitted (ac_report ?a)"
    using parts(4) unfolding candidates_inv_def all by (simp_all add: s2_def s1_def)
  moreover have same: "fs_corpus s2 = fs_corpus s" "fs_completed s2 = fs_completed s + 1"
    "fs_accumulator s2 = a1\<lparr>ac_report := count_candidate (cd_kind (sd_candidate task)) (ac_report a1)\<rparr>"
    by (simp_all add: s2_def s1_def)
  ultimately have "mid_inv ?c task ?a (fs_corpus s) run s2"
    unfolding mid_inv_def Let_def using classified considered kept parts(5,6) sched(2,3) by auto
  moreover have "log_inv v base s2" using log by (simp add: log_inv_def s2_def s1_def)
  ultimately show ?thesis using taken same(1) considered kept by auto
qed

lemma mutation_count_pos: "0 < mutation_count n per maximum \<Longrightarrow> 0 < maximum"
  by (auto simp: mutation_count_def split: if_splits)

lemma request_mutations_frame:
  "\<exists>p q. request_mutations v e s = s\<lparr>fs_pending := p, fs_requests := q\<rparr>"
proof -
  have "request_mutations v e s = s\<lparr>fs_pending := fs_pending (request_mutations v e s),
      fs_requests := fs_requests (request_mutations v e s)\<rparr>"
    by (simp add: request_mutations_def Let_def)
  then show ?thesis by blast
qed

lemma request_mutations_pending:
  assumes "pending_inv s" and "e \<in> set (cp_entries (fs_corpus s))"
  shows "pending_inv (request_mutations v e s)"
  using assms
  by (auto simp: pending_inv_def request_mutations_def Let_def distinct_update dest!: set_update_subset)

text \<open>The parts of a state that \<open>mid_inv\<close> reads.\<close>

lemma mid_inv_move:
  assumes "mid_inv c task a k run0 s0" and "s = s0\<lparr>fs_corpus := k', fs_pending := p, fs_requests := q, fs_log := l\<rparr>"
    and "pending_inv s" and "corpus_inv c k'" and "considered k run k'"
    and "rn_index run = rn_index run0" "rn_candidate_kind run = rn_candidate_kind run0"
      "rn_plan_digest run = rn_plan_digest run0" "rn_trace_digest run = rn_trace_digest run0"
      "rn_path_digest run = rn_path_digest run0"
  shows "mid_inv c task a k run s"
proof -
  have "kinds s = kinds s0" "assigned s = assigned s0" by (simp_all add: assms(2) kinds_def assigned_def)
  then show ?thesis
    using assms unfolding mid_inv_def Let_def by (simp add: schedule_inv_def seeds_inv_def)
qed

lemma commit_entry_inv:
  assumes config: "config_ok (fv_config v)" and hook: "fo_on_corpus_entry (fv_options v) = Some hook"
    and mid: "mid_inv (fv_config v) task a k run0 s0" and log: "log_inv v base s0"
    and s: "s = s0\<lparr>fs_corpus := k'\<rparr>" and pending: "pending_inv s" and corpus: "corpus_inv (fv_config v) k'"
    and entries: "cp_entries k' = cp_entries (fs_corpus s0) @ [e]"
    and considered: "considered k run k'"
    and same: "rn_index run = rn_index run0" "rn_candidate_kind run = rn_candidate_kind run0"
      "rn_plan_digest run = rn_plan_digest run0" "rn_trace_digest run = rn_trace_digest run0"
      "rn_path_digest run = rn_path_digest run0"
  shows "case commit_entry v e run s of
      Inl out \<Rightarrow> out_inv v base (Inl out)
    | Inr (run', s') \<Rightarrow> mid_inv (fv_config v) task a k run' s' \<and> log_inv v base s'"
proof (cases "hook (fs_log s) e")
  case (Some cause)
  define s1 where "s1 = record_call (OnCorpusEntry e) (Some cause) s"
  have "entry_failed (fs_log (s1\<lparr>fs_corpus := c\<rparr>)) \<and> points_ok v base (fs_log (s1\<lparr>fs_corpus := c\<rparr>))"
    "entry_failed (fs_log s1) \<and> points_ok v base (fs_log s1)" for c
    using log by (simp_all add: s1_def s record_call_def log_inv_def)
  then have "out_inv v base (Inl (stop_with_error v x s1))" "out_inv v base (Inl (stop_with_error v x (s1\<lparr>fs_corpus := c\<rparr>)))" for x c
    using stop_failed by blast+
  then show ?thesis
    by (simp add: commit_entry_def hook Some s1_def [symmetric] Let_def split: sum.split)
next
  case None
  define s1 where "s1 = record_call (OnCorpusEntry e) None s"
  let ?run = "run\<lparr>rn_retained := True, rn_corpus_id := en_id e\<rparr>"
  obtain p q where shape: "request_mutations v e s1 = s1\<lparr>fs_pending := p, fs_requests := q\<rparr>"
    using request_mutations_frame by blast
  have "pending_inv s1" using pending by (simp add: s1_def record_call_def pending_inv_def)
  moreover have "e \<in> set (cp_entries (fs_corpus s1))" using entries by (simp add: s1_def record_call_def s)
  ultimately have "pending_inv (request_mutations v e s1)" by (rule request_mutations_pending)
  moreover have moved: "request_mutations v e s1 = s0\<lparr>fs_corpus := k', fs_pending := p, fs_requests := q,
      fs_log := fs_log s0 @ [(OnCorpusEntry e, None)]\<rparr>"
    unfolding shape by (simp add: s1_def record_call_def s)
  moreover have "considered k ?run k'" using considered by (simp add: considered_def)
  ultimately have "mid_inv (fv_config v) task a k ?run (request_mutations v e s1)"
    using same corpus by (intro mid_inv_move [OF mid]) simp_all
  moreover have "log_inv v base (request_mutations v e s1)"
    unfolding moved using log entries by (simp add: log_inv_def)
  ultimately show ?thesis by (simp add: commit_entry_def hook None s1_def [symmetric] Let_def)
qed

lemma corpus_inv_consider:
  "corpus_inv c k \<Longrightarrow> corpus_consider (Some k) i = Inr (e, retained, k') \<Longrightarrow> corpus_inv c k'"
  using consider_ok consider_config by (fastforce simp: corpus_inv_def)

lemma consider_run_inv:
  assumes config: "config_ok (fv_config v)" and hook: "fo_on_corpus_entry (fv_options v) \<noteq> None"
    and mid: "mid_inv (fv_config v) task a (fs_corpus s) run s" and log: "log_inv v base s"
    and considered: "considered (fs_corpus s) run (fs_corpus s)"
    and states: "set (rn_state_keys run) = ms_key ` set (er_states (fe_result x))"
  shows "case consider_run v task x run s of
      Inl out \<Rightarrow> out_inv v base (Inl out)
    | Inr (run', s') \<Rightarrow> mid_inv (fv_config v) task a (fs_corpus s) run' s' \<and> log_inv v base s'"
proof (cases "\<not> rn_succeeded run \<or> er_states (fe_result x) = []")
  case True
  then show ?thesis using mid log by (simp add: consider_run_def)
next
  case False
  let ?i = "corpus_input_of v task x"
  have go: "rn_succeeded run" "er_states (fe_result x) \<noteq> []" using False by auto
  have inputs: "in_states ?i = er_states (fe_result x)" by (simp add: corpus_input_of_def Let_def split: prod.split)
  have pending: "pending_inv s" and corpus: "corpus_inv (fv_config v) (fs_corpus s)"
    using mid by (simp_all add: mid_inv_def Let_def)
  show ?thesis
  proof (cases "corpus_consider (Some (fs_corpus s)) ?i")
    case (Inl err)
    let ?run = "(with_novelty empty_entry run)\<lparr>rn_error := join_error_text (rn_error run) (err_text err), rn_succeeded := False\<rparr>"
    have considered': "considered (fs_corpus s) ?run (fs_corpus s)"
      by (rule considered_refl) (simp_all add: empty_entry_def)
    have "s = s\<lparr>fs_corpus := fs_corpus s, fs_pending := fs_pending s, fs_requests := fs_requests s, fs_log := fs_log s\<rparr>"
      by simp
    from mid_inv_move [OF mid this pending corpus considered'] have "mid_inv (fv_config v) task a (fs_corpus s) ?run s"
      by simp
    then show ?thesis using go Inl log by (simp add: consider_run_def)
  next
    case (Inr p)
    obtain e retained k' where p: "p = (e, retained, k')" by (cases p) auto
    note step = Inr [unfolded p]
    let ?run = "with_novelty e run" and ?s = "s\<lparr>fs_corpus := k'\<rparr>"
    have corpus': "corpus_inv (fv_config v) k'" by (rule corpus_inv_consider [OF corpus step])
    have novel: "considered (fs_corpus s) ?run k'"
      using corpus states go by (intro considered_consider [OF _ step]) (simp_all add: corpus_inv_def inputs)
    have "set (cp_entries (fs_corpus s)) \<subseteq> set (cp_entries k')"
      using consider_cases [OF step] by (auto simp: covers_def split: if_splits)
    then have pending': "pending_inv ?s" using pending by (auto simp: pending_inv_def)
    show ?thesis
    proof (cases retained)
      case True
      then have "cp_entries k' = cp_entries (fs_corpus s) @ [e]" using consider_cases [OF step] by (simp add: covers_def)
      from commit_entry_inv [OF config _ mid log refl pending' corpus' this novel] hook
      show ?thesis using go step True by (auto simp: consider_run_def Let_def)
    next
      case False
      have s: "?s = s\<lparr>fs_corpus := k', fs_pending := fs_pending s, fs_requests := fs_requests s, fs_log := fs_log s\<rparr>" by simp
      have "mid_inv (fv_config v) task a (fs_corpus s) ?run ?s"
        by (rule mid_inv_move [OF mid s pending' corpus' novel]) simp_all
      moreover have "log_inv v base ?s"
        using log consider_cases [OF step] False by (simp add: log_inv_def covers_def)
      ultimately show ?thesis using go step False by (simp add: consider_run_def Let_def)
    qed
  qed
qed

lemma complete_run_inv:
  assumes config: "config_ok (fv_config v)" and mid: "mid_inv (fv_config v) task a k run s" and log: "log_inv v base s"
  shows "out_inv v base (complete_run v task x run s)"
proof -
  let ?c = "fv_config v" and ?kind = "cd_kind (sd_candidate task)"
  obtain run0 run1 a1 where classified: "classify run0 a = (run1, a1)"
    and acc: "fs_accumulator s = a1\<lparr>ac_report := count_candidate ?kind (ac_report a1)\<rparr>"
    and digests: "rn_plan_digest run = rn_plan_digest run1" "rn_trace_digest run = rn_trace_digest run1"
      "rn_path_digest run = rn_path_digest run1"
    using mid by (auto simp: mid_inv_def Let_def)
  define s1 where "s1 = s\<lparr>fs_reads := Suc (fs_reads s)\<rparr>"
  define t where "t = fs_offset s + fv_clock v (fs_reads s)"
  have elapsed: "elapsed_millis v s = (t, s1)" by (simp add: elapsed_millis_def t_def s1_def)
  have mid': "accumulator_inv ?c k (fs_completed s - 1) a" "rn_index run \<notin> ac_indices a" "rn_candidate_kind run = ?kind"
    "considered k run (fs_corpus s)" "?kind \<in> {CandidateInitial, CandidateMutation, CandidatePeriodicRandom}"
    "rp_executed_mutations (ac_report a) + int (length (filter (\<lambda>k. k = CandidateMutation) (?kind # kinds s)))
        \<le> rp_admitted (ac_report a)"
    using mid by (simp_all add: mid_inv_def Let_def)
  have room: "?kind = CandidateMutation \<Longrightarrow> rp_executed_mutations (ac_report a) < rp_admitted (ac_report a)"
    using mid'(6) by simp
  from add_run_inv [OF mid'(1,2) classified digests mid'(3,4,5) room] obtain b where
    b: "add_run run (corpus_size s1) t (fs_accumulator s) = Inr b" "accumulator_inv ?c (fs_corpus s) (fs_completed s) b"
      "ac_indices b = insert (rn_index run) (ac_indices a)" "rp_peak_ready (ac_report b) = rp_peak_ready (ac_report a)"
      "rp_admitted (ac_report b) = rp_admitted (ac_report a)"
      "rp_executed_mutations (ac_report b) =
        rp_executed_mutations (ac_report a) + (if ?kind = CandidateMutation then 1 else 0)"
    unfolding acc by (metis diff_add_cancel)
  define s2 where "s2 = s1\<lparr>fs_accumulator := b\<rparr>"
  have same: "kinds s2 = kinds s" "assigned s2 = assigned s" by (simp_all add: s2_def s1_def kinds_def assigned_def)
  have "schedule_inv ?c (insert (sd_index task) (ac_indices a)) s" "rn_index run = sd_index task"
    and keep: "seeds_inv ?c s" "pending_inv s" "corpus_inv ?c (fs_corpus s)"
    and ready: "set (kinds s) \<subseteq> {CandidateInitial, CandidateMutation, CandidatePeriodicRandom}"
      "int (length (fs_ready s)) \<le> xc_max_ready_candidates ?c"
      "int (length (fs_ready s)) \<le> rp_peak_ready (ac_report a)" "1 \<le> rp_peak_ready (ac_report a)"
    using mid unfolding mid_inv_def Let_def by blast+
  then have "schedule_inv ?c (ac_indices (fs_accumulator s2)) s2"
    by (simp add: schedule_inv_def same b(3)) (simp add: s2_def s1_def b(3))
  moreover have "candidates_inv ?c (ac_report (fs_accumulator s2)) s2"
    using ready mid'(6) unfolding candidates_inv_def same by (simp add: s2_def s1_def b(4-6) split: if_splits)
  moreover have "seeds_inv ?c s2" "pending_inv s2" using keep by (simp_all add: seeds_inv_def pending_inv_def s2_def s1_def)
  ultimately have "state_inv ?c s2" using keep(3) b(2) by (simp add: state_inv_def s2_def s1_def)
  then have s2: "run_inv v base s2" using log by (simp add: run_inv_def log_inv_def s2_def s1_def)
  define c where "c = \<lparr>cm_run = run, cm_candidate = sd_candidate task, cm_execution = x\<rparr>"
  define r where "r = (case fo_on_run_complete (fv_options v) of None \<Rightarrow> (None, s2)
      | Some hook \<Rightarrow> let err = hook (fs_log s2) c in (err, record_call (OnRunComplete c) err s2))"
  have "run_inv v base (snd r)" using s2 by (simp add: r_def Let_def split: option.split)
  moreover have "fs_accumulator s1 = fs_accumulator s" by (simp add: s1_def)
  ultimately show ?thesis
    unfolding complete_run_def elapsed prod.case
    by (simp add: b(1) Let_def s2_def [symmetric] c_def [symmetric] r_def [symmetric])
      (intro unless_failed_inv config emit_inv save_inv; simp)
qed

lemma handle_execution_inv:
  assumes config: "config_ok (fv_config v)" and fit: "seeds_fit (fv_config v)"
    and hook: "fo_on_corpus_entry (fv_options v) \<noteq> None" and inv: "run_inv v base s"
    and task: "map_of (fs_in_flight s) i = Some task"
  shows "out_inv v base (handle_execution v task x err t s)"
proof -
  from take_run_inv [OF config fit inv task] obtain run s' where
    taken: "take_run v task (feedback_run v task x err t) s = Some (run, s')"
    and mid: "mid_inv (fv_config v) task (fs_accumulator s) (fs_corpus s) run s'" and log: "log_inv v base s'"
    and same: "fs_corpus s' = fs_corpus s" and considered: "considered (fs_corpus s) run (fs_corpus s)"
      "set (rn_state_keys run) = ms_key ` set (er_states (fe_result x))" by blast
  from consider_run_inv [OF config hook _ log _ considered(2), unfolded same, OF mid considered(1)]
  show ?thesis
    by (cases "consider_run v task x run s'")
      (auto simp: handle_execution_def taken intro: complete_run_inv [OF config])
qed

section \<open>The whole call\<close>

lemma handle_inv:
  assumes "config_ok (fv_config v)" and "seeds_fit (fv_config v)" and "fo_on_corpus_entry (fv_options v) \<noteq> None"
    and "run_inv v base s"
  shows "out_inv v base (handle v a s)"
proof (cases a)
  case (ExecutionArrives i x err t)
  with assms show ?thesis by (simp add: handle_execution_inv split: option.split)
next
  case (MutationArrives plans err)
  with assms show ?thesis by (simp add: handle_mutation_inv split: list.split)
qed (use assms stop_inv in simp)

lemma drive_inv:
  assumes "config_ok (fv_config v)" and "seeds_fit (fv_config v)" and "fo_on_corpus_entry (fv_options v) \<noteq> None"
  shows "run_inv v base s \<Longrightarrow> drive v as s = Some r \<Longrightarrow> out_inv v base r"
proof (induction "as" arbitrary: s)
  case (Cons a "as")
  have possible: "possible s a" using Cons.prems(2) by (simp split: if_splits)
  note handled = handle_inv [OF assms Cons.prems(1), of a]
  show ?case
  proof (cases "handle v a s")
    case (Inl out)
    then show ?thesis using Cons.prems(2) possible handled by simp
  next
    case (Inr s1)
    then have settled: "out_inv v base (settle v s1)" using handled assms(1) settle_inv by simp
    show ?thesis
    proof (cases "settle v s1")
      case (Inl out)
      then show ?thesis using Cons.prems(2) possible Inr settled by simp
    next
      case waits: (Inr s2)
      then show ?thesis using Cons.IH [of s2] Cons.prems(2) possible Inr settled by simp
    qed
  qed
qed auto

text \<open>The start from nothing.\<close>

lemma admissions_ok_new: "admissions_ok (with_entries (corpus_new cfg) (new_feedback_report c))"
  by (simp add: admissions_ok_def admitted_for_def with_entries_def new_feedback_report_def new_report_def corpus_new_def)

lemma accumulator_inv_new:
  assumes "config_ok c"
  shows "accumulator_inv c (corpus_new cfg) 0 (new_accumulator c)"
  using assms admissions_ok_new [of cfg c]
  by (simp add: accumulator_inv_def stored_counters_ok_def new_accumulator_def config_ok_def sets_inv_def unique_inv_def
      semantic_inv_def with_entries_def) (simp add: new_feedback_report_def new_report_def corpus_new_def)

lemma peaked_shape:
  "peaked s = update_report (\<lambda>r. r\<lparr>rp_peak_ready := max (rp_peak_ready r) (int (length (fs_ready s)))\<rparr>) s"
proof -
  have "a = a\<lparr>ac_report := (ac_report a)\<lparr>rp_peak_ready := rp_peak_ready (ac_report a)\<rparr>\<rparr>" for a :: accumulator by simp
  then show ?thesis by (simp add: peaked_def Let_def update_report_def max_def)
qed

lemma peak_inv:
  assumes "accumulator_inv c k n a" and "0 \<le> p" and "p \<le> xc_max_ready_candidates c"
  shows "accumulator_inv c k n (a\<lparr>ac_report := (ac_report a)\<lparr>rp_peak_ready := p\<rparr>\<rparr>)"
  using assms by (simp add: accumulator_inv_def with_entries_def stored_counters_ok_def admissions_ok_def admitted_for_def
      sets_inv_def unique_inv_def semantic_inv_def)

lemma corpus_inv_new: "corpus_inv c (corpus_new (corpus_config_of c))"
  by (simp add: corpus_inv_def)

lemma fresh_parts:
  assumes "config_ok c"
  shows "schedule_inv c (ac_indices (fs_accumulator (fresh_state c))) (fresh_state c)" "seeds_inv c (fresh_state c)"
    "pending_inv (fresh_state c)" "accumulator_inv c (fs_corpus (fresh_state c)) 0 (fs_accumulator (fresh_state c))"
    "corpus_inv c (fs_corpus (fresh_state c))" "rp_executed_mutations (ac_report (fs_accumulator (fresh_state c))) = 0"
    "rp_admitted (ac_report (fs_accumulator (fresh_state c))) = 0" "rp_peak_ready (ac_report (fs_accumulator (fresh_state c))) = 0"
  using assms accumulator_inv_new [OF assms] corpus_inv_new [of c]
  by (simp_all add: fresh_state_def schedule_inv_def assigned_def seeds_inv_def pending_inv_def config_ok_def)
    (simp_all add: new_accumulator_def new_feedback_report_def new_report_def)

lemma seeded_inv:
  assumes config: "config_ok (fv_config v)" and step: "seeded_state v (fresh_state (fv_config v)) = Inr s"
  shows "run_inv v [] (peaked s)"
proof -
  let ?c = "fv_config v" and ?s0 = "fresh_state (fv_config v)"
  obtain generated s1 where call: "call_initializer v (xc_initial_population ?c) (xc_base_seed ?c) ?s0 = (generated, s1)"
    by fastforce
  obtain l where l: "s1 = ?s0\<lparr>fs_log := l\<rparr>" using call_initializer_state by (metis call snd_conv)
  have log: "points_ok v [] l \<and> \<not> entry_failed l \<and> committed l = []"
  proof -
    have "fs_log s1 = l" by (simp add: l)
    moreover have "fs_log ?s0 = []" by (simp add: fresh_state_def)
    moreover have "fs_log s1 = fs_log ?s0 \<or> (\<exists>err. fs_log s1 = fs_log ?s0 @ [(CallInitializer (xc_initial_population ?c) (xc_base_seed ?c), err)])"
      using call by (auto simp: call_initializer_def record_call_def Let_def split: option.splits)
    moreover have "points_ok v [] [(CallInitializer n seed, err)]" for n seed err
      using points_ok_simps(4) [of v "[]" "[]"] by simp
    ultimately show ?thesis by auto
  qed
  obtain cs n where cs: "initial_candidates (fo_initializer_name (fv_options v)) generated (xc_initial_population ?c) 0 = Inr (cs, n)"
    and s: "s = s1\<lparr>fs_ready := (if int (length cs) > xc_max_ready_candidates ?c
                  then drop (nat (int (length cs) - xc_max_ready_candidates ?c)) cs else cs), fs_next_candidate := n\<rparr>"
    using step config call by (auto simp: seeded_state_def Let_def config_ok_def split: sum.splits prod.splits)
  note facts = initial_candidates_some [OF cs] initial_candidates_initial [OF cs]
  have max: "0 < xc_max_ready_candidates ?c" using config by (simp add: config_ok_def)
  define rs where "rs = fs_ready s"
  have rs: "rs \<noteq> []" "int (length rs) \<le> xc_max_ready_candidates ?c" "\<forall>d \<in> set rs. cd_kind d = CandidateInitial"
    using facts max by (auto simp: rs_def s dest: in_set_dropD)
  let ?a = "fs_accumulator ?s0"
  define a where "a = ?a\<lparr>ac_report := (ac_report ?a)\<lparr>rp_peak_ready := int (length rs)\<rparr>\<rparr>"
  have s': "s = ?s0\<lparr>fs_log := l, fs_ready := rs, fs_next_candidate := n\<rparr>" by (simp add: rs_def s l)
  note fresh = fresh_parts [OF config]
  have "peaked s = s\<lparr>fs_accumulator := a\<rparr>"
    using fresh(8) by (simp add: peaked_shape update_report_def a_def s')
  moreover have "state_inv ?c (s\<lparr>fs_accumulator := a\<rparr>)"
  proof -
    have "schedule_inv ?c (ac_indices a) s" "seeds_inv ?c s" "pending_inv s"
      using fresh(1-3) by (simp_all add: s' a_def schedule_inv_def seeds_inv_def pending_inv_def assigned_def)
    moreover have "accumulator_inv ?c (fs_corpus s) (fs_completed s) a"
      unfolding a_def using peak_inv [OF fresh(4), of "int (length rs)"] rs(2) by (simp add: s' fresh_state_def)
    moreover have "candidates_inv ?c (ac_report a) s"
    proof -
      have "kinds s = replicate (length rs) CandidateInitial"
        using initial_kinds [OF rs(3)] by (simp add: kinds_def s' fresh_state_def)
      then show ?thesis using rs fresh(6,7) by (auto simp: candidates_inv_def s' a_def Suc_le_eq)
    qed
    ultimately show ?thesis using fresh(5) by (simp add: state_inv_def) (simp add: s')
  qed
  moreover have "log_inv v [] (s\<lparr>fs_accumulator := a\<rparr>)"
    using log by (simp add: log_inv_def s' fresh_state_def corpus_new_def)
  ultimately show ?thesis by (simp add: run_inv_def)
qed

section \<open>Going on from a stored checkpoint\<close>

lemma restore_checkpoint_ok:
  assumes "corpus_inv c k"
  shows "restore_checkpoint (corpus_checkpoint_of (Some k)) (cp_entries k) (corpus_config_of c) = Inr k"
  using restore_ok [of k "corpus_config_of c"] assms
  by (simp add: corpus_inv_def restore_checkpoint_def corpus_checkpoint_of_def corpus_snapshot_def)

lemma corpus_lookup_some:
  assumes "i \<in> en_id ` set (cp_entries k)"
  shows "\<exists>e. corpus_lookup (Some k) i = Some e \<and> en_id e = i \<and> e \<in> set (cp_entries k)"
proof -
  have "\<exists>e. find (\<lambda>e. en_id e = i) es = Some e \<and> en_id e = i \<and> e \<in> set es" if "i \<in> en_id ` set es" for es
    using that by (induction es) auto
  from this [OF assms] show ?thesis by (simp add: corpus_lookup_def)
qed

lemma restore_pending_ok:
  assumes "pm_entry ` set ps \<subseteq> en_id ` set (cp_entries k)" and "\<forall>p \<in> set ps. 0 < pm_count p"
    and "distinct (map fst m)"
    and "\<forall>(i, q) \<in> set m. i = en_id (mr_entry q) \<and> 0 < mr_count q \<and> mr_entry q \<in> set (cp_entries k)"
  shows "\<exists>m'. restore_pending k ps m = Inr m' \<and> distinct (map fst m') \<and>
    (\<forall>(i, q) \<in> set m'. i = en_id (mr_entry q) \<and> 0 < mr_count q \<and> mr_entry q \<in> set (cp_entries k)) \<and>
    set (map fst m') = set (map fst m) \<union> pm_entry ` set ps"
  using assms
proof (induction ps arbitrary: m)
  case (Cons p ps)
  obtain e where e: "corpus_lookup (Some k) (pm_entry p) = Some e" "en_id e = pm_entry p" "e \<in> set (cp_entries k)"
    using corpus_lookup_some [of "pm_entry p" k] Cons.prems(1) by auto
  let ?m = "AList.update (pm_entry p) \<lparr>mr_entry = e, mr_count = pm_count p, mr_seed = pm_seed p\<rparr> m"
  have "distinct (map fst ?m)" using Cons.prems(3) by (simp add: distinct_update)
  moreover have "\<forall>(i, q) \<in> set ?m. i = en_id (mr_entry q) \<and> 0 < mr_count q \<and> mr_entry q \<in> set (cp_entries k)"
    using Cons.prems(2,4) e by (auto dest!: set_update_subset)
  moreover have "set (map fst ?m) = insert (pm_entry p) (set (map fst m))"
    using update_keys [of "pm_entry p" _ m] by (auto simp: update_keys)
  ultimately show ?case
    using Cons.IH [of ?m] Cons.prems(1,2) e(1) by auto
qed auto

lemma restored_accumulator_inv:
  assumes "snapshot_ok s c n" and "rp_corpus_entries (ag_report s) = int (length (cp_entries k))"
    and "rp_unique_semantic_states (ag_report s) = int (card (cp_semantic_states k))"
    and "rp_unique_semantic_transitions (ag_report s) = int (card (cp_semantic_transitions k))"
    and "cp_coverage k \<subseteq> set (ag_states s)"
  shows "accumulator_inv c k n (restore_accumulator s)"
proof -
  have "with_entries k (ag_report s) = ag_report s" using assms(2) by (simp add: with_entries_def)
  then show ?thesis
    using assms
    by (simp add: accumulator_inv_def restore_accumulator_def snapshot_ok_def sets_inv_def unique_inv_def semantic_inv_def
        distinct_card)
qed

text \<open>Nothing stands in the way of a checkpoint that can be resumed.\<close>

definition accepts :: "feedback_env \<Rightarrow> checkpoint \<Rightarrow> corpus \<Rightarrow> (string \<times> mutation_request) list \<Rightarrow> bool" where
  "accepts v ck k m \<longleftrightarrow>
     checkpoint_validate ck (fv_config v) (fo_fingerprint (fv_options v)) = None \<and>
     restore_checkpoint (ck_corpus ck) (fo_resume_entries (fv_options v)) (corpus_config_of (fv_config v)) = Inr k \<and>
     restore_pending k (ck_pending ck) [] = Inr m"

lemma resumable_accepts:
  assumes "resumable (fv_config v) (fo_fingerprint (fv_options v)) (fo_resume_entries (fv_options v)) ck"
  shows "\<exists>k m. accepts v ck k m \<and> corpus_inv (fv_config v) k \<and> ck_corpus ck = corpus_checkpoint_of (Some k) \<and>
    cp_entries k = fo_resume_entries (fv_options v) \<and> distinct (map fst m) \<and> set (map fst m) = pm_entry ` set (ck_pending ck) \<and>
    (\<forall>(i, q) \<in> set m. i = en_id (mr_entry q) \<and> 0 < mr_count q \<and> mr_entry q \<in> set (cp_entries k))"
proof -
  let ?c = "fv_config v"
  obtain k where k: "corpus_inv ?c k" "ck_corpus ck = corpus_checkpoint_of (Some k)"
    "cp_entries k = fo_resume_entries (fv_options v)"
    and ok: "checkpoint_ok ck ?c (fo_fingerprint (fv_options v))"
    using assms by (auto simp: resumable_def)
  have ids: "en_id ` set (cp_entries k) = entry_name ` {0..<length (cp_entries k)}"
    using k(1) entry_names [of 0 "cp_entries k"] by (simp add: corpus_inv_def corpus_ok_def)
  have "nat (ckp_entry_count (ck_corpus ck)) = length (cp_entries k)" by (simp add: k(2) corpus_checkpoint_of_def)
  then have "pm_entry ` set (ck_pending ck) \<subseteq> en_id ` set (cp_entries k)" "\<forall>p \<in> set (ck_pending ck). 0 < pm_count p"
    using ok by (simp_all add: checkpoint_ok_def pending_ok_def ids)
  from restore_pending_ok [OF this, of "[]"] obtain m where
    m: "restore_pending k (ck_pending ck) [] = Inr m" "distinct (map fst m)" "set (map fst m) = pm_entry ` set (ck_pending ck)"
      "\<forall>(i, q) \<in> set m. i = en_id (mr_entry q) \<and> 0 < mr_count q \<and> mr_entry q \<in> set (cp_entries k)" by auto
  have "restore_checkpoint (ck_corpus ck) (fo_resume_entries (fv_options v)) (corpus_config_of ?c) = Inr k"
    using restore_checkpoint_ok [OF k(1)] by (simp add: k(2,3))
  then have "accepts v ck k m" using ok m(1) by (simp add: accepts_def checkpoint_validate_None)
  then show ?thesis using k m by blast
qed

definition resumed :: "feedback_state \<Rightarrow> checkpoint \<Rightarrow> corpus \<Rightarrow> (string \<times> mutation_request) list \<Rightarrow> feedback_state" where
  "resumed s0 c k m = s0\<lparr>fs_accumulator := restore_accumulator (ck_aggregation c), fs_corpus := k, fs_ready := ck_ready c,
     fs_rerun := ck_in_flight c, fs_pending := m, fs_next_candidate := ck_next_candidate c, fs_next_run := ck_next_run c,
     fs_completed := ck_completed c, fs_next_seed_at := ck_next_seed_at c, fs_seeds_due := ck_seeds_due c,
     fs_events := ck_events c, fs_offset := ck_elapsed c\<rparr>"

lemma resume_accepted: "accepts v ck k m \<Longrightarrow> resume_state v ck s0 = Inr (resumed s0 ck k m)"
  by (simp add: accepts_def resume_state_def resumed_def Let_def)

lemma resumed_inv:
  assumes config: "config_ok (fv_config v)"
    and ok: "resumable (fv_config v) (fo_fingerprint (fv_options v)) (fo_resume_entries (fv_options v)) ck"
  shows "\<exists>s. resume_state v ck (fresh_state (fv_config v)) = Inr s \<and>
    run_inv v (fo_resume_entries (fv_options v)) (peaked s)"
proof -
  let ?c = "fv_config v"
  obtain k m where km: "accepts v ck k m" "corpus_inv ?c k" "ck_corpus ck = corpus_checkpoint_of (Some k)"
    "cp_entries k = fo_resume_entries (fv_options v)" "distinct (map fst m)"
    "\<forall>(i, q) \<in> set m. i = en_id (mr_entry q) \<and> 0 < mr_count q \<and> mr_entry q \<in> set (cp_entries k)"
    using resumable_accepts [OF ok] by blast
  define s where "s = resumed (fresh_state ?c) ck k m"
  let ?a = "restore_accumulator (ck_aggregation ck)" and ?r = "ag_report (ck_aggregation ck)"
  have parts: "counters_ok ck ?c (fo_fingerprint (fv_options v))" "snapshot_ok (ck_aggregation ck) ?c (ck_completed ck)"
    "schedule_ok ck ?c" "corpus_part_ok ck"
    using ok by (simp_all add: resumable_def checkpoint_ok_def)
  have finite: "finite (cp_coverage k)" "finite (cp_semantic_states k)" "finite (cp_semantic_transitions k)"
    using km(2) by (simp_all add: corpus_inv_def corpus_ok_def attributed_def)
  have s: "fs_in_flight s = []" "fs_rerun s = ck_in_flight ck" "fs_next_run s = ck_next_run ck" "fs_running s = 0"
    "fs_completed s = ck_completed ck" "fs_accumulator s = ?a" "fs_corpus s = k" "fs_pending s = m" "fs_log s = []"
    "fs_ready s = ck_ready ck" "fs_next_seed_at s = ck_next_seed_at ck" "fs_seeds_due s = ck_seeds_due ck"
    by (simp_all add: s_def resumed_def fresh_state_def)
  have "schedule_inv ?c (ac_indices ?a) s"
    using parts(1-3) by (auto simp: schedule_inv_def s assigned_def schedule_ok_def restore_accumulator_def counters_ok_def
        snapshot_ok_def distinct_card)
  moreover have "seeds_inv ?c s"
    using parts(1) ok by (auto simp: seeds_inv_def s counters_ok_def resumable_def split: if_splits)
  moreover have "pending_inv s" using km(5,6) by (simp add: pending_inv_def s)
  moreover have acc: "accumulator_inv ?c k (ck_completed ck) ?a"
    using parts(4) finite
    by (intro restored_accumulator_inv parts(2)) (simp_all add: corpus_part_ok_def km(3) corpus_checkpoint_of_def)
  moreover have cand: "candidates_inv ?c (ac_report ?a) s"
    using ok parts(1)
    by (simp add: candidates_inv_def resumable_def kinds_def candidates_of_def s restore_accumulator_def counters_ok_def)
  ultimately have state: "state_inv ?c s" using km(2) by (simp add: state_inv_def s)
  have "int (length (fs_ready s)) \<le> rp_peak_ready (ac_report ?a)" using cand by (simp add: candidates_inv_def)
  then have "peaked s = s" by (simp add: peaked_def s)
  then have "run_inv v (fo_resume_entries (fv_options v)) (peaked s)"
    using state km(4) by (simp add: run_inv_def log_inv_def s)
  then show ?thesis using resume_accepted [OF km(1)] s_def by blast
qed

section \<open>Every stored checkpoint can be resumed\<close>

text \<open>The start of a call that resumes nothing, or something that can be resumed.\<close>

lemma begin_inv:
  assumes config: "config_ok (fv_config v)"
    and resume: "case fo_resume (fv_options v) of None \<Rightarrow> base = []
      | Some ck \<Rightarrow> base = fo_resume_entries (fv_options v) \<and> resumable (fv_config v) (fo_fingerprint (fv_options v)) base ck"
  shows "(\<exists>r p err s. begin_feedback v = Inl (Returned r p err s) \<and> saved_points base (fs_log s) = []) \<or>
    out_inv v base (begin_feedback v)"
proof -
  define started where "started = (case fo_resume (fv_options v) of Some c \<Rightarrow> resume_state v c (fresh_state (fv_config v))
      | None \<Rightarrow> seeded_state v (fresh_state (fv_config v)))"
  define e where "e = plain_event (if fo_resume (fv_options v) \<noteq> None then EventExperimentResumed else EventExperimentStarted)"
  have go: "out_inv v base (begin_feedback v)" if s: "started = Inr s" and inv: "run_inv v base (peaked s)" for s
    using s unfolding begin_feedback_def Let_def started_def [symmetric] e_def [symmetric]
    by (simp, intro unless_failed_inv config emit_inv save_inv settle_inv inv; simp)
  show ?thesis
  proof (cases "fo_resume (fv_options v)")
    case (Some ck)
    then show ?thesis using resumed_inv [OF config, of ck] resume go by (auto simp: started_def)
  next
    case None
    show ?thesis
    proof (cases started)
      case (Inr s)
      then show ?thesis using seeded_inv [OF config, of s] None resume go by (auto simp: started_def)
    next
      case (Inl out)
      have "\<exists>r p err s. out = Returned r p err s \<and> saved_points base (fs_log s) = []"
      proof -
        obtain generated s1 where g: "(if xc_initial_population (fv_config v) \<le> 0 then (None, fresh_state (fv_config v))
            else call_initializer v (xc_initial_population (fv_config v)) (xc_base_seed (fv_config v))
              (fresh_state (fv_config v))) = (generated, s1)" by fastforce
        have "fs_log (fresh_state (fv_config v)) = []" by (simp add: fresh_state_def)
        then have "saved_points base (fs_log s1) = []"
          using g by (auto simp: call_initializer_def record_call_def Let_def split: option.splits if_splits)
        then show ?thesis
          using Inl None g by (auto simp: started_def seeded_state_def refuse_def Let_def split: sum.splits prod.splits)
      qed
      then show ?thesis using Inl by (auto simp: begin_feedback_def Let_def started_def)
    qed
  qed
qed

fun state_of :: "outcome + feedback_state \<Rightarrow> feedback_state option" where
  "state_of (Inl (Returned r p err s)) = Some s"
| "state_of (Inl Diverges) = None"
| "state_of (Inr s) = Some s"

text \<open>A session is a call with its options and surroundings, what arrives during it, and which of the
  checkpoints it hands out the next session starts from, wherever it was interrupted. The hook that stores
  entries must be set, since a checkpoint is of no use without them. The newest session comes first.\<close>

record session =
  se_options :: feedback_options
  se_digest :: "digested \<Rightarrow> string"
  se_clock :: "nat \<Rightarrow> int"
  se_arrivals :: "arrival list"
  se_choice :: nat

definition resuming :: "feedback_options \<Rightarrow> (checkpoint \<times> corpus_entry list) option \<Rightarrow> feedback_options" where
  "resuming o1 stored = (case stored of
     None \<Rightarrow> o1\<lparr>fo_resume := None\<rparr>
   | Some (ck, es) \<Rightarrow> o1\<lparr>fo_resume := Some ck, fo_resume_entries := es, fo_fingerprint := ck_fingerprint ck\<rparr>)"

definition run_session ::
  "experiment_config \<Rightarrow> session \<Rightarrow> (checkpoint \<times> corpus_entry list) option \<Rightarrow> (outcome + feedback_state) option" where
  "run_session c se stored =
     run_feedback (Some \<lparr>fv_config = c, fv_options = resuming (se_options se) stored, fv_digest = se_digest se,
       fv_clock = se_clock se\<rparr>) True (se_arrivals se)"

fun stored_after :: "experiment_config \<Rightarrow> session list \<Rightarrow> (checkpoint \<times> corpus_entry list) option" where
  "stored_after c [] = None"
| "stored_after c (se # earlier) =
     (if fo_on_corpus_entry (se_options se) = None then None
      else
        let stored = stored_after c earlier in
        case run_session c se stored of
          None \<Rightarrow> None
        | Some r \<Rightarrow>
            (case state_of r of
               None \<Rightarrow> None
             | Some s \<Rightarrow>
                 let points = saved_points (case stored of None \<Rightarrow> [] | Some (ck, es) \<Rightarrow> es) (fs_log s)
                 in if se_choice se < length points then Some (points ! se_choice se) else None))"

lemma option_defaults_keeps [simp]:
  "fo_resume (option_defaults o1) = fo_resume o1" "fo_resume_entries (option_defaults o1) = fo_resume_entries o1"
  "fo_fingerprint (option_defaults o1) = fo_fingerprint o1" "fo_on_corpus_entry (option_defaults o1) = fo_on_corpus_entry o1"
  "fo_mutator (option_defaults o1) = fo_mutator o1"
  by (simp_all add: option_defaults_def Let_def)

lemma run_feedback_inv:
  assumes config: "config_ok (fv_config v)" and fit: "seeds_fit (fv_config v)"
    and hook: "fo_on_corpus_entry (fv_options v) \<noteq> None"
    and resume: "case fo_resume (fv_options v) of None \<Rightarrow> base = []
      | Some ck \<Rightarrow> base = fo_resume_entries (fv_options v) \<and> resumable (fv_config v) (fo_fingerprint (fv_options v)) base ck"
    and run: "run_feedback (Some v) True arrivals = Some r" and s: "state_of r = Some s"
  shows "points_ok v base (fs_log s)"
proof (cases "fo_mutator (fv_options v) = None")
  case True
  then show ?thesis using run s by (auto simp: run_feedback_def Let_def fresh_state_def)
next
  case False
  define w where "w = v\<lparr>fv_options := option_defaults (fv_options v)\<rparr>"
  have same: "points_ok w base l = points_ok v base l" for l by (simp add: points_ok_def w_def)
  have ready: "config_ok (fv_config w)" "seeds_fit (fv_config w)" "fo_on_corpus_entry (fv_options w) \<noteq> None"
    using config fit hook by (simp_all add: w_def)
  have "case fo_resume (fv_options w) of None \<Rightarrow> base = []
      | Some ck \<Rightarrow> base = fo_resume_entries (fv_options w) \<and> resumable (fv_config w) (fo_fingerprint (fv_options w)) base ck"
    using resume by (cases "fo_resume (fv_options v)") (auto simp: w_def)
  note begins = begin_inv [OF ready(1) this]
  have out: "points_ok w base (fs_log s)" if "out_inv w base r"
    using that s by (cases r rule: state_of.cases) (auto simp: run_inv_def log_inv_def)
  show ?thesis
  proof (cases "begin_feedback w")
    case (Inl x)
    then have "r = Inl x" using run False by (simp add: run_feedback_def Let_def w_def [symmetric])
    then show ?thesis using begins Inl s out unfolding same [symmetric] by (auto simp: points_ok_def)
  next
    case (Inr s1)
    then have "drive w arrivals s1 = Some r" using run False by (simp add: run_feedback_def Let_def w_def [symmetric])
    moreover have "run_inv w base s1" using begins Inr by auto
    ultimately show ?thesis using drive_inv [OF ready] out unfolding same [symmetric] by blast
  qed
qed

lemma resumable_fingerprint: "resumable c fp es ck \<Longrightarrow> ck_fingerprint ck = fp"
  by (simp add: resumable_def checkpoint_ok_def counters_ok_def)

lemma stored_after_resumable:
  assumes config: "config_ok c" and fit: "seeds_fit c"
  shows "stored_after c sessions = Some (ck, es) \<Longrightarrow> resumable c (ck_fingerprint ck) es ck"
proof (induction sessions arbitrary: ck es)
  case (Cons se earlier)
  define stored where "stored = stored_after c earlier"
  define base where "base = (case stored of None \<Rightarrow> [] | Some (ck, es) \<Rightarrow> es)"
  define v where "v = \<lparr>fv_config = c, fv_options = resuming (se_options se) stored, fv_digest = se_digest se,
       fv_clock = se_clock se\<rparr>"
  from Cons.prems obtain r s where hook: "fo_on_corpus_entry (se_options se) \<noteq> None"
    and run: "run_feedback (Some v) True (se_arrivals se) = Some r" and s: "state_of r = Some s"
    and point: "(ck, es) \<in> set (saved_points base (fs_log s))"
    by (auto simp: Let_def run_session_def stored_def [symmetric] base_def [symmetric] v_def [symmetric]
        split: if_splits option.splits dest: nth_mem)
  have "points_ok v base (fs_log s)"
  proof (rule run_feedback_inv [OF _ _ _ _ run s])
    show "case fo_resume (fv_options v) of None \<Rightarrow> base = []
      | Some ck \<Rightarrow> base = fo_resume_entries (fv_options v) \<and> resumable (fv_config v) (fo_fingerprint (fv_options v)) base ck"
      using Cons.IH by (cases stored) (auto simp: v_def resuming_def base_def stored_def split: option.splits)
  qed (use config fit hook in \<open>auto simp: v_def resuming_def split: option.split\<close>)
  then have "resumable c (fo_fingerprint (fv_options v)) es ck" using point by (auto simp: points_ok_def v_def)
  then show ?case using resumable_fingerprint by metis
qed simp


end
