(* ===== verification/Feedback_Progress.thy ===== *)
theory Feedback_Progress
  imports Feedback_Runs
begin

text \<open>
  The feedback loop (internal/experiment/runner.go, \<open>RunFeedback\<close>) always gets on: a call that waits has
  something to wait for, it returns after a bounded number of arrivals, every run index is executed exactly
  once, and what happens to the checkpoint when an entry cannot be stored. Nothing is asked of the hooks.
\<close>

section \<open>What the schedule of a call is made of\<close>

text \<open>The indices of the runs made known to \<open>OnRunComplete\<close>, and the checkpoints handed out after an entry
  could not be stored.\<close>

definition completions :: "log \<Rightarrow> int list" where
  "completions l = concat (map (\<lambda>(c, err). case c of OnRunComplete m \<Rightarrow> [rn_index (cm_run m)] | _ \<Rightarrow> []) l)"

definition checkpoints :: "log \<Rightarrow> checkpoint list" where
  "checkpoints l = concat (map (\<lambda>(c, err). case c of OnCheckpoint ck \<Rightarrow> [ck] | _ \<Rightarrow> []) l)"

fun late_checkpoints :: "log \<Rightarrow> checkpoint list" where
  "late_checkpoints [] = []"
| "late_checkpoints ((OnCorpusEntry e, Some err) # l) = checkpoints l"
| "late_checkpoints (c # l) = late_checkpoints l"

text \<open>Every checkpoint counts the runs made known by then, \<open>old\<close> those from before; up to the first entry that
  could not be stored.\<close>

fun counted_points :: "int list \<Rightarrow> log \<Rightarrow> bool" where
  "counted_points old [] = True"
| "counted_points old ((OnCheckpoint ck, err) # l) =
     (ck_summaries ck = int (length old) \<and> mset (ag_indices (ck_aggregation ck)) = mset old \<and> counted_points old l)"
| "counted_points old ((OnRunComplete m, err) # l) = counted_points (old @ [rn_index (cm_run m)]) l"
| "counted_points old ((OnCorpusEntry e, Some err) # l) = True"
| "counted_points old ((OnCorpusEntry e, None) # l) = counted_points old l"
| "counted_points old ((OnEvent e, err) # l) = counted_points old l"
| "counted_points old ((CallInitializer n seed, err) # l) = counted_points old l"

lemma completions_simps [simp]: "completions [] = []" "completions (l @ l') = completions l @ completions l'"
  "completions [(OnRunComplete m, err)] = [rn_index (cm_run m)]" "completions [(OnEvent ev, err)] = []"
  "completions [(OnCheckpoint ck, err)] = []" "completions [(OnCorpusEntry e, err)] = []"
  "completions [(CallInitializer n seed, err)] = []"
  by (simp_all add: completions_def)

lemma checkpoints_simps [simp]: "checkpoints [] = []" "checkpoints (l @ l') = checkpoints l @ checkpoints l'"
  "checkpoints [(OnCheckpoint ck, err)] = [ck]" "checkpoints [(OnEvent ev, err)] = []"
  "checkpoints [(OnRunComplete m, err)] = []" "checkpoints [(OnCorpusEntry e, err)] = []"
  "checkpoints [(CallInitializer n seed, err)] = []"
  by (simp_all add: checkpoints_def)

lemma late_checkpoints_append:
  "late_checkpoints (l @ l') = (if entry_failed l then late_checkpoints l @ checkpoints l' else late_checkpoints l')"
  by (induction l rule: late_checkpoints.induct) (auto simp: entry_failed_def split: call.splits option.splits)

lemma counted_points_append:
  "counted_points old (l @ l') \<longleftrightarrow> counted_points old l \<and> (entry_failed l \<or> counted_points (old @ completions l) l')"
  by (induction old l rule: counted_points.induct) (auto simp: entry_failed_def completions_def)

definition runs_counted :: "feedback_env \<Rightarrow> int list \<Rightarrow> log \<Rightarrow> bool" where
  "runs_counted v old l \<longleftrightarrow> fo_on_run_complete (fv_options v) = None \<or> counted_points old l"

lemma runs_counted_append [simp]: "runs_counted v old []"
  "runs_counted v old (l @ [(OnEvent e, err)]) = runs_counted v old l"
  "runs_counted v old (l @ [(OnRunComplete m, err)]) = runs_counted v old l"
  "runs_counted v old (l @ [(CallInitializer n seed, err)]) = runs_counted v old l"
  "runs_counted v old (l @ [(OnCorpusEntry en, err)]) = runs_counted v old l"
  by (simp_all add: runs_counted_def counted_points_append) (cases err; simp)

text \<open>\<open>done1\<close> lists the indices of the completed runs. The invariant reads only a part of the state.\<close>

definition progress_part where
  "progress_part v old s = (runs_counted v old (fs_log s), fs_rerun s, fs_in_flight s, fs_pending s, fs_requests s, fs_next_run s, fs_completed s,
     fs_running s, fs_next_seed_at s, ac_indices (fs_accumulator s), rp_completed (ac_report (fs_accumulator s)), completions (fs_log s), entry_failed (fs_log s))"

definition slots :: "experiment_config \<Rightarrow> int list \<Rightarrow> feedback_state \<Rightarrow> bool" where
  "slots c done1 s \<longleftrightarrow> mset (done1 @ assigned s) = mset [0..fs_next_run s - 1] \<and> 0 \<le> fs_next_run s \<and>
     fs_next_run s \<le> xc_runs c \<and> int (length done1) = fs_completed s \<and>
     fs_running s = int (length (fs_in_flight s)) \<and> fs_running s \<le> xc_parallelism c \<and>
     list_all (\<lambda>(i, t). sd_index t = i) (fs_in_flight s)"

definition answered :: "feedback_state \<Rightarrow> bool" where
  "answered s \<longleftrightarrow> fst ` set (fs_pending s) \<subseteq> (\<lambda>q. en_id (mr_entry q)) ` set (fs_requests s)"

definition progressing :: "feedback_env \<Rightarrow> int list \<Rightarrow> int list \<Rightarrow> feedback_state \<Rightarrow> bool" where
  "progressing v old done1 s \<longleftrightarrow> slots (fv_config v) done1 s \<and> answered s \<and> \<not> entry_failed (fs_log s) \<and>
     ac_indices (fs_accumulator s) = set done1 \<and> rp_completed (ac_report (fs_accumulator s)) = int (length done1) \<and>
     (xc_random_seed_interval (fv_config v) = 0 \<longrightarrow> fs_next_seed_at s = 0) \<and>
     (fo_on_run_complete (fv_options v) = None \<or> done1 = old @ completions (fs_log s)) \<and> runs_counted v old (fs_log s)"

text \<open>The bound on the arrivals still to come.\<close>

definition potential :: "feedback_env \<Rightarrow> feedback_state \<Rightarrow> nat" where
  "potential v s = 2 * nat (xc_runs (fv_config v) - fs_completed s) + length (fs_requests s)"

lemma progressing_part: "progress_part v old s = progress_part v old s' \<Longrightarrow> progressing v old done1 s = progressing v old done1 s'"
  by (simp add: progress_part_def progressing_def slots_def answered_def assigned_def)

lemma potential_part: "progress_part v old s = progress_part v old s' \<Longrightarrow> potential v s = potential v s'"
  by (simp add: progress_part_def potential_def)

lemma part_frame [simp]:
  "progress_part v old (s\<lparr>fs_events := n\<rparr>) = progress_part v old s" "progress_part v old (s\<lparr>fs_reads := k\<rparr>) = progress_part v old s"
  "progress_part v old (s\<lparr>fs_next_candidate := i\<rparr>) = progress_part v old s" "progress_part v old (s\<lparr>fs_corpus := cp\<rparr>) = progress_part v old s"
  "progress_part v old (s\<lparr>fs_ready := cs\<rparr>) = progress_part v old s" "progress_part v old (s\<lparr>fs_seeds_due := i\<rparr>) = progress_part v old s"
  by (simp_all add: progress_part_def)

lemma finalize_completed [simp]: "rp_completed (ac_report (finalize n t a)) = rp_completed (ac_report a)"
  by (rule finalize_report [of n t a]) simp

lemma part_finalize [simp]:
  "progress_part v old (s\<lparr>fs_accumulator := finalize n t (fs_accumulator s)\<rparr>) = progress_part v old s"
  by (simp add: progress_part_def)

lemma part_record [simp]:
  "progress_part v old (record_call (OnEvent e) err s) = progress_part v old s"
  "progress_part v old (record_call (CallInitializer n seed) err s) = progress_part v old s"
  "progress_part v old (record_call (OnCorpusEntry en) None s) = progress_part v old s"
  by (simp_all add: progress_part_def record_call_def)

lemma part_update_report:
  "(\<And>r. rp_completed (f r) = rp_completed r) \<Longrightarrow> progress_part v old (update_report f s) = progress_part v old s"
  by (simp add: progress_part_def update_report_def)

lemma part_emit [simp]: "progress_part v old (snd (emit v e s)) = progress_part v old s"
  by (simp add: emit_def Let_def split: option.split)

lemma accumulator_snapshot_split:
  "accumulator_snapshot n t a = (fst (accumulator_snapshot n t a), finalize n t a)"
  by (metis accumulator_snapshot_snd prod.collapse)

lemma save_shape:
  "fst (save v force s) = None \<and> snd (save v force s) = s \<or>
   (\<exists>s1 ck. snd (save v force s) = record_call (OnCheckpoint ck) (fst (save v force s)) s1 \<and>
      progress_part v old s1 = progress_part v old s \<and> fs_log s1 = fs_log s \<and> fs_corpus s1 = fs_corpus s \<and>
      ck_completed ck = fs_completed s \<and> ck_summaries ck = fs_completed s \<and>
      ag_indices (ck_aggregation ck) = sorted_list_of_set (ac_indices (fs_accumulator s)) \<and>
      rp_completed (ag_report (ck_aggregation ck)) = rp_completed (ac_report (fs_accumulator s)))"
proof (cases "fo_on_checkpoint (fv_options v) = None \<or> \<not> force \<and> fs_completed s mod fo_checkpoint_every (fv_options v) \<noteq> 0")
  case True
  then show ?thesis by (auto simp: save_def split: option.split)
next
  case False
  then obtain hook where hook: "fo_on_checkpoint (fv_options v) = Some hook"
    "(\<not> force \<and> fs_completed s mod fo_checkpoint_every (fv_options v) \<noteq> 0) = False" by auto
  define t where "t = fs_offset s + fv_clock v (fs_reads s)"
  define n where "n = corpus_size (s\<lparr>fs_reads := Suc (fs_reads s)\<rparr>)"
  define s1 where "s1 = s\<lparr>fs_reads := Suc (fs_reads s), fs_accumulator := finalize n t (fs_accumulator s)\<rparr>"
  define ck where "ck = checkpoint_of v (fst (accumulator_snapshot n t (fs_accumulator s))) t s1"
  have "progress_part v old s1 = progress_part v old s" by (simp add: s1_def progress_part_def)
  moreover have "rp_completed (ag_report (ck_aggregation ck)) = rp_completed (ac_report (fs_accumulator s))"
    by (rule finalize_report [of n t "fs_accumulator s"]) (simp add: ck_def checkpoint_of_def accumulator_snapshot_def Let_def)
  moreover have "ag_indices (ck_aggregation ck) = sorted_list_of_set (ac_indices (fs_accumulator s))"
    by (simp add: ck_def checkpoint_of_def accumulator_snapshot_def Let_def)
  moreover have "ck_completed ck = fs_completed s" "ck_summaries ck = fs_completed s" "fs_log s1 = fs_log s" "fs_corpus s1 = fs_corpus s"
    by (simp_all add: ck_def s1_def checkpoint_of_def)
  moreover have "save v force s = (let err = hook (fs_log s) ck in (err, record_call (OnCheckpoint ck) err s1))"
    unfolding save_def hook option.case if_False elapsed_millis_def Let_def
    by (subst accumulator_snapshot_split) (simp add: t_def [symmetric] n_def [symmetric] s1_def [symmetric] ck_def [symmetric])
  ultimately show ?thesis by (auto simp: Let_def)
qed

text \<open>A checkpoint lists exactly the runs made known, if the state does.\<close>

definition synced :: "feedback_env \<Rightarrow> int list \<Rightarrow> feedback_state \<Rightarrow> bool" where
  "synced v old s \<longleftrightarrow> fo_on_run_complete (fv_options v) = None \<or> entry_failed (fs_log s) \<or>
     ac_indices (fs_accumulator s) = set (old @ completions (fs_log s)) \<and> distinct (old @ completions (fs_log s)) \<and>
     fs_completed s = int (length (old @ completions (fs_log s)))"

lemma synced_part: "progress_part v old s = progress_part v old s' \<Longrightarrow> synced v old s = synced v old s'"
  by (simp add: progress_part_def synced_def)

lemma part_save:
  assumes "synced v old s"
  shows "progress_part v old (snd (save v force s)) = progress_part v old s"
  using save_shape [of v force s old]
proof
  assume "\<exists>s1 ck. snd (save v force s) = record_call (OnCheckpoint ck) (fst (save v force s)) s1 \<and>
      progress_part v old s1 = progress_part v old s \<and> fs_log s1 = fs_log s \<and> fs_corpus s1 = fs_corpus s \<and>
      ck_completed ck = fs_completed s \<and> ck_summaries ck = fs_completed s \<and>
      ag_indices (ck_aggregation ck) = sorted_list_of_set (ac_indices (fs_accumulator s)) \<and>
      rp_completed (ag_report (ck_aggregation ck)) = rp_completed (ac_report (fs_accumulator s))"
  then obtain s1 ck where s1: "snd (save v force s) = record_call (OnCheckpoint ck) (fst (save v force s)) s1"
    "progress_part v old s1 = progress_part v old s" "fs_log s1 = fs_log s" "ck_summaries ck = fs_completed s"
    "ag_indices (ck_aggregation ck) = sorted_list_of_set (ac_indices (fs_accumulator s))" by blast
  have sorted: "mset (sorted_list_of_set (set xs)) = mset xs" if "distinct xs" for xs :: "int list"
    using that set_eq_iff_mset_eq_distinct [of "sorted_list_of_set (set xs)" xs] by simp
  have indices: "mset (ag_indices (ck_aggregation ck)) = mset (old @ completions (fs_log s))"
    if "distinct (old @ completions (fs_log s))" "ac_indices (fs_accumulator s) = set (old @ completions (fs_log s))"
    unfolding s1(5) that(2) by (rule sorted) (rule that(1))
  have "runs_counted v old (fs_log s @ [(OnCheckpoint ck, err)]) = runs_counted v old (fs_log s)" for err
  proof (cases "fo_on_run_complete (fv_options v) = None \<or> entry_failed (fs_log s)")
    case False
    then show ?thesis
      using assms indices s1(4) unfolding synced_def by (auto simp: runs_counted_def counted_points_append)
  qed (auto simp: runs_counted_def counted_points_append)
  then show ?thesis using s1(1,2,3) by (simp add: progress_part_def record_call_def)
qed simp

lemma part_initializer [simp]: "progress_part v old (snd (call_initializer v wanted seed s)) = progress_part v old s"
  by (simp add: call_initializer_def Let_def split: option.split)

lemma unless_failed_Inr: "unless_failed v r f = Inr s' \<longleftrightarrow> fst r = None \<and> f (snd r) = Inr s'"
  by (cases r) (auto simp: unless_failed_def split: option.split)

section \<open>How a call may end\<close>

text \<open>Without an error, all runs are completed. After an entry could not be stored, one checkpoint is handed
  out, and it is not accepted.\<close>

definition all_done :: "feedback_env \<Rightarrow> int list \<Rightarrow> report \<Rightarrow> feedback_state \<Rightarrow> bool" where
  "all_done v old r s \<longleftrightarrow> (\<exists>done1. mset done1 = mset [0..xc_runs (fv_config v) - 1] \<and>
     rp_completed r = xc_runs (fv_config v) \<and>
     (fo_on_run_complete (fv_options v) = None \<or> done1 = old @ completions (fs_log s)))"

definition rejected :: "feedback_env \<Rightarrow> log \<Rightarrow> bool" where
  "rejected v l \<longleftrightarrow> \<not> entry_failed l \<or> fo_on_checkpoint (fv_options v) = None \<or>
     (\<exists>ck. late_checkpoints l = [ck] \<and>
        checkpoint_validate ck (fv_config v) (fo_fingerprint (fv_options v)) \<noteq> None)"

fun ended :: "feedback_env \<Rightarrow> int list \<Rightarrow> outcome \<Rightarrow> bool" where
  "ended v old (Returned r p err s) = ((err = None \<longrightarrow> all_done v old r s) \<and> rejected v (fs_log s) \<and>
     runs_counted v old (fs_log s))"
| "ended v old Diverges = False"

lemma rejected_progress: "\<not> entry_failed (fs_log s) \<Longrightarrow> rejected v (fs_log s)"
  by (simp add: rejected_def)

lemma entry_failed_part: "progress_part v old s = progress_part v old s' \<Longrightarrow> entry_failed (fs_log s) = entry_failed (fs_log s')"
  by (simp add: progress_part_def)

definition stoppable :: "feedback_env \<Rightarrow> int list \<Rightarrow> feedback_state \<Rightarrow> bool" where
  "stoppable v old s \<longleftrightarrow> \<not> entry_failed (fs_log s) \<and> synced v old s \<and>
     runs_counted v old (fs_log s)"

lemma stoppable_part: "progress_part v old s = progress_part v old s' \<Longrightarrow> stoppable v old s = stoppable v old s'"
  by (simp add: progress_part_def synced_def stoppable_def)

lemma finish_with_ended:
  assumes "stoppable v old s" and "err = None \<longrightarrow> all_done v old (ac_report (fs_accumulator s)) s"
  shows "ended v old (finish_with v err s)"
  using assms by (simp add: finish_with_def elapsed_millis_def rejected_def all_done_def stoppable_def)

lemma stoppable_save: "stoppable v old s \<Longrightarrow> stoppable v old (snd (save v force s))"
  using stoppable_part [OF part_save [of v old s force]] by (simp add: stoppable_def)

lemma stoppable_emit: "stoppable v old s \<Longrightarrow> stoppable v old (snd (emit v e s))"
  using stoppable_part [OF part_emit [of v old e s]] by simp

lemma stop_ended: "stoppable v old s \<Longrightarrow> ended v old (stop_with_error v cause s)"
  by (simp add: stop_with_error_def Let_def finish_with_ended stoppable_save stoppable_emit)

lemma unless_failed_ended:
  assumes "stoppable v old (snd r)" and "\<And>s. r = (None, s) \<Longrightarrow> case f s of Inl out \<Rightarrow> ended v old out | Inr s' \<Rightarrow> P s'"
  shows "case unless_failed v r f of Inl out \<Rightarrow> ended v old out | Inr s' \<Rightarrow> P s'"
  using assms stop_ended by (cases r) (auto simp: unless_failed_def split: option.split)

section \<open>Handing out work\<close>

lemma map_fst_update: "k \<notin> fst ` set m \<Longrightarrow> map fst (AList.update k x m) = map fst m @ [k]"
  by (simp add: update_absent)

lemma upto_extend: "0 \<le> n \<Longrightarrow> mset [0..n] = add_mset n (mset [0..n - 1])"
  by (subst upto_rec2) simp_all

lemma slots_member: "slots c done1 s \<Longrightarrow> i \<in> set (assigned s) \<Longrightarrow> i < fs_next_run s"
  using mset_eq_setD [of "done1 @ assigned s" "[0..fs_next_run s - 1]"] by (auto simp: slots_def)

lemma slots_distinct: "slots c done1 s \<Longrightarrow> distinct (done1 @ assigned s)"
  using mset_eq_imp_distinct_iff [of "done1 @ assigned s" "[0..fs_next_run s - 1]"] by (simp add: slots_def)

lemma progressing_stoppable: "progressing v old done1 s \<Longrightarrow> stoppable v old s"
  using slots_distinct [of "fv_config v" done1 s] by (auto simp: progressing_def stoppable_def synced_def slots_def)

lemma launch_rerun_progress:
  assumes p: "progressing v old done1 s" and rerun: "fs_rerun s = t # ts" and free: "fs_running s < xc_parallelism (fv_config v)"
  shows "progressing v old done1 (launch t (s\<lparr>fs_rerun := ts\<rparr>))"
proof -
  have s: "slots (fv_config v) done1 s" using p by (simp add: progressing_def)
  have fresh: "sd_index t \<notin> fst ` set (fs_in_flight s)" using slots_distinct [OF s] rerun by (auto simp: assigned_def)
  have "AList.update (sd_index t) t (fs_in_flight s) = fs_in_flight s @ [(sd_index t, t)]" using fresh by (rule update_absent)
  then show ?thesis
    using p rerun free by (simp add: progressing_def slots_def answered_def launch_def assigned_def)
qed

lemma dispatch_rerun_progress:
  "progressing v old done1 s \<Longrightarrow> progressing v old done1 (dispatch_rerun v s) \<and>
     fs_requests (dispatch_rerun v s) = fs_requests s \<and> fs_completed (dispatch_rerun v s) = fs_completed s \<and>
     \<not> (fs_running (dispatch_rerun v s) < xc_parallelism (fv_config v) \<and> fs_rerun (dispatch_rerun v s) \<noteq> [])"
proof (induction v s rule: dispatch_rerun.induct)
  case (1 v s)
  show ?case
  proof (cases "fs_running s < xc_parallelism (fv_config v) \<and> fs_rerun s \<noteq> []")
    case True
    then obtain t ts where rerun: "fs_rerun s = t # ts" by (cases "fs_rerun s") auto
    have "dispatch_rerun v s = dispatch_rerun v (launch t (s\<lparr>fs_rerun := ts\<rparr>))"
      using True by (subst dispatch_rerun.simps) (simp add: rerun)
    with "1.IH" [OF True] launch_rerun_progress [OF "1.prems" rerun] True show ?thesis by (simp add: rerun launch_def)
  next
    case False
    then have "dispatch_rerun v s = s" by (subst dispatch_rerun.simps) (simp only: if_False)
    with "1.prems" False show ?thesis by simp
  qed
qed

lemma launch_next_shape:
  "\<exists>cs i due c. launch_next v s = launch \<lparr>sd_index = fs_next_run s, sd_seed = wrap64 (xc_base_seed (fv_config v) + fs_next_run s),
     sd_candidate = c\<rparr> (s\<lparr>fs_ready := cs, fs_next_candidate := i, fs_seeds_due := due, fs_next_run := fs_next_run s + 1\<rparr>)"
proof (cases "fs_seeds_due s > 0")
  case True
  then show ?thesis
    by (intro exI [of _ "fs_ready s"] exI [of _ "fs_next_candidate s + 1"] exI [of _ "fs_seeds_due s - 1"]
        exI [of _ "fst (take_candidate s)"]) (simp add: launch_next_def take_candidate_def)
next
  case False
  then show ?thesis
    by (intro exI [of _ "tl (fs_ready s)"] exI [of _ "fs_next_candidate s"] exI [of _ "fs_seeds_due s"]
        exI [of _ "fst (take_candidate s)"]) (simp add: launch_next_def take_candidate_def)
qed

lemma launch_next_progress:
  assumes p: "progressing v old done1 s" and "fs_next_run s < xc_runs (fv_config v)" "fs_running s < xc_parallelism (fv_config v)"
  shows "progressing v old done1 (launch_next v s) \<and> fs_requests (launch_next v s) = fs_requests s \<and>
    fs_completed (launch_next v s) = fs_completed s \<and> fs_rerun (launch_next v s) = fs_rerun s \<and>
    fs_running (launch_next v s) = fs_running s + 1"
proof -
  obtain cs i due c where shape: "launch_next v s = launch \<lparr>sd_index = fs_next_run s,
      sd_seed = wrap64 (xc_base_seed (fv_config v) + fs_next_run s), sd_candidate = c\<rparr>
      (s\<lparr>fs_ready := cs, fs_next_candidate := i, fs_seeds_due := due, fs_next_run := fs_next_run s + 1\<rparr>)"
    using launch_next_shape by blast
  have s: "slots (fv_config v) done1 s" using p by (simp add: progressing_def)
  have "fs_next_run s \<notin> fst ` set (fs_in_flight s)" using slots_member [OF s, of "fs_next_run s"] by (auto simp: assigned_def)
  then have keys: "AList.update (fs_next_run s) t (fs_in_flight s) = fs_in_flight s @ [(fs_next_run s, t)]" for t
    by (rule update_absent)
  have "mset [0..fs_next_run s] = add_mset (fs_next_run s) (mset [0..fs_next_run s - 1])"
    using s by (intro upto_extend) (simp add: slots_def)
  then show ?thesis
    unfolding shape using p assms(2,3) by (simp add: progressing_def slots_def answered_def launch_def assigned_def keys)
qed

lemma dispatch_ready_progress:
  "progressing v old done1 s \<Longrightarrow> progressing v old done1 (dispatch_ready v s) \<and>
     fs_requests (dispatch_ready v s) = fs_requests s \<and> fs_completed (dispatch_ready v s) = fs_completed s \<and>
     fs_rerun (dispatch_ready v s) = fs_rerun s \<and> fs_running s \<le> fs_running (dispatch_ready v s) \<and>
     \<not> (fs_next_run (dispatch_ready v s) < xc_runs (fv_config v) \<and> fs_running (dispatch_ready v s) < xc_parallelism (fv_config v) \<and>
        fs_ready (dispatch_ready v s) \<noteq> [])"
proof (induction v s rule: dispatch_ready.induct)
  case (1 v s)
  show ?case
  proof (cases "fs_next_run s < xc_runs (fv_config v) \<and> fs_running s < xc_parallelism (fv_config v) \<and>
         (fs_seeds_due s > 0 \<or> fs_ready s \<noteq> [])")
    case True
    then have "dispatch_ready v s = dispatch_ready v (launch_next v s)" by (simp add: dispatch_ready.simps)
    with "1.IH" [OF True] launch_next_progress [OF "1.prems"] True show ?thesis by simp
  next
    case False
    then have "dispatch_ready v s = s" by (subst dispatch_ready.simps) (simp only: if_False)
    with "1.prems" False show ?thesis by simp
  qed
qed

lemma dispatch_progress:
  assumes "progressing v old done1 s"
  shows "progressing v old done1 (dispatch v s) \<and> fs_requests (dispatch v s) = fs_requests s \<and>
     fs_completed (dispatch v s) = fs_completed s \<and>
     (fs_running (dispatch v s) < xc_parallelism (fv_config v) \<longrightarrow> fs_rerun (dispatch v s) = [] \<and>
       (fs_next_run (dispatch v s) < xc_runs (fv_config v) \<longrightarrow> fs_ready (dispatch v s) = []))"
  using dispatch_rerun_progress [OF assms] dispatch_ready_progress [of v old done1 "dispatch_rerun v s"]
  by (auto simp: dispatch_def)

text \<open>A state that waits: the result of a run or the answer to a request is outstanding.\<close>

definition waiting :: "feedback_state \<Rightarrow> bool" where
  "waiting s \<longleftrightarrow> 0 < length (fs_in_flight s) + length (fs_requests s)"

lemma dispatched_waiting:
  assumes p: "progressing v old done1 s" and config: "config_ok (fv_config v)"
    and dispatched: "fs_running s < xc_parallelism (fv_config v) \<longrightarrow> fs_rerun s = [] \<and>
      (fs_next_run s < xc_runs (fv_config v) \<longrightarrow> fs_ready s = [])"
    and more_runs: "fs_completed s < xc_runs (fv_config v)" and no_seed: "\<not> needs_seed v s"
  shows "waiting s"
proof (rule ccontr)
  assume "\<not> waiting s"
  then have none: "fs_in_flight s = []" "fs_requests s = []" by (simp_all add: waiting_def)
  then have running: "fs_running s = 0" and pending: "fs_pending s = []"
    using p by (simp_all add: progressing_def slots_def answered_def)
  then have rerun: "fs_rerun s = []" and ready: "fs_next_run s < xc_runs (fv_config v) \<longrightarrow> fs_ready s = []"
    using dispatched config by (simp_all add: config_ok_def)
  have "mset (done1 @ assigned s) = mset [0..fs_next_run s - 1]" using p by (simp add: progressing_def slots_def)
  then have "length (done1 @ assigned s) = length [0..fs_next_run s - 1]" by (rule mset_eq_length)
  then have "int (length done1) = fs_next_run s" using p rerun none by (simp add: assigned_def progressing_def slots_def)
  then have "fs_next_run s < xc_runs (fv_config v)" using p more_runs by (simp add: progressing_def slots_def)
  with no_seed running pending ready show False by (simp add: needs_seed_def)
qed

lemma refill_part: "progress_part v old (snd (refill v s)) = progress_part v old s"
proof -
  obtain generated s1 where call: "call_initializer v 1 (wrap64 (xc_base_seed (fv_config v) + fs_next_run s)) s = (generated, s1)"
    by fastforce
  then have "progress_part v old s1 = progress_part v old s" by (metis part_initializer snd_conv)
  then show ?thesis by (simp add: refill_def call split: sum.split prod.split)
qed

lemma completed_all:
  assumes p: "progressing v old done1 s" and all: "xc_runs (fv_config v) \<le> fs_completed s"
  shows "all_done v old (ac_report (fs_accumulator s)) s"
proof -
  have "mset (done1 @ assigned s) = mset [0..fs_next_run s - 1]" using p by (simp add: progressing_def slots_def)
  then have "length (done1 @ assigned s) = length [0..fs_next_run s - 1]" by (rule mset_eq_length)
  moreover have n: "0 \<le> fs_next_run s" "fs_next_run s \<le> xc_runs (fv_config v)" "int (length done1) = fs_completed s"
    using p by (simp_all add: progressing_def slots_def)
  ultimately have "int (length done1) + int (length (assigned s)) = fs_next_run s" by simp
  with n all have "int (length (assigned s)) = 0" "fs_next_run s = xc_runs (fv_config v)" "fs_completed s = fs_next_run s"
    by linarith+
  then show ?thesis using p by (auto simp: all_done_def progressing_def slots_def intro: exI [of _ done1])
qed

lemma all_done_part:
  "progress_part v old s = progress_part v old s' \<Longrightarrow> all_done v old (ac_report (fs_accumulator s)) s = all_done v old (ac_report (fs_accumulator s')) s'"
  by (simp add: all_done_def progress_part_def)

lemma finish_ended:
  assumes p: "progressing v old done1 s" and all: "xc_runs (fv_config v) \<le> fs_completed s"
  shows "ended v old (finish v s)"
proof -
  define s0 where "s0 = s\<lparr>fs_ready := [], fs_seeds_due := 0, fs_pending := []\<rparr>"
  have s0: "progressing v old done1 s0" "xc_runs (fv_config v) \<le> fs_completed s0"
    using p all by (simp_all add: s0_def progressing_def slots_def answered_def assigned_def)
  obtain err1 s1 where s1: "emit v (plain_event EventExperimentCompleted) s0 = (err1, s1)" by fastforce
  obtain err2 s2 where s2: "save v True s1 = (err2, s2)" by fastforce
  have part: "progress_part v old s1 = progress_part v old s0" using s1 by (metis part_emit snd_conv)
  have stop: "stoppable v old s1" using progressing_stoppable [OF s0(1)] unfolding stoppable_part [OF part] .
  then have "progress_part v old s2 = progress_part v old s1"
    using part_save [of v old s1 True] s2 by (simp add: stoppable_def)
  then have part2: "progress_part v old s2 = progress_part v old s0" using part by simp
  have d: "all_done v old (ac_report (fs_accumulator s2)) s2"
    using completed_all [OF s0] unfolding all_done_part [OF part2] .
  have "stoppable v old s2" using progressing_stoppable [OF s0(1)] unfolding stoppable_part [OF part2] .
  then show ?thesis
    using d stop by (auto simp: finish_def s0_def [symmetric] s1 s2 intro!: finish_with_ended split: option.split)
qed

lemma settle_progress:
  "config_ok (fv_config v) \<Longrightarrow> progressing v old done1 s \<Longrightarrow>
    (case settle v s of Inl out \<Rightarrow> ended v old out
     | Inr s' \<Rightarrow> progressing v old done1 s' \<and> waiting s' \<and> potential v s' = potential v s \<and>
         fs_completed s' < xc_runs (fv_config v))"
proof (induction v s rule: settle.induct)
  case (1 v s)
  show ?case
  proof (cases "fs_completed s \<ge> xc_runs (fv_config v)")
    case True
    then show ?thesis using finish_ended [OF "1.prems"(2)] by (subst settle.simps) simp
  next
    case go: False
    define s1 where "s1 = dispatch v s"
    have d: "progressing v old done1 s1" "potential v s1 = potential v s" "fs_completed s1 < xc_runs (fv_config v)"
      "fs_running s1 < xc_parallelism (fv_config v) \<longrightarrow> fs_rerun s1 = [] \<and>
        (fs_next_run s1 < xc_runs (fv_config v) \<longrightarrow> fs_ready s1 = [])"
      using dispatch_progress [OF "1.prems"(2)] go by (simp_all add: s1_def potential_def)
    show ?thesis
    proof (cases "needs_seed v s1")
      case True
      obtain err s2 where s2: "refill v s1 = (err, s2)" by fastforce
      then have part: "progress_part v old s2 = progress_part v old s1" by (metis refill_part snd_conv)
      then have p2: "progressing v old done1 s2" using d(1) progressing_part by blast
      show ?thesis
      proof (cases err)
        case None
        have "settle v s = settle v s2" using go True s2 None d(3)
          by (subst settle.simps) (simp add: s1_def [symmetric] Let_def)
        moreover have "potential v s2 = potential v s" using potential_part [OF part] d(2) by simp
        ultimately show ?thesis
          using "1.IH" [OF go s1_def _ True s2 [symmetric] None "1.prems"(1) p2] d(3) by (cases "settle v s2") simp_all
      next
        case (Some e)
        have "settle v s = Inl (stop_with_error v e s2)" using go True s2 Some d(3)
          by (subst settle.simps) (simp add: s1_def [symmetric] Let_def)
        then show ?thesis using p2 by (simp add: progressing_stoppable stop_ended)
      qed
    next
      case False
      then have "settle v s = Inr s1" using go d(3) by (subst settle.simps) (simp add: s1_def [symmetric] Let_def)
      then show ?thesis using d dispatched_waiting [OF d(1) "1.prems"(1) d(4) d(3) False] by simp
    qed
  qed
qed

lemma keys_update: "fst ` set (AList.update k x m) = insert k (fst ` set m)"
  by (induction m) auto

section \<open>What arrives\<close>

lemma delete_keys:
  "distinct (map fst m) \<Longrightarrow> map_of m i = Some t \<Longrightarrow>
     mset (map fst m) = add_mset i (mset (map fst (AList.delete i m))) \<and> length m = Suc (length (AList.delete i m))"
proof (induction m)
  case (Cons p m)
  obtain k x where p: "p = (k, x)" by (cases p)
  show ?case
  proof (cases "k = i")
    case True
    then have "AList.delete i (p # m) = m" using Cons.prems by (auto simp: p delete_id)
    then show ?thesis by (simp add: p True)
  next
    case False
    then show ?thesis using Cons by (simp add: p)
  qed
qed simp

lemma seed_threshold_ends:
  "0 \<le> interval \<Longrightarrow> interval = 0 \<longrightarrow> next_at = 0 \<Longrightarrow>
     \<exists>n d. seed_threshold interval per c next_at due = Some (n, d) \<and> (interval = 0 \<longrightarrow> n = 0)"
proof (induction interval per c next_at due rule: seed_threshold.induct)
  case (1 interval per c next_at due)
  show ?case
  proof (cases "next_at > 0 \<and> c \<ge> next_at")
    case True
    then have "interval \<noteq> 0" using "1.prems" by auto
    then show ?thesis using 1 True by (subst seed_threshold.simps) simp
  next
    case False
    then show ?thesis using "1.prems" by (subst seed_threshold.simps) auto
  qed
qed

text \<open>The state between the arrival of a run and its place in the report: the run \<open>i\<close> is counted as completed,
  but not yet by the report.\<close>

definition arrived :: "feedback_env \<Rightarrow> int list \<Rightarrow> int list \<Rightarrow> int \<Rightarrow> feedback_state \<Rightarrow> bool" where
  "arrived v old done1 i s \<longleftrightarrow> slots (fv_config v) (done1 @ [i]) s \<and> answered s \<and> \<not> entry_failed (fs_log s) \<and>
     ac_indices (fs_accumulator s) = set done1 \<and> rp_completed (ac_report (fs_accumulator s)) = int (length done1) \<and>
     (xc_random_seed_interval (fv_config v) = 0 \<longrightarrow> fs_next_seed_at s = 0) \<and>
     (fo_on_run_complete (fv_options v) = None \<or> done1 = old @ completions (fs_log s)) \<and> runs_counted v old (fs_log s)"

lemma arrived_part: "progress_part v old s = progress_part v old s' \<Longrightarrow> arrived v old done1 i s = arrived v old done1 i s'"
  by (simp add: progress_part_def arrived_def slots_def answered_def assigned_def)

lemma classify_report:
  "snd (classify run a) = a1 \<Longrightarrow> ac_report a1 = ac_report a \<and> ac_indices a1 = ac_indices a"
  by (auto simp: classify_def split: prod.splits)

lemma taken_progress:
  assumes p: "progressing v old done1 s" and config: "config_ok (fv_config v)"
    and task: "map_of (fs_in_flight s) i = Some task"
  shows "\<exists>run1 s1. take_run v task run0 s = Some (run1, s1) \<and> rn_index run1 = rn_index run0 \<and> arrived v old done1 i s1 \<and>
    fs_requests s1 = fs_requests s \<and> fs_completed s1 = fs_completed s + 1"
proof -
  let ?c = "fv_config v" and ?m = "fs_in_flight s"
  have slots: "slots ?c done1 s" using p by (simp add: progressing_def)
  have "(i, task) \<in> set ?m" using task by (rule map_of_SomeD)
  then have index: "sd_index task = i" using slots by (auto simp: slots_def list_all_iff)
  have "distinct (map fst ?m)" using slots_distinct [OF slots] by (simp add: assigned_def)
  note keys = delete_keys [OF this task]
  obtain n d where threshold: "seed_threshold (xc_random_seed_interval ?c) (xc_random_seeds_per_interval ?c)
      (fs_completed s + 1) (fs_next_seed_at s) (fs_seeds_due s) = Some (n, d)" "xc_random_seed_interval ?c = 0 \<longrightarrow> n = 0"
    using seed_threshold_ends p config by (metis progressing_def config_ok_def)
  obtain run1 a where classified: "classify run0 (fs_accumulator s) = (run1, a)" by fastforce
  have a: "ac_report a = ac_report (fs_accumulator s)" "ac_indices a = ac_indices (fs_accumulator s)"
    using classify_report [of run0 "fs_accumulator s" a] classified by simp_all
  define s1 where "s1 = s\<lparr>fs_running := fs_running s - 1, fs_in_flight := AList.delete i ?m, fs_completed := fs_completed s + 1,
     fs_next_seed_at := n, fs_seeds_due := d,
     fs_accumulator := a\<lparr>ac_report := count_candidate (cd_kind (sd_candidate task)) (ac_report a)\<rparr>\<rparr>"
  have take: "take_run v task run0 s = Some (run1, s1)"
    by (simp add: take_run_def threshold(1) classified s1_def index)
  have "list_all (\<lambda>(i, t). sd_index t = i) (AList.delete i ?m)"
    using slots set_delete_subset by (fastforce simp: slots_def list_all_iff)
  then have "slots ?c (done1 @ [i]) s1" using slots keys by (simp add: slots_def s1_def assigned_def)
  moreover have "rp_completed (count_candidate k r) = rp_completed r" for k r
    by (simp add: count_candidate_def split: candidate_kind.split)
  ultimately have "arrived v old done1 i s1"
    using p threshold(2) a by (simp add: arrived_def progressing_def s1_def answered_def)
  then show ?thesis using take classify_keeps [OF classified] by (auto simp: s1_def)
qed

text \<open>The checkpoint after a failed entry counts a run that its report does not.\<close>

lemma save_calls:
  assumes hook: "fo_on_checkpoint (fv_options v) = Some hook"
  shows "fs_log (snd (save v True s)) \<noteq> fs_log s"
  unfolding save_def hook option.case elapsed_millis_def Let_def
  by (subst accumulator_snapshot_split) (simp add: record_call_def)

lemma arrived_rejected:
  assumes a: "arrived v old done1 i s" and log: "fs_log s1 = fs_log s @ [(OnCorpusEntry e, Some x)]"
    and part: "fs_completed s1 = fs_completed s" "fs_accumulator s1 = fs_accumulator s"
  shows "ended v old (stop_with_error v cause s1)"
proof -
  define s2 where "s2 = snd (emit v ((plain_event EventExperimentCanceled)\<lparr>ev_error := err_text cause\<rparr>) s1)"
  have "progress_part v old s2 = progress_part v old s1" by (simp add: s2_def)
  then have s2: "fs_completed s2 = fs_completed s" "rp_completed (ac_report (fs_accumulator s2)) = int (length done1)"
    using a part by (simp_all add: progress_part_def arrived_def)
  have log2: "\<exists>l. fs_log s2 = fs_log s1 @ l \<and> checkpoints l = [] \<and> \<not> entry_failed l"
    by (auto simp: s2_def emit_def record_call_def Let_def split: option.split)
  have not_failed: "\<not> entry_failed (fs_log s)" using a by (simp add: arrived_def)
  have less: "rp_completed (ac_report (fs_accumulator s2)) \<noteq> fs_completed s2"
    using a s2 by (simp add: arrived_def slots_def)
  define s3 where "s3 = snd (save v True s2)"
  have "rejected v (fs_log s3)"
  proof (cases "fo_on_checkpoint (fv_options v)")
    case None
    then show ?thesis by (simp add: rejected_def)
  next
    case (Some hook)
    then have "fst (save v True s2) = None \<and> snd (save v True s2) = s2 \<longrightarrow> False"
      using save_calls [OF Some, of s2] by auto
    then obtain s4 ck where s4: "s3 = record_call (OnCheckpoint ck) (fst (save v True s2)) s4" "fs_log s4 = fs_log s2"
      "ck_completed ck = fs_completed s2" "rp_completed (ag_report (ck_aggregation ck)) = rp_completed (ac_report (fs_accumulator s2))"
      using save_shape [of v True s2 old] unfolding s3_def by blast
    have "\<not> checkpoint_ok ck (fv_config v) (fo_fingerprint (fv_options v))"
      using less s4(3,4) by (auto simp: checkpoint_ok_def snapshot_ok_def stored_counters_ok_def)
    then have "checkpoint_validate ck (fv_config v) (fo_fingerprint (fv_options v)) \<noteq> None"
      by (simp add: checkpoint_validate_None)
    then show ?thesis using s4(1,2) log2 log not_failed by (auto simp: rejected_def record_call_def late_checkpoints_append)
  qed
  moreover have "progress_part v old s3 = progress_part v old s1"
  proof -
    have failed: "entry_failed (fs_log s2)" using log2 log by (auto simp: entry_failed_def)
    then have "progress_part v old s3 = progress_part v old s2" unfolding s3_def by (intro part_save) (simp add: synced_def)
    then show ?thesis by (simp add: s2_def)
  qed
  then have "runs_counted v old (fs_log s3)" using a log by (simp add: progress_part_def arrived_def)
  ultimately show ?thesis
    by (simp add: stop_with_error_def Let_def s2_def [symmetric] s3_def [symmetric] finish_with_def elapsed_millis_def)
qed

lemma consider_progress:
  assumes a: "arrived v old done1 i s"
  shows "case consider_run v task x run s of Inl out \<Rightarrow> ended v old out
    | Inr (run1, s1) \<Rightarrow> rn_index run1 = rn_index run \<and> arrived v old done1 i s1 \<and> fs_completed s1 = fs_completed s \<and>
        length (fs_requests s1) \<le> Suc (length (fs_requests s))"
proof -
  have commit: "case commit_entry v e run1 s1 of Inl out \<Rightarrow> ended v old out
    | Inr (run2, s2) \<Rightarrow> rn_index run2 = rn_index run1 \<and> arrived v old done1 i s2 \<and> fs_completed s2 = fs_completed s1 \<and>
        length (fs_requests s2) \<le> Suc (length (fs_requests s1))"
    if s1: "arrived v old done1 i s1" for e run1 s1
  proof -
    define hooked where "hooked = (case fo_on_corpus_entry (fv_options v) of
              None \<Rightarrow> (None, s1)
            | Some hook \<Rightarrow> let err = hook (fs_log s1) e in (err, record_call (OnCorpusEntry e) err s1))"
    obtain err s2 where s2: "hooked = (err, s2)" by fastforce
    show ?thesis
    proof (cases err)
      case None
      then have part: "progress_part v old s2 = progress_part v old s1"
        using s2 by (auto simp: hooked_def Let_def split: option.splits)
      have arrived2: "arrived v old done1 i s2" using s1 unfolding arrived_part [OF part] .
      have "fs_completed s2 = fs_completed s1" "fs_requests s2 = fs_requests s1"
        using part by (simp_all add: progress_part_def)
      moreover from arrived2 have "arrived v old done1 i (request_mutations v e s2)"
        by (auto simp: arrived_def slots_def answered_def assigned_def request_mutations_def Let_def keys_update)
      ultimately show ?thesis
        by (simp add: commit_entry_def hooked_def [symmetric] s2 None) (simp add: request_mutations_def Let_def)
    next
      case (Some cause)
      then have log: "fs_log s2 = fs_log s1 @ [(OnCorpusEntry e, Some cause)]" "fs_completed s2 = fs_completed s1"
        "fs_accumulator s2 = fs_accumulator s1"
        using s2 by (auto simp: hooked_def Let_def record_call_def split: option.splits)
      show ?thesis
        using arrived_rejected [OF s1, of s2 e cause] arrived_rejected [OF s1, of "s2\<lparr>fs_corpus := k\<rparr>" e cause for k] log
        by (simp add: commit_entry_def hooked_def [symmetric] s2 Some split: sum.split)
    qed
  qed
  have moved: "arrived v old done1 i (s\<lparr>fs_corpus := k\<rparr>)" for k using a arrived_part [OF part_frame(4)] by simp
  have index: "rn_index (with_novelty e r) = rn_index r" for e r by (simp add: with_novelty_def Let_def)
  show ?thesis
  proof (cases "\<not> rn_succeeded run \<or> er_states (fe_result x) = []")
    case True
    then show ?thesis using a by (simp add: consider_run_def)
  next
    case go: False
    show ?thesis
    proof (cases "corpus_consider (Some (fs_corpus s)) (corpus_input_of v task x)")
      case (Inl e)
      then show ?thesis using a go by (simp add: consider_run_def index)
    next
      case (Inr found)
      obtain e retained k where found: "found = (e, retained, k)" by (cases found)
      show ?thesis
        using commit [OF moved, of "with_novelty e run" k e] moved [of k] go
        by (cases retained; cases "commit_entry v e (with_novelty e run) (s\<lparr>fs_corpus := k\<rparr>)")
          (auto simp: consider_run_def Let_def Inr found index)
    qed
  qed
qed

lemma add_run_progress:
  assumes "add_run run n t a = Inr a1"
  shows "ac_indices a1 = insert (rn_index run) (ac_indices a) \<and> rp_completed (ac_report a1) = rp_completed (ac_report a) + 1"
proof -
  have "rn_index run \<notin> ac_indices a" using assms by (auto simp: add_run_def split: if_splits)
  from add_run_shape [OF this, of n t] assms show ?thesis by (auto simp: unique_counts_def)
qed

lemma complete_progress:
  assumes a: "arrived v old done1 i s" and index: "rn_index run = i"
  shows "case complete_run v task x run s of Inl out \<Rightarrow> ended v old out
    | Inr s1 \<Rightarrow> progressing v old (done1 @ [i]) s1 \<and> fs_completed s1 = fs_completed s \<and> fs_requests s1 = fs_requests s"
proof -
  define t where "t = fs_offset s + fv_clock v (fs_reads s)"
  define s0 where "s0 = s\<lparr>fs_reads := Suc (fs_reads s)\<rparr>"
  have s0: "arrived v old done1 i s0" using a arrived_part [OF part_frame(2)] by (simp add: s0_def)
  have same: "fs_completed s0 = fs_completed s" "fs_requests s0 = fs_requests s" by (simp_all add: s0_def)
  show ?thesis
  proof (cases "add_run run (corpus_size s0) t (fs_accumulator s0)")
    case (Inl e)
    then have "i \<in> set done1" using s0 index by (auto simp: add_run_def arrived_def Let_def split: if_splits)
    then show ?thesis using slots_distinct [of "fv_config v" "done1 @ [i]" s0] s0 by (simp add: arrived_def)
  next
    case (Inr acc)
    define m where "m = \<lparr>cm_run = run, cm_candidate = sd_candidate task, cm_execution = x\<rparr>"
    define told where "told = (case fo_on_run_complete (fv_options v) of
                     None \<Rightarrow> (None, s0\<lparr>fs_accumulator := acc\<rparr>)
                   | Some hook \<Rightarrow> let err = hook (fs_log (s0\<lparr>fs_accumulator := acc\<rparr>)) m in
                       (err, record_call (OnRunComplete m) err (s0\<lparr>fs_accumulator := acc\<rparr>)))"
    define e where "e = (plain_event EventRunCompleted)\<lparr>ev_run_index := rn_index run,
                    ev_candidate := cd_id (sd_candidate task), ev_corpus := rn_corpus_id run\<rparr>"
    have unfolded: "complete_run v task x run s = unless_failed v told (\<lambda>s. unless_failed v (emit v e s)
        (\<lambda>s. unless_failed v (save v False s) Inr))"
      by (simp add: complete_run_def elapsed_millis_def t_def [symmetric] s0_def [symmetric] Inr)
        (simp only: told_def m_def e_def Let_def)
    have acc: "ac_indices acc = insert i (ac_indices (fs_accumulator s0))"
      "rp_completed (ac_report acc) = rp_completed (ac_report (fs_accumulator s0)) + 1"
      using add_run_progress [OF Inr] index by simp_all
    have told: "progressing v old (done1 @ [i]) (snd told)" "fs_completed (snd told) = fs_completed s"
      "fs_requests (snd told) = fs_requests s"
      using s0 acc same index
      by (auto simp: told_def Let_def progressing_def arrived_def slots_def answered_def assigned_def record_call_def m_def
          split: option.split)
    let ?P = "\<lambda>s1. progressing v old (done1 @ [i]) s1 \<and> fs_completed s1 = fs_completed s \<and> fs_requests s1 = fs_requests s"
    have keep: "?P s2" if "?P s1" "progress_part v old s2 = progress_part v old s1" for s1 s2
      using that progressing_part [OF that(2)] by (simp add: progress_part_def)
    have no_fail: "stoppable v old s1" if "?P s1" for s1 using that progressing_stoppable by blast
    show ?thesis
      unfolding unfolded
    proof (rule unless_failed_ended)
      show "stoppable v old (snd told)" using told progressing_stoppable by blast
      fix s1 assume "told = (None, s1)"
      then have p1: "?P s1" using told by simp
      have p2: "?P (snd (emit v e s1))" by (rule keep [OF p1]) simp
      show "case unless_failed v (emit v e s1) (\<lambda>s. unless_failed v (save v False s) Inr) of
          Inl out \<Rightarrow> ended v old out | Inr s1 \<Rightarrow> ?P s1"
      proof (rule unless_failed_ended)
        show "stoppable v old (snd (emit v e s1))" by (rule no_fail [OF p2])
        fix s2 assume "emit v e s1 = (None, s2)"
        then have p2: "?P s2" using p2 by simp
        have p3: "?P (snd (save v False s2))" by (rule keep [OF p2 part_save]) (use no_fail [OF p2] in \<open>simp add: stoppable_def\<close>)
        show "case unless_failed v (save v False s2) Inr of Inl out \<Rightarrow> ended v old out | Inr s1 \<Rightarrow> ?P s1"
        proof (rule unless_failed_ended)
          show "stoppable v old (snd (save v False s2))" by (rule no_fail [OF p3])
          fix s3 assume "save v False s2 = (None, s3)"
          then show "case Inr s3 of Inl out \<Rightarrow> ended v old out | Inr s1 \<Rightarrow> ?P s1" using p3 by simp
        qed
      qed
    qed
  qed
qed

lemma execution_progress:
  assumes p: "progressing v old done1 s" and config: "config_ok (fv_config v)"
    and task: "map_of (fs_in_flight s) i = Some task"
  shows "case handle_execution v task x err micros s of Inl out \<Rightarrow> ended v old out
    | Inr s1 \<Rightarrow> progressing v old (done1 @ [i]) s1 \<and> fs_completed s1 = fs_completed s + 1 \<and>
        length (fs_requests s1) \<le> Suc (length (fs_requests s))"
proof -
  let ?run = "feedback_run v task x err micros"
  obtain run1 s1 where take: "take_run v task ?run s = Some (run1, s1)" "rn_index run1 = rn_index ?run" "arrived v old done1 i s1"
    "fs_requests s1 = fs_requests s" "fs_completed s1 = fs_completed s + 1"
    using taken_progress [OF p config task] by blast
  have "(i, task) \<in> set (fs_in_flight s)" using task by (rule map_of_SomeD)
  then have "sd_index task = i" using p by (auto simp: progressing_def slots_def list_all_iff)
  then have index: "rn_index run1 = i" using take(2) by simp
  note weighed = consider_progress [OF take(3), where task = task and x = x and run = run1]
  show ?thesis
  proof (cases "consider_run v task x run1 s1")
    case (Inl out)
    then show ?thesis using weighed by (simp add: handle_execution_def take(1))
  next
    case (Inr q)
    obtain run2 s2 where q: "q = (run2, s2)" by (cases q)
    have s2: "rn_index run2 = i" "arrived v old done1 i s2" "fs_completed s2 = fs_completed s + 1"
      "length (fs_requests s2) \<le> Suc (length (fs_requests s))"
      using weighed index take(4,5) by (simp_all add: Inr q)
    show ?thesis
      using complete_progress [OF s2(2,1), of task x] s2(3,4)
      by (cases "complete_run v task x run2 s2") (simp_all add: handle_execution_def take(1) Inr q)
  qed
qed

lemma admit_mutation_part [simp]: "progress_part v old (admit_mutation v name e p s) = progress_part v old s"
proof -
  have "progress_part v old (update_report count_discarded s) = progress_part v old s"
    by (rule part_update_report) (simp add: count_discarded_def)
  then show ?thesis unfolding admit_mutation_shape by (simp add: progress_part_def)
qed

lemma fold_admit_part [simp]: "progress_part v old (fold (admit_mutation v name e) ps s) = progress_part v old s"
  by (induction ps arbitrary: s) simp_all

lemma mutation_progress:
  assumes p: "progressing v old done1 s" and q: "fs_requests s = q # qs"
  shows "case handle_mutation v q plans err s of Inl out \<Rightarrow> ended v old out
    | Inr s1 \<Rightarrow> progressing v old done1 s1 \<and> fs_completed s1 = fs_completed s \<and> fs_requests s1 = qs"
proof -
  define s0 where "s0 = s\<lparr>fs_requests := qs, fs_pending := AList.delete (en_id (mr_entry q)) (fs_pending s)\<rparr>"
  let ?P = "\<lambda>s1. progressing v old done1 s1 \<and> fs_completed s1 = fs_completed s \<and> fs_requests s1 = qs"
  have "fst ` set (AList.delete k m) = fst ` set m - {k}" for k and m :: "(string \<times> mutation_request) list"
    by (induction m) auto
  then have s0: "?P s0" using p by (auto simp: s0_def progressing_def slots_def answered_def assigned_def q)
  have keep: "?P s2" if "progress_part v old s2 = progress_part v old s0" for s2
    using s0 that progressing_part [OF that] by (simp add: progress_part_def)
  have told: "case unless_failed v (emit v e s1) Inr of Inl out \<Rightarrow> ended v old out | Inr s1 \<Rightarrow> ?P s1"
    if "progress_part v old s1 = progress_part v old s0" for e s1
  proof (rule unless_failed_ended)
    have p1: "?P (snd (emit v e s1))" using that by (intro keep) simp
    then show "stoppable v old (snd (emit v e s1))" using progressing_stoppable by blast
    fix s2 assume "emit v e s1 = (None, s2)"
    then show "case Inr s2 of Inl out \<Rightarrow> ended v old out | Inr s1 \<Rightarrow> ?P s1" using p1 by simp
  qed
  show ?thesis
    unfolding handle_mutation_def Let_def q list.sel s0_def [symmetric]
    by (cases err) (simp_all only: option.case, (intro told, simp add: part_update_report)+)
qed

section \<open>The loop\<close>

text \<open>\<open>waits v old s\<close>: the loop stands in \<open>select\<close>.\<close>

definition waits :: "feedback_env \<Rightarrow> int list \<Rightarrow> feedback_state \<Rightarrow> bool" where
  "waits v old s \<longleftrightarrow> (\<exists>done1. progressing v old done1 s) \<and> waiting s \<and> fs_completed s < xc_runs (fv_config v)"

text \<open>The number of requests never grows faster than the number of completed runs.\<close>

definition request_lead :: "feedback_state \<Rightarrow> int" where
  "request_lead s = int (length (fs_requests s)) - fs_completed s"

lemma handle_progress:
  assumes w: "waits v old s" and config: "config_ok (fv_config v)" and possible: "possible s a"
  shows "case handle v a s of Inl out \<Rightarrow> ended v old out
    | Inr s1 \<Rightarrow> (\<exists>done1. progressing v old done1 s1) \<and> potential v s1 < potential v s \<and> request_lead s1 \<le> request_lead s"
proof -
  obtain done1 where p: "progressing v old done1 s" using w by (auto simp: waits_def)
  have runs: "fs_completed s < xc_runs (fv_config v)" using w by (simp add: waits_def)
  show ?thesis
  proof (cases a)
    case (ContextDone e)
    then show ?thesis using p by (simp add: progressing_stoppable stop_ended)
  next
    case (ExecutionArrives i x err micros)
    then obtain task where task: "map_of (fs_in_flight s) i = Some task" using possible by auto
    show ?thesis
      using execution_progress [OF p config task, of x err micros] runs
      by (cases "handle_execution v task x err micros s")
        (auto simp: ExecutionArrives task potential_def request_lead_def)
  next
    case (MutationArrives plans err)
    then obtain q qs where q: "fs_requests s = q # qs" using possible by (cases "fs_requests s") auto
    show ?thesis
      using mutation_progress [OF p q, of plans err] runs
      by (cases "handle_mutation v q plans err s") (auto simp: MutationArrives q potential_def request_lead_def)
  qed
qed

lemma settle_waits:
  assumes "config_ok (fv_config v)" and "progressing v old done1 s"
  shows "case settle v s of Inl out \<Rightarrow> ended v old out
    | Inr s1 \<Rightarrow> waits v old s1 \<and> potential v s1 = potential v s \<and> request_lead s1 = request_lead s"
proof (cases "settle v s")
  case (Inr s1)
  have "fs_completed s1 = int (length done1)" "fs_completed s = int (length done1)"
    using settle_progress [OF assms] assms by (simp_all add: Inr progressing_def slots_def)
  then show ?thesis using settle_progress [OF assms] by (auto simp: Inr waits_def potential_def request_lead_def)
qed (use settle_progress [OF assms] in simp)

lemma drive_progress:
  assumes config: "config_ok (fv_config v)"
  shows "waits v old s \<Longrightarrow> drive v arrivals s = Some r \<Longrightarrow>
    (case r of Inl out \<Rightarrow> ended v old out
     | Inr s1 \<Rightarrow> waits v old s1 \<and> potential v s1 + length arrivals \<le> potential v s \<and> request_lead s1 \<le> request_lead s)"
proof (induction arrivals arbitrary: s)
  case (Cons a arrivals)
  have possible: "possible s a" using Cons.prems(2) by (simp split: if_splits)
  note handled = handle_progress [OF Cons.prems(1) config possible]
  show ?case
  proof (cases "handle v a s")
    case (Inl out)
    then have "r = Inl out" using Cons.prems(2) possible by simp
    then show ?thesis using handled by (simp add: Inl)
  next
    case (Inr s1)
    then obtain done1 where s1: "progressing v old done1 s1" "potential v s1 < potential v s" "request_lead s1 \<le> request_lead s"
      using handled by auto
    note settled = settle_waits [OF config s1(1)]
    show ?thesis
    proof (cases "settle v s1")
      case (Inl out)
      then have "r = Inl out" using Cons.prems(2) possible Inr by simp
      then show ?thesis using settled by (simp add: Inl)
    next
      case Inr2: (Inr s2)
      have "drive v arrivals s2 = Some r" using Cons.prems(2) possible by (simp add: Inr Inr2)
      from Cons.IH [OF _ this] settled s1(2,3) show ?thesis
        by (cases r) (auto simp: Inr2)
    qed
  qed
qed auto

section \<open>The start\<close>

lemma restore_pending_keys:
  "restore_pending k ps m = Inr m' \<Longrightarrow> list_all (\<lambda>(i, q). i = en_id (mr_entry q)) m \<Longrightarrow>
     list_all (\<lambda>(i, q). i = en_id (mr_entry q)) m' \<and> length m' \<le> length m + length ps"
proof (induction ps arbitrary: m)
  case (Cons p ps)
  obtain e where e: "corpus_lookup (Some k) (pm_entry p) = Some e"
    using Cons.prems(1) by (auto split: option.splits)
  then have id: "en_id e = pm_entry p" by (auto simp: corpus_lookup_def find_Some_iff)
  let ?m = "AList.update (pm_entry p) \<lparr>mr_entry = e, mr_count = pm_count p, mr_seed = pm_seed p\<rparr> m"
  have size: "length (AList.update i y m) \<le> Suc (length m)" for i y by (induction m) auto
  have keys: "list_all (\<lambda>(i, q). i = en_id (mr_entry q)) (AList.update i y m)" if "i = en_id (mr_entry y)" for i y
    using Cons.prems(2) that by (induction m) auto
  have "restore_pending k ps ?m = Inr m'" using Cons.prems(1) e by simp
  moreover have "list_all (\<lambda>(i, q). i = en_id (mr_entry q)) ?m" by (rule keys) (simp add: id)
  ultimately show ?case using Cons.IH [of ?m] size [of "pm_entry p"] by (fastforce intro: order_trans)
qed simp

text \<open>The indices already completed, and the number of arrivals a call can need.\<close>

definition old_indices :: "feedback_options \<Rightarrow> int list" where
  "old_indices o1 = (case fo_resume o1 of None \<Rightarrow> [] | Some ck \<Rightarrow> ag_indices (ck_aggregation ck))"

definition arrivals_needed :: "feedback_env \<Rightarrow> int" where
  "arrivals_needed v = (case fo_resume (fv_options v) of None \<Rightarrow> 2 * xc_runs (fv_config v)
     | Some ck \<Rightarrow> 2 * (xc_runs (fv_config v) - ck_completed ck) + int (length (ck_pending ck)))"

definition requests_ahead :: "feedback_env \<Rightarrow> int" where
  "requests_ahead v = (case fo_resume (fv_options v) of None \<Rightarrow> 0
     | Some ck \<Rightarrow> int (length (ck_pending ck)) - ck_completed ck)"

text \<open>Requests not yet handed to the worker: those of a checkpoint wait until the first checkpoint is saved.\<close>

definition starting :: "feedback_env \<Rightarrow> int list \<Rightarrow> feedback_state \<Rightarrow> bool" where
  "starting v done1 s \<longleftrightarrow> slots (fv_config v) done1 s \<and> \<not> entry_failed (fs_log s) \<and> completions (fs_log s) = [] \<and>
     runs_counted v done1 (fs_log s) \<and>
     ac_indices (fs_accumulator s) = set done1 \<and> rp_completed (ac_report (fs_accumulator s)) = int (length done1) \<and>
     (xc_random_seed_interval (fv_config v) = 0 \<longrightarrow> fs_next_seed_at s = 0) \<and>
     list_all (\<lambda>(i, q). i = en_id (mr_entry q)) (fs_pending s) \<and>
     2 * (xc_runs (fv_config v) - fs_completed s) + int (length (fs_pending s)) \<le> arrivals_needed v \<and>
     int (length (fs_pending s)) - fs_completed s \<le> requests_ahead v"

lemma starting_part: "progress_part v done1 s = progress_part v done1 s' \<Longrightarrow> starting v done1 s = starting v done1 s'"
  by (simp add: progress_part_def starting_def slots_def assigned_def)

lemma starting_progress:
  assumes "starting v (old_indices (fv_options v)) s"
  shows "progressing v (old_indices (fv_options v)) (old_indices (fv_options v)) (s\<lparr>fs_requests := pending_values (fs_pending s)\<rparr>)"
proof -
  let ?s = "s\<lparr>fs_requests := pending_values (fs_pending s)\<rparr>"
  have "i \<in> (\<lambda>q. en_id (mr_entry q)) ` snd ` set m" if "list_all (\<lambda>(i, q). i = en_id (mr_entry q)) m" "i \<in> fst ` set m"
    for i and m :: "(string \<times> mutation_request) list"
    using that by (induction m) auto
  then have "answered ?s" using assms by (auto simp: answered_def starting_def)
  then show ?thesis using assms by (simp add: starting_def progressing_def slots_def assigned_def)
qed

lemma seeded_starting:
  assumes config: "config_ok (fv_config v)" and fresh: "fo_resume (fv_options v) = None"
  shows "case seeded_state v (fresh_state (fv_config v)) of Inl out \<Rightarrow> ended v (old_indices (fv_options v)) out
    | Inr s \<Rightarrow> starting v (old_indices (fv_options v)) s"
proof -
  let ?s0 = "fresh_state (fv_config v)"
  obtain generated s1 where call: "(if xc_initial_population (fv_config v) \<le> 0 then (None, ?s0)
      else call_initializer v (xc_initial_population (fv_config v)) (xc_base_seed (fv_config v)) ?s0) = (generated, s1)"
    by fastforce
  then have part: "progress_part v [] s1 = progress_part v [] ?s0"
    by (cases "xc_initial_population (fv_config v) \<le> 0") (auto, metis part_initializer snd_conv)
  have start: "starting v [] ?s0"
    using config fresh by (simp add: starting_def slots_def fresh_state_def assigned_def new_accumulator_def
        new_feedback_report_def new_report_def arrivals_needed_def requests_ahead_def config_ok_def)
  have old: "old_indices (fv_options v) = []" using fresh by (simp add: old_indices_def)
  have s1: "starting v [] s1" using start unfolding starting_part [OF part] .
  have go: "starting v [] (s1\<lparr>fs_ready := cs, fs_next_candidate := n\<rparr>)" for cs n
    using s1 by (simp add: starting_def slots_def assigned_def)
  have "rejected v (fs_log s1)" "runs_counted v [] (fs_log s1)" using s1 by (simp_all add: starting_def rejected_def)
  then show ?thesis
    using go call by (auto simp: seeded_state_def Let_def old refuse_def split: sum.split prod.split)
qed

lemma resumed_starting:
  assumes resume: "fo_resume (fv_options v) = Some ck"
    and run: "resume_state v ck (fresh_state (fv_config v)) = r" and config: "config_ok (fv_config v)"
  shows "case r of Inl out \<Rightarrow> ended v (old_indices (fv_options v)) out | Inr s \<Rightarrow> starting v (old_indices (fv_options v)) s"
proof (cases "checkpoint_validate ck (fv_config v) (fo_fingerprint (fv_options v))")
  case (Some e)
  then have "r = Inl (refuse (fs_accumulator (fresh_state (fv_config v))) (corpus_size (fresh_state (fv_config v)))
      (corpus_checkpoint_of (Some (fs_corpus (fresh_state (fv_config v))))) e (fresh_state (fv_config v)))"
    using run by (simp add: resume_state_def)
  then show ?thesis by (simp add: refuse_def rejected_def fresh_state_def)
next
  case None
  let ?c = "fv_config v" and ?done = "ag_indices (ck_aggregation ck)"
  have ok: "checkpoint_ok ck ?c (fo_fingerprint (fv_options v))" using None by (simp add: checkpoint_validate_None)
  show ?thesis
  proof (cases r)
    case (Inl out)
    then show ?thesis using run None
      by (auto simp: resume_state_def refuse_def Let_def rejected_def fresh_state_def split: sum.splits)
  next
    case (Inr s)
    obtain k m where m: "restore_pending k (ck_pending ck) [] = Inr m"
      and s: "s = (fresh_state ?c)\<lparr>fs_accumulator := restore_accumulator (ck_aggregation ck), fs_corpus := k,
          fs_ready := ck_ready ck, fs_rerun := ck_in_flight ck, fs_pending := m, fs_next_candidate := ck_next_candidate ck,
          fs_next_run := ck_next_run ck, fs_completed := ck_completed ck, fs_next_seed_at := ck_next_seed_at ck,
          fs_seeds_due := ck_seeds_due ck, fs_events := ck_events ck, fs_offset := ck_elapsed ck\<rparr>"
      using run None Inr by (auto simp: resume_state_def Let_def split: sum.splits)
    have schedule: "distinct (?done @ map sd_index (ck_in_flight ck))"
      "set ?done \<union> sd_index ` set (ck_in_flight ck) = {0..<ck_next_run ck}"
      using ok by (simp_all add: checkpoint_ok_def schedule_ok_def)
    have "set (?done @ map sd_index (ck_in_flight ck)) = set [0..ck_next_run ck - 1]" using schedule(2) by auto
    then have perm: "mset (?done @ map sd_index (ck_in_flight ck)) = mset [0..ck_next_run ck - 1]"
      using schedule(1) set_eq_iff_mset_eq_distinct distinct_upto by blast
    have counters: "0 \<le> ck_completed ck" "ck_completed ck \<le> ck_next_run ck" "ck_next_run ck \<le> xc_runs ?c"
      "xc_random_seed_interval ?c = 0 \<longrightarrow> ck_next_seed_at ck = 0"
      using ok by (auto simp: checkpoint_ok_def counters_ok_def split: if_splits)
    have report: "rp_completed (ag_report (ck_aggregation ck)) = ck_completed ck" "int (length ?done) = ck_completed ck"
      using ok by (simp_all add: checkpoint_ok_def snapshot_ok_def stored_counters_ok_def)
    have pending: "list_all (\<lambda>(i, q). i = en_id (mr_entry q)) m" "length m \<le> length (ck_pending ck)"
      using restore_pending_keys [OF m] by simp_all
    have "0 \<le> xc_parallelism ?c" using config by (simp add: config_ok_def)
    then have "starting v ?done s"
      using perm counters report pending
      by (simp add: starting_def s slots_def assigned_def fresh_state_def restore_accumulator_def arrivals_needed_def
          requests_ahead_def resume)
    then show ?thesis by (simp add: Inr old_indices_def resume)
  qed
qed

lemma begin_progress:
  assumes config: "config_ok (fv_config v)"
  shows "case begin_feedback v of Inl out \<Rightarrow> ended v (old_indices (fv_options v)) out
    | Inr s \<Rightarrow> waits v (old_indices (fv_options v)) s \<and> int (potential v s) \<le> arrivals_needed v \<and> request_lead s \<le> requests_ahead v"
proof -
  let ?old = "old_indices (fv_options v)"
  define started where "started = (case fo_resume (fv_options v) of Some c \<Rightarrow> resume_state v c (fresh_state (fv_config v))
      | None \<Rightarrow> seeded_state v (fresh_state (fv_config v)))"
  define e where "e = plain_event (if fo_resume (fv_options v) \<noteq> None then EventExperimentResumed else EventExperimentStarted)"
  have started: "case started of Inl out \<Rightarrow> ended v ?old out | Inr s \<Rightarrow> starting v ?old s"
    using seeded_starting [OF config] resumed_starting [OF _ refl config]
    by (cases "fo_resume (fv_options v)") (simp_all add: started_def)
  show ?thesis
  proof (cases started)
    case (Inl out)
    then show ?thesis using started by (simp add: begin_feedback_def Let_def started_def [symmetric])
  next
    case (Inr s0)
    define s where "s = peaked s0"
    have "progress_part v ?old s = progress_part v ?old s0" unfolding s_def peaked_shape by (rule part_update_report) simp
    from starting_part [OF this] have s: "starting v ?old s" using started by (simp add: Inr)
    have step: "starting v ?old s2" if "starting v ?old s1" "progress_part v ?old s2 = progress_part v ?old s1" for s1 s2
      using that(1) unfolding starting_part [OF that(2)] .
    have no_fail: "stoppable v ?old s1" if "starting v ?old s1" for s1
      using progressing_stoppable [OF starting_progress [OF that]] by (auto simp: stoppable_def synced_def)
    have e1: "starting v ?old (snd (emit v e s))" by (rule step [OF s]) simp
    let ?first = "\<lambda>s. settle v (s\<lparr>fs_requests := pending_values (fs_pending s)\<rparr>)"
    let ?P = "\<lambda>s1. waits v ?old s1 \<and> int (potential v s1) \<le> arrivals_needed v \<and> request_lead s1 \<le> requests_ahead v"
    have settled: "case ?first s1 of Inl out \<Rightarrow> ended v ?old out | Inr s2 \<Rightarrow> ?P s2" if s1: "starting v ?old s1" for s1
    proof -
      let ?s = "s1\<lparr>fs_requests := pending_values (fs_pending s1)\<rparr>"
      have "fs_completed s1 \<le> xc_runs (fv_config v)"
      proof -
        have "mset (?old @ assigned s1) = mset [0..fs_next_run s1 - 1]" using s1 by (simp add: starting_def slots_def)
        then have "length (?old @ assigned s1) = length [0..fs_next_run s1 - 1]" by (rule mset_eq_length)
        moreover have "0 \<le> fs_next_run s1" "fs_next_run s1 \<le> xc_runs (fv_config v)" "int (length ?old) = fs_completed s1"
          using s1 by (simp_all add: starting_def slots_def)
        ultimately show ?thesis by simp
      qed
      then have "int (potential v ?s) \<le> arrivals_needed v" "request_lead ?s \<le> requests_ahead v"
        using s1 by (simp_all add: starting_def potential_def request_lead_def pending_values_def)
      then show ?thesis
        using settle_waits [OF config starting_progress [OF s1]] by (cases "settle v ?s") simp_all
    qed
    have "case unless_failed v (emit v e s) (\<lambda>s. unless_failed v (save v True s) ?first) of
        Inl out \<Rightarrow> ended v ?old out | Inr s2 \<Rightarrow> ?P s2"
    proof (rule unless_failed_ended)
      show "stoppable v ?old (snd (emit v e s))" by (rule no_fail [OF e1])
      fix s1 assume "emit v e s = (None, s1)"
      then have s1: "starting v ?old s1" using e1 by simp
      have saved: "starting v ?old (snd (save v True s1))" by (rule step [OF s1 part_save]) (use no_fail [OF s1] in \<open>simp add: stoppable_def\<close>)
      show "case unless_failed v (save v True s1) ?first of Inl out \<Rightarrow> ended v ?old out | Inr s2 \<Rightarrow> ?P s2"
      proof (rule unless_failed_ended)
        show "stoppable v ?old (snd (save v True s1))" by (rule no_fail [OF saved])
        fix s2 assume "save v True s1 = (None, s2)"
        then have "starting v ?old s2" using saved by simp
        then show "case ?first s2 of Inl out \<Rightarrow> ended v ?old out | Inr s2 \<Rightarrow> ?P s2" by (rule settled)
      qed
    qed
    then show ?thesis
      unfolding begin_feedback_def Let_def started_def [symmetric] e_def [symmetric] Inr sum.case s_def [symmetric] .
  qed
qed

text \<open>The whole call.\<close>

lemma run_progress:
  assumes config: "config_ok (fv_config v)" and run: "run_feedback (Some v) True arrivals = Some r"
  shows "case r of Inl out \<Rightarrow> ended v (old_indices (fv_options v)) out
    | Inr s \<Rightarrow> waiting s \<and> int (length (fs_in_flight s)) \<le> xc_parallelism (fv_config v) \<and>
        int (length arrivals) < arrivals_needed v \<and> request_lead s \<le> requests_ahead v \<and> fs_completed s < xc_runs (fv_config v) \<and>
        runs_counted v (old_indices (fv_options v)) (fs_log s)"
proof (cases "fo_mutator (fv_options v) = None")
  case True
  then show ?thesis using run by (auto simp: run_feedback_def Let_def rejected_def fresh_state_def)
next
  case False
  define w where "w = v\<lparr>fv_options := option_defaults (fv_options v)\<rparr>"
  have keeps: "fo_on_checkpoint (option_defaults o1) = fo_on_checkpoint o1"
    "fo_on_run_complete (option_defaults o1) = fo_on_run_complete o1" for o1 by (simp_all add: option_defaults_def Let_def)
  have same: "ended w old out = ended v old out" for old out
    by (cases out) (simp_all add: w_def all_done_def rejected_def runs_counted_def keeps)
  have w: "config_ok (fv_config w)" "old_indices (fv_options w) = old_indices (fv_options v)"
    "arrivals_needed w = arrivals_needed v" "requests_ahead w = requests_ahead v" "fv_config w = fv_config v"
    using config
    by (simp_all add: w_def old_indices_def arrivals_needed_def requests_ahead_def split: option.split)
  have start: "run_feedback (Some v) True arrivals = (case begin_feedback w of Inl out \<Rightarrow> Some (Inl out) | Inr s \<Rightarrow> drive w arrivals s)"
    using False by (simp add: run_feedback_def Let_def w_def [symmetric] del: not_None_eq)
  note begun = begin_progress [OF w(1)]
  show ?thesis
  proof (cases "begin_feedback w")
    case (Inl out)
    then have "r = Inl out" using run by (simp add: start)
    then show ?thesis using begun by (simp add: Inl w same)
  next
    case (Inr s1)
    then have "drive w arrivals s1 = Some r" using run by (simp add: start)
    moreover have s1: "waits w (old_indices (fv_options v)) s1" "int (potential w s1) \<le> arrivals_needed v"
      "request_lead s1 \<le> requests_ahead v"
      using begun by (simp_all add: Inr w)
    ultimately have driven: "case r of Inl out \<Rightarrow> ended w (old_indices (fv_options v)) out
     | Inr s2 \<Rightarrow> waits w (old_indices (fv_options v)) s2 \<and> potential w s2 + length arrivals \<le> potential w s1 \<and>
         request_lead s2 \<le> request_lead s1"
      using drive_progress [OF w(1)] by blast
    show ?thesis
    proof (cases r)
      case Inr2: (Inr s2)
      have s2: "waits w (old_indices (fv_options v)) s2" "potential w s2 + length arrivals \<le> potential w s1"
        "request_lead s2 \<le> request_lead s1"
        using driven by (simp_all add: Inr2)
      have "0 < potential w s2" using s2(1) by (simp add: waits_def potential_def)
      then have "int (length arrivals) < arrivals_needed v" using s2(2) s1(2) by linarith
      moreover have "runs_counted v (old_indices (fv_options v)) (fs_log s2)"
        using s2(1) by (auto simp: waits_def progressing_def w_def runs_counted_def keeps)
      ultimately show ?thesis
        using s2(1,3) s1(3) by (auto simp: Inr2 waits_def w progressing_def slots_def)
    qed (use driven same in simp)
  qed
qed
lemma run_counted:
  assumes "config_ok (fv_config v)" and "fo_on_run_complete (fv_options v) \<noteq> None"
    and "run_feedback (Some v) True arrivals = Some r" and "state_of r = Some s"
  shows "counted_points (old_indices (fv_options v)) (fs_log s)"
  using run_progress [OF assms(1,3)] assms(2,4) by (cases r rule: state_of.cases) (auto simp: runs_counted_def)

section \<open>The claims\<close>

lemma new_config: "experiment_new c0 = Inr c \<Longrightarrow> config_ok (fv_config (v\<lparr>fv_config := c\<rparr>))"
  using experiment_new_ok by simp

text \<open>C6: the feedback loop never gets stuck and never goes on for ever: with a configuration that \<open>New\<close>
  accepts, whatever hooks, initializer, executions, mutator and checkpoint, a call that has not returned waits
  for the result of a run in flight or for the answer to a mutation request, has at most as many runs in
  flight as workers, and has seen fewer than \<open>arrivals_needed\<close> arrivals, twice the number of runs for a call
  that starts anew; such a call never has more requests outstanding than its channel holds, so that
  sending one does not block.\<close>
theorem feedback_always_gets_on:
  "case experiment_new c0 of
     Inl _ \<Rightarrow> True
   | Inr c \<Rightarrow>
       (case run_feedback (Some (v\<lparr>fv_config := c\<rparr>)) True arrivals of
          Some (Inl Diverges) \<Rightarrow> False
        | Some (Inr s) \<Rightarrow>
            0 < length (fs_in_flight s) + length (fs_requests s) \<and>
            int (length (fs_in_flight s)) \<le> xc_parallelism c \<and>
            int (length arrivals) < arrivals_needed (v\<lparr>fv_config := c\<rparr>) \<and>
            (if fo_resume (fv_options v) = None
             then arrivals_needed (v\<lparr>fv_config := c\<rparr>) = 2 * xc_runs c \<and> int (length (fs_requests s)) \<le> xc_runs c else True)
        | _ \<Rightarrow> True)"
proof (cases "experiment_new c0")
  case (Inr c)
  show ?thesis
  proof (cases "run_feedback (Some (v\<lparr>fv_config := c\<rparr>)) True arrivals")
    case (Some r)
    show ?thesis
      using run_progress [OF new_config [OF Inr, of v] Some]
      by (auto simp: Inr Some waiting_def request_lead_def requests_ahead_def arrivals_needed_def
          split: sum.split outcome.split)
  qed (simp add: Inr)
qed simp

text \<open>C7: every run exactly once: a call that returns without an error, fresh or resumed, has completed all
  runs, and the indices reported to \<open>OnRunComplete\<close>, together with those completed before, are the indices
  from 0 to \<open>Runs - 1\<close>, each exactly once.\<close>
theorem feedback_completes_every_run_once:
  "case experiment_new c0 of
     Inl _ \<Rightarrow> True
   | Inr c \<Rightarrow>
       (case run_feedback (Some (v\<lparr>fv_config := c, fv_options := o1\<lparr>fo_on_run_complete := Some hook\<rparr>\<rparr>)) True arrivals of
          Some (Inl (Returned r p None s)) \<Rightarrow>
            rp_completed r = xc_runs c \<and>
            mset (old_indices o1 @ completions (fs_log s)) = mset [0..xc_runs c - 1]
        | _ \<Rightarrow> True)"
proof (cases "experiment_new c0")
  case (Inr c)
  let ?v = "v\<lparr>fv_config := c, fv_options := o1\<lparr>fo_on_run_complete := Some hook\<rparr>\<rparr>"
  have config: "config_ok (fv_config ?v)" using experiment_new_ok [OF Inr] by simp
  have old: "old_indices (o1\<lparr>fo_on_run_complete := Some hook\<rparr>) = old_indices o1" by (simp add: old_indices_def)
  show ?thesis
  proof (cases "run_feedback (Some ?v) True arrivals")
    case (Some r)
    show ?thesis
      using run_progress [OF config Some]
      by (cases r) (auto simp: Inr Some all_done_def old split: outcome.split option.split)
  qed (simp add: Inr)
qed simp

text \<open>C23: after an entry of the corpus could not be stored, the call hands out exactly one more checkpoint, and
  it is one that no call accepts: the run is counted as completed, but the report does not have it. A
  store that keeps only the last checkpoint has then lost the experiment.\<close>
theorem checkpoint_after_failed_entry_rejected:
  "case experiment_new c0 of
     Inl _ \<Rightarrow> True
   | Inr c \<Rightarrow>
       (case run_feedback (Some (v\<lparr>fv_config := c, fv_options := o1\<lparr>fo_on_checkpoint := Some hook\<rparr>\<rparr>)) True arrivals of
          Some (Inl (Returned r p err s)) \<Rightarrow>
            (if entry_failed (fs_log s)
             then \<exists>ck. late_checkpoints (fs_log s) = [ck] \<and> checkpoint_validate ck c (fo_fingerprint o1) \<noteq> None
             else True)
        | _ \<Rightarrow> True)"
proof (cases "experiment_new c0")
  case (Inr c)
  let ?v = "v\<lparr>fv_config := c, fv_options := o1\<lparr>fo_on_checkpoint := Some hook\<rparr>\<rparr>"
  have config: "config_ok (fv_config ?v)" using experiment_new_ok [OF Inr] by simp
  show ?thesis
  proof (cases "run_feedback (Some ?v) True arrivals")
    case (Some r)
    show ?thesis
      using run_progress [OF config Some]
      by (cases r) (auto simp: Inr Some rejected_def split: outcome.split)
  qed (simp add: Inr)
qed simp

end
