(* ===== verification/Experiment_Store.thy ===== *)
theory Experiment_Store
  imports Journal Feedback_Progress
begin

text \<open>
  cmd/modelfuzz-ng/experiment_store.go: the files of a feedback experiment, how a call of \<open>RunFeedback\<close> writes
  them through its hooks, and how they are brought back to the last checkpoint before the experiment goes on.
  Modelled are the four files that a resumed experiment is made of. The artifacts of single runs and the
  statistics of the language model are further files that resuming does not need. The JSON form of a
  record (\<open>encoding/json\<close>) is a parameter.
\<close>

section \<open>The files\<close>

record disk =
  dk_runs :: string
  dk_corpus :: string
  dk_progress :: string
  dk_checkpoint :: "string option"

definition empty_disk :: disk where
  "empty_disk = \<lparr>dk_runs = [], dk_corpus = [], dk_progress = [], dk_checkpoint = None\<rparr>"

text \<open>The encodings of the records and what they decode to.\<close>

record codec =
  cx_run :: "run \<Rightarrow> string"
  cx_entry :: "corpus_entry \<Rightarrow> string"
  cx_event :: "progress_event \<Rightarrow> string"
  cx_checkpoint :: "checkpoint \<Rightarrow> string"
  cx_read_entry :: "string \<Rightarrow> go_error + corpus_entry"
  cx_read_event :: "string \<Rightarrow> go_error + progress_event"
  cx_read_checkpoint :: "string \<Rightarrow> go_error + checkpoint"

record store =
  st_entries :: "corpus_entry list"
  st_last_event :: u64

section \<open>Opening the store\<close>

text \<open>\<open>openExperimentStore\<close>, with the numbers of records a checkpoint says are committed. Opening a journal
  repairs its last line. The command line puts a prefix before the text of an error; it is left out.\<close>

definition open_store :: "codec \<Rightarrow> int \<Rightarrow> int \<Rightarrow> disk \<Rightarrow> (go_error + store) \<times> disk" where
  "open_store x summaries entries d0 =
     (case keep_json_lines ''runs.jsonl'' summaries (dk_runs d0) of
        (Some e, content) \<Rightarrow> (Inl e, d0\<lparr>dk_runs := content\<rparr>)
      | (None, content) \<Rightarrow>
          let d = d0\<lparr>dk_runs := repair_partial_line content\<rparr> in
          case keep_json_lines ''corpus.jsonl'' entries (dk_corpus d) of
            (Some e, content) \<Rightarrow> (Inl e, d\<lparr>dk_corpus := content\<rparr>)
          | (None, content) \<Rightarrow>
              (case read_json_lines (cx_read_entry x) ''corpus.jsonl'' entries content of
                 Inl e \<Rightarrow> (Inl e, d\<lparr>dk_corpus := content\<rparr>)
               | Inr es \<Rightarrow>
                   let d = d\<lparr>dk_corpus := repair_partial_line content, dk_progress := repair_partial_line (dk_progress d)\<rparr> in
                   case read_last_json_line (cx_read_event x) (dk_progress d) of
                     None \<Rightarrow> (Inr \<lparr>st_entries = es, st_last_event = 0\<rparr>, d)
                   | Some (Inl e) \<Rightarrow> (Inl e, d)
                   | Some (Inr ev) \<Rightarrow> (Inr \<lparr>st_entries = es, st_last_event = ev_sequence ev\<rparr>, d)))"

section \<open>What the hooks write\<close>

text \<open>\<open>hooks\<close>: what a call leaves on the disk when it returns without an error, and when the program dies in
  it: an append is cut off after \<open>k\<close> bytes, the checkpoint is replaced or not.\<close>

fun written :: "codec \<Rightarrow> call \<Rightarrow> disk \<Rightarrow> disk" where
  "written x (OnEvent e) d = d\<lparr>dk_progress := append_record (cx_event x e) (dk_progress d)\<rparr>"
| "written x (OnCorpusEntry e) d = d\<lparr>dk_corpus := append_record (cx_entry x e) (dk_corpus d)\<rparr>"
| "written x (OnRunComplete m) d = d\<lparr>dk_runs := append_record (cx_run x (cm_run m)) (dk_runs d)\<rparr>"
| "written x (OnCheckpoint c) d = d\<lparr>dk_checkpoint := Some (cx_checkpoint x c)\<rparr>"
| "written x (CallInitializer n seed) d = d"

fun torn :: "codec \<Rightarrow> nat \<Rightarrow> call \<Rightarrow> disk \<Rightarrow> disk" where
  "torn x k (OnEvent e) d = d\<lparr>dk_progress := append_partly k (cx_event x e) (dk_progress d)\<rparr>"
| "torn x k (OnCorpusEntry e) d = d\<lparr>dk_corpus := append_partly k (cx_entry x e) (dk_corpus d)\<rparr>"
| "torn x k (OnRunComplete m) d = d\<lparr>dk_runs := append_partly k (cx_run x (cm_run m)) (dk_runs d)\<rparr>"
| "torn x k (OnCheckpoint c) d = (if k = 0 then d else d\<lparr>dk_checkpoint := Some (cx_checkpoint x c)\<rparr>)"
| "torn x k (CallInitializer n seed) d = d"

text \<open>The disk after the first \<open>n\<close> calls of a log, when the program dies in the next one, or where the log
  ends.\<close>

definition crashed :: "codec \<Rightarrow> nat \<Rightarrow> nat \<Rightarrow> log \<Rightarrow> disk \<Rightarrow> disk" where
  "crashed x n k l d =
     (let d = fold (\<lambda>p. written x (fst p)) (take n l) d
      in case drop n l of [] \<Rightarrow> d | (c, err) # _ \<Rightarrow> torn x k c d)"

section \<open>An experiment of several calls\<close>

text \<open>What the command line (main.go) does with a directory, None if it does not exist: it starts an experiment
  in a new directory only, and goes on in an old one from its checkpoint, which it validates before it
  opens the store; the number of the next event is not lower than that of the last event written.\<close>

definition resumed_options :: "feedback_options \<Rightarrow> checkpoint \<Rightarrow> store \<Rightarrow> feedback_options" where
  "resumed_options o1 ck st =
     o1\<lparr>fo_resume := Some (if st_last_event st > ck_events ck then ck\<lparr>ck_events := st_last_event st\<rparr> else ck),
        fo_resume_entries := st_entries st\<rparr>"

definition start_call ::
  "codec \<Rightarrow> experiment_config \<Rightarrow> feedback_options \<Rightarrow> disk option \<Rightarrow> (go_error + feedback_options) \<times> disk option" where
  "start_call x c o1 directory =
     (case directory of
        None \<Rightarrow>
          (case open_store x 0 0 empty_disk of
             (Inl e, d) \<Rightarrow> (Inl e, Some d) | (Inr st, d) \<Rightarrow> (Inr (o1\<lparr>fo_resume := None\<rparr>), Some d))
      | Some d \<Rightarrow>
          (case dk_checkpoint d of
             None \<Rightarrow> (Inl (plain_error ''no such file or directory''), Some d)
           | Some text \<Rightarrow>
               (case cx_read_checkpoint x text of
                  Inl e \<Rightarrow> (Inl e, Some d)
                | Inr ck \<Rightarrow>
                    (case checkpoint_validate ck c (fo_fingerprint o1) of
                       Some e \<Rightarrow> (Inl e, Some d)
                     | None \<Rightarrow>
                         (case open_store x (ck_summaries ck) (ckp_entry_count (ck_corpus ck)) d of
                            (Inl e, d) \<Rightarrow> (Inl e, Some d)
                          | (Inr st, d) \<Rightarrow> (Inr (resumed_options o1 ck st), Some d))))))"

text \<open>One session: the options of the call, the answers the hooks make, what arrives, and where the program
  dies: after \<open>cs_n\<close> calls of hooks, in the next one after \<open>cs_k\<close> bytes.\<close>

record crash_session =
  cs_options :: feedback_options
  cs_on_event :: "log \<Rightarrow> progress_event \<Rightarrow> go_error option"
  cs_on_corpus_entry :: "log \<Rightarrow> corpus_entry \<Rightarrow> go_error option"
  cs_on_run_complete :: "log \<Rightarrow> completion \<Rightarrow> go_error option"
  cs_on_checkpoint :: "log \<Rightarrow> checkpoint \<Rightarrow> go_error option"
  cs_digest :: "digested \<Rightarrow> string"
  cs_clock :: "nat \<Rightarrow> int"
  cs_arrivals :: "arrival list"
  cs_n :: nat
  cs_k :: nat

definition session_env :: "experiment_config \<Rightarrow> crash_session \<Rightarrow> feedback_options \<Rightarrow> feedback_env" where
  "session_env c se o1 =
     \<lparr>fv_config = c,
      fv_options = o1\<lparr>fo_on_event := Some (cs_on_event se), fo_on_corpus_entry := Some (cs_on_corpus_entry se),
        fo_on_run_complete := Some (cs_on_run_complete se), fo_on_checkpoint := Some (cs_on_checkpoint se)\<rparr>,
      fv_digest = cs_digest se, fv_clock = cs_clock se\<rparr>"

text \<open>What the JSON form of the written records must do: be one line that the scanner can hold, and decode to
  the record.\<close>

fun fits :: "codec \<Rightarrow> call \<Rightarrow> bool" where
  "fits x (OnEvent e) = (json_line (cx_event x e) \<and> cx_read_event x (cx_event x e) = Inr e)"
| "fits x (OnCorpusEntry e) = (json_line (cx_entry x e) \<and> cx_read_entry x (cx_entry x e) = Inr e)"
| "fits x (OnRunComplete m) = json_line (cx_run x (cm_run m))"
| "fits x (OnCheckpoint ck) = (cx_read_checkpoint x (cx_checkpoint x ck) = Inr ck)"
| "fits x (CallInitializer n seed) = True"

text \<open>The directory after some sessions, the newest first; a session that cannot be started leaves it as the
  attempt left it. None: a session was not given a possible order of arrivals, a hook failed before the
  program died, or a record does not fit its JSON form.\<close>

fun directory_after :: "codec \<Rightarrow> experiment_config \<Rightarrow> string \<Rightarrow> crash_session list \<Rightarrow> disk option option" where
  "directory_after x c fp [] = Some None"
| "directory_after x c fp (se # earlier) =
     (case directory_after x c fp earlier of
        None \<Rightarrow> None
      | Some directory \<Rightarrow>
          (case start_call x c ((cs_options se)\<lparr>fo_fingerprint := fp\<rparr>) directory of
             (Inl e, directory) \<Rightarrow> Some directory
           | (Inr o1, None) \<Rightarrow> None
           | (Inr o1, Some d) \<Rightarrow>
               (case run_feedback (Some (session_env c se o1)) True (cs_arrivals se) of
                  None \<Rightarrow> None
                | Some r \<Rightarrow>
                    (case state_of r of
                       None \<Rightarrow> None
                     | Some s \<Rightarrow>
                         if list_all (\<lambda>(c, err). err = None) (take (cs_n se) (fs_log s)) \<and>
                            list_all (\<lambda>p. fits x (fst p)) (take (Suc (cs_n se)) (fs_log s))
                         then Some (Some (crashed x (cs_n se) (cs_k se) (fs_log s) d)) else None))))"

section \<open>What the files hold\<close>

definition disk_of :: "codec \<Rightarrow> run list \<Rightarrow> corpus_entry list \<Rightarrow> progress_event list \<Rightarrow> string option \<Rightarrow> disk" where
  "disk_of x rs es evs t =
     \<lparr>dk_runs = unlines (map (cx_run x) rs), dk_corpus = unlines (map (cx_entry x) es),
      dk_progress = unlines (map (cx_event x) evs), dk_checkpoint = t\<rparr>"

definition records_fit :: "codec \<Rightarrow> run list \<Rightarrow> corpus_entry list \<Rightarrow> progress_event list \<Rightarrow> bool" where
  "records_fit x rs es evs \<longleftrightarrow> list_all (\<lambda>r. json_line (cx_run x r)) rs \<and>
     list_all (\<lambda>e. fits x (OnCorpusEntry e)) es \<and> list_all (\<lambda>e. fits x (OnEvent e)) evs"

text \<open>The checkpoint on the disk goes with the first records of the files: so many run summaries, of just the runs
  its report counts, and so many entries, with which a call can go on from it.\<close>

definition point_ok ::
  "codec \<Rightarrow> experiment_config \<Rightarrow> string \<Rightarrow> string option \<Rightarrow> run list \<Rightarrow> corpus_entry list \<Rightarrow> bool" where
  "point_ok x c fp t rs es \<longleftrightarrow>
     (case t of
        None \<Rightarrow> True
      | Some text \<Rightarrow> \<exists>ck n m. cx_read_checkpoint x text = Inr ck \<and> n \<le> length rs \<and> m \<le> length es \<and>
          ck_summaries ck = int n \<and> ckp_entry_count (ck_corpus ck) = int m \<and> resumable c fp (take m es) ck \<and>
          mset (map rn_index (take n rs)) = mset (ag_indices (ck_aggregation ck)))"

definition disk_ok :: "codec \<Rightarrow> experiment_config \<Rightarrow> string \<Rightarrow> disk \<Rightarrow> bool" where
  "disk_ok x c fp d \<longleftrightarrow>
     (\<exists>rs es evs t r1 r2 r3. d = \<lparr>dk_runs = unlines (map (cx_run x) rs) @ r1, dk_corpus = unlines (map (cx_entry x) es) @ r2,
          dk_progress = unlines (map (cx_event x) evs) @ r3, dk_checkpoint = t\<rparr> \<and>
        list_all plain_line [r1, r2, r3] \<and> records_fit x rs es evs \<and> point_ok x c fp t rs es)"

lemma point_ok_more:
  assumes "point_ok x c fp t rs es"
  shows "point_ok x c fp t (rs @ rs') (es @ es')"
proof (cases t)
  case (Some u)
  then obtain ck n m where "cx_read_checkpoint x u = Inr ck" "n \<le> length rs" "m \<le> length es"
    "ck_summaries ck = int n" "ckp_entry_count (ck_corpus ck) = int m" "resumable c fp (take m es) ck"
    "mset (map rn_index (take n rs)) = mset (ag_indices (ck_aggregation ck))"
    using assms by (auto simp: point_ok_def)
  then show ?thesis using Some by (auto simp: point_ok_def intro!: exI [of _ ck] exI [of _ n] exI [of _ m])
qed (simp add: point_ok_def)

lemma plain_records:
  assumes "records_fit x rs es evs"
  shows "list_all plain_line (map (cx_run x) rs)" "list_all plain_line (map (cx_entry x) es)"
    "list_all plain_line (map (cx_event x) evs)"
  using assms json_line_plain by (auto simp: records_fit_def list_all_iff)

lemma plain_nil [simp]: "plain_line []"
  by (simp add: plain_line_def)

lemma disk_of_ok:
  assumes "records_fit x rs es evs" and "point_ok x c fp t rs es" and "list_all plain_line [r1, r2, r3]"
  shows "disk_ok x c fp (\<lparr>dk_runs = unlines (map (cx_run x) rs) @ r1, dk_corpus = unlines (map (cx_entry x) es) @ r2,
          dk_progress = unlines (map (cx_event x) evs) @ r3, dk_checkpoint = t\<rparr>)"
  unfolding disk_ok_def using assms by blast

lemma repair_lines: "list_all plain_line ls \<Longrightarrow> plain_line r \<Longrightarrow> repair_partial_line (unlines ls @ r) = unlines ls"
  by (rule repair_partial_line_eq)

lemma keep_lines:
  assumes "list_all plain_line ls" and "plain_line r" and "n \<le> length ls"
  shows "keep_json_lines path (int n) (unlines ls @ r) = (None, unlines (take n ls))"
  using assms by (simp add: keep_json_lines_eq complete_lines_unlines Let_def)

text \<open>Opening the store brings the files back to the checkpoint.\<close>

lemma open_store_eq:
  assumes fit: "records_fit x rs es evs" and plain: "list_all plain_line [r1, r2, r3]"
    and n: "n \<le> length rs" and m: "m \<le> length es"
  shows "open_store x (int n) (int m) \<lparr>dk_runs = unlines (map (cx_run x) rs) @ r1, dk_corpus = unlines (map (cx_entry x) es) @ r2,
          dk_progress = unlines (map (cx_event x) evs) @ r3, dk_checkpoint = t\<rparr> =
    (Inr \<lparr>st_entries = take m es, st_last_event = (if evs = [] then 0 else ev_sequence (last evs))\<rparr>,
     disk_of x (take n rs) (take m es) evs t)"
proof -
  note lines = plain_records [OF fit]
  have runs: "keep_json_lines ''runs.jsonl'' (int n) (unlines (map (cx_run x) rs) @ r1) = (None, unlines (map (cx_run x) (take n rs)))"
    using keep_lines [OF lines(1), of r1 n] plain n by (simp add: take_map)
  have corpus: "keep_json_lines ''corpus.jsonl'' (int m) (unlines (map (cx_entry x) es) @ r2) = (None, unlines (map (cx_entry x) (take m es)))"
    using keep_lines [OF lines(2), of r2 m] plain m by (simp add: take_map)
  have repaired: "repair_partial_line (unlines (map (cx_run x) (take n rs))) = unlines (map (cx_run x) (take n rs))"
    "repair_partial_line (unlines (map (cx_entry x) (take m es))) = unlines (map (cx_entry x) (take m es))"
    "repair_partial_line (unlines (map (cx_event x) evs) @ r3) = unlines (map (cx_event x) evs)"
    using repair_lines [of "map (cx_run x) (take n rs)" "[]"] repair_lines [of "map (cx_entry x) (take m es)" "[]"]
      repair_lines [OF lines(3), of r3] lines plain by (auto simp: list_all_iff dest: in_set_takeD)
  have "list_all (\<lambda>e. cx_read_entry x (cx_entry x e) = Inr e \<and> json_line (cx_entry x e)) (take m es)"
    using fit by (auto simp: records_fit_def list_all_iff dest: in_set_takeD)
  from read_json_lines_eq [OF this, of "''corpus.jsonl''"] m
  have entries: "read_json_lines (cx_read_entry x) ''corpus.jsonl'' (int m) (unlines (map (cx_entry x) (take m es))) = Inr (take m es)"
    by simp
  have "list_all (\<lambda>e. cx_read_event x (cx_event x e) = Inr e \<and> json_line (cx_event x e)) evs"
    using fit by (auto simp: records_fit_def list_all_iff)
  note events = read_last_json_line_eq [OF this]
  show ?thesis by (simp add: open_store_def runs corpus repaired entries events disk_of_def)
qed

text \<open>What a resumable checkpoint says about the files.\<close>

lemma resumable_counts:
  assumes "resumable c fp es ck"
  shows "ckp_entry_count (ck_corpus ck) = int (length es)" "ck_summaries ck = int (length (ag_indices (ck_aggregation ck)))"
    "checkpoint_validate ck c fp = None"
proof -
  obtain k where "ck_corpus ck = corpus_checkpoint_of (Some k)" "cp_entries k = es" using assms by (auto simp: resumable_def)
  then show "ckp_entry_count (ck_corpus ck) = int (length es)" by (auto simp: corpus_checkpoint_of_def)
  have "checkpoint_ok ck c fp" using assms by (simp add: resumable_def)
  then show "ck_summaries ck = int (length (ag_indices (ck_aggregation ck)))" "checkpoint_validate ck c fp = None"
    by (simp_all add: checkpoint_ok_def counters_ok_def snapshot_ok_def checkpoint_validate_None)
qed

lemma resumable_events [simp]: "resumable c fp es (ck\<lparr>ck_events := n\<rparr>) = resumable c fp es ck"
  by (simp add: resumable_def checkpoint_ok_def counters_ok_def pending_ok_def schedule_ok_def corpus_part_ok_def candidates_of_def)

section \<open>A call writes the files\<close>

definition runs_of :: "log \<Rightarrow> run list" where
  "runs_of l = concat (map (\<lambda>(c, err). case c of OnRunComplete m \<Rightarrow> [cm_run m] | _ \<Rightarrow> []) l)"

definition events_of :: "log \<Rightarrow> progress_event list" where
  "events_of l = concat (map (\<lambda>(c, err). case c of OnEvent e \<Rightarrow> [e] | _ \<Rightarrow> []) l)"

lemma completions_runs: "completions l = map rn_index (runs_of l)"
  by (induction l) (auto simp: completions_def runs_of_def split: call.split)

lemma all_ok_entries: "list_all (\<lambda>(c, err). err = None) l \<Longrightarrow> \<not> entry_failed l"
proof (induction l)
  case (Cons p l)
  obtain c err where p: "p = (c, err)" by (cases p)
  have "entry_failed (p # l) = (entry_failed [p] \<or> entry_failed l)" by (simp add: entry_failed_def)
  then show ?case using Cons by (cases c) (simp_all add: p)
qed simp

text \<open>The checkpoint at a place of the log, with what has been written by then. \<open>rs\<close> and \<open>es\<close> are the records at
  the start of the call.\<close>

lemma point_of_log:
  assumes points: "points_ok v es l" and counted: "counted_points old l"
    and l: "l = l1 @ (OnCheckpoint ck, err) # l2" and ok: "list_all (\<lambda>(c, err). err = None) l1"
    and old: "mset (map rn_index rs) = mset old"
    and fit: "fits x (OnCheckpoint ck)"
  shows "point_ok x (fv_config v) (fo_fingerprint (fv_options v)) (Some (cx_checkpoint x ck)) (rs @ runs_of l1) (es @ committed l1)"
proof -
  have "\<not> entry_failed l1" using ok by (rule all_ok_entries)
  then have "(ck, es @ committed l1) \<in> set (saved_points es l)" "counted_points (old @ completions l1) ((OnCheckpoint ck, err) # l2)"
    using counted by (simp_all add: l saved_points_append counted_points_append)
  then have r: "resumable (fv_config v) (fo_fingerprint (fv_options v)) (es @ committed l1) ck"
    and n: "ck_summaries ck = int (length (old @ completions l1))" "mset (ag_indices (ck_aggregation ck)) = mset (old @ completions l1)"
    using points by (auto simp: points_ok_def)
  have "length rs = length old" using old by (metis length_map mset_eq_length)
  then have "ck_summaries ck = int (length (rs @ runs_of l1))" using n(1) by (simp add: completions_runs)
  moreover have "mset (map rn_index (rs @ runs_of l1)) = mset (ag_indices (ck_aggregation ck))"
    using n(2) old by (simp add: completions_runs)
  note facts = calculation this
  show ?thesis
    unfolding point_ok_def option.case
    by (rule exI [of _ ck], rule exI [of _ "length (rs @ runs_of l1)"], rule exI [of _ "length (es @ committed l1)"],
        use facts r resumable_counts(1) [OF r] fit in simp)
qed

lemma disk_of_written [simp]:
  "disk_of x rs es evs t\<lparr>dk_checkpoint := u\<rparr> = disk_of x rs es evs u"
  "disk_of x rs es evs t\<lparr>dk_runs := append_record (cx_run x r) (dk_runs (disk_of x rs es evs t))\<rparr> = disk_of x (rs @ [r]) es evs t"
  "disk_of x rs es evs t\<lparr>dk_corpus := append_record (cx_entry x e) (dk_corpus (disk_of x rs es evs t))\<rparr> =
     disk_of x rs (es @ [e]) evs t"
  "disk_of x rs es evs t\<lparr>dk_progress := append_record (cx_event x ev) (dk_progress (disk_of x rs es evs t))\<rparr> =
     disk_of x rs es (evs @ [ev]) t"
  by (simp_all add: disk_of_def append_record_def)

lemma log_step: "n < length l \<Longrightarrow> l ! n = (c, None) \<Longrightarrow>
    runs_of (take (Suc n) l) = runs_of (take n l) @ (case c of OnRunComplete m \<Rightarrow> [cm_run m] | _ \<Rightarrow> []) \<and>
    committed (take (Suc n) l) = committed (take n l) @ (case c of OnCorpusEntry e \<Rightarrow> [e] | _ \<Rightarrow> []) \<and>
    events_of (take (Suc n) l) = events_of (take n l) @ (case c of OnEvent e \<Rightarrow> [e] | _ \<Rightarrow> [])"
  by (simp add: take_Suc_conv_app_nth runs_of_def committed_def events_of_def split: call.split)

lemma log_written:
  assumes points: "points_ok v es l" and counted: "counted_points old l" and old: "mset (map rn_index rs) = mset old"
    and start: "records_fit x rs es evs" "point_ok x (fv_config v) (fo_fingerprint (fv_options v)) t rs es"
  shows "n \<le> length l \<Longrightarrow> list_all (\<lambda>(c, err). err = None) (take n l) \<Longrightarrow> list_all (\<lambda>p. fits x (fst p)) (take n l) \<Longrightarrow>
    \<exists>t'. fold (\<lambda>p. written x (fst p)) (take n l) (disk_of x rs es evs t) =
        disk_of x (rs @ runs_of (take n l)) (es @ committed (take n l)) (evs @ events_of (take n l)) t' \<and>
      records_fit x (rs @ runs_of (take n l)) (es @ committed (take n l)) (evs @ events_of (take n l)) \<and>
      point_ok x (fv_config v) (fo_fingerprint (fv_options v)) t' (rs @ runs_of (take n l)) (es @ committed (take n l))"
proof (induction n)
  case 0
  then show ?case using start by (auto simp: runs_of_def events_of_def)
next
  case (Suc n)
  obtain c err where c: "l ! n = (c, err)" by fastforce
  have n: "n < length l" using Suc.prems(1) by simp
  have split: "take (Suc n) l = take n l @ [(c, err)]" using n c by (simp add: take_Suc_conv_app_nth)
  have ok: "list_all (\<lambda>(c, err). err = None) (take n l)" "err = None" "list_all (\<lambda>p. fits x (fst p)) (take n l)" "fits x c"
    using Suc.prems(2,3) by (simp_all add: split comp_def)
  obtain t' where IH: "fold (\<lambda>p. written x (fst p)) (take n l) (disk_of x rs es evs t) =
        disk_of x (rs @ runs_of (take n l)) (es @ committed (take n l)) (evs @ events_of (take n l)) t'"
    "records_fit x (rs @ runs_of (take n l)) (es @ committed (take n l)) (evs @ events_of (take n l))"
    "point_ok x (fv_config v) (fo_fingerprint (fv_options v)) t' (rs @ runs_of (take n l)) (es @ committed (take n l))"
    using Suc.IH [OF _ ok(1,3)] n by (blast dest: less_imp_le)
  have step: "fold (\<lambda>p. written x (fst p)) (take (Suc n) l) (disk_of x rs es evs t) =
      written x c (disk_of x (rs @ runs_of (take n l)) (es @ committed (take n l)) (evs @ events_of (take n l)) t')"
    unfolding split by (simp add: IH(1))
  have c_ok: "l ! n = (c, None)" using c ok(2) by simp
  note parts = log_step [OF n c_ok]
  show ?case
  proof (cases c)
    case (OnCheckpoint ck)
    have "l = take n l @ (OnCheckpoint ck, err) # drop (Suc n) l" using id_take_nth_drop [OF n] c OnCheckpoint by simp
    from point_of_log [OF points counted this ok(1) old] ok(4) OnCheckpoint IH(2) step parts show ?thesis
      by (intro exI [of _ "Some (cx_checkpoint x ck)"]) auto
  next
    case (OnCorpusEntry e)
    then show ?thesis
      using step parts IH(2) ok(4) point_ok_more [OF IH(3), of "[]" "[e]"] by (auto simp: records_fit_def)
  next
    case (OnRunComplete m)
    then show ?thesis
      using step parts IH(2) ok(4) point_ok_more [OF IH(3), of "[cm_run m]" "[]"] by (auto simp: records_fit_def)
  next
    case (OnEvent e)
    then show ?thesis using step parts IH(2,3) ok(4) by (auto simp: records_fit_def)
  next
    case (CallInitializer m seed)
    then show ?thesis using step parts IH(2,3) by auto
  qed
qed

text \<open>A torn append is a whole one or adds an incomplete line.\<close>

lemma append_torn:
  assumes "plain_line u"
  shows "\<exists>r. plain_line r \<and> append_partly k u (unlines ls) = unlines (if length u < k then ls @ [u] else ls) @ r"
proof (cases "length u < k")
  case True
  then show ?thesis by (simp add: append_partly_def)
next
  case False
  have "plain_line (take k u)" using assms by (auto simp: plain_line_def dest: in_set_takeD)
  then show ?thesis using False by (auto simp: append_partly_def)
qed

lemma torn_ok:
  assumes fit: "records_fit x rs es evs" and point: "point_ok x c fp t rs es" and call: "fits x call"
    and checkpoint: "case call of OnCheckpoint ck \<Rightarrow> point_ok x c fp (Some (cx_checkpoint x ck)) rs es | _ \<Rightarrow> True"
  shows "disk_ok x c fp (torn x k call (disk_of x rs es evs t))"
proof (cases call)
  case (OnEvent e)
  obtain r where r: "plain_line r" "append_partly k (cx_event x e) (unlines (map (cx_event x) evs)) =
      unlines (map (cx_event x) (if length (cx_event x e) < k then evs @ [e] else evs)) @ r"
    using append_torn [of "cx_event x e" k "map (cx_event x) evs"] call json_line_plain by (auto simp: OnEvent)
  show ?thesis
    using disk_of_ok [of x rs es "if length (cx_event x e) < k then evs @ [e] else evs" c fp t "[]" "[]" r] fit point call r
    by (simp add: OnEvent disk_of_def records_fit_def)
next
  case (OnCorpusEntry e)
  obtain r where r: "plain_line r" "append_partly k (cx_entry x e) (unlines (map (cx_entry x) es)) =
      unlines (map (cx_entry x) (if length (cx_entry x e) < k then es @ [e] else es)) @ r"
    using append_torn [of "cx_entry x e" k "map (cx_entry x) es"] call json_line_plain by (auto simp: OnCorpusEntry)
  show ?thesis
    using disk_of_ok [of x rs "if length (cx_entry x e) < k then es @ [e] else es" evs c fp t "[]" r "[]"] fit point call r
      point_ok_more [OF point, of "[]" "[e]"]
    by (simp add: OnCorpusEntry disk_of_def records_fit_def)
next
  case (OnRunComplete m)
  obtain r where r: "plain_line r" "append_partly k (cx_run x (cm_run m)) (unlines (map (cx_run x) rs)) =
      unlines (map (cx_run x) (if length (cx_run x (cm_run m)) < k then rs @ [cm_run m] else rs)) @ r"
    using append_torn [of "cx_run x (cm_run m)" k "map (cx_run x) rs"] call json_line_plain by (auto simp: OnRunComplete)
  show ?thesis
    using disk_of_ok [of x "if length (cx_run x (cm_run m)) < k then rs @ [cm_run m] else rs" es evs c fp t r "[]" "[]"] fit point call r
      point_ok_more [OF point, of "[cm_run m]" "[]"]
    by (simp add: OnRunComplete disk_of_def records_fit_def)
next
  case (OnCheckpoint ck)
  then show ?thesis
    using disk_of_ok [of x rs es evs c fp t "[]" "[]" "[]"] disk_of_ok [of x rs es evs c fp "Some (cx_checkpoint x ck)" "[]" "[]" "[]"]
      fit point checkpoint
    by (simp add: disk_of_def)
next
  case (CallInitializer n seed)
  then show ?thesis using disk_of_ok [of x rs es evs c fp t "[]" "[]" "[]"] fit point by (simp add: disk_of_def)
qed

lemma crashed_ok:
  assumes points: "points_ok v es l" and counted: "counted_points old l" and old: "mset (map rn_index rs) = mset old"
    and start: "records_fit x rs es evs" "point_ok x (fv_config v) (fo_fingerprint (fv_options v)) t rs es"
    and ok: "list_all (\<lambda>(c, err). err = None) (take n l)" and fit: "list_all (\<lambda>p. fits x (fst p)) (take (Suc n) l)"
  shows "disk_ok x (fv_config v) (fo_fingerprint (fv_options v)) (crashed x n k l (disk_of x rs es evs t))"
proof -
  define m where "m = min n (length l)"
  have take_m: "take n l = take m l" "m \<le> length l" by (cases "n \<le> length l"; simp add: m_def)+
  have "list_all (\<lambda>p. fits x (fst p)) (take m l)"
  proof -
    have "set (take m l) \<subseteq> set (take (Suc n) l)" by (rule set_take_subset_set_take) (simp add: m_def)
    then show ?thesis using fit unfolding list_all_iff by blast
  qed
  then obtain t' where w: "fold (\<lambda>p. written x (fst p)) (take n l) (disk_of x rs es evs t) =
        disk_of x (rs @ runs_of (take n l)) (es @ committed (take n l)) (evs @ events_of (take n l)) t'"
    "records_fit x (rs @ runs_of (take n l)) (es @ committed (take n l)) (evs @ events_of (take n l))"
    "point_ok x (fv_config v) (fo_fingerprint (fv_options v)) t' (rs @ runs_of (take n l)) (es @ committed (take n l))"
    using log_written [OF points counted old start, of m] ok unfolding take_m(1) using take_m(2) by blast
  show ?thesis
  proof (cases "drop n l")
    case Nil
    then have "crashed x n k l (disk_of x rs es evs t) =
        disk_of x (rs @ runs_of (take n l)) (es @ committed (take n l)) (evs @ events_of (take n l)) t'"
      unfolding crashed_def Let_def w(1) by simp
    then show ?thesis using disk_of_ok [OF w(2,3), of "[]" "[]" "[]"] by (simp add: disk_of_def)
  next
    case (Cons p rest)
    obtain call err where p: "p = (call, err)" by (cases p)
    have n: "n < length l" using Cons by (metis drop_eq_Nil leI list.distinct(1))
    then have nth: "l ! n = (call, err)" "l = take n l @ (call, err) # rest"
      using Cons p by (auto simp: nth_via_drop) (metis append_take_drop_id)
    have call: "fits x call" using fit n nth(1) by (simp add: take_Suc_conv_app_nth)
    have "case call of OnCheckpoint ck \<Rightarrow> point_ok x (fv_config v) (fo_fingerprint (fv_options v)) (Some (cx_checkpoint x ck))
        (rs @ runs_of (take n l)) (es @ committed (take n l)) | _ \<Rightarrow> True"
      using point_of_log [OF points counted _ ok old, of _ err rest x] nth(2) call by (auto split: call.split)
    from torn_ok [OF w(2,3) call this] show ?thesis by (simp add: crashed_def w(1) Cons p)
  qed
qed

section \<open>Sessions\<close>

text \<open>A call that has been started: the files are those of the checkpoint it goes on from, or empty.\<close>

definition started_ok :: "codec \<Rightarrow> experiment_config \<Rightarrow> string \<Rightarrow> feedback_options \<Rightarrow> disk \<Rightarrow> run list \<Rightarrow> bool" where
  "started_ok x c fp o1 d rs \<longleftrightarrow>
     (\<exists>es evs t. d = disk_of x rs es evs t \<and> records_fit x rs es evs \<and> point_ok x c fp t rs es \<and> fo_fingerprint o1 = fp \<and>
        mset (map rn_index rs) = mset (old_indices o1) \<and>
        (case fo_resume o1 of None \<Rightarrow> es = [] | Some ck \<Rightarrow> es = fo_resume_entries o1 \<and> resumable c fp es ck))"

lemma start_new:
  assumes "fo_fingerprint o1 = fp"
  shows "\<exists>d. start_call x c o1 None = (Inr (o1\<lparr>fo_resume := None\<rparr>), Some d) \<and>
    started_ok x c fp (o1\<lparr>fo_resume := None\<rparr>) d []"
proof -
  have fit: "records_fit x [] [] []" by (simp add: records_fit_def)
  have "open_store x 0 0 empty_disk = (Inr \<lparr>st_entries = [], st_last_event = 0\<rparr>, disk_of x [] [] [] None)"
    using open_store_eq [OF fit, of "[]" "[]" "[]" 0 0 None] by (simp add: empty_disk_def)
  moreover have "started_ok x c fp (o1\<lparr>fo_resume := None\<rparr>) (disk_of x [] [] [] None) []"
    unfolding started_ok_def
    by (rule exI [of _ "[]"], rule exI [of _ "[]"], rule exI [of _ None])
      (use fit assms in \<open>simp add: point_ok_def old_indices_def\<close>)
  ultimately show ?thesis by (simp add: start_call_def)
qed

lemma start_again:
  assumes ok: "disk_ok x c fp d" and fp: "fo_fingerprint o1 = fp" and point: "dk_checkpoint d = Some u"
  shows "\<exists>ck st d' rs. start_call x c o1 (Some d) = (Inr (resumed_options o1 ck st), Some d') \<and>
    started_ok x c fp (resumed_options o1 ck st) d' rs"
proof -
  obtain rs es evs t r1 r2 r3 where d: "d = \<lparr>dk_runs = unlines (map (cx_run x) rs) @ r1, dk_corpus = unlines (map (cx_entry x) es) @ r2,
          dk_progress = unlines (map (cx_event x) evs) @ r3, dk_checkpoint = t\<rparr>"
    and plain: "list_all plain_line [r1, r2, r3]" and fit: "records_fit x rs es evs" and t: "point_ok x c fp t rs es"
    using ok unfolding disk_ok_def by blast
  have u: "t = Some u" using point d by simp
  obtain ck n m where ck: "cx_read_checkpoint x u = Inr ck" and n: "n \<le> length rs" and m: "m \<le> length es"
    and counts: "ck_summaries ck = int n" "ckp_entry_count (ck_corpus ck) = int m" and r: "resumable c fp (take m es) ck"
    and runs: "mset (map rn_index (take n rs)) = mset (ag_indices (ck_aggregation ck))"
    using t u by (auto simp: point_ok_def)
  define st where "st = \<lparr>st_entries = take m es, st_last_event = (if evs = [] then 0 else ev_sequence (last evs))\<rparr>"
  have opened: "open_store x (int n) (int m) d = (Inr st, disk_of x (take n rs) (take m es) evs t)"
    unfolding d st_def by (rule open_store_eq [OF fit plain n m])
  have call: "start_call x c o1 (Some d) = (Inr (resumed_options o1 ck st), Some (disk_of x (take n rs) (take m es) evs t))"
    using point ck resumable_counts(3) [OF r] opened fp by (simp add: start_call_def counts)
  have "records_fit x (take n rs) (take m es) evs"
    using fit by (auto simp: records_fit_def list_all_iff dest: in_set_takeD)
  moreover have "point_ok x c fp t (take n rs) (take m es)"
    unfolding point_ok_def u option.case
    by (rule exI [of _ ck], rule exI [of _ n], rule exI [of _ m]) (use ck n m counts r runs in simp)
  ultimately have "started_ok x c fp (resumed_options o1 ck st) (disk_of x (take n rs) (take m es) evs t) (take n rs)"
    unfolding started_ok_def
    by (intro exI [of _ "take m es"] exI [of _ evs] exI [of _ t])
      (use r runs fp in \<open>simp add: resumed_options_def st_def old_indices_def\<close>)
  then show ?thesis using call by blast
qed

lemma session_env_sel [simp]:
  "fv_config (session_env c se o1) = c" "fo_fingerprint (fv_options (session_env c se o1)) = fo_fingerprint o1"
  "fo_resume (fv_options (session_env c se o1)) = fo_resume o1"
  "fo_resume_entries (fv_options (session_env c se o1)) = fo_resume_entries o1"
  "old_indices (fv_options (session_env c se o1)) = old_indices o1"
  by (simp_all add: session_env_def old_indices_def)

lemma session_log:
  assumes config: "config_ok c" "seeds_fit c" and start: "started_ok x c fp o1 d rs"
    and run: "run_feedback (Some (session_env c se o1)) True arrivals = Some r" and s: "state_of r = Some s"
  shows "\<exists>es evs t. d = disk_of x rs es evs t \<and> records_fit x rs es evs \<and> point_ok x c fp t rs es \<and> fo_fingerprint o1 = fp \<and>
    points_ok (session_env c se o1) es (fs_log s) \<and> counted_points (old_indices o1) (fs_log s) \<and>
    mset (map rn_index rs) = mset (old_indices o1)"
proof -
  let ?v = "session_env c se o1"
  obtain es evs t where d: "d = disk_of x rs es evs t" "records_fit x rs es evs" "point_ok x c fp t rs es" "fo_fingerprint o1 = fp"
    "mset (map rn_index rs) = mset (old_indices o1)"
    and resume: "case fo_resume o1 of None \<Rightarrow> es = [] | Some ck \<Rightarrow> es = fo_resume_entries o1 \<and> resumable c fp es ck"
    using start unfolding started_ok_def by blast
  have hooks: "fo_on_corpus_entry (fv_options ?v) \<noteq> None" "fo_on_run_complete (fv_options ?v) \<noteq> None"
    by (simp_all add: session_env_def)
  have "points_ok ?v es (fs_log s)"
    by (rule run_feedback_inv [OF _ _ hooks(1) _ run s])
      (use config resume d(4) in \<open>auto split: option.splits\<close>)
  moreover have "counted_points (old_indices o1) (fs_log s)"
    using run_counted [OF _ hooks(2) run s] config(1) by simp
  ultimately show ?thesis using d by blast
qed

definition directory_ok :: "codec \<Rightarrow> experiment_config \<Rightarrow> string \<Rightarrow> disk option \<Rightarrow> bool" where
  "directory_ok x c fp directory \<longleftrightarrow> (case directory of None \<Rightarrow> True | Some d \<Rightarrow> disk_ok x c fp d)"

lemma start_cases:
  assumes "directory_ok x c fp directory" and "fo_fingerprint o1 = fp"
  shows "(\<exists>e. start_call x c o1 directory = (Inl e, directory)) \<or>
    (\<exists>o2 d rs. start_call x c o1 directory = (Inr o2, Some d) \<and> started_ok x c fp o2 d rs)"
proof (cases directory)
  case None
  then show ?thesis using start_new [OF assms(2), of x c] by blast
next
  case (Some d)
  show ?thesis
  proof (cases "dk_checkpoint d")
    case None
    then show ?thesis by (simp add: Some start_call_def)
  next
    case u: (Some u)
    have "disk_ok x c fp d" using assms(1) by (simp add: Some directory_ok_def)
    from start_again [OF this assms(2) u] show ?thesis unfolding Some by blast
  qed
qed

lemma directory_after_ok:
  assumes config: "config_ok c" "seeds_fit c"
  shows "directory_after x c fp sessions = Some directory \<Longrightarrow> directory_ok x c fp directory"
proof (induction sessions arbitrary: directory)
  case Nil
  then show ?case by (simp add: directory_ok_def)
next
  case (Cons se earlier)
  let ?o = "(cs_options se)\<lparr>fo_fingerprint := fp\<rparr>"
  obtain before where before: "directory_after x c fp earlier = Some before"
    using Cons.prems by (cases "directory_after x c fp earlier") auto
  have ok: "directory_ok x c fp before" using Cons.IH [OF before] .
  have fp: "fo_fingerprint ?o = fp" by simp
  from start_cases [OF ok fp] show ?case
  proof (elim disjE exE conjE)
    fix e assume "start_call x c ?o before = (Inl e, before)"
    then show ?thesis using Cons.prems ok by (simp add: before)
  next
    fix o2 d rs assume start: "start_call x c ?o before = (Inr o2, Some d)" and started: "started_ok x c fp o2 d rs"
    obtain r s where run: "run_feedback (Some (session_env c se o2)) True (cs_arrivals se) = Some r" and s: "state_of r = Some s"
      and good: "list_all (\<lambda>(c, err). err = None) (take (cs_n se) (fs_log s))"
        "list_all (\<lambda>p. fits x (fst p)) (take (Suc (cs_n se)) (fs_log s))"
      and directory: "directory = Some (crashed x (cs_n se) (cs_k se) (fs_log s) d)"
      using Cons.prems start by (auto simp: before split: option.splits if_splits)
    obtain es evs t where d: "d = disk_of x rs es evs t" "records_fit x rs es evs" "point_ok x c fp t rs es" "fo_fingerprint o2 = fp"
      "points_ok (session_env c se o2) es (fs_log s)" "counted_points (old_indices o2) (fs_log s)"
      "mset (map rn_index rs) = mset (old_indices o2)"
      using session_log [OF config started run s] by blast
    have "disk_ok x (fv_config (session_env c se o2)) (fo_fingerprint (fv_options (session_env c se o2)))
        (crashed x (cs_n se) (cs_k se) (fs_log s) (disk_of x rs es evs t))"
      by (rule crashed_ok [OF d(5,6,7,2) _ good]) (use d(3,4) in simp)
    then show ?thesis using d(1,4) by (simp add: directory directory_ok_def)
  qed
qed

section \<open>The claims\<close>



end
