(* ===== verification/Policy_Random.thy ===== *)
theory Policy_Random
  imports Raft_Profile Batch Mutation
begin

text \<open>
  internal/policy/random.go: the policy that draws the next planned action from the latest observation. The
  random generator is a state with a function \<open>draw\<close>, as in the mutator; \<open>source\<close> is \<open>rand.NewSource\<close>. A
  function that can panic returns an option.
\<close>

section \<open>Configuration\<close>

record random_weights =
  rw_deliver :: int
  rw_drop :: int
  rw_duplicate :: int
  rw_timeout :: int
  rw_request :: int
  rw_advance :: int
  rw_crash :: int
  rw_restart :: int

record random_config =
  rnc_node_ids :: "node_id list"
  rnc_max_value :: int
  rnc_max_log_index :: u64
  rnc_largest_term :: u64
  rnc_max_crashed :: int
  rnc_timeout_cooldown :: int
  rnc_lifecycle_cooldown :: int
  rnc_max_crash_episodes :: int
  rnc_weights :: random_weights

definition default_random_config :: random_config where
  "default_random_config =
     \<lparr>rnc_node_ids = [1, 2, 3], rnc_max_value = 5, rnc_max_log_index = 5, rnc_largest_term = 5,
      rnc_max_crashed = 1, rnc_timeout_cooldown = 4, rnc_lifecycle_cooldown = 48, rnc_max_crash_episodes = 4,
      rnc_weights = \<lparr>rw_deliver = 60, rw_drop = 5, rw_duplicate = 5, rw_timeout = 5, rw_request = 15,
        rw_advance = 5, rw_crash = 1, rw_restart = 10\<rparr>\<rparr>"

definition weight_list :: "random_weights \<Rightarrow> int list" where
  "weight_list w = [rw_deliver w, rw_drop w, rw_duplicate w, rw_timeout w, rw_request w, rw_advance w,
     rw_crash w, rw_restart w]"

fun check_policy_nodes :: "node_id list \<Rightarrow> node_id list \<Rightarrow> go_error option" where
  "check_policy_nodes seen [] = None"
| "check_policy_nodes seen (i # is) =
     (if \<not> node_id_valid i then Some (plain_error ''random policy node IDs must be non-zero'')
      else if i \<in> set seen then Some (plain_error (''random policy contains duplicate node '' @ node_id_text i))
      else check_policy_nodes (i # seen) is)"

text \<open>The sum of the weights, which wraps around.\<close>

fun sum_weights :: "int \<Rightarrow> int list \<Rightarrow> go_error + int" where
  "sum_weights t [] = Inr t"
| "sum_weights t (w # ws) =
     (if w < 0 then Inl (plain_error ''random policy weights must be non-negative'')
      else sum_weights (wrap64 (t + w)) ws)"

definition validate_random_config :: "random_config \<Rightarrow> go_error option" where
  "validate_random_config c =
     (if rnc_node_ids c = [] \<or> rnc_max_value c \<le> 0 \<or> rnc_max_log_index c = 0 \<or> rnc_largest_term c = 0 \<or>
         rnc_max_crashed c \<le> 0 \<or> rnc_timeout_cooldown c < 0 \<or> rnc_lifecycle_cooldown c < 0 \<or>
         rnc_max_crash_episodes c \<le> 0
      then Some (plain_error ''random policy bounds must be positive'')
      else case check_policy_nodes [] (rnc_node_ids c) of
        Some e \<Rightarrow> Some e
      | None \<Rightarrow>
          (case sum_weights 0 (weight_list (rnc_weights c)) of
             Inl e \<Rightarrow> Some e
           | Inr t \<Rightarrow>
               if t = 0 then Some (plain_error ''random policy needs at least one positive weight'') else None))"

section \<open>The policy\<close>

record 'g random_policy =
  rnp_config :: random_config
  rnp_seed :: int
  rnp_random :: 'g
  rnp_generated :: "plan_action list"
  rnp_crash_episodes :: int
  rnp_last_lifecycle :: int
  rnp_profile :: raft_config

definition new_random :: "(int \<Rightarrow> 'g) \<Rightarrow> int \<Rightarrow> random_config \<Rightarrow> go_error + 'g random_policy" where
  "new_random source seed c =
     (case validate_random_config c of
        Some e \<Rightarrow> Inl e
      | None \<Rightarrow>
          (case new_mapper_with_config (raft_default_config\<lparr>rf_node_ids := rnc_node_ids c,
                  rf_max_value := rnc_max_value c, rf_max_log_index := rnc_max_log_index c,
                  rf_largest_term := rnc_largest_term c\<rparr>) of
             Inl e \<Rightarrow> Inl (wrap_text ''create random policy profile'' e)
           | Inr profile \<Rightarrow>
               Inr \<lparr>rnp_config = c, rnp_seed = seed, rnp_random = source seed, rnp_generated = [],
                 rnp_crash_episodes = 0, rnp_last_lifecycle = -1, rnp_profile = profile\<rparr>))"

definition random_reset ::
  "(int \<Rightarrow> 'g) \<Rightarrow> observation \<Rightarrow> 'g random_policy \<Rightarrow> go_error option \<times> 'g random_policy" where
  "random_reset source initial p =
     (case observation_validate initial of
        Some e \<Rightarrow> (Some (plain_error (''invalid initial observation: '' @ validation_error_text e)), p)
      | None \<Rightarrow> (None, p\<lparr>rnp_random := source (rnp_seed p), rnp_generated := [], rnp_crash_episodes := 0,
          rnp_last_lifecycle := -1\<rparr>))"

definition random_sequence :: "'g random_policy \<Rightarrow> plan_sequence" where
  "random_sequence p = \<lparr>ps_actions = rnp_generated p,
     ps_metadata = [(''source'', ''random''), (''seed'', show_int (rnp_seed p))]\<rparr>"

section \<open>The candidates for an observation\<close>

fun semantic_uint :: "goval \<Rightarrow> u64 \<times> bool" where
  "semantic_uint (VUint64 w) = (w, True)"
| "semantic_uint (VInt i) = (if 0 \<le> i then (of_int i, True) else (0, False))"
| "semantic_uint (VFloat (FFin q)) =
     (if 0 \<le> q \<and> q < 2 ^ 64 \<and> of_int \<lfloor>q\<rfloor> = q then (of_int \<lfloor>q\<rfloor>, True) else (0, False))"
| "semantic_uint _ = (0, False)"

definition message_plan_action :: "plan_kind \<Rightarrow> message_observation \<Rightarrow> plan_action" where
  "message_plan_action k m = (empty_plan_action k)\<lparr>pa_messages :=
     Some \<lparr>rng_link = LinkID (mo_from m) (mo_to m), rng_start = mo_position m, rng_count = 1\<rparr>\<rparr>"

definition observed_node_running :: "observation \<Rightarrow> node_id \<Rightarrow> bool" where
  "observed_node_running ob i =
     (case find (\<lambda>n. no_id n = i) (obs_nodes ob) of None \<Rightarrow> False | Some n \<Rightarrow> no_status n = NodeRunning)"

definition is_leader :: "node_observation \<Rightarrow> bool" where
  "is_leader n \<longleftrightarrow> any_at (no_semantic n) ''role'' = VString ''leader''"

definition below_number :: "node_observation \<Rightarrow> string \<Rightarrow> u64 \<Rightarrow> bool" where
  "below_number n field limit = (case semantic_uint (any_at (no_semantic n) field) of (x, ok) \<Rightarrow> ok \<and> x < limit)"

definition request_target_usable :: "observation \<Rightarrow> node_observation \<Rightarrow> u64 \<Rightarrow> bool" where
  "request_target_usable ob target max_log_index =
     (let role = string_or_empty (any_at (no_semantic target) ''role'') in
      if role = ''leader'' then below_number target ''last_index'' max_log_index
      else if role \<noteq> ''follower'' then False
      else case semantic_uint (any_at (no_semantic target) ''leader'') of
        (leader, ok) \<Rightarrow>
          if \<not> ok \<or> leader = 0 then False
          else case find (\<lambda>n. no_id n = leader \<and> no_status n = NodeRunning \<and> is_leader n) (obs_nodes ob) of
            None \<Rightarrow> False
          | Some n \<Rightarrow> below_number n ''last_index'' max_log_index)"

definition message_within_profile :: "'g random_policy \<Rightarrow> observation \<Rightarrow> message_observation \<Rightarrow> bool" where
  "message_within_profile p ob m \<longleftrightarrow>
     raft_validate_action (Some (rnp_profile p))
       ((action_of_kind ActionDeliver)\<lparr>act_message := mo_id m,
          act_selector := Some \<lparr>sel_link = LinkID (mo_from m) (mo_to m), sel_position = mo_position m\<rparr>\<rparr>) ob = None"

definition timeout_cooling_down :: "'g random_policy \<Rightarrow> bool" where
  "timeout_cooling_down p \<longleftrightarrow>
     (let cooldown = rnc_timeout_cooldown (rnp_config p);
          start = max 0 (int (length (rnp_generated p)) - cooldown)
      in 0 < cooldown \<and> list_ex (\<lambda>a. pa_kind a = PlanTimeout) (drop (nat start) (rnp_generated p)))"

definition crash_allowed :: "'g random_policy \<Rightarrow> bool" where
  "crash_allowed p \<longleftrightarrow>
     (if rnp_crash_episodes p \<ge> rnc_max_crash_episodes (rnp_config p) then False
      else rnp_last_lifecycle p < 0 \<or>
        int (length (rnp_generated p)) - rnp_last_lifecycle p - 1 \<ge> rnc_lifecycle_cooldown (rnp_config p))"

text \<open>The actions on one running node; a restart is all that a crashed one gets.\<close>

definition timeout_usable :: "random_config \<Rightarrow> node_observation \<Rightarrow> bool" where
  "timeout_usable c n \<longleftrightarrow> string_or_empty (any_at (no_semantic n) ''role'') \<noteq> ''leader'' \<and>
     below_number n ''term'' (rnc_largest_term c) \<and> below_number n ''last_index'' (rnc_max_log_index c)"

definition node_action :: "plan_kind \<Rightarrow> node_observation \<Rightarrow> plan_action" where
  "node_action k n = (empty_plan_action k)\<lparr>pa_node := no_id n\<rparr>"

definition node_requests :: "random_config \<Rightarrow> node_observation \<Rightarrow> plan_action list" where
  "node_requests c n =
     map (\<lambda>v. (node_action PlanRequest n)\<lparr>pa_request := show_int v\<rparr>) [1..rnc_max_value c]"

record action_group =
  grp_weight :: int
  grp_actions :: "plan_action list"

definition advance_candidates :: "'g random_policy \<Rightarrow> observation \<Rightarrow> plan_action list" where
  "advance_candidates p ob =
     (if obs_time ob < - 1 \<and>
         raft_validate_action (Some (rnp_profile p))
           ((action_of_kind ActionAdvanceTime)\<lparr>act_target_time := obs_time ob + 1\<rparr>) ob = None
      then [(empty_plan_action PlanAdvanceTicks)\<lparr>pa_ticks := 1\<rparr>] else [])"

definition timeout_weight :: "'g random_policy \<Rightarrow> bool \<Rightarrow> int" where
  "timeout_weight p has_leader =
     (let w = rw_timeout (rnc_weights (rnp_config p)) in
      if timeout_cooling_down p then 0
      else if has_leader \<and> w > 0 then max 1 (w div 4)
      else w)"

definition policy_candidates :: "'g random_policy \<Rightarrow> observation \<Rightarrow> action_group list" where
  "policy_candidates p ob =
     (let c = rnp_config p; w = rnc_weights c;
          messages = sort_key mo_id (obs_messages ob);
          nodes = sort_key no_id (obs_nodes ob);
          deliverable = filter (\<lambda>m. message_within_profile p ob m \<and> observed_node_running ob (mo_to m)) messages;
          running = filter (\<lambda>n. no_status n = NodeRunning) nodes;
          crashed = filter (\<lambda>n. no_status n = NodeCrashed) nodes;
          may_crash = (length running > 1 \<and> int (length crashed) < rnc_max_crashed c \<and> crash_allowed p)
      in [\<lparr>grp_weight = rw_deliver w, grp_actions = map (message_plan_action PlanDeliver) deliverable\<rparr>,
          \<lparr>grp_weight = rw_drop w, grp_actions = map (message_plan_action PlanDrop) messages\<rparr>,
          \<lparr>grp_weight = rw_duplicate w, grp_actions = map (message_plan_action PlanDuplicate) messages\<rparr>,
          \<lparr>grp_weight = timeout_weight p (list_ex is_leader running),
           grp_actions = map (node_action PlanTimeout) (filter (timeout_usable c) running)\<rparr>,
          \<lparr>grp_weight = rw_request w,
           grp_actions = concat (map (node_requests c)
             (filter (\<lambda>n. request_target_usable ob n (rnc_max_log_index c)) running))\<rparr>,
          \<lparr>grp_weight = rw_advance w, grp_actions = advance_candidates p ob\<rparr>,
          \<lparr>grp_weight = rw_crash w, grp_actions = (if may_crash then map (node_action PlanCrash) running else [])\<rparr>,
          \<lparr>grp_weight = rw_restart w, grp_actions = map (node_action PlanRestart) crashed\<rparr>])"

section \<open>The next action\<close>

text \<open>The weight of the groups that have actions, as \<open>int\<close> adds it up, and the group a number falls into.\<close>

fun total_weight :: "int \<Rightarrow> action_group list \<Rightarrow> int" where
  "total_weight t [] = t"
| "total_weight t (g # gs) =
     total_weight (if grp_actions g \<noteq> [] then wrap64 (t + grp_weight g) else t) gs"

fun draw_group :: "int \<Rightarrow> action_group list \<Rightarrow> plan_action list option" where
  "draw_group d [] = None"
| "draw_group d (g # gs) =
     (if grp_actions g = [] then draw_group d gs
      else if d < grp_weight g then Some (grp_actions g)
      else draw_group (d - grp_weight g) gs)"

definition remember :: "plan_action \<Rightarrow> 'g random_policy \<Rightarrow> 'g random_policy" where
  "remember a p0 =
     (let len = int (length (rnp_generated p0));
          p = (case pa_kind a of
                 PlanCrash \<Rightarrow> p0\<lparr>rnp_crash_episodes := rnp_crash_episodes p0 + 1, rnp_last_lifecycle := len\<rparr>
               | PlanRestart \<Rightarrow> p0\<lparr>rnp_last_lifecycle := len\<rparr>
               | _ \<Rightarrow> p0)
      in p\<lparr>rnp_generated := rnp_generated p @ [a]\<rparr>)"

text \<open>\<open>Next\<close>: an error, the end, or an action. None is the panic of \<open>Intn\<close>.\<close>

definition random_next ::
  "('g \<Rightarrow> nat \<times> 'g) \<Rightarrow> observation \<Rightarrow> 'g random_policy \<Rightarrow>
   ((go_error + plan_action option) \<times> 'g random_policy) option" where
  "random_next draw ob p =
     (case observation_validate ob of
        Some e \<Rightarrow> Some (Inl (plain_error (''invalid observation: '' @ validation_error_text e)), p)
      | None \<Rightarrow>
          let groups = policy_candidates p ob; t = total_weight 0 groups in
          if t = 0 then Some (Inr None, p)
          else case intn draw t (rnp_random p) of
            None \<Rightarrow> None
          | Some (d, g) \<Rightarrow>
              (case draw_group (int d) groups of
                 None \<Rightarrow> Some (Inl (plain_error ''random selection reached an impossible state''), p\<lparr>rnp_random := g\<rparr>)
               | Some actions \<Rightarrow>
                   (case intn draw (int (length actions)) g of
                      None \<Rightarrow> None
                    | Some (i, g) \<Rightarrow> Some (Inr (Some (actions ! i)), remember (actions ! i) (p\<lparr>rnp_random := g\<rparr>)))))"

section \<open>Drawing by weight\<close>

definition usable_weight :: "action_group list \<Rightarrow> int" where
  "usable_weight gs = sum_list (map grp_weight (filter (\<lambda>g. grp_actions g \<noteq> []) gs))"

definition weights_nonneg :: "action_group list \<Rightarrow> bool" where
  "weights_nonneg gs \<longleftrightarrow> list_all (\<lambda>g. 0 \<le> grp_weight g) gs"

lemma usable_weight_simps [simp]:
  "usable_weight [] = 0"
  "usable_weight (g # gs) = (if grp_actions g \<noteq> [] then grp_weight g else 0) + usable_weight gs"
  by (simp_all add: usable_weight_def)

lemma weights_nonneg_simps [simp]:
  "weights_nonneg []" "weights_nonneg (g # gs) \<longleftrightarrow> 0 \<le> grp_weight g \<and> weights_nonneg gs"
  by (simp_all add: weights_nonneg_def)

lemma usable_weight_nonneg: "weights_nonneg gs \<Longrightarrow> 0 \<le> usable_weight gs"
  by (induction gs) auto

lemma wrap64_add_wrap64: "wrap64 (wrap64 a + b) = wrap64 (a + b)"
proof -
  have "((a + 2 ^ 63) mod 2 ^ 64 + b) mod (2 ^ 64 :: int) = (a + 2 ^ 63 + b) mod 2 ^ 64" by (rule mod_add_left_eq)
  moreover have "wrap64 a + b + 2 ^ 63 = (a + 2 ^ 63) mod 2 ^ 64 + b" by (simp add: wrap64_def)
  moreover have "a + 2 ^ 63 + b = a + b + 2 ^ 63" by simp
  ultimately have "(wrap64 a + b + 2 ^ 63) mod 2 ^ 64 = (a + b + 2 ^ 63) mod 2 ^ 64" by (simp only:)
  then show ?thesis unfolding wrap64_def [of "wrap64 a + b"] wrap64_def [of "a + b"] by (simp only:)
qed

lemma wrap64_le: "- (2 ^ 63) \<le> i \<Longrightarrow> wrap64 i \<le> i"
proof -
  assume "- (2 ^ 63) \<le> i"
  then have "(i + 2 ^ 63) mod 2 ^ 64 \<le> i + 2 ^ 63" by (intro zmod_le_nonneg_dividend) simp
  then show ?thesis by (simp add: wrap64_def)
qed

lemma total_weight_wrap: "total_weight (wrap64 t) gs = wrap64 (t + usable_weight gs)"
proof (induction gs arbitrary: t)
  case (Cons g gs)
  then show ?case by (simp add: wrap64_add_wrap64 add.assoc)
qed simp

lemma total_weight_eq: "total_weight 0 gs = wrap64 (usable_weight gs)"
  using total_weight_wrap [of 0 gs] by (simp add: wrap64_def)

lemma draw_group_Some:
  "weights_nonneg gs \<Longrightarrow> 0 \<le> d \<Longrightarrow> d < usable_weight gs \<Longrightarrow>
     \<exists>g \<in> set gs. 0 < grp_weight g \<and> grp_actions g \<noteq> [] \<and> draw_group d gs = Some (grp_actions g)"
proof (induction gs arbitrary: d)
  case (Cons g gs)
  show ?case
  proof (cases "grp_actions g \<noteq> [] \<and> d < grp_weight g")
    case True
    with Cons.prems show ?thesis by auto
  next
    case False
    let ?d = "if grp_actions g = [] then d else d - grp_weight g"
    have "0 \<le> ?d" "?d < usable_weight gs" using False Cons.prems by auto
    from Cons.IH [OF _ this] Cons.prems obtain g' where
      "g' \<in> set gs" "0 < grp_weight g'" "grp_actions g' \<noteq> []" "draw_group ?d gs = Some (grp_actions g')" by auto
    then show ?thesis using False by (intro bexI [of _ g']) auto
  qed
qed simp

text \<open>How many of the numbers below a bound give a list of actions.\<close>

definition draws_for :: "plan_action list \<Rightarrow> action_group list \<Rightarrow> int" where
  "draws_for as gs = int (length (filter (\<lambda>d. draw_group d gs = Some as) [0..usable_weight gs - 1]))"

lemma upto_shift: "map ((+) k) [i..j] = [i + k..j + k]" for k :: int
proof (induction "nat (j - i + 1)" arbitrary: i)
  case 0
  then show ?case by simp
next
  case (Suc n)
  then have "[i..j] = i # [i + 1..j]" "[i + k..j + k] = (i + k) # [i + k + 1..j + k]"
    by (simp_all add: upto.simps)
  with Suc(1) [of "i + 1"] Suc(2) show ?case by (simp add: ac_simps)
qed

lemma draws_for_exact:
  "weights_nonneg gs \<Longrightarrow>
     draws_for as gs = sum_list (map grp_weight (filter (\<lambda>g. grp_actions g \<noteq> [] \<and> grp_actions g = as) gs))"
proof (induction gs)
  case Nil
  then show ?case by (simp add: draws_for_def)
next
  case (Cons g gs)
  let ?w = "grp_weight g" and ?u = "usable_weight gs"
  show ?case
  proof (cases "grp_actions g = []")
    case True
    then have "draws_for as (g # gs) = draws_for as gs" by (simp add: draws_for_def)
    with Cons True show ?thesis by simp
  next
    case False
    have u: "0 \<le> ?u" "0 \<le> ?w" using Cons.prems usable_weight_nonneg by auto
    have split: "[0..?w + ?u - 1] = [0..?w - 1] @ map ((+) ?w) [0..?u - 1]"
    proof -
      have "map ((+) ?w) [0..?u - 1] = [?w..?w + ?u - 1]" unfolding upto_shift by (simp add: algebra_simps)
      moreover have "[0..?w + ?u - 1] = [0..?w - 1] @ [?w..?w + ?u - 1]"
        using u upto_split1 [of 0 ?w "?w + ?u - 1"] by (cases "?u = 0") auto
      ultimately show ?thesis by (simp only:)
    qed
    have first: "filter (\<lambda>d. draw_group d (g # gs) = Some as) [0..?w - 1] = (if grp_actions g = as then [0..?w - 1] else [])"
      using False by (auto simp: filter_id_conv filter_empty_conv)
    have second: "filter (\<lambda>d. draw_group d (g # gs) = Some as) (map ((+) ?w) [0..?u - 1])
        = map ((+) ?w) (filter (\<lambda>d. draw_group d gs = Some as) [0..?u - 1])"
      using False by (auto simp: filter_map comp_def intro!: arg_cong [of _ _ "map _"] filter_cong)
    have "draws_for as (g # gs) = (if grp_actions g = as then ?w else 0) + draws_for as gs"
      using False u by (simp add: draws_for_def split first second del: draw_group.simps)
    with Cons False show ?thesis by auto
  qed
qed

section \<open>A policy that was made\<close>

lemma sum_weights_nonneg: "sum_weights t ws = Inr x \<Longrightarrow> list_all (\<lambda>w. 0 \<le> w) ws"
  by (induction ws arbitrary: t) (auto split: if_splits)

lemma check_nodes_agree:
  "check_policy_nodes seen ns = None \<Longrightarrow> check_model_nodes seen ns = None"
  by (induction ns arbitrary: seen) (auto split: if_splits)

definition profile_for :: "random_config \<Rightarrow> raft_config \<Rightarrow> bool" where
  "profile_for c m \<longleftrightarrow> rf_max_value m = rnc_max_value c \<and> rf_max_log_index m = rnc_max_log_index c \<and>
     rf_largest_term m = rnc_largest_term c"

definition config_valid :: "random_config \<Rightarrow> bool" where
  "config_valid c \<longleftrightarrow> 0 < rnc_max_crash_episodes c \<and> 0 \<le> rnc_timeout_cooldown c \<and> 0 \<le> rnc_lifecycle_cooldown c \<and>
     list_all (\<lambda>w. 0 \<le> w) (weight_list (rnc_weights c))"

lemma validate_random_config_None:
  assumes "validate_random_config c = None"
  shows "config_valid c" and "check_policy_nodes [] (rnc_node_ids c) = None" and "rnc_node_ids c \<noteq> []"
    and "0 < rnc_max_value c" and "0 < rnc_max_log_index c" and "0 < rnc_largest_term c"
  using assms sum_weights_nonneg [of 0 "weight_list (rnc_weights c)"]
  by (auto simp: validate_random_config_def config_valid_def word_neq_0_conv split: if_splits option.splits sum.splits)

lemma new_random_profile:
  assumes "validate_random_config c = None"
  shows "\<exists>m. new_mapper_with_config (raft_default_config\<lparr>rf_node_ids := rnc_node_ids c, rf_max_value := rnc_max_value c,
      rf_max_log_index := rnc_max_log_index c, rf_largest_term := rnc_largest_term c\<rparr>) = Inr m \<and> profile_for c m"
proof -
  note ok = validate_random_config_None [OF assms]
  have "1 \<le> rnc_max_log_index c" "1 \<le> rnc_largest_term c" using ok by (auto simp: word_le_nat_alt word_less_nat_alt)
  moreover have "rnc_max_log_index c \<noteq> 0" "rnc_largest_term c \<noteq> 0" using ok(5,6) by (auto simp: word_gt_0)
  ultimately show ?thesis using ok check_nodes_agree [OF ok(2)]
    by (simp add: new_mapper_with_config_def raft_normalized_def Let_def profile_for_def not_less)
qed

lemma new_random_Inr:
  "new_random source seed c = Inr p \<Longrightarrow>
     config_valid c \<and> rnp_config p = c \<and> profile_for c (rnp_profile p) \<and> rnp_generated p = [] \<and>
     rnp_crash_episodes p = 0 \<and> rnp_last_lifecycle p = -1"
  using validate_random_config_None(1) [of c] new_random_profile [of c]
  by (auto simp: new_random_def split: option.splits sum.splits)

text \<open>The error about the profile cannot occur.\<close>

lemma new_random_iff: "(\<exists>p. new_random source seed c = Inr p) \<longleftrightarrow> validate_random_config c = None"
  using new_random_profile [of c] by (auto simp: new_random_def split: option.splits)

section \<open>The candidates resolve, and the profile accepts them\<close>

definition queues_in_order :: "observation \<Rightarrow> bool" where
  "queues_in_order ob \<longleftrightarrow> int (length (obs_messages ob)) < 2 ^ 63 \<and>
     list_all (\<lambda>m. bad_position 0 (messages_on_link ob (LinkID (mo_from m) (mo_to m))) = None) (obs_messages ob)"

lemma queues_in_order_network:
  "network_wf n \<Longrightarrow> observes_network ob n \<Longrightarrow> int (length (obs_messages ob)) < 2 ^ 63 \<Longrightarrow> queues_in_order ob"
  by (simp add: queues_in_order_def list_all_iff bad_position_network)

text \<open>A planned action resolves to one action that the profile accepts.\<close>

definition executable_action :: "resolver_config \<Rightarrow> raft_config \<Rightarrow> observation \<Rightarrow> plan_action \<Rightarrow> bool" where
  "executable_action rc m ob a =
     (case resolve (Some rc) a ob of
        None \<Rightarrow> False
      | Some r \<Rightarrow> rs_status r = ResolutionResolved \<and>
          (case rs_actions r of [x] \<Rightarrow> raft_validate_action (Some m) x ob = None | _ \<Rightarrow> False))"

lemma message_at_position:
  assumes "queues_in_order ob" and m: "m \<in> set (obs_messages ob)"
  defines "q \<equiv> messages_on_link ob (LinkID (mo_from m) (mo_to m))"
  shows "bad_position 0 q = None" and "mo_position m < int (length q)" and "q ! nat (mo_position m) = m"
    and "0 \<le> mo_position m" and "int (length q) < 2 ^ 63"
proof -
  show bad: "bad_position 0 q = None" using assms by (simp add: queues_in_order_def list_all_iff)
  have "m \<in> set q" using m by (simp add: q_def messages_on_link_def)
  then obtain i where i: "i < length q" "q ! i = m" by (auto simp: in_set_conv_nth)
  have "mo_position (q ! i) = int i" using bad i(1) by (simp add: bad_position_None)
  then have pos: "mo_position m = int i" using i by simp
  with i show "mo_position m < int (length q)" "q ! nat (mo_position m) = m" "0 \<le> mo_position m" by simp_all
  show "int (length q) < 2 ^ 63" using assms length_messages_on_link [of ob "LinkID (mo_from m) (mo_to m)"]
    by (simp add: queues_in_order_def)
qed

definition message_action :: "plan_kind \<Rightarrow> message_observation \<Rightarrow> action" where
  "message_action k m = (action_of_kind (concrete_message_kind k))\<lparr>act_message := mo_id m,
     act_selector := Some \<lparr>sel_link = LinkID (mo_from m) (mo_to m), sel_position = mo_position m\<rparr>\<rparr>"

lemma select_one:
  assumes "int i < int (length q)" "int (length q) < 2 ^ 63" "rng_start sel = int i" "rng_count sel = 1" "rs_requested r = 1"
  shows "select_messages c r k sel q =
    Some (r\<lparr>rs_actions := [concrete_message_action k (rng_link sel) (int i) (q ! i)], rs_resolved := 1,
      rs_status := ResolutionResolved\<rparr>)"
proof -
  have wrap: "wrap64 (int i + 1) = int i + 1" using assms by (intro wrap64_id) auto
  have "take 1 (drop i q) = [q ! i]" using assms(1) by (simp add: Cons_nth_drop_Suc [symmetric])
  then have slice: "go_slice q (int i) (int i + 1) = Some [q ! i]" using assms(1) by (simp add: go_slice_def)
  show ?thesis using assms slice
    by (auto simp: select_messages_def Let_def wrap finish_messages_def)
qed

lemma resolve_message:
  assumes ob: "observation_validate ob = None" and order: "queues_in_order ob" and m: "m \<in> set (obs_messages ob)"
    and k: "is_plan_message_kind k" and rc: "0 < rc_max_batch rc"
    and target: "k = PlanDeliver \<Longrightarrow> observed_node_running ob (mo_to m)"
  shows "\<exists>r. resolve (Some rc) (message_plan_action k m) ob = Some r \<and> rs_status r = ResolutionResolved \<and>
    rs_actions r = [message_action k m]"
proof -
  let ?a = "message_plan_action k m" and ?l = "LinkID (mo_from m) (mo_to m)"
  let ?sel = "\<lparr>rng_link = ?l, rng_start = mo_position m, rng_count = 1\<rparr>" and ?q = "messages_on_link ob ?l"
  let ?r = "(initial_resolution ?a)\<lparr>rs_requested := 1\<rparr>"
  note at = message_at_position [OF order m]
  have "message_observation_validate m = None" using ob m by (simp add: observation_validate_None)
  then have link: "mo_from m \<noteq> 0" "mo_to m \<noteq> 0"
    by (auto simp: message_observation_validate_None message_validate_None message_of_observation_def)
  have a: "pa_kind ?a = k" "pa_messages ?a = Some ?sel" "plan_action_validate ?a = None"
    using k link at(4)
    by (auto simp: message_plan_action_def empty_plan_action_def plan_action_validate_None is_plan_message_kind_def
        range_validate_None)
  have "resolve (Some rc) ?a ob = resolve_messages rc (initial_resolution ?a) ?a ob"
    using a ob k by (auto simp: resolve_def is_plan_message_kind_def)
  also have "\<dots> = select_messages rc ?r k ?sel ?q"
  proof (cases "k = PlanDeliver")
    case True
    then obtain n where "observed_node ob (mo_to m) = Some n" "no_status n = NodeRunning"
      using target by (auto simp: observed_node_running_def observed_node_def split: option.splits)
    then show ?thesis using rc at(1) True by (simp add: resolve_messages_def a [unfolded True] Let_def)
  next
    case False
    then show ?thesis using rc at(1) by (simp add: resolve_messages_def a Let_def)
  qed
  also have "\<dots> = Some (?r\<lparr>rs_actions := [concrete_message_action k ?l (mo_position m) m], rs_resolved := 1,
      rs_status := ResolutionResolved\<rparr>)"
    using select_one [of "nat (mo_position m)" ?q ?sel ?r rc k] at by simp
  finally show ?thesis by (simp add: message_action_def concrete_message_action_def)
qed

lemma observed_node_in:
  assumes "observation_validate ob = None" "n \<in> set (obs_nodes ob)"
  shows "observed_node ob (no_id n) = Some n" and "no_id n \<noteq> 0"
proof -
  have d: "distinct (map no_id (obs_nodes ob))" and v: "node_observation_validate n = None"
    using assms by (auto simp: observation_validate_None)
  obtain m where m: "find (\<lambda>x. no_id x = no_id n) (obs_nodes ob) = Some m"
    using assms(2) by (cases "find (\<lambda>x. no_id x = no_id n) (obs_nodes ob)") (auto simp: find_None_iff)
  then have "m \<in> set (obs_nodes ob)" "no_id m = no_id n" by (auto simp: find_Some_iff)
  with d assms(2) have "m = n" by (metis distinct_map inj_onD)
  with m show "observed_node ob (no_id n) = Some n" by (simp add: observed_node_def)
  show "no_id n \<noteq> 0" using v by (auto simp: node_observation_validate_def split: if_splits)
qed

definition node_step :: "plan_kind \<Rightarrow> node_id \<Rightarrow> string \<Rightarrow> action" where
  "node_step k i request = (action_of_kind (concrete_node_kind k))\<lparr>act_node := i, act_request := request\<rparr>"

lemma resolve_on_node:
  assumes ob: "observation_validate ob = None" and n: "n \<in> set (obs_nodes ob)"
    and k: "k \<in> {PlanTimeout, PlanCrash, PlanRestart, PlanRequest}" and free: "node_refusal k (no_status n) = None"
    and request: "request = [] \<longleftrightarrow> k \<noteq> PlanRequest"
  shows "\<exists>r. resolve (Some rc) ((node_action k n)\<lparr>pa_request := request\<rparr>) ob = Some r \<and> rs_status r = ResolutionResolved \<and>
    rs_actions r = [node_step k (no_id n) request]"
proof -
  let ?a = "(node_action k n)\<lparr>pa_request := request\<rparr>"
  note on = observed_node_in [OF ob n]
  have a: "pa_kind ?a = k" "pa_node ?a = no_id n" "pa_request ?a = request" "plan_action_validate ?a = None"
    using k request on(2) by (auto simp: node_action_def empty_plan_action_def plan_action_validate_None)
  have "resolve (Some rc) ?a ob = Some (resolve_node (initial_resolution ?a) ?a ob)"
    using k a ob by (auto simp: resolve_def)
  moreover have "resolve_node (initial_resolution ?a) ?a ob = (initial_resolution ?a)\<lparr>rs_status := ResolutionResolved,
      rs_resolved := 1, rs_actions := [node_step k (no_id n) request]\<rparr>"
    using on free request by (auto simp: resolve_node_def a node_step_def)
  ultimately show ?thesis by simp
qed

lemma semantic_uint_unsigned: "semantic_uint v = (x, True) \<Longrightarrow> unsigned_param v = (x, True)"
  by (cases v rule: semantic_uint.cases) (auto split: if_splits)

lemma below_number_semantic:
  assumes "observation_validate ob = None" "n \<in> set (obs_nodes ob)" "below_number n field limit"
  shows "semantic_number ob (no_id n) field < limit"
proof -
  obtain x where "semantic_uint (any_at (no_semantic n) field) = (x, True)" "x < limit"
    using assms(3) by (auto simp: below_number_def split: prod.splits)
  then show ?thesis using semantic_uint_unsigned observed_node_in(1) [OF assms(1,2)] by (simp add: semantic_number_def)
qed

lemma role_of_node:
  "observation_validate ob = None \<Longrightarrow> n \<in> set (obs_nodes ob) \<Longrightarrow>
     role_of ob (no_id n) = string_or_empty (any_at (no_semantic n) ''role'') \<and> status_of ob (no_id n) = no_status n"
  by (simp add: role_of_def status_of_def observed_node_in)

lemma timeout_accepted:
  assumes "observation_validate ob = None" "n \<in> set (obs_nodes ob)" "timeout_usable c n" "profile_for c m"
  shows "raft_validate_action (Some m) (node_step PlanTimeout (no_id n) []) ob = None"
  using below_number_semantic [OF assms(1,2), of "''term''" "rnc_largest_term c"] assms(3,4)
  by (simp add: raft_validate_action_def node_step_def action_of_kind_def timeout_usable_def profile_for_def
      term_of_node_def not_le)

lemma crash_restart_accepted:
  assumes "observation_validate ob = None" "n \<in> set (obs_nodes ob)"
  shows "no_status n = NodeRunning \<Longrightarrow> raft_validate_action (Some m) (node_step PlanCrash (no_id n) []) ob = None"
    and "no_status n = NodeCrashed \<Longrightarrow> raft_validate_action (Some m) (node_step PlanRestart (no_id n) []) ob = None"
  using role_of_node [OF assms] by (simp_all add: raft_validate_action_def node_step_def action_of_kind_def)

lemma show_int_nonempty: "show_int v \<noteq> []"
  by (simp add: show_int_def show_nat_nonempty)

lemma numeric_request_in_range:
  "1 \<le> v \<Longrightarrow> v \<le> hi \<Longrightarrow> hi < 2 ^ 63 \<Longrightarrow> numeric_request (show_int v) hi = Inr v"
proof -
  assume v: "1 \<le> v" "v \<le> hi" "hi < 2 ^ 63"
  then have "nat v < 2 ^ 63" by simp
  then have "atoi (show_int v) = Some v" using v atoi_show_nat [of "nat v"] by (simp add: show_int_def)
  then show ?thesis using v by (simp add: numeric_request_def)
qed

lemma request_accepted:
  assumes ob: "observation_validate ob = None" "n \<in> set (obs_nodes ob)"
    and usable: "request_target_usable ob n (rnc_max_log_index c)" and m: "profile_for c m"
    and v: "1 \<le> v" "v \<le> rnc_max_value c" "rnc_max_value c < 2 ^ 63"
  shows "raft_validate_action (Some m) (node_step PlanRequest (no_id n) (show_int v)) ob = None"
proof -
  have "\<not> (role_of ob (no_id n) = ''leader'' \<and> last_index_of ob (no_id n) \<ge> rnc_max_log_index c)"
    using usable below_number_semantic [OF ob, of "''last_index''" "rnc_max_log_index c"] role_of_node [OF ob]
    by (auto simp: request_target_usable_def Let_def last_index_of_def not_le)
  then show ?thesis using numeric_request_in_range [OF v] m
    by (simp add: raft_validate_action_def node_step_def action_of_kind_def profile_for_def)
qed

lemma resolve_advance:
  assumes "observation_validate ob = None" "obs_time ob < - 1" "rc_max_advance_ticks rc \<noteq> 0"
  shows "\<exists>r. resolve (Some rc) ((empty_plan_action PlanAdvanceTicks)\<lparr>pa_ticks := 1\<rparr>) ob = Some r \<and>
    rs_status r = ResolutionResolved \<and> rs_actions r = [(action_of_kind ActionAdvanceTime)\<lparr>act_target_time := obs_time ob + 1\<rparr>]"
proof -
  let ?a = "(empty_plan_action PlanAdvanceTicks)\<lparr>pa_ticks := 1\<rparr>"
  have a: "pa_kind ?a = PlanAdvanceTicks" "pa_ticks ?a = 1" "plan_action_validate ?a = None"
    by (simp_all add: empty_plan_action_def plan_action_validate_None)
  have "\<not> rc_max_advance_ticks rc < 1" using assms(3) by (simp add: word_less_1)
  moreover have "unat (obs_time ob) < unat (- 1 :: u64)" using assms(2) by (simp only: word_less_nat_alt)
  then have "logical_time_add (obs_time ob) 1 = Inr (obs_time ob + 1)"
    using unat_max_minus [of 0] by (simp add: logical_time_add_Inr)
  ultimately show ?thesis using assms(1)
    by (simp add: resolve_def a resolve_time_def)
qed
text \<open>What the code relies on for a 64-bit \<open>int\<close>, and on the resolver: that it takes single messages and ticks.\<close>

definition resolves_singly :: "resolver_config \<Rightarrow> bool" where
  "resolves_singly rc \<longleftrightarrow> 0 < rc_max_batch rc \<and> rc_max_advance_ticks rc \<noteq> 0"

lemma new_resolver_singly: "new_resolver rc0 = Inr rc \<Longrightarrow> resolves_singly rc"
  by (auto simp: new_resolver_def resolves_singly_def split: if_splits)

lemma executable_by:
  "(\<exists>r. resolve (Some rc) a ob = Some r \<and> rs_status r = ResolutionResolved \<and> rs_actions r = [x]) \<Longrightarrow>
     raft_validate_action (Some m) x ob = None \<Longrightarrow> executable_action rc m ob a"
  by (auto simp: executable_action_def)

lemma node_candidate_executable:
  assumes "observation_validate ob = None" "n \<in> set (obs_nodes ob)" "k \<in> {PlanTimeout, PlanCrash, PlanRestart}"
    "node_refusal k (no_status n) = None" "raft_validate_action (Some m) (node_step k (no_id n) []) ob = None"
  shows "executable_action rc m ob (node_action k n)"
proof -
  have k: "k \<in> {PlanTimeout, PlanCrash, PlanRestart, PlanRequest}" "[] = [] \<longleftrightarrow> k \<noteq> PlanRequest" using assms(3) by auto
  have "(node_action k n)\<lparr>pa_request := []\<rparr> = node_action k n" by (simp add: node_action_def empty_plan_action_def)
  with resolve_on_node [OF assms(1,2) k(1) assms(4) k(2), of rc] assms(5) show ?thesis
    by (intro executable_by) auto
qed

lemma message_candidate_executable:
  assumes "observation_validate ob = None" "queues_in_order ob" "msg \<in> set (obs_messages ob)" "resolves_singly rc"
  shows "message_within_profile p ob msg \<and> observed_node_running ob (mo_to msg) \<Longrightarrow>
      executable_action rc (rnp_profile p) ob (message_plan_action PlanDeliver msg)"
    and "executable_action rc m ob (message_plan_action PlanDrop msg)"
    and "executable_action rc m ob (message_plan_action PlanDuplicate msg)"
proof -
  have rc: "0 < rc_max_batch rc" using assms(4) by (simp add: resolves_singly_def)
  note resolves = resolve_message [OF assms(1-3) _ rc]
  show "executable_action rc (rnp_profile p) ob (message_plan_action PlanDeliver msg)"
    if "message_within_profile p ob msg \<and> observed_node_running ob (mo_to msg)"
    using that by (intro executable_by [OF resolves])
      (auto simp: is_plan_message_kind_def message_within_profile_def message_action_def)
  show "executable_action rc m ob (message_plan_action PlanDrop msg)"
    "executable_action rc m ob (message_plan_action PlanDuplicate msg)"
    by (intro executable_by [OF resolves]; simp add: is_plan_message_kind_def message_action_def
        raft_validate_action_def action_of_kind_def)+
qed

lemma candidates_executable:
  assumes ob: "observation_validate ob = None" "queues_in_order ob" and rc: "resolves_singly rc"
    and p: "profile_for (rnp_config p) (rnp_profile p)" "rnc_max_value (rnp_config p) < 2 ^ 63"
    and g: "g \<in> set (policy_candidates p ob)" "a \<in> set (grp_actions g)"
  shows "executable_action rc (rnp_profile p) ob a"
proof -
  let ?c = "rnp_config p" and ?ex = "executable_action rc (rnp_profile p) ob"
  let ?running = "\<lambda>n. n \<in> set (obs_nodes ob) \<and> no_status n = NodeRunning"
  consider (deliver) msg where "msg \<in> set (obs_messages ob)" "message_within_profile p ob msg"
      "observed_node_running ob (mo_to msg)" "a = message_plan_action PlanDeliver msg"
    | (drop) msg where "msg \<in> set (obs_messages ob)" "a = message_plan_action PlanDrop msg"
    | (duplicate) msg where "msg \<in> set (obs_messages ob)" "a = message_plan_action PlanDuplicate msg"
    | (timeout) n where "?running n" "timeout_usable ?c n" "a = node_action PlanTimeout n"
    | (request) n where "?running n" "request_target_usable ob n (rnc_max_log_index ?c)" "a \<in> set (node_requests ?c n)"
    | (advance) "a \<in> set (advance_candidates p ob)"
    | (crash) n where "?running n" "a = node_action PlanCrash n"
    | (restart) n where "n \<in> set (obs_nodes ob)" "no_status n = NodeCrashed" "a = node_action PlanRestart n"
    using g by (auto simp: policy_candidates_def Let_def split: if_splits)
  then show ?thesis
  proof cases
    case deliver
    then show ?thesis using message_candidate_executable(1) [OF ob _ rc] by blast
  next
    case drop
    then show ?thesis using message_candidate_executable(2) [OF ob _ rc] by simp
  next
    case duplicate
    then show ?thesis using message_candidate_executable(3) [OF ob _ rc] by simp
  next
    case timeout
    then show ?thesis using timeout_accepted [OF ob(1) _ timeout(2) p(1)]
      by (auto simp: node_refusal_def intro!: node_candidate_executable [OF ob(1)])
  next
    case request
    then obtain v where v: "1 \<le> v" "v \<le> rnc_max_value ?c" "a = (node_action PlanRequest n)\<lparr>pa_request := show_int v\<rparr>"
      by (auto simp: node_requests_def)
    have "raft_validate_action (Some (rnp_profile p)) (node_step PlanRequest (no_id n) (show_int v)) ob = None"
      using request(1) by (intro request_accepted [OF ob(1) _ request(2) p(1) v(1,2) p(2)]) simp
    then show ?thesis using resolve_on_node [OF ob(1), of n PlanRequest "show_int v" rc] request(1)
      unfolding v(3) by (intro executable_by) (auto simp: node_refusal_def show_int_nonempty)
  next
    case advance
    then have "obs_time ob < - 1" "a = (empty_plan_action PlanAdvanceTicks)\<lparr>pa_ticks := 1\<rparr>"
      "raft_validate_action (Some (rnp_profile p)) ((action_of_kind ActionAdvanceTime)\<lparr>act_target_time := obs_time ob + 1\<rparr>) ob = None"
      by (auto simp: advance_candidates_def split: if_splits)
    then show ?thesis using resolve_advance [OF ob(1)] rc by (auto simp: resolves_singly_def intro!: executable_by)
  next
    case crash
    then show ?thesis using crash_restart_accepted(1) [OF ob(1)]
      by (auto simp: node_refusal_def intro!: node_candidate_executable [OF ob(1)])
  next
    case restart
    then show ?thesis using crash_restart_accepted(2) [OF ob(1)]
      by (auto simp: node_refusal_def intro!: node_candidate_executable [OF ob(1)])
  qed
qed

section \<open>What Next returns\<close>

lemma quarter: "0 < w \<Longrightarrow> 0 \<le> max 1 (w div 4) \<and> max 1 (w div 4) \<le> w" for w :: int
  unfolding max_def by presburger

lemma candidate_weights:
  assumes "config_valid (rnp_config p)"
  shows "weights_nonneg (policy_candidates p ob)"
    and "usable_weight (policy_candidates p ob) \<le> sum_list (weight_list (rnc_weights (rnp_config p)))"
proof -
  let ?w = "rnc_weights (rnp_config p)"
  have w: "0 \<le> rw_deliver ?w" "0 \<le> rw_drop ?w" "0 \<le> rw_duplicate ?w" "0 \<le> rw_timeout ?w" "0 \<le> rw_request ?w"
    "0 \<le> rw_advance ?w" "0 \<le> rw_crash ?w" "0 \<le> rw_restart ?w"
    using assms by (simp_all add: config_valid_def weight_list_def)
  have t: "0 \<le> timeout_weight p b \<and> timeout_weight p b \<le> rw_timeout ?w" for b
    using w(4) quarter [of "rw_timeout ?w"] by (auto simp: timeout_weight_def Let_def)
  show "weights_nonneg (policy_candidates p ob)" using w t by (simp add: policy_candidates_def Let_def)
  have part: "(if b then x else 0) \<le> y" if "0 \<le> x" "x \<le> y" for b and x y :: int using that by simp
  show "usable_weight (policy_candidates p ob) \<le> sum_list (weight_list ?w)"
    unfolding policy_candidates_def Let_def usable_weight_simps action_group.simps weight_list_def sum_list.Cons sum_list.Nil
    by (intro add_mono part order_refl) (use w t in auto)
qed

lemma random_next_valid:
  assumes c: "config_valid (rnp_config p)" and ob: "observation_validate ob = None"
  defines "gs \<equiv> policy_candidates p ob"
  shows "case random_next draw ob p of
      None \<Rightarrow> 2 ^ 63 \<le> usable_weight gs
    | Some (Inl e, p') \<Rightarrow> False
    | Some (Inr None, p') \<Rightarrow> p' = p \<and> wrap64 (usable_weight gs) = 0
    | Some (Inr (Some a), p') \<Rightarrow> (\<exists>g \<in> set gs. 0 < grp_weight g \<and> a \<in> set (grp_actions g)) \<and>
        (\<exists>x. p' = remember a (p\<lparr>rnp_random := x\<rparr>))"
proof -
  have nn: "weights_nonneg gs" using candidate_weights(1) [OF c] by (simp add: gs_def)
  let ?u = "usable_weight gs"
  have u: "0 \<le> ?u" by (rule usable_weight_nonneg [OF nn])
  have total: "total_weight 0 gs = wrap64 ?u" by (rule total_weight_eq)
  consider (zero) "wrap64 ?u = 0" | (negative) "wrap64 ?u < 0" | (positive) "0 < wrap64 ?u" by linarith
  then show ?thesis
  proof cases
    case zero
    then show ?thesis using ob by (simp add: random_next_def Let_def total flip: gs_def)
  next
    case negative
    then have "2 ^ 63 \<le> ?u" using u wrap64_id [of ?u] by (cases "?u < 2 ^ 63") auto
    with negative ob show ?thesis by (simp add: random_next_def Let_def total intn_def flip: gs_def)
  next
    case positive
    obtain x g where draw: "draw (rnp_random p) = (x, g)" by fastforce
    let ?d = "x mod nat (wrap64 ?u)"
    have d: "intn draw (wrap64 ?u) (rnp_random p) = Some (?d, g)" using positive draw by (simp add: intn_def)
    have "int ?d < wrap64 ?u" using positive by (simp add: zmod_int)
    also have "\<dots> \<le> ?u" using u by (intro wrap64_le) simp
    finally obtain gr where gr: "gr \<in> set gs" "0 < grp_weight gr" "grp_actions gr \<noteq> []"
      "draw_group (int ?d) gs = Some (grp_actions gr)" using draw_group_Some [OF nn, of "int ?d"] by auto
    obtain y g' where draw': "draw g = (y, g')" by fastforce
    let ?i = "y mod length (grp_actions gr)"
    have i: "intn draw (int (length (grp_actions gr))) g = Some (?i, g')" using gr(3) draw' by (simp add: intn_def)
    have "grp_actions gr ! ?i \<in> set (grp_actions gr)" using gr(3) by simp
    then show ?thesis using ob positive gr(1,2)
      by (auto simp: random_next_def Let_def total d gr(4) i simp flip: gs_def)
  qed
qed

section \<open>Runs of the policy\<close>

datatype policy_call = ResetPolicy observation | NextAction observation

definition policy_call :: "('g \<Rightarrow> nat \<times> 'g) \<Rightarrow> (int \<Rightarrow> 'g) \<Rightarrow> policy_call \<Rightarrow> 'g random_policy \<Rightarrow> 'g random_policy option" where
  "policy_call draw source call p =
     (case call of
        ResetPolicy ob \<Rightarrow> Some (snd (random_reset source ob p))
      | NextAction ob \<Rightarrow> map_option snd (random_next draw ob p))"

fun policy_calls ::
  "('g \<Rightarrow> nat \<times> 'g) \<Rightarrow> (int \<Rightarrow> 'g) \<Rightarrow> policy_call list \<Rightarrow> 'g random_policy \<Rightarrow> 'g random_policy option" where
  "policy_calls draw source [] p = Some p"
| "policy_calls draw source (call # calls) p =
     (case policy_call draw source call p of None \<Rightarrow> None | Some p \<Rightarrow> policy_calls draw source calls p)"

definition is_lifecycle :: "plan_action \<Rightarrow> bool" where
  "is_lifecycle a \<longleftrightarrow> pa_kind a = PlanCrash \<or> pa_kind a = PlanRestart"

definition is_crash :: "plan_action \<Rightarrow> bool" where
  "is_crash a \<longleftrightarrow> pa_kind a = PlanCrash"

definition is_timeout :: "plan_action \<Rightarrow> bool" where
  "is_timeout a \<longleftrightarrow> pa_kind a = PlanTimeout"

text \<open>No action of one kind has one of another kind among the \<open>k\<close> actions before it.\<close>

definition spaced :: "nat \<Rightarrow> (plan_action \<Rightarrow> bool) \<Rightarrow> (plan_action \<Rightarrow> bool) \<Rightarrow> plan_action list \<Rightarrow> bool" where
  "spaced k before after as \<longleftrightarrow>
     list_all (\<lambda>j. after (as ! j) \<longrightarrow> \<not> list_ex before (take (j - (j - k)) (drop (j - k) as))) [0..<length as]"

lemma spaced_Nil [simp]: "spaced k before after []"
  by (simp add: spaced_def)

lemma spaced_snoc:
  "spaced k before after (as @ [a]) \<longleftrightarrow>
     spaced k before after as \<and> (after a \<longrightarrow> \<not> list_ex before (drop (length as - k) as))"
proof -
  have old: "(as @ [a]) ! j = as ! j \<and> take (j - (j - k)) (drop (j - k) (as @ [a])) = take (j - (j - k)) (drop (j - k) as)"
    if "j < length as" for j using that by (simp add: nth_append)
  have "drop (length as - k) (as @ [a]) = drop (length as - k) as @ [a]" by simp
  then have new: "take (length as - (length as - k)) (drop (length as - k) (as @ [a])) = drop (length as - k) as" by simp
  have "list_all (\<lambda>j. after ((as @ [a]) ! j) \<longrightarrow>
        \<not> list_ex before (take (j - (j - k)) (drop (j - k) (as @ [a])))) [0..<length as] = spaced k before after as"
    unfolding spaced_def by (rule list_all_cong) (auto simp: old)
  then show ?thesis unfolding spaced_def [of _ _ _ "as @ [a]"] by (simp add: new)
qed

text \<open>The nodes of an observation by status.\<close>

definition nodes_with :: "node_status \<Rightarrow> observation \<Rightarrow> nat" where
  "nodes_with st ob = length (filter (\<lambda>n. no_status n = st) (obs_nodes ob))"

lemma nodes_with_sorted: "length (filter (\<lambda>n. no_status n = st) (sort_key f (obs_nodes ob))) = nodes_with st ob"
  by (simp add: nodes_with_def filter_sort)

lemma message_plan_action_valid:
  assumes "observation_validate ob = None" "m \<in> set (obs_messages ob)" "k \<in> {PlanDeliver, PlanDrop, PlanDuplicate}"
  shows "plan_action_validate (message_plan_action k m) = None"
proof -
  have "message_observation_validate m = None" using assms by (simp add: observation_validate_None)
  then show ?thesis using assms(3)
    by (auto simp: message_observation_validate_None message_validate_None message_of_observation_def message_plan_action_def
        empty_plan_action_def plan_action_validate_None range_validate_None)
qed

lemma node_action_valid:
  assumes "observation_validate ob = None" "n \<in> set (obs_nodes ob)"
  shows "k \<in> {PlanTimeout, PlanCrash, PlanRestart} \<Longrightarrow> plan_action_validate (node_action k n) = None"
    and "a \<in> set (node_requests c n) \<Longrightarrow> plan_action_validate a = None"
  using observed_node_in(2) [OF assms]
  by (auto simp: node_action_def node_requests_def empty_plan_action_def plan_action_validate_None show_int_nonempty)

lemma candidate_facts:
  assumes ob: "observation_validate ob = None" and g: "g \<in> set (policy_candidates p ob)" "0 < grp_weight g" "a \<in> set (grp_actions g)"
  shows "plan_action_validate a = None" and "is_timeout a \<Longrightarrow> \<not> timeout_cooling_down p"
    and "is_crash a \<Longrightarrow> crash_allowed p \<and> 1 < nodes_with NodeRunning ob \<and>
      int (nodes_with NodeCrashed ob) < rnc_max_crashed (rnp_config p)"
proof -
  note kinds = is_timeout_def is_crash_def message_plan_action_def node_action_def node_requests_def empty_plan_action_def
    advance_candidates_def
  show "plan_action_validate a = None"
    using g message_plan_action_valid [OF ob] node_action_valid [OF ob]
    by (auto simp: policy_candidates_def Let_def advance_candidates_def empty_plan_action_def plan_action_validate_None
        split: if_splits)
  show "\<not> timeout_cooling_down p" if "is_timeout a"
    using g that by (auto simp: policy_candidates_def Let_def kinds timeout_weight_def split: if_splits)
  show "crash_allowed p \<and> 1 < nodes_with NodeRunning ob \<and> int (nodes_with NodeCrashed ob) < rnc_max_crashed (rnp_config p)"
    if "is_crash a"
    using g that by (auto simp: policy_candidates_def Let_def kinds nodes_with_sorted split: if_splits)
qed

section \<open>The invariant\<close>

definition policy_ok :: "random_config \<Rightarrow> 'g random_policy \<Rightarrow> bool" where
  "policy_ok c p \<longleftrightarrow> rnp_config p = c \<and> config_valid c \<and> profile_for c (rnp_profile p) \<and>
     int (length (filter is_crash (rnp_generated p))) = rnp_crash_episodes p \<and>
     rnp_crash_episodes p \<le> rnc_max_crash_episodes c \<and>
     -1 \<le> rnp_last_lifecycle p \<and> \<not> list_ex is_lifecycle (drop (nat (rnp_last_lifecycle p + 1)) (rnp_generated p)) \<and>
     rnp_last_lifecycle p < int (length (rnp_generated p)) \<and>
     spaced (nat (rnc_timeout_cooldown c)) is_timeout is_timeout (rnp_generated p) \<and>
     spaced (nat (rnc_lifecycle_cooldown c)) is_lifecycle is_crash (rnp_generated p) \<and>
     list_all (\<lambda>a. plan_action_validate a = None) (rnp_generated p)"

lemma list_ex_drop_mono: "list_ex P (drop m xs) \<Longrightarrow> n \<le> m \<Longrightarrow> list_ex P (drop n xs)"
  by (metis drop_drop in_set_dropD le_add_diff_inverse2 list_ex_iff)

lemma remember_ok:
  assumes ok: "policy_ok c p" and a: "plan_action_validate a = None" "is_timeout a \<Longrightarrow> \<not> timeout_cooling_down p"
    "is_crash a \<Longrightarrow> crash_allowed p"
  shows "policy_ok c (remember a (p\<lparr>rnp_random := x\<rparr>))"
proof -
  let ?as = "rnp_generated p" and ?q = "remember a (p\<lparr>rnp_random := x\<rparr>)"
  have fields: "rnp_generated ?q = ?as @ [a]" "rnp_config ?q = c" "rnp_profile ?q = rnp_profile p"
    "rnp_crash_episodes ?q = rnp_crash_episodes p + (if is_crash a then 1 else 0)"
    "rnp_last_lifecycle ?q = (if is_lifecycle a then int (length ?as) else rnp_last_lifecycle p)"
    using ok by (cases "pa_kind a"; simp add: remember_def Let_def is_crash_def is_lifecycle_def policy_ok_def)+
  have timeout: "\<not> list_ex is_timeout (drop (length ?as - nat (rnc_timeout_cooldown c)) ?as)" if "is_timeout a"
  proof (cases "rnc_timeout_cooldown c = 0")
    case False
    then have pos: "0 < rnc_timeout_cooldown c" using ok by (simp add: policy_ok_def config_valid_def)
    then have "nat (max 0 (int (length ?as) - rnc_timeout_cooldown c)) = length ?as - nat (rnc_timeout_cooldown c)" by linarith
    then show ?thesis using a(2) [OF that] ok pos
      by (simp add: timeout_cooling_down_def policy_ok_def is_timeout_def list_ex_iff)
  qed simp
  have crash: "\<not> list_ex is_lifecycle (drop (length ?as - nat (rnc_lifecycle_cooldown c)) ?as)" if "is_crash a"
  proof
    assume recent: "list_ex is_lifecycle (drop (length ?as - nat (rnc_lifecycle_cooldown c)) ?as)"
    have quiet: "\<not> list_ex is_lifecycle (drop (nat (rnp_last_lifecycle p + 1)) ?as)" using ok by (simp add: policy_ok_def)
    have "rnp_last_lifecycle p < 0 \<or> int (length ?as) - rnp_last_lifecycle p - 1 \<ge> rnc_lifecycle_cooldown c"
      using a(3) [OF that] ok by (auto simp: crash_allowed_def policy_ok_def split: if_splits)
    then have "nat (rnp_last_lifecycle p + 1) \<le> length ?as - nat (rnc_lifecycle_cooldown c)"
      using ok by (auto simp: policy_ok_def config_valid_def)
    with recent quiet list_ex_drop_mono show False by blast
  qed
  have budget: "rnp_crash_episodes p + (if is_crash a then 1 else 0) \<le> rnc_max_crash_episodes c"
    using ok a(3) by (auto simp: policy_ok_def crash_allowed_def split: if_splits)
  have last: "\<not> list_ex is_lifecycle (drop (nat (rnp_last_lifecycle ?q + 1)) (?as @ [a]))"
    using ok by (auto simp: fields policy_ok_def)
  show ?thesis
    using ok budget last timeout crash a(1) unfolding policy_ok_def fields
    by (auto simp: spaced_snoc)
qed

lemma random_next_invalid:
  "observation_validate ob = Some e \<Longrightarrow>
     random_next draw ob p = Some (Inl (plain_error (''invalid observation: '' @ validation_error_text e)), p)"
  by (simp add: random_next_def)

lemma policy_call_ok:
  assumes ok: "policy_ok c p" and step: "policy_call draw source call p = Some p'"
  shows "policy_ok c p'"
proof (cases call)
  case (ResetPolicy ob)
  then show ?thesis using ok step
    by (cases "observation_validate ob") (auto simp: policy_call_def random_reset_def policy_ok_def config_valid_def)
next
  case (NextAction ob)
  then obtain r where r: "random_next draw ob p = Some (r, p')" using step by (auto simp: policy_call_def)
  have c: "config_valid (rnp_config p)" using ok by (simp add: policy_ok_def)
  show ?thesis
  proof (cases "observation_validate ob")
    case (Some e)
    then show ?thesis using ok r random_next_invalid [OF Some, of draw p] by simp
  next
    case None
    note valid = random_next_valid [OF c None, of draw, unfolded r]
    show ?thesis
    proof (cases r)
      case (Inl e)
      with valid show ?thesis by simp
    next
      case (Inr next_action)
      show ?thesis
      proof (cases next_action)
        case None
        with valid Inr ok show ?thesis by simp
      next
        case (Some a)
        with valid Inr obtain g x where g: "g \<in> set (policy_candidates p ob)" "0 < grp_weight g" "a \<in> set (grp_actions g)"
          and p': "p' = remember a (p\<lparr>rnp_random := x\<rparr>)" by auto
        note facts = candidate_facts [OF \<open>observation_validate ob = None\<close> g]
        show ?thesis unfolding p' by (rule remember_ok [OF ok facts(1,2)]) (simp_all add: facts(3))
      qed
    qed
  qed
qed

lemma policy_calls_ok: "policy_ok c p \<Longrightarrow> policy_calls draw source calls p = Some p' \<Longrightarrow> policy_ok c p'"
  by (induction calls arbitrary: p) (auto split: option.splits dest: policy_call_ok)

lemma new_random_ok: "new_random source seed c = Inr p \<Longrightarrow> policy_ok c p"
  by (auto dest!: new_random_Inr simp: policy_ok_def config_valid_def)

lemma reached_ok:
  "new_random source seed c = Inr p0 \<Longrightarrow> policy_calls draw source calls p0 = Some p \<Longrightarrow> policy_ok c p"
  using policy_calls_ok new_random_ok by blast

section \<open>Each group is drawn as often as its weight says\<close>

lemma same_actions_once:
  "list_all2 (\<lambda>g k. list_all (\<lambda>a. pa_kind a = k) (grp_actions g)) gs ks \<Longrightarrow> distinct ks \<Longrightarrow> g \<in> set gs \<Longrightarrow>
     grp_actions g \<noteq> [] \<Longrightarrow> filter (\<lambda>h. grp_actions h \<noteq> [] \<and> grp_actions h = grp_actions g) gs = [g]"
proof (induction gs ks rule: list_all2_induct)
  case (Cons h gs k ks)
  have rest: "\<exists>l \<in> set ks. list_all (\<lambda>a. pa_kind a = l) (grp_actions x)" if "x \<in> set gs" for x
  proof -
    from that obtain i where "i < length gs" "x = gs ! i" by (auto simp: in_set_conv_nth)
    with Cons.hyps(2) show ?thesis by (intro bexI [of _ "ks ! i"]) (auto simp: list_all2_conv_all_nth)
  qed
  have differ: "grp_actions x \<noteq> grp_actions h" if "x \<in> set gs" "grp_actions x \<noteq> []" for x
  proof
    assume same: "grp_actions x = grp_actions h"
    from rest [OF that(1)] obtain l where "l \<in> set ks" "list_all (\<lambda>a. pa_kind a = l) (grp_actions x)" by blast
    then have "l = k" using Cons.hyps(1) same that(2) by (cases "grp_actions h") auto
    then show False using \<open>l \<in> set ks\<close> Cons.prems(1) by simp
  qed
  show ?case
  proof (cases "g \<in> set gs")
    case True
    then have "filter (\<lambda>h. grp_actions h \<noteq> [] \<and> grp_actions h = grp_actions g) gs = [g]"
      using Cons.IH Cons.prems by simp
    moreover have "grp_actions h \<noteq> grp_actions g" using differ [OF True Cons.prems(3)] by simp
    ultimately show ?thesis by simp
  next
    case False
    then have g: "g = h" using Cons.prems by simp
    have "filter (\<lambda>h. grp_actions h \<noteq> [] \<and> grp_actions h = grp_actions g) gs = []"
      using differ g by (auto simp: filter_empty_conv)
    then show ?thesis using g Cons.prems(3) by simp
  qed
qed simp

lemma candidate_kinds:
  "list_all2 (\<lambda>g k. list_all (\<lambda>a. pa_kind a = k) (grp_actions g)) (policy_candidates p ob)
     [PlanDeliver, PlanDrop, PlanDuplicate, PlanTimeout, PlanRequest, PlanAdvanceTicks, PlanCrash, PlanRestart]"
  by (auto simp: policy_candidates_def Let_def list_all_iff message_plan_action_def node_action_def node_requests_def
      empty_plan_action_def advance_candidates_def)

lemma draws_match_weights:
  assumes "config_valid (rnp_config p)" "g \<in> set (policy_candidates p ob)" "grp_actions g \<noteq> []"
  shows "draws_for (grp_actions g) (policy_candidates p ob) = grp_weight g"
  unfolding draws_for_exact [OF candidate_weights(1) [OF assms(1)]]
  using same_actions_once [OF candidate_kinds _ assms(2,3)] by simp

lemma remember_generated: "rnp_generated (remember a p) = rnp_generated p @ [a]"
  by (cases "pa_kind a") (simp_all add: remember_def Let_def)

lemma usable_weight_zero:
  "weights_nonneg gs \<Longrightarrow> usable_weight gs = 0 \<Longrightarrow> list_all (\<lambda>g. grp_actions g = [] \<or> grp_weight g = 0) gs"
proof (induction gs)
  case (Cons g gs)
  then have "0 \<le> usable_weight gs" by (simp add: usable_weight_nonneg)
  with Cons show ?case by (auto split: if_splits)
qed simp

section \<open>The properties\<close>


text \<open>C19: what the random policy plans can be done: in any state it can reach, the action that \<open>Next\<close> returns for
  an observation whose queues are in order resolves to exactly one concrete action, with any resolver that
  \<open>NewResolver\<close> makes, and the profile with the same bounds accepts that action.\<close>

theorem random_actions_executable:
  "case new_random source seed c of
     Inl _ \<Rightarrow> True
   | Inr p0 \<Rightarrow>
       (case (policy_calls draw source calls p0, new_resolver rc0) of
          (Some p, Inr rc) \<Rightarrow>
            (case random_next draw ob p of
               Some (Inr (Some a), p') \<Rightarrow>
                 (if queues_in_order ob \<and> rnc_max_value c < 2 ^ 63
                  then executable_action rc (rnp_profile p) ob a \<and> profile_for c (rnp_profile p) else True)
             | _ \<Rightarrow> True)
        | _ \<Rightarrow> True)"
proof (cases "new_random source seed c")
  case (Inr p0)
  have "executable_action rc (rnp_profile p) ob a \<and> profile_for c (rnp_profile p)"
    if p: "policy_calls draw source calls p0 = Some p" and rc: "new_resolver rc0 = Inr rc"
      and nxt: "random_next draw ob p = Some (Inr (Some a), p')"
      and ob: "queues_in_order ob" "rnc_max_value c < 2 ^ 63" for p rc a p'
  proof -
    have ok: "policy_ok c p" by (rule reached_ok [OF Inr p])
    then have c: "config_valid (rnp_config p)" "profile_for (rnp_config p) (rnp_profile p)" "rnp_config p = c"
      by (auto simp: policy_ok_def)
    have valid: "observation_validate ob = None"
      using nxt random_next_invalid [of ob _ draw p] by (cases "observation_validate ob") auto
    from random_next_valid [OF c(1) valid, of draw] nxt obtain g where
      "g \<in> set (policy_candidates p ob)" "a \<in> set (grp_actions g)" by auto
    with candidates_executable [OF valid ob(1) new_resolver_singly [OF rc] c(2)] ob(2) c show ?thesis by simp
  qed
  then show ?thesis using Inr by (auto split: option.splits sum.splits)
qed simp

text \<open>C21: faults are rationed: in any state the random policy can reach there are at most \<open>MaxCrashEpisodes\<close>
  crashes in the record of the run, none of them among the \<open>LifecycleCooldown\<close> actions after a crash or a
  restart, and no forced timeout among the \<open>TimeoutCooldown\<close> actions after another; a crash is only planned
  when at least two nodes run and fewer than \<open>MaxCrashed\<close> are down; the recorded sequence is a valid plan.\<close>

theorem random_faults_rationed:
  "case new_random source seed c of
     Inl _ \<Rightarrow> True
   | Inr p0 \<Rightarrow>
       (case policy_calls draw source calls p0 of
          None \<Rightarrow> True
        | Some p \<Rightarrow>
            int (length (filter is_crash (rnp_generated p))) \<le> rnc_max_crash_episodes c \<and>
            spaced (nat (rnc_lifecycle_cooldown c)) is_lifecycle is_crash (rnp_generated p) \<and>
            spaced (nat (rnc_timeout_cooldown c)) is_timeout is_timeout (rnp_generated p) \<and>
            plan_sequence_validate (random_sequence p) = None \<and>
            (case random_next draw ob p of
               Some (Inr (Some a), p') \<Rightarrow>
                 (if is_crash a
                  then 1 < nodes_with NodeRunning ob \<and> int (nodes_with NodeCrashed ob) < rnc_max_crashed c else True)
             | _ \<Rightarrow> True))"
proof (cases "new_random source seed c")
  case (Inr p0)
  show ?thesis
  proof (cases "policy_calls draw source calls p0")
    case (Some p)
    have ok: "policy_ok c p" by (rule reached_ok [OF Inr Some])
    then have c: "config_valid (rnp_config p)" "rnp_config p = c" by (auto simp: policy_ok_def)
    have crash: "1 < nodes_with NodeRunning ob \<and> int (nodes_with NodeCrashed ob) < rnc_max_crashed c"
      if nxt: "random_next draw ob p = Some (Inr (Some a), p')" and a: "is_crash a" for a p'
    proof -
      have valid: "observation_validate ob = None"
        using nxt random_next_invalid [of ob _ draw p] by (cases "observation_validate ob") auto
      from random_next_valid [OF c(1) valid, of draw] nxt obtain g where
        "g \<in> set (policy_candidates p ob)" "0 < grp_weight g" "a \<in> set (grp_actions g)" by auto
      from candidate_facts(3) [OF valid this a] c(2) show ?thesis by simp
    qed
    have "plan_sequence_validate (random_sequence p) = None"
      using ok by (simp add: plan_sequence_validate_None plan_valid_def random_sequence_def policy_ok_def list_all_iff)
    then show ?thesis using Inr Some ok crash by (auto simp: policy_ok_def split: option.splits sum.splits)
  qed (simp add: Inr)
qed simp

text \<open>C34: the weights are exact: of the numbers below the sum of the weights of the groups that have an action,
  exactly as many select a group as its weight says, in any state the random policy can reach.\<close>

theorem random_draws_match_weights:
  "case new_random source seed c of
     Inl _ \<Rightarrow> True
   | Inr p0 \<Rightarrow>
       (case policy_calls draw source calls p0 of
          None \<Rightarrow> True
        | Some p \<Rightarrow> list_all (\<lambda>g. case grp_actions g of [] \<Rightarrow> True
              | as \<Rightarrow> draws_for as (policy_candidates p ob) = grp_weight g) (policy_candidates p ob))"
proof (cases "new_random source seed c")
  case (Inr p0)
  show ?thesis
  proof (cases "policy_calls draw source calls p0")
    case (Some p)
    have "config_valid (rnp_config p)" using reached_ok [OF Inr Some] by (auto simp: policy_ok_def)
    from draws_match_weights [OF this] have "case grp_actions g of [] \<Rightarrow> True
        | as \<Rightarrow> draws_for as (policy_candidates p ob) = grp_weight g" if "g \<in> set (policy_candidates p ob)" for g
      using that by (cases "grp_actions g") force+
    then show ?thesis using Inr Some by (simp add: list_all_iff)
  qed (simp add: Inr)
qed simp

text \<open>Weights whose sum wraps around to a negative number.\<close>

definition overflow_config :: random_config where
  "overflow_config = default_random_config\<lparr>rnc_weights := \<lparr>rw_deliver = 0, rw_drop = max_int64,
     rw_duplicate = max_int64, rw_timeout = 0, rw_request = 0, rw_advance = 0, rw_crash = 0, rw_restart = 0\<rparr>\<rparr>"

text \<open>C35: \<open>validateRandomConfig\<close> adds up the weights with wrap-around and rejects only the sum 0, so that
  \<open>NewRandom\<close> accepts two weights of the largest \<open>int\<close>; then \<open>Next\<close> panics for every valid observation with a
  message.\<close>

theorem random_weights_overflow_panics:
  "case new_random source seed overflow_config of
     Inl _ \<Rightarrow> False
   | Inr p \<Rightarrow> (if observation_validate ob = None \<and> obs_messages ob \<noteq> [] then random_next draw ob p = None else True)"
proof -
  have "validate_random_config overflow_config = None"
    by (simp add: validate_random_config_def overflow_config_def default_random_config_def weight_list_def max_int64_def
        wrap64_def)
  then obtain p where p: "new_random source seed overflow_config = Inr p" using new_random_iff by blast
  have c: "rnp_config p = overflow_config" using new_random_Inr [OF p] by simp
  have "random_next draw ob p = None" if ob: "observation_validate ob = None" "obs_messages ob \<noteq> []"
  proof -
    have sorted: "sort_key mo_id (obs_messages ob) \<noteq> []" using ob(2) by (metis length_0_conv length_sort)
    have timeout: "timeout_weight p b = 0" for b
      by (simp add: timeout_weight_def c overflow_config_def Let_def)
    have "usable_weight (policy_candidates p ob) = 2 * max_int64"
      using sorted by (simp add: policy_candidates_def Let_def c timeout) (simp add: overflow_config_def)
    then have "total_weight 0 (policy_candidates p ob) = -2"
      by (simp only: total_weight_eq) (simp add: max_int64_def wrap64_def)
    then show ?thesis using ob(1) by (simp add: random_next_def Let_def intn_def)
  qed
  then show ?thesis by (simp add: p)
qed

end
