(* ===== verification/Raft_Coverage.thy ===== *)
theory Raft_Coverage
  imports Model "HOL-Library.Monad_Syntax" "HOL-Library.AList"
begin

text \<open>
  internal/model/raft/coverage.go: the projection of the states that TLC prints onto semantic keys, in which
  absolute terms are replaced by their ranks. Texts are byte strings; white space is ASCII white space,
  which is all that TLC prints. The first eight bytes of the SHA-256 digest (\<open>coverageKey\<close>) are a parameter.
\<close>

section \<open>Strings\<close>

definition is_space :: "char \<Rightarrow> bool" where
  "is_space c \<longleftrightarrow> c \<in> {CHR 0x09, CHR 0x0A, CHR 0x0B, CHR 0x0C, CHR 0x0D, CHR 0x20}"

definition is_digit :: "char \<Rightarrow> bool" where
  "is_digit c \<longleftrightarrow> char_digit c \<noteq> None"

definition trim_space :: "string \<Rightarrow> string" where
  "trim_space s = rev (dropWhile is_space (rev (dropWhile is_space s)))"

text \<open>\<open>strings.Fields\<close>: the words between white space; \<open>w\<close> is the word being read.\<close>

fun fields_from :: "string \<Rightarrow> string \<Rightarrow> string list" where
  "fields_from w [] = (if w = [] then [] else [w])"
| "fields_from w (c # cs) =
     (if is_space c then (if w = [] then fields_from [] cs else w # fields_from [] cs) else fields_from (w @ [c]) cs)"

definition fields :: "string \<Rightarrow> string list" where
  "fields s = fields_from [] s"

fun join :: "string \<Rightarrow> string list \<Rightarrow> string" where
  "join sep [] = []"
| "join sep [s] = s"
| "join sep (s # t # ss) = s @ sep @ join sep (t # ss)"

definition compact :: "string \<Rightarrow> string" where
  "compact s = join [] (fields s)"

text \<open>\<open>strings.Split\<close> at every newline, and \<open>strings.SplitN(s, sep, 2)\<close>: what is before and after the first
  \<open>sep\<close>, if there is one.\<close>

fun split_lines :: "string \<Rightarrow> string list" where
  "split_lines [] = [[]]"
| "split_lines (c # cs) =
     (if c = CHR 0x0A then [] # split_lines cs
      else case split_lines cs of [] \<Rightarrow> [[c]] | l # ls \<Rightarrow> (c # l) # ls)"

definition after_prefix :: "string \<Rightarrow> string \<Rightarrow> string option" where
  "after_prefix p s = (if take (length p) s = p then Some (drop (length p) s) else None)"

fun split_at :: "string \<Rightarrow> string \<Rightarrow> (string \<times> string) option" where
  "split_at sep [] = None"
| "split_at sep (c # cs) =
     (case after_prefix sep (c # cs) of
        Some rest \<Rightarrow> Some ([], rest)
      | None \<Rightarrow> (case split_at sep cs of None \<Rightarrow> None | Some (l, r) \<Rightarrow> Some (c # l, r)))"

section \<open>Patterns\<close>

text \<open>The white space of a regular expression does not contain the vertical tab.\<close>

definition skip_space :: "string \<Rightarrow> string" where
  "skip_space s = dropWhile (\<lambda>c. is_space c \<and> c \<noteq> CHR 0x0B) s"

text \<open>A pattern anchored at the start of a text: the group it captures and the length of the match. Each is
  deterministic, so that the longest match is the only one.\<close>

type_synonym pattern = "string \<Rightarrow> (string \<times> nat) option"

definition current_term_pattern :: pattern where
  "current_term_pattern s =
     do { r \<leftarrow> after_prefix ''currentTerm'' s;
          r \<leftarrow> after_prefix ''='' (skip_space r);
          r \<leftarrow> after_prefix ''<<'' (skip_space r);
          rest \<leftarrow> after_prefix ''>>'' (dropWhile (\<lambda>c. c \<noteq> CHR ''>'') r);
          Some (takeWhile (\<lambda>c. c \<noteq> CHR ''>'') r, length s - length rest) }"

definition entry_pattern :: "string \<Rightarrow> pattern" where
  "entry_pattern name s =
     do { r \<leftarrow> after_prefix name s;
          r \<leftarrow> after_prefix ''|->'' (skip_space r);
          let number = takeWhile is_digit (skip_space r);
          if number = [] then None else Some (number, length s - length (dropWhile is_digit (skip_space r))) }"

definition number_pattern :: pattern where
  "number_pattern s =
     (let number = takeWhile is_digit s in if number = [] then None else Some (number, length number))"

text \<open>The matches of a text from left to right, without overlaps; \<open>k\<close> characters are still to be skipped.\<close>

fun find_all :: "pattern \<Rightarrow> nat \<Rightarrow> string \<Rightarrow> string list" where
  "find_all p k [] = []"
| "find_all p 0 (c # cs) =
     (case p (c # cs) of Some (g, n) \<Rightarrow> g # find_all p (n - 1) cs | None \<Rightarrow> find_all p 0 cs)"
| "find_all p (Suc k) (c # cs) = find_all p k cs"

fun replace_all :: "pattern \<Rightarrow> (string \<Rightarrow> string \<Rightarrow> string) \<Rightarrow> nat \<Rightarrow> string \<Rightarrow> string" where
  "replace_all p f k [] = []"
| "replace_all p f 0 (c # cs) =
     (case p (c # cs) of
        Some (g, n) \<Rightarrow> f (take n (c # cs)) g @ replace_all p f (n - 1) cs
      | None \<Rightarrow> c # replace_all p f 0 cs)"
| "replace_all p f (Suc k) (c # cs) = replace_all p f k cs"

section \<open>Terms and their ranks\<close>

text \<open>\<open>ParseUint\<close> with its error ignored: a number that does not fit gives the largest.\<close>

definition parse_term :: "string \<Rightarrow> u64" where
  "parse_term s = (case parse_uint s of Some t \<Rightarrow> t | None \<Rightarrow> if s = [] \<or> \<not> list_all is_digit s then 0 else - 1)"

fun ranks_from :: "u64 \<Rightarrow> u64 list \<Rightarrow> (u64 \<times> u64) list" where
  "ranks_from n [] = []"
| "ranks_from n (t # ts) = (if t = 0 then (t, 0) # ranks_from n ts else (t, n) # ranks_from (n + 1) ts)"

definition ranks_of :: "u64 list \<Rightarrow> (u64 \<times> u64) list" where
  "ranks_of ts = ranks_from 1 (sort (remdups ts))"

definition terms_in :: "string \<Rightarrow> u64 list" where
  "terms_in text =
     concat (map (\<lambda>g. map parse_term (find_all number_pattern 0 g)) (find_all current_term_pattern 0 text)) @
     map parse_term (find_all (entry_pattern ''term'') 0 text)"

definition term_ranks :: "string \<Rightarrow> (u64 \<times> u64) list" where
  "term_ranks text = ranks_of (terms_in text)"

definition rank :: "(u64 \<times> u64) list \<Rightarrow> u64 \<Rightarrow> u64" where
  "rank ranks t = (case map_of ranks t of None \<Rightarrow> 0 | Some r \<Rightarrow> r)"

definition replace_terms :: "string \<Rightarrow> (u64 \<times> u64) list \<Rightarrow> string" where
  "replace_terms s ranks = replace_all number_pattern (\<lambda>_ number. format_uint (rank ranks (parse_term number))) 0 (compact s)"

definition normalize_relative_terms :: "string \<Rightarrow> string" where
  "normalize_relative_terms text =
     (let ranks = term_ranks text;
          text = replace_all current_term_pattern (\<lambda>whole _. replace_terms whole ranks) 0 text
      in replace_all (entry_pattern ''term'') (\<lambda>_ number. ''term |-> '' @ format_uint (rank ranks (parse_term number))) 0 text)"

section \<open>Tuples\<close>

text \<open>The parts of a tuple at its top level: \<open>part\<close> is the part being read, with the depths of the three kinds of
  brackets, which can become negative.\<close>

fun split_parts :: "string \<Rightarrow> int \<Rightarrow> int \<Rightarrow> int \<Rightarrow> string \<Rightarrow> string list option" where
  "split_parts part angle square brace [] =
     (if angle \<noteq> 0 \<or> square \<noteq> 0 \<or> brace \<noteq> 0 then None else Some [trim_space part])"
| "split_parts part angle square brace (c # cs) =
     (if take 2 (c # cs) = ''<<'' then split_parts (part @ ''<<'') (angle + 1) square brace (tl cs)
      else if take 2 (c # cs) = ''>>'' then split_parts (part @ ''>>'') (angle - 1) square brace (tl cs)
      else if c = CHR ''['' then split_parts (part @ [c]) angle (square + 1) brace cs
      else if c = CHR '']'' then split_parts (part @ [c]) angle (square - 1) brace cs
      else if c = CHR ''{'' then split_parts (part @ [c]) angle square (brace + 1) cs
      else if c = CHR ''}'' then split_parts (part @ [c]) angle square (brace - 1) cs
      else if c = CHR '','' \<and> angle = 0 \<and> square = 0 \<and> brace = 0
      then map_option ((#) (trim_space part)) (split_parts [] angle square brace cs)
      else split_parts (part @ [c]) angle square brace cs)"

definition split_tla_tuple :: "string \<Rightarrow> string list option" where
  "split_tla_tuple s0 =
     (let s = trim_space s0 in
      if take 2 s \<noteq> ''<<'' \<or> drop (length s - 2) s \<noteq> ''>>'' then None
      else
        let inside = trim_space (take (length s - 4) (drop 2 s))
        in if inside = [] then Some [] else split_parts [] 0 0 0 inside)"

fun parse_all_uint :: "string list \<Rightarrow> u64 list option" where
  "parse_all_uint [] = Some []"
| "parse_all_uint (p # ps) =
     (case parse_uint (trim_space p) of
        None \<Rightarrow> None
      | Some t \<Rightarrow> (case parse_all_uint ps of None \<Rightarrow> None | Some ts \<Rightarrow> Some (t # ts)))"

text \<open>The numbers of a tuple; nil, which is an empty slice, if it is not a tuple of numbers.\<close>

definition parse_uint_tuple :: "string \<Rightarrow> u64 list" where
  "parse_uint_tuple s =
     (case split_tla_tuple s of
        None \<Rightarrow> []
      | Some parts \<Rightarrow> (case parse_all_uint parts of None \<Rightarrow> [] | Some ts \<Rightarrow> ts))"

section \<open>Shapes\<close>

definition entry_shape :: "(u64 \<times> u64) list \<Rightarrow> string \<Rightarrow> string option" where
  "entry_shape ranks entry =
     (case (find_all (entry_pattern ''term'') 0 entry, find_all (entry_pattern ''value'') 0 entry) of
        (t # _, v # _) \<Rightarrow> Some (format_uint (rank ranks (parse_term t)) @ '':'' @ v)
      | _ \<Rightarrow> None)"

fun map_all :: "('a \<Rightarrow> 'b option) \<Rightarrow> 'a list \<Rightarrow> 'b list option" where
  "map_all f [] = Some []"
| "map_all f (x # xs) =
     (case f x of None \<Rightarrow> None | Some y \<Rightarrow> (case map_all f xs of None \<Rightarrow> None | Some ys \<Rightarrow> Some (y # ys)))"

definition node_log_shape :: "(u64 \<times> u64) list \<Rightarrow> string \<Rightarrow> (string \<times> int) option" where
  "node_log_shape ranks node =
     do { entries \<leftarrow> split_tla_tuple node;
          parts \<leftarrow> map_all (entry_shape ranks) entries;
          Some (''['' @ join '','' parts @ '']'', int (length entries)) }"

definition semantic_log :: "string \<Rightarrow> (u64 \<times> u64) list \<Rightarrow> (string \<times> int list) option" where
  "semantic_log s ranks =
     do { nodes \<leftarrow> split_tla_tuple s;
          shapes \<leftarrow> map_all (node_log_shape ranks) nodes;
          Some (join '';'' (map fst shapes), map snd shapes) }"

text \<open>How far an index lies behind the end of a log; \<open>int(index)\<close> can be negative.\<close>

definition lag_shape :: "int \<Rightarrow> u64 \<Rightarrow> string" where
  "lag_shape len index =
     (let lag = wrap64 (len - sint index) in
      if index = 0 then ''zero'' else if lag \<le> 0 then ''full'' else if lag = 1 then ''lag1'' else ''lag2+'')"

definition commit_shape :: "string \<Rightarrow> int list \<Rightarrow> string" where
  "commit_shape s lens =
     (let commits = parse_uint_tuple s in
      if length commits \<noteq> length lens then compact s else join '','' (map2 lag_shape lens commits))"

definition replication_shape :: "string \<Rightarrow> int list \<Rightarrow> string" where
  "replication_shape s lens =
     (case split_tla_tuple s of
        None \<Rightarrow> compact s
      | Some rows \<Rightarrow>
          if length rows \<noteq> length lens then compact s
          else join '';'' (map2 (\<lambda>len row. join '','' (map (lag_shape len) (parse_uint_tuple row))) lens rows))"

definition trim_braces :: "string \<Rightarrow> string" where
  "trim_braces s0 =
     (let s = trim_prefix (trim_space s0) ''{'';
          s = (if s \<noteq> [] \<and> last s = CHR ''}'' then butlast s else s)
      in trim_space s)"

definition set_shape :: "string \<Rightarrow> string" where
  "set_shape s =
     (let inside = trim_braces s in
      if inside = [] then ''0'' else if CHR '','' \<notin> set inside then ''1'' else ''2+'')"

definition vote_shape :: "string \<Rightarrow> string" where
  "vote_shape s = (case split_tla_tuple s of None \<Rightarrow> compact s | Some sets \<Rightarrow> join '','' (map set_shape sets))"

section \<open>States and runs\<close>

text \<open>A conjunct starts with \<open>/\\<close> and a space.\<close>

definition conjunct :: string where
  "conjunct = [CHR 0x2F, CHR 0x5C, CHR 0x20]"

text \<open>The loop over the lines of a state: the name being read, empty if there is none, and the values so far.\<close>

fun assignments_from :: "string \<Rightarrow> (string \<times> string) list \<Rightarrow> string list \<Rightarrow> (string \<times> string) list" where
  "assignments_from current m [] = m"
| "assignments_from current m (l # ls) =
     (let line = trim_space l in
      case after_prefix conjunct line of
        Some rest \<Rightarrow>
          (case split_at '' = '' rest of
             None \<Rightarrow> assignments_from [] m ls
           | Some (name, v) \<Rightarrow> assignments_from name (AList.update name v m) ls)
      | None \<Rightarrow>
          if current \<noteq> [] \<and> line \<noteq> []
          then assignments_from current (AList.update current (string_at m current @ '' '' @ line) m) ls
          else assignments_from current m ls)"

definition state_assignments :: "string \<Rightarrow> (string \<times> string) list" where
  "state_assignments text = assignments_from [] [] (split_lines text)"

definition plain_projection :: "string \<Rightarrow> string" where
  "plain_projection text = normalize_relative_terms (join '' '' (fields text))"

definition project_assignments :: "(string \<times> string) list \<Rightarrow> string option" where
  "project_assignments m =
     (let val = string_at m in
      if val ''currentActive'' = [] \<or> val ''state'' = [] \<or> val ''currentTerm'' = [] \<or> val ''log'' = [] then None
      else
        let ranks = term_ranks (''currentTerm = '' @ val ''currentTerm'' @ '' '' @ val ''log'')
        in case semantic_log (val ''log'') ranks of
             None \<Rightarrow> None
           | Some (shape, lens) \<Rightarrow>
               Some (join ''|''
                 [''active='' @ compact (val ''currentActive''),
                  ''roles='' @ compact (val ''state''),
                  ''terms='' @ replace_terms (val ''currentTerm'') ranks,
                  ''log='' @ shape,
                  ''commit='' @ commit_shape (val ''commitIndex'') lens,
                  ''replication='' @ replication_shape (val ''matchIndex'') lens,
                  ''votes='' @ vote_shape (val ''votesGranted''),
                  ''votedFor='' @ compact (val ''votedFor'')]))"

definition project_state :: "model_state \<Rightarrow> string" where
  "project_state s =
     (if trim_space (ms_text s) = [] then ''raw:'' @ show_int (ms_key s)
      else case project_assignments (state_assignments (ms_text s)) of
        Some shape \<Rightarrow> shape
      | None \<Rightarrow> plain_projection (ms_text s))"

text \<open>\<open>ProjectCoverage\<close>: the keys of the states, and of the pairs of states with the name of the event between
  them, both without repetition and in order.\<close>

definition transition_text :: "string \<Rightarrow> string \<Rightarrow> string \<Rightarrow> string" where
  "transition_text before name after = before @ [CHR 0x00] @ name @ [CHR 0x00] @ after"

definition project_coverage :: "(string \<Rightarrow> int) \<Rightarrow> model_state list \<Rightarrow> event list \<Rightarrow> int list \<times> int list" where
  "project_coverage key states events =
     (let projected = map project_state states;
          steps = min (length events) (length projected - 1)
      in (sort (remdups (map key projected)),
          sort (remdups (map (\<lambda>i. key (transition_text (projected ! i) (ev_name (events ! i)) (projected ! Suc i))) [0..<steps]))))"

section \<open>Values and their texts\<close>

text \<open>The values TLC prints, as far as the states of the model have them.\<close>

datatype tla = Atom string | Tuple "tla list" | SetOf "tla list" | Fields "(string \<times> tla) list"

fun tla_text :: "tla \<Rightarrow> string" where
  "tla_text (Atom s) = s"
| "tla_text (Tuple vs) = ''<<'' @ join '', '' (map tla_text vs) @ ''>>''"
| "tla_text (SetOf vs) = ''{'' @ join '', '' (map tla_text vs) @ ''}''"
| "tla_text (Fields fs) = ''['' @ join '', '' (map (\<lambda>f. fst f @ '' |-> '' @ tla_text (snd f)) fs) @ '']''"

definition plain_char :: "char \<Rightarrow> bool" where
  "plain_char c \<longleftrightarrow> c \<notin> set ''<>[]{},'' \<and> \<not> is_space c"

definition plain_text :: "string \<Rightarrow> bool" where
  "plain_text s \<longleftrightarrow> s \<noteq> [] \<and> list_all plain_char s"

fun well_formed :: "tla \<Rightarrow> bool" where
  "well_formed (Atom s) = plain_text s"
| "well_formed (Tuple vs) = list_all well_formed vs"
| "well_formed (SetOf vs) = list_all well_formed vs"
| "well_formed (Fields fs) = list_all (\<lambda>f. plain_text (fst f) \<and> well_formed (snd f)) fs"

section \<open>Splitting tuples\<close>

text \<open>Inside brackets a neutral text is read whole; a closed one at the top level as well.\<close>

definition neutral :: "string \<Rightarrow> bool" where
  "neutral p \<longleftrightarrow> (\<forall>part a s b rest. 0 \<le> a \<and> 0 \<le> s \<and> 0 \<le> b \<and> 0 < a + s + b \<longrightarrow>
     split_parts part a s b (p @ rest) = split_parts (part @ p) a s b rest)"

definition closed_text :: "string \<Rightarrow> bool" where
  "closed_text p \<longleftrightarrow> (\<forall>part rest. split_parts part 0 0 0 (p @ rest) = split_parts (part @ p) 0 0 0 rest)"

lemma neutral_append: "neutral p \<Longrightarrow> neutral q \<Longrightarrow> neutral (p @ q)"
  by (simp add: neutral_def)

lemma neutral_Nil [simp]: "neutral []"
  by (simp add: neutral_def)

lemma split_plain:
  "list_all (\<lambda>c. c \<notin> set ''<>[]{},'') p \<Longrightarrow> split_parts part a s b (p @ rest) = split_parts (part @ p) a s b rest"
  by (induction p arbitrary: part) auto

lemma plain_neutral: "list_all (\<lambda>c. c \<notin> set ''<>[]{},'') p \<Longrightarrow> neutral p \<and> closed_text p"
  by (simp add: neutral_def closed_text_def split_plain)

lemma comma_neutral: "neutral '', ''"
  by (simp add: neutral_def)

lemma arrow_neutral: "neutral '' |-> ''"
  by (simp add: neutral_def)

lemma join_neutral: "list_all neutral ps \<Longrightarrow> neutral (join '', '' ps)"
proof (induction "'', ''" ps rule: join.induct)
  case (3 s t ss)
  then show ?case using neutral_append [OF _ neutral_append [OF comma_neutral]] by simp
qed simp_all

lemma split_open:
  "split_parts part a s b (''<<'' @ rest) = split_parts (part @ ''<<'') (a + 1) s b rest"
  "split_parts part a s b (''>>'' @ rest) = split_parts (part @ ''>>'') (a - 1) s b rest"
  "split_parts part a s b (''['' @ rest) = split_parts (part @ ''['') a (s + 1) b rest"
  "split_parts part a s b ('']'' @ rest) = split_parts (part @ '']'') a (s - 1) b rest"
  "split_parts part a s b (''{'' @ rest) = split_parts (part @ ''{'') a s (b + 1) rest"
  "split_parts part a s b (''}'' @ rest) = split_parts (part @ ''}'') a s (b - 1) rest"
  by simp_all

lemma bracketed:
  assumes "neutral p" and k: "(l, r) \<in> {(''<<'', ''>>''), (''['', '']''), (''{'', ''}'')}"
  shows "neutral (l @ p @ r) \<and> closed_text (l @ p @ r)"
proof -
  have "split_parts part a s b ((l @ p @ r) @ rest) = split_parts (part @ l @ p @ r) a s b rest"
    if "0 \<le> a" "0 \<le> s" "0 \<le> b" for part a s b rest
    using assms(1) k that unfolding neutral_def
    by (auto simp only: append_assoc split_open insert_iff empty_iff prod.inject) auto
  then show ?thesis unfolding neutral_def closed_text_def by auto
qed

lemma plain_text_plain: "plain_text s \<Longrightarrow> list_all (\<lambda>c. c \<notin> set ''<>[]{},'') s"
  by (auto simp: plain_text_def plain_char_def list_all_iff)

lemma tla_text_neutral: "well_formed v \<Longrightarrow> neutral (tla_text v) \<and> closed_text (tla_text v)"
proof (induction v rule: tla_text.induct)
  case (1 s)
  then show ?case using plain_neutral [OF plain_text_plain] by simp
next
  case (2 vs)
  then have "neutral (join '', '' (map tla_text vs))" by (intro join_neutral) (auto simp: list_all_iff)
  then show ?case unfolding tla_text.simps by (rule bracketed) simp
next
  case (3 vs)
  then have "neutral (join '', '' (map tla_text vs))" by (intro join_neutral) (auto simp: list_all_iff)
  then show ?case unfolding tla_text.simps by (rule bracketed) simp
next
  case (4 fs)
  have "neutral (fst f @ '' |-> '' @ tla_text (snd f))" if "f \<in> set fs" for f
  proof -
    have "plain_text (fst f)" "neutral (tla_text (snd f))" using 4 that by (auto simp: list_all_iff)
    with plain_neutral [OF plain_text_plain] show ?thesis by (intro neutral_append [OF _ neutral_append [OF arrow_neutral]]) auto
  qed
  then have "neutral (join '', '' (map (\<lambda>f. fst f @ '' |-> '' @ tla_text (snd f)) fs))"
    by (intro join_neutral) (auto simp: list_all_iff)
  then show ?case unfolding tla_text.simps by (rule bracketed) simp
qed

text \<open>A text without white space at its ends.\<close>

definition trimmed :: "string \<Rightarrow> bool" where
  "trimmed s \<longleftrightarrow> s = [] \<or> \<not> is_space (hd s) \<and> \<not> is_space (last s)"

lemma trim_space_trimmed: "trimmed s \<Longrightarrow> trim_space s = s"
proof (cases s rule: rev_cases)
  case (snoc t c)
  assume "trimmed s"
  then have "\<not> is_space (hd s)" "\<not> is_space c" using snoc by (auto simp: trimmed_def)
  then show ?thesis using snoc by (cases t) (simp_all add: trim_space_def)
qed (simp add: trim_space_def)

lemma trim_space_blank: "trimmed s \<Longrightarrow> trim_space (CHR '' '' # s) = s"
  using trim_space_trimmed [of s] by (simp add: trim_space_def is_space_def)

lemma bracket_not_space: "\<not> is_space CHR ''<''" "\<not> is_space CHR ''>''" "\<not> is_space CHR ''[''" "\<not> is_space CHR '']''"
  "\<not> is_space CHR ''{''" "\<not> is_space CHR ''}''"
  by (simp_all add: is_space_def)

lemma tla_text_trimmed: "well_formed v \<Longrightarrow> trimmed (tla_text v) \<and> tla_text v \<noteq> []"
proof (cases v)
  case (Atom s)
  assume "well_formed v"
  then have "s \<noteq> []" "\<not> is_space (hd s)" "\<not> is_space (last s)"
    using Atom by (auto simp: plain_text_def plain_char_def list_all_iff)
  then show ?thesis using Atom by (simp add: trimmed_def)
qed (simp_all add: trimmed_def bracket_not_space)

lemma join_Cons: "ps \<noteq> [] \<Longrightarrow> join sep (p # ps) = p @ sep @ join sep ps"
  by (cases ps) simp_all

lemma split_join:
  "list_all (\<lambda>p. closed_text p \<and> trimmed p) (p # ps) \<Longrightarrow> trimmed (part @ p) \<or> part = '' '' \<Longrightarrow>
     split_parts part 0 0 0 (join '', '' (p # ps)) = Some (trim_space (part @ p) # ps)"
proof (induction ps arbitrary: p part)
  case Nil
  then have "closed_text p" by simp
  then have "split_parts part 0 0 0 (p @ []) = split_parts (part @ p) 0 0 0 []" unfolding closed_text_def by blast
  then show ?case by simp
next
  case (Cons q qs)
  have "closed_text p" using Cons.prems by simp
  then have "split_parts part 0 0 0 (p @ '', '' @ join '', '' (q # qs)) = split_parts (part @ p) 0 0 0 ('', '' @ join '', '' (q # qs))"
    unfolding closed_text_def by blast
  also have "\<dots> = map_option ((#) (trim_space (part @ p))) (split_parts '' '' 0 0 0 (join '', '' (q # qs)))" by simp
  also have "split_parts '' '' 0 0 0 (join '', '' (q # qs)) = Some (trim_space ('' '' @ q) # qs)"
    using Cons.prems by (intro Cons.IH) simp_all
  finally show ?case using Cons.prems by (simp add: trim_space_blank join_Cons)
qed

lemma join_ends:
  assumes "list_all (\<lambda>p. trimmed p \<and> p \<noteq> []) ps"
  shows "trimmed (join '', '' ps)"
proof (cases ps)
  case (Cons p qs)
  have "join '', '' (p # qs) \<noteq> [] \<and> hd (join '', '' (p # qs)) = hd p \<and> last (join '', '' (p # qs)) = last (last (p # qs))"
    using assms unfolding Cons
  proof (induction qs arbitrary: p)
    case (Cons q qs)
    then show ?case using Cons.IH [of q] by (auto simp: join_Cons)
  qed simp
  moreover have "\<not> is_space (hd p)" "\<not> is_space (last (last (p # qs)))"
  proof -
    have "p \<in> set ps" "last (p # qs) \<in> set ps" using Cons by simp_all
    then have "trimmed p \<and> p \<noteq> []" "trimmed (last (p # qs)) \<and> last (p # qs) \<noteq> []"
      using assms unfolding list_all_iff by blast+
    then show "\<not> is_space (hd p)" "\<not> is_space (last (last (p # qs)))" unfolding trimmed_def by blast+
  qed
  ultimately show ?thesis unfolding Cons trimmed_def by (simp only: simp_thms)
qed (simp add: trimmed_def)

lemma split_tuple_text:
  assumes "list_all (\<lambda>p. closed_text p \<and> trimmed p \<and> p \<noteq> []) ps"
  shows "split_tla_tuple (''<<'' @ join '', '' ps @ ''>>'') = Some ps"
proof -
  let ?s = "''<<'' @ join '', '' ps @ ''>>''"
  have s: "trim_space ?s = ?s" by (rule trim_space_trimmed) (simp add: trimmed_def is_space_def)
  have inside: "take (length ?s - 4) (drop 2 ?s) = join '', '' ps" by simp
  have ends: "drop (length ?s - 2) ?s = ''>>''" by simp
  have trim: "trim_space (join '', '' ps) = join '', '' ps"
    using assms by (intro trim_space_trimmed join_ends) (simp add: list_all_iff)
  show ?thesis
  proof (cases ps)
    case Nil
    then show ?thesis by (simp add: split_tla_tuple_def trim_space_def bracket_not_space)
  next
    case (Cons p qs)
    have "split_parts [] 0 0 0 (join '', '' ps) = Some ps"
      using split_join [of p qs "[]"] assms trim_space_trimmed [of p] unfolding Cons by (simp add: list_all_iff)
    moreover have "join '', '' ps \<noteq> []" using assms unfolding Cons by (cases qs) simp_all
    ultimately show ?thesis unfolding split_tla_tuple_def Let_def s inside trim ends by simp
  qed
qed

lemma split_tla_text: "list_all well_formed vs \<Longrightarrow> split_tla_tuple (tla_text (Tuple vs)) = Some (map tla_text vs)"
  unfolding tla_text.simps using tla_text_neutral tla_text_trimmed
  by (intro split_tuple_text) (auto simp: list_all_iff)

lemma trim_space_padded:
  "list_all is_space l \<Longrightarrow> list_all is_space r \<Longrightarrow> trimmed s \<Longrightarrow> s \<noteq> [] \<Longrightarrow> trim_space (l @ s @ r) = s"
proof -
  assume l: "list_all is_space l" and r: "list_all is_space r" and s: "trimmed s" "s \<noteq> []"
  have "dropWhile is_space (l @ s @ r) = s @ r"
    using l s by (cases s) (auto simp: dropWhile_append list_all_iff trimmed_def)
  moreover have "dropWhile is_space (rev r @ rev s) = rev s"
    using r s by (cases s rule: rev_cases) (auto simp: dropWhile_append list_all_iff trimmed_def)
  ultimately show ?thesis by (simp add: trim_space_def)
qed

text \<open>C16: splitting a tuple gives back the texts of its components, however deep tuples, records and sets are
  nested in them and however many commas they contain, with white space around the tuple or without.\<close>

theorem split_tla_tuple_roundtrip:
  assumes "list_all well_formed vs" "list_all is_space l" "list_all is_space r"
  shows "split_tla_tuple (l @ tla_text (Tuple vs) @ r) = Some (map tla_text vs)"
proof -
  have v: "trimmed (tla_text (Tuple vs))" "tla_text (Tuple vs) \<noteq> []"
    using tla_text_trimmed [of "Tuple vs"] assms(1) by simp_all
  have "split_tla_tuple (l @ tla_text (Tuple vs) @ r) = split_tla_tuple (tla_text (Tuple vs))"
    unfolding split_tla_tuple_def trim_space_padded [OF assms(2,3) v] trim_space_trimmed [OF v(1)] ..
  then show ?thesis using split_tla_text [OF assms(1)] by simp
qed

theorem split_tla_tuple_roundtrip_witness:
  "split_tla_tuple ('' '' @ tla_text (Tuple [Tuple [Atom ''1'', SetOf [Atom ''2'', Atom ''3'']], Fields [(''term'', Atom ''4'')]]) @ []) =
     Some [''<<1, {2, 3}>>'', ''[term |-> 4]'']"
proof -
  have a: "list_all well_formed [Tuple [Atom ''1'', SetOf [Atom ''2'', Atom ''3'']], Fields [(''term'', Atom ''4'')]]"
    by (simp add: plain_text_def plain_char_def is_space_def)
  have b: "list_all is_space '' ''" by (simp add: is_space_def)
  from split_tla_tuple_roundtrip [OF a b, of "[]"] show ?thesis by simp
qed

end
