(* ===== verification/Raft_Coverage_Runs.thy ===== *)
theory Raft_Coverage_Runs
  imports Raft_Coverage
begin

text \<open>
  The projection of internal/model/raft/coverage.go on the states the model has: what it finds in the texts of
  terms and logs, the assignments of a state, and what the semantic keys of a run depend on.
\<close>

section \<open>Finding and replacing\<close>

lemma find_all_skip: "find_all p k s = find_all p 0 (drop k s)"
  by (induction p k s rule: find_all.induct) simp_all

lemma replace_all_skip: "replace_all p f k s = replace_all p f 0 (drop k s)"
  by (induction p f k s rule: replace_all.induct) simp_all

text \<open>Characters at which no match can start.\<close>

definition never_at :: "pattern \<Rightarrow> char \<Rightarrow> bool" where
  "never_at p c \<longleftrightarrow> (\<forall>cs. p (c # cs) = None)"

lemma find_all_none: "list_all (never_at p) xs \<Longrightarrow> find_all p 0 (xs @ ys) = find_all p 0 ys"
  by (induction xs) (simp_all add: never_at_def)

lemma find_all_none': "list_all (never_at p) xs \<Longrightarrow> find_all p 0 xs = []"
  using find_all_none [of p xs "[]"] by simp

lemma replace_all_none: "list_all (never_at p) xs \<Longrightarrow> replace_all p f 0 (xs @ ys) = xs @ replace_all p f 0 ys"
  by (induction xs) (simp_all add: never_at_def)

lemma replace_all_none': "list_all (never_at p) xs \<Longrightarrow> replace_all p f 0 xs = xs"
  using replace_all_none [of p xs f "[]"] by simp

lemma find_all_match: "p (m @ ys) = Some (g, length m) \<Longrightarrow> m \<noteq> [] \<Longrightarrow> find_all p 0 (m @ ys) = g # find_all p 0 ys"
  by (cases m) (simp_all add: find_all_skip [of p "length _"])

lemma replace_all_match:
  "p (m @ ys) = Some (g, length m) \<Longrightarrow> m \<noteq> [] \<Longrightarrow> replace_all p f 0 (m @ ys) = f m g @ replace_all p f 0 ys"
  by (cases m) (simp_all add: replace_all_skip [of p f "length _"])

lemma digit_char_is_digit: "d < 10 \<Longrightarrow> is_digit (digit_char d)"
  by (simp add: is_digit_def)

lemma show_nat_digits: "list_all is_digit (show_nat n)"
proof (induction n rule: show_nat.induct)
  case (1 n)
  then show ?case by (subst show_nat.simps) (simp add: digit_char_is_digit)
qed

lemma format_uint_digits: "list_all is_digit (format_uint t)" and format_uint_nonempty: "format_uint t \<noteq> []"
  by (simp_all add: format_uint_def show_nat_digits)

lemma parse_term_format [simp]: "parse_term (format_uint t) = t"
  by (simp add: parse_term_def parse_uint_format_uint)

lemma span_digits:
  "list_all is_digit ds \<Longrightarrow> (case ys of [] \<Rightarrow> True | c # _ \<Rightarrow> \<not> is_digit c) \<Longrightarrow>
     takeWhile is_digit (ds @ ys) = ds \<and> dropWhile is_digit (ds @ ys) = ys"
  by (induction ds) (auto split: list.splits)

lemma number_match:
  "list_all is_digit ds \<Longrightarrow> ds \<noteq> [] \<Longrightarrow> (case ys of [] \<Rightarrow> True | c # _ \<Rightarrow> \<not> is_digit c) \<Longrightarrow>
     number_pattern (ds @ ys) = Some (ds, length ds)"
  using span_digits [of ds ys] by (simp add: number_pattern_def)

lemma never_number: "\<not> is_digit c \<Longrightarrow> never_at number_pattern c"
  by (simp add: never_at_def number_pattern_def)

lemma not_digit: "\<not> is_digit CHR '',''" "\<not> is_digit CHR '' ''" "\<not> is_digit CHR '']''" "\<not> is_digit CHR ''<''" "\<not> is_digit CHR ''>''"
  by (simp_all add: is_digit_def char_digit_def)

lemma numbers_joined:
  assumes sep: "sep \<noteq> []" "list_all (\<lambda>c. \<not> is_digit c) sep" and ys: "list_all (\<lambda>c. \<not> is_digit c) ys"
  shows "find_all number_pattern 0 (join sep (map format_uint ts) @ ys) = map format_uint ts"
    and "replace_all number_pattern f 0 (join sep (map format_uint ts) @ ys) =
      join sep (map (\<lambda>t. f (format_uint t) (format_uint t)) ts) @ ys"
proof (induction ts rule: induct_list012)
  case 1
  { case 1 show ?case using ys by (simp add: find_all_none' list_all_iff never_number) }
  { case 2 show ?case using ys by (simp add: replace_all_none' list_all_iff never_number) }
next
  case (2 t)
  have m: "number_pattern (format_uint t @ ys) = Some (format_uint t, length (format_uint t))"
    using ys by (intro number_match) (auto simp: format_uint_digits format_uint_nonempty split: list.splits)
  { case 1 show ?case using find_all_match [where p = number_pattern and m = "format_uint t" and ys = ys, OF m] ys by (simp add: format_uint_nonempty find_all_none' list_all_iff never_number) }
  { case 2 show ?case using replace_all_match [where p = number_pattern and m = "format_uint t" and ys = ys, OF m] ys by (simp add: format_uint_nonempty replace_all_none' list_all_iff never_number) }
next
  case (3 t u ts)
  let ?rest = "join sep (map format_uint (u # ts)) @ ys"
  have m: "number_pattern (format_uint t @ sep @ ?rest) = Some (format_uint t, length (format_uint t))"
  proof -
    obtain c cs where "sep = c # cs" using sep(1) by (cases sep) auto
    then show ?thesis using sep(2) by (intro number_match) (simp_all add: format_uint_digits format_uint_nonempty)
  qed
  have never: "list_all (never_at number_pattern) sep" using sep by (simp add: list_all_iff never_number)
  { case 1 show ?case using find_all_match [where p = number_pattern and m = "format_uint t" and ys = "sep @ ?rest", OF m] find_all_none [OF never] 3(3) by (simp add: format_uint_nonempty) }
  { case 2 show ?case using replace_all_match [where p = number_pattern and m = "format_uint t" and ys = "sep @ ?rest", OF m] replace_all_none [OF never] 3(4) by (simp add: format_uint_nonempty) }
qed

section \<open>White space\<close>

lemma fields_from_concat: "concat (fields_from w s) = w @ filter (\<lambda>c. \<not> is_space c) s"
  by (induction w s rule: fields_from.induct) auto

lemma join_Nil: "join [] ss = concat ss"
  by (induction "[] :: string" ss rule: join.induct) simp_all

lemma compact_filter: "compact s = filter (\<lambda>c. \<not> is_space c) s"
  by (simp add: compact_def join_Nil fields_def fields_from_concat)

lemma digits_no_space: "list_all is_digit s \<Longrightarrow> filter (\<lambda>c. \<not> is_space c) s = s"
  by (auto simp: filter_id_conv list_all_iff is_digit_def is_space_def char_digit_def)

lemma compact_join:
  "filter (\<lambda>c. \<not> is_space c) (join '', '' (map format_uint ts)) = join '','' (map format_uint ts)"
proof -
  have "is_space CHR '' ''" "\<not> is_space CHR '',''" by (simp_all add: is_space_def)
  then show ?thesis by (induction ts rule: induct_list012) (simp_all add: digits_no_space format_uint_digits)
qed

definition terms_text :: "u64 list \<Rightarrow> string" where
  "terms_text ts = tla_text (Tuple (map (\<lambda>t. Atom (format_uint t)) ts))"

lemma terms_text_eq: "terms_text ts = ''<<'' @ join '', '' (map format_uint ts) @ ''>>''"
  by (simp add: terms_text_def comp_def)

lemma replace_terms_text:
  "replace_terms (terms_text ts) ranks = ''<<'' @ join '','' (map (\<lambda>t. format_uint (rank ranks t)) ts) @ ''>>''"
proof -
  have c: "compact (terms_text ts) = ''<<'' @ join '','' (map format_uint ts) @ ''>>''"
    unfolding compact_filter terms_text_eq filter_append compact_join by (simp add: bracket_not_space)
  have never: "list_all (never_at number_pattern) ''<<''" by (simp add: never_number not_digit)
  show ?thesis unfolding replace_terms_def c replace_all_none [OF never]
    by (subst numbers_joined(2)) (simp_all add: not_digit)
qed

section \<open>Logs\<close>

definition entry_value :: "u64 \<times> nat \<Rightarrow> tla" where
  "entry_value e = Fields [(''term'', Atom (format_uint (fst e))), (''value'', Atom (show_nat (snd e)))]"

definition log_value :: "(u64 \<times> nat) list list \<Rightarrow> tla" where
  "log_value logs = Tuple (map (\<lambda>es. Tuple (map entry_value es)) logs)"

lemma digits_plain: "list_all is_digit s \<Longrightarrow> s \<noteq> [] \<Longrightarrow> plain_text s"
  by (auto simp: plain_text_def plain_char_def list_all_iff is_digit_def is_space_def char_digit_def)

lemma entry_value_ok: "well_formed (entry_value e)"
  by (simp add: entry_value_def digits_plain format_uint_digits format_uint_nonempty show_nat_digits)
    (simp add: plain_text_def plain_char_def is_space_def)

lemma log_value_ok: "well_formed (log_value logs)"
  by (simp add: log_value_def list_all_iff entry_value_ok)

lemma entry_text:
  "tla_text (entry_value e) = ''[term |-> '' @ format_uint (fst e) @ '', value |-> '' @ show_nat (snd e) @ '']''"
  by (simp add: entry_value_def)

lemma never_entry: "c \<noteq> hd name \<Longrightarrow> name \<noteq> [] \<Longrightarrow> never_at (entry_pattern name) c"
  by (cases name) (simp_all add: never_at_def entry_pattern_def after_prefix_def)

lemma never_current: "c \<noteq> CHR ''c'' \<Longrightarrow> never_at current_term_pattern c"
  by (simp add: never_at_def current_term_pattern_def after_prefix_def)

lemma digit_not_letter: "is_digit c \<Longrightarrow> c \<noteq> CHR ''t'' \<and> c \<noteq> CHR ''v'' \<and> c \<noteq> CHR ''c'' \<and> \<not> is_space c"
  by (auto simp: is_digit_def char_digit_def is_space_def)

lemma digits_not_letters: "list_all is_digit s \<Longrightarrow> list_all (\<lambda>c. c \<noteq> CHR ''t'' \<and> c \<noteq> CHR ''v'' \<and> c \<noteq> CHR ''c'') s"
  by (auto simp: list_all_iff dest: digit_not_letter)

lemma entry_match:
  assumes "list_all is_digit ds" "ds \<noteq> []" "case ys of [] \<Rightarrow> True | c # _ \<Rightarrow> \<not> is_digit c"
  shows "entry_pattern name ((name @ '' |-> '' @ ds) @ ys) = Some (ds, length (name @ '' |-> '' @ ds))"
proof -
  have "\<not> is_space (hd ds)" using assms(1,2) by (cases ds) (auto dest: digit_not_letter)
  then have skip: "skip_space (ds @ ys) = ds @ ys" using assms(2) by (cases ds) (simp_all add: skip_space_def)
  have a: "after_prefix name (name @ r) = Some r" for r by (simp add: after_prefix_def)
  have b: "skip_space ('' |-> '' @ r) = ''|-> '' @ r" for r by (simp add: skip_space_def is_space_def)
  have c: "after_prefix ''|->'' (''|-> '' @ r) = Some (CHR '' '' # r)" for r by (simp add: after_prefix_def)
  have d: "skip_space (CHR '' '' # ds @ ys) = ds @ ys"
    using skip by (simp add: skip_space_def is_space_def)
  show ?thesis
    unfolding entry_pattern_def append_assoc a b c Option.bind_eq_Some_conv bind.simps Let_def
    using span_digits [OF assms(1,3)] assms(2) by (simp add: d)
qed

text \<open>What comes after a term and after a value in an entry.\<close>

lemma find_terms_entry:
  "find_all (entry_pattern ''term'') 0 (tla_text (entry_value e) @ ys) =
     format_uint (fst e) # find_all (entry_pattern ''term'') 0 ys"
proof -
  let ?rest = "'', value |-> '' @ show_nat (snd e) @ '']''" and ?m = "''term |-> '' @ format_uint (fst e)"
  have m: "entry_pattern ''term'' (?m @ ?rest @ ys) = Some (format_uint (fst e), length ?m)"
    using entry_match [of "format_uint (fst e)" "?rest @ ys" "''term''"]
    by (simp add: format_uint_digits format_uint_nonempty not_digit)
  have open1: "list_all (never_at (entry_pattern ''term'')) ''[''" by (simp add: never_entry)
  have rest: "list_all (never_at (entry_pattern ''term'')) ?rest"
    using digits_not_letters [OF show_nat_digits [of "snd e"]] by (simp add: never_entry list_all_iff)
  have "tla_text (entry_value e) @ ys = ''['' @ ?m @ ?rest @ ys" by (simp add: entry_text)
  then show ?thesis
    using find_all_none [OF open1, of "?m @ ?rest @ ys"]
      find_all_match [where p = "entry_pattern ''term''" and m = ?m and ys = "?rest @ ys", OF m] find_all_none [OF rest, of ys]
    by simp
qed

lemma find_value_entry:
  "find_all (entry_pattern ''value'') 0 (tla_text (entry_value e)) = [show_nat (snd e)]"
proof -
  let ?pre = "''[term |-> '' @ format_uint (fst e) @ '', ''" and ?m = "''value |-> '' @ show_nat (snd e)"
  have m: "entry_pattern ''value'' (?m @ '']'') = Some (show_nat (snd e), length ?m)"
    using entry_match [of "show_nat (snd e)" "'']''" "''value''"] by (simp add: show_nat_digits not_digit)
  have pre: "list_all (never_at (entry_pattern ''value'')) ?pre"
    using digits_not_letters [OF format_uint_digits [of "fst e"]] by (simp add: never_entry list_all_iff)
  have close: "list_all (never_at (entry_pattern ''value'')) '']''" by (simp add: never_entry)
  have "tla_text (entry_value e) = ?pre @ ?m @ '']''" by (simp add: entry_text)
  then show ?thesis
    using find_all_none [OF pre, of "?m @ '']''"]
      find_all_match [where p = "entry_pattern ''value''" and m = ?m and ys = "'']''", OF m] find_all_none' [OF close]
    by simp
qed

lemma entry_shape_text:
  "entry_shape ranks (tla_text (entry_value e)) = Some (format_uint (rank ranks (fst e)) @ '':'' @ show_nat (snd e))"
  using find_terms_entry [of e "[]"] find_value_entry [of e] by (simp add: entry_shape_def)

definition log_shape :: "(u64 \<times> u64) list \<Rightarrow> (u64 \<times> nat) list list \<Rightarrow> string" where
  "log_shape ranks logs = join '';'' (map (\<lambda>es. ''['' @
     join '','' (map (\<lambda>e. format_uint (rank ranks (fst e)) @ '':'' @ show_nat (snd e)) es) @ '']'') logs)"

lemma map_all_Some: "(\<And>x. x \<in> set xs \<Longrightarrow> f x = Some (g x)) \<Longrightarrow> map_all f xs = Some (map g xs)"
  by (induction xs) simp_all

lemma node_log_shape_text:
  "node_log_shape ranks (tla_text (Tuple (map entry_value es))) =
     Some (''['' @ join '','' (map (\<lambda>e. format_uint (rank ranks (fst e)) @ '':'' @ show_nat (snd e)) es) @ '']'', int (length es))"
proof -
  have "split_tla_tuple (tla_text (Tuple (map entry_value es))) = Some (map tla_text (map entry_value es))"
    by (rule split_tla_text) (simp add: list_all_iff entry_value_ok)
  moreover have "map_all (entry_shape ranks) (map tla_text (map entry_value es)) =
      Some (map (\<lambda>e. format_uint (rank ranks (fst e)) @ '':'' @ show_nat (snd e)) es)"
    by (induction es) (simp_all add: entry_shape_text)
  ultimately show ?thesis by (simp add: node_log_shape_def del: tla_text.simps)
qed

lemma semantic_log_text:
  "semantic_log (tla_text (log_value logs)) ranks = Some (log_shape ranks logs, map (\<lambda>es. int (length es)) logs)"
proof -
  have split: "split_tla_tuple (tla_text (log_value logs)) = Some (map tla_text (map (\<lambda>es. Tuple (map entry_value es)) logs))"
    unfolding log_value_def by (rule split_tla_text) (simp add: list_all_iff entry_value_ok)
  have "map_all (node_log_shape ranks) (map tla_text (map (\<lambda>es. Tuple (map entry_value es)) logs)) =
    Some (map (\<lambda>es. (''['' @ join '','' (map (\<lambda>e. format_uint (rank ranks (fst e)) @ '':'' @ show_nat (snd e)) es) @ '']'',
      int (length es))) logs)"
    by (induction logs) (simp_all add: node_log_shape_text del: tla_text.simps)
  with split show ?thesis by (simp add: semantic_log_def log_shape_def comp_def del: tla_text.simps)
qed

section \<open>The terms of a state\<close>

lemma find_all_join:
  assumes "\<And>x ys. x \<in> set xs \<Longrightarrow> find_all p 0 (text_of x @ ys) = r x @ find_all p 0 ys" and sep: "list_all (never_at p) sep"
  shows "find_all p 0 (join sep (map text_of xs) @ ys) = concat (map r xs) @ find_all p 0 ys"
  using assms(1)
proof (induction xs rule: induct_list012)
  case (3 x y zs)
  have x: "find_all p 0 (text_of x @ us) = r x @ find_all p 0 us" for us using 3(3) by simp
  have rest: "find_all p 0 (join sep (map text_of (y # zs)) @ ys) = concat (map r (y # zs)) @ find_all p 0 ys"
    using 3 by simp
  have "join sep (map text_of (x # y # zs)) @ ys = text_of x @ sep @ join sep (map text_of (y # zs)) @ ys" by simp
  then show ?case by (simp only: x find_all_none [OF sep] rest) simp
qed simp_all

lemma find_terms_tuple:
  assumes "\<And>x ys. find_all (entry_pattern ''term'') 0 (tla_text (value_of x) @ ys) = r x @ find_all (entry_pattern ''term'') 0 ys"
  shows "find_all (entry_pattern ''term'') 0 (tla_text (Tuple (map value_of xs)) @ ys) =
    concat (map r xs) @ find_all (entry_pattern ''term'') 0 ys"
proof -
  let ?p = "entry_pattern ''term''"
  have never: "list_all (never_at ?p) ''<<''" "list_all (never_at ?p) ''>>''" "list_all (never_at ?p) '', ''"
    by (simp_all add: never_entry)
  have text_eq: "tla_text (Tuple (map value_of xs)) @ ys = ''<<'' @ join '', '' (map (\<lambda>x. tla_text (value_of x)) xs) @ ''>>'' @ ys"
    by (simp add: comp_def)
  have "find_all ?p 0 (join '', '' (map (\<lambda>x. tla_text (value_of x)) xs) @ us) = concat (map r xs) @ find_all ?p 0 us" for us
    by (rule find_all_join [OF assms never(3)])
  then show ?thesis by (simp only: text_eq find_all_none [OF never(1)] find_all_none [OF never(2)])
qed

lemma find_terms_log:
  "find_all (entry_pattern ''term'') 0 (tla_text (log_value logs) @ ys) =
     map format_uint (map fst (concat logs)) @ find_all (entry_pattern ''term'') 0 ys"
proof -
  let ?p = "entry_pattern ''term''"
  have "find_all ?p 0 (tla_text (entry_value e) @ vs) = [format_uint (fst e)] @ find_all ?p 0 vs" for e vs
    by (simp only: find_terms_entry append_Cons append_Nil)
  then have "find_all ?p 0 (tla_text (Tuple (map entry_value es)) @ us) =
      concat (map (\<lambda>e. [format_uint (fst e)]) es) @ find_all ?p 0 us" for es us
    by (rule find_terms_tuple)
  then have "find_all ?p 0 (tla_text (log_value logs) @ ys) =
      concat (map (\<lambda>es. concat (map (\<lambda>e. [format_uint (fst e)]) es)) logs) @ find_all ?p 0 ys"
    unfolding log_value_def by (rule find_terms_tuple)
  moreover have "concat (map (\<lambda>e. [format_uint (fst e)]) es) = map format_uint (map fst es)" for es :: "(u64 \<times> nat) list"
    by (induction es) simp_all
  ultimately show ?thesis by (simp only: map_concat) (simp add: comp_def)
qed

lemma join_terms_plain:
  "list_all (\<lambda>c. c \<noteq> CHR ''>'' \<and> c \<noteq> CHR ''t'' \<and> c \<noteq> CHR ''c'') (join '', '' (map format_uint ts))"
proof (induction ts rule: induct_list012)
  case (3 t u ts)
  have "list_all (\<lambda>c. c \<noteq> CHR ''>'' \<and> c \<noteq> CHR ''t'' \<and> c \<noteq> CHR ''c'') (format_uint t)" for t
    using format_uint_digits [of t] digit_not_letter not_digit(5) by (auto simp: list_all_iff)
  with 3 show ?case by simp
next
  case (2 t)
  then show ?case using format_uint_digits [of t] digit_not_letter not_digit(5) by (auto simp: list_all_iff)
qed simp

lemma current_match:
  assumes "list_all (\<lambda>c. c \<noteq> CHR ''>'') j"
  shows "current_term_pattern ((''currentTerm = <<'' @ j @ ''>>'') @ ys) = Some (j, length (''currentTerm = <<'' @ j @ ''>>''))"
proof -
  have t: "takeWhile (\<lambda>c. c \<noteq> CHR ''>'') (j @ ''>>'' @ ys) = j" and d: "dropWhile (\<lambda>c. c \<noteq> CHR ''>'') (j @ ''>>'' @ ys) = ''>>'' @ ys"
    using assms by (simp_all add: takeWhile_append dropWhile_append list_all_iff)
  have p1: "after_prefix ''currentTerm'' (''currentTerm'' @ r) = Some r" for r by (simp add: after_prefix_def)
  have p2: "after_prefix ''='' (skip_space ('' = <<'' @ r)) = Some ('' <<'' @ r)" for r
    by (simp add: after_prefix_def skip_space_def is_space_def)
  have p3: "after_prefix ''<<'' (skip_space ('' <<'' @ r)) = Some r" for r
    by (simp add: after_prefix_def skip_space_def is_space_def)
  have p4: "after_prefix ''>>'' (''>>'' @ r) = Some r" for r by (simp add: after_prefix_def)
  have s: "(''currentTerm = <<'' @ j @ ''>>'') @ ys = ''currentTerm'' @ '' = <<'' @ j @ ''>>'' @ ys" by simp
  show ?thesis unfolding current_term_pattern_def s p1 bind.simps p2 p3 d p4 t by simp
qed

lemma log_text_no_c: "list_all (\<lambda>c. c \<noteq> CHR ''c'') (tla_text (log_value logs))"
proof -
  have joined: "list_all (\<lambda>c. c \<noteq> CHR ''c'') (join '', '' ss)" if "list_all (list_all (\<lambda>c. c \<noteq> CHR ''c'')) ss" for ss
    using that by (induction "'', ''" ss rule: join.induct) simp_all
  have entry: "list_all (\<lambda>c. c \<noteq> CHR ''c'') (tla_text (entry_value e))" for e
    using digits_not_letters [OF format_uint_digits [of "fst e"]] digits_not_letters [OF show_nat_digits [of "snd e"]]
    by (auto simp: entry_text list_all_iff)
  have node: "list_all (\<lambda>c. c \<noteq> CHR ''c'') (tla_text (Tuple (map entry_value es)))" for es
    using joined [of "map tla_text (map entry_value es)"] entry by (simp add: list_all_iff)
  show ?thesis using joined [of "map tla_text (map (\<lambda>es. Tuple (map entry_value es)) logs)"] node
    unfolding log_value_def tla_text.simps(2) [of "map _ logs"] by (simp add: list_all_iff del: tla_text.simps)
qed

lemma terms_in_state:
  "terms_in (''currentTerm = '' @ terms_text ts @ '' '' @ tla_text (log_value logs)) = ts @ map fst (concat logs)"
proof -
  let ?j = "join '', '' (map format_uint ts)" and ?log = "tla_text (log_value logs)"
  let ?m = "''currentTerm = <<'' @ ?j @ ''>>''" and ?rest = "'' '' @ ?log"
  have text_eq: "''currentTerm = '' @ terms_text ts @ '' '' @ ?log = ?m @ ?rest" by (simp add: terms_text_eq)
  have m: "current_term_pattern (?m @ ?rest) = Some (?j, length ?m)"
    by (rule current_match) (use join_terms_plain [of ts] in \<open>simp add: list_all_iff\<close>)
  have "list_all (never_at current_term_pattern) ?rest" using log_text_no_c [of logs] by (simp add: list_all_iff never_current)
  then have current: "find_all current_term_pattern 0 (?m @ ?rest) = [?j]"
    using find_all_match [where p = current_term_pattern and m = ?m and ys = ?rest, OF m] find_all_none' by (simp only:) simp
  have numbers: "find_all number_pattern 0 ?j = map format_uint ts"
    using numbers_joined(1) [of "'', ''" "[]" ts] by (simp add: not_digit)
  have plain: "list_all (never_at (entry_pattern ''term'')) (?j @ ''>> '')"
    using join_terms_plain [of ts] by (simp add: list_all_iff never_entry)
  have head: "find_all (entry_pattern ''term'') 0 (''currentTerm = <<'' @ us) = find_all (entry_pattern ''term'') 0 us" for us
    by (simp add: entry_pattern_def after_prefix_def)
  have "?m @ ?rest = ''currentTerm = <<'' @ (?j @ ''>> '') @ ?log" by simp
  then have "find_all (entry_pattern ''term'') 0 (?m @ ?rest) = find_all (entry_pattern ''term'') 0 (?log @ [])"
    by (simp only: head find_all_none [OF plain]) simp
  also have "\<dots> = map format_uint (map fst (concat logs))" unfolding find_terms_log by simp
  finally show ?thesis unfolding text_eq terms_in_def current by (simp add: numbers comp_def)
qed

section \<open>Ranks\<close>

lemma ranks_from_nth:
  "sorted xs \<Longrightarrow> distinct xs \<Longrightarrow> t \<in> set xs \<Longrightarrow>
     map_of (ranks_from n xs) t = Some (if t = 0 then 0 else n + of_nat (length (filter (\<lambda>u. u \<noteq> 0 \<and> u < t) xs)))"
proof (induction xs arbitrary: n)
  case (Cons x xs)
  show ?case
  proof (cases "t = x")
    case True
    then have "filter (\<lambda>u. u \<noteq> 0 \<and> u < t) xs = []" using Cons.prems by (auto simp: filter_empty_conv)
    with True show ?thesis by simp
  next
    case False
    have t: "x < t" "t \<in> set xs" using False Cons.prems by (auto simp: order_le_less)
    have t0: "t \<noteq> 0" using t(1) by (metis word_not_simps(1))
    have IH: "map_of (ranks_from m xs) t = Some (m + of_nat (length (filter (\<lambda>u. u \<noteq> 0 \<and> u < t) xs)))" for m
      using Cons.IH [of m] Cons.prems(1,2) t(2) t0 by simp
    show ?thesis
    proof (cases "x = 0")
      case True
      then show ?thesis using IH [of n] False t0 by simp
    next
      case x: False
      then have "map_of (ranks_from n (x # xs)) t = map_of (ranks_from (n + 1) xs) t" using False by simp
      then show ?thesis using IH [of "n + 1"] t(1) t0 x by simp
    qed
  qed
qed simp

lemma rank_of_member:
  assumes "t \<in> set ts"
  shows "rank (ranks_of ts) t = (if t = 0 then 0 else 1 + of_nat (card {u \<in> set ts. u \<noteq> 0 \<and> u < t}))"
proof -
  have "length (filter P (sort (remdups ts))) = card {u \<in> set ts. P u}" for P
  proof -
    have d: "distinct (filter P (sort (remdups ts)))" and s: "set (filter P (sort (remdups ts))) = {u \<in> set ts. P u}" by simp_all
    from distinct_card [OF d] show ?thesis unfolding s by (rule sym)
  qed
  then have n: "length (filter (\<lambda>u. u \<noteq> 0 \<and> u < t) (sort (remdups ts))) = card {u \<in> set ts. u \<noteq> 0 \<and> u < t}" .
  have "map_of (ranks_of ts) t = Some (if t = 0 then 0 else 1 + of_nat (length (filter (\<lambda>u. u \<noteq> 0 \<and> u < t) (sort (remdups ts)))))"
    unfolding ranks_of_def using assms by (intro ranks_from_nth) simp_all
  then show ?thesis unfolding n by (simp add: rank_def)
qed

text \<open>A renaming of terms that keeps their order, and 0.\<close>

definition renames :: "(u64 \<Rightarrow> u64) \<Rightarrow> u64 list \<Rightarrow> bool" where
  "renames f ts \<longleftrightarrow> list_all (\<lambda>x. (f x = 0) = (x = 0) \<and> list_all (\<lambda>y. (f x < f y) = (x < y)) ts) ts"

lemma rank_renamed:
  assumes r: "renames f ts" and t: "t \<in> set ts"
  shows "rank (ranks_of (map f ts)) (f t) = rank (ranks_of ts) t"
proof -
  have zero: "f x = 0 \<longleftrightarrow> x = 0" and less: "f x < f y \<longleftrightarrow> x < y" if "x \<in> set ts" "y \<in> set ts" for x y
    using r that by (auto simp: renames_def list_all_iff)
  have inj: "inj_on f (set ts)" by (rule inj_onI) (metis less less_linear order_less_irrefl)
  have "{u \<in> set (map f ts). u \<noteq> 0 \<and> u < f t} = f ` {u \<in> set ts. u \<noteq> 0 \<and> u < t}" using zero less t by auto
  then have "card {u \<in> set (map f ts). u \<noteq> 0 \<and> u < f t} = card {u \<in> set ts. u \<noteq> 0 \<and> u < t}"
    using card_image [OF inj_on_subset [OF inj]] by simp
  then show ?thesis using t zero [OF t t] by (simp add: rank_of_member)
qed

lemma rank_bound:
  assumes "t \<in> set ts" "t \<noteq> 0"
  shows "unat (rank (ranks_of ts) t) = Suc (card {u \<in> set ts. u \<noteq> 0 \<and> u < t})"
    and "Suc (card {u \<in> set ts. u \<noteq> 0 \<and> u < t}) \<le> unat t"
proof -
  let ?below = "{u \<in> set ts. u \<noteq> 0 \<and> u < t}"
  have "unat ` ?below \<subseteq> {1..<unat t}" by (auto simp: word_less_nat_alt unat_gt_0 Suc_le_eq)
  then have "card (unat ` ?below) \<le> card {1..<unat t}" by (rule card_mono [OF finite_atLeastLessThan])
  moreover have "card (unat ` ?below) = card ?below" by (rule card_image) (auto intro!: inj_onI simp: word_unat_eq_iff)
  moreover have "0 < unat t" using assms(2) by (simp add: unat_gt_0)
  ultimately show le: "Suc (card ?below) \<le> unat t" by simp
  have "rank (ranks_of ts) t = of_nat (Suc (card ?below))" using assms by (simp add: rank_of_member)
  moreover have "Suc (card ?below) < 2 ^ 64" using le unsigned_less [of t, where 'a = nat] by simp
  ultimately show "unat (rank (ranks_of ts) t) = Suc (card ?below)" by (simp only: unat_of_nat) (simp add: take_bit_nat_eq_self)
qed

text \<open>C15: the rank of a term of a state fits into a word, whatever the number of terms: it is 0 for the term 0
  and at most the term itself, and ranks are in the order of the terms, so that different terms have
  different ranks.\<close>

theorem term_ranks_ordered:
  "list_all (\<lambda>t. rank (term_ranks s) t \<le> t \<and> (rank (term_ranks s) t = 0) = (t = 0) \<and>
     list_all (\<lambda>u. (rank (term_ranks s) t < rank (term_ranks s) u) = (t < u)) (terms_in s)) (terms_in s)"
proof -
  let ?ts = "terms_in s"
  have zero: "rank (ranks_of ?ts) 0 = 0" if "0 \<in> set ?ts" using rank_of_member [OF that] by simp
  have below: "rank (ranks_of ?ts) t \<le> t \<and> (rank (ranks_of ?ts) t = 0) = (t = 0)" if t: "t \<in> set ?ts" for t
  proof (cases "t = 0")
    case True
    then show ?thesis using zero t by simp
  next
    case False
    from rank_bound [OF t False] have "unat (rank (ranks_of ?ts) t) \<le> unat t" "0 < unat (rank (ranks_of ?ts) t)" by simp_all
    with False show ?thesis by (auto simp: word_le_nat_alt)
  qed
  have less: "rank (ranks_of ?ts) t < rank (ranks_of ?ts) u" if t: "t \<in> set ?ts" and u: "u \<in> set ?ts" and lt: "t < u" for t u
  proof -
    have u0: "u \<noteq> 0" using lt by (metis word_not_simps(1))
    show ?thesis
    proof (cases "t = 0")
      case True
      then show ?thesis using zero t below [OF u] u0 by (simp add: word_neq_0_conv)
    next
      case False
      have "{v \<in> set ?ts. v \<noteq> 0 \<and> v < t} \<subset> {v \<in> set ?ts. v \<noteq> 0 \<and> v < u}" using t lt False by (auto intro: less_trans)
      then have "card {v \<in> set ?ts. v \<noteq> 0 \<and> v < t} < card {v \<in> set ?ts. v \<noteq> 0 \<and> v < u}" by (intro psubset_card_mono) simp_all
      with rank_bound(1) [OF t False] rank_bound(1) [OF u u0] show ?thesis by (simp add: word_less_nat_alt)
    qed
  qed
  have iff: "(rank (ranks_of ?ts) t < rank (ranks_of ?ts) u) = (t < u)" if t: "t \<in> set ?ts" and u: "u \<in> set ?ts" for t u
    using less [OF t u] less [OF u t] by (cases t u rule: linorder_cases) auto
  show ?thesis unfolding term_ranks_def list_all_iff using below iff by blast
qed

section \<open>The assignments of a state\<close>

text \<open>A state as TLC prints it: a conjunct on a line of its own for every variable.\<close>

definition conjunct_line :: "string \<times> tla \<Rightarrow> string" where
  "conjunct_line kv = conjunct @ fst kv @ '' = '' @ tla_text (snd kv)"

definition state_text :: "(string \<times> tla) list \<Rightarrow> string" where
  "state_text kvs = join [CHR 0x0A] (map conjunct_line kvs)"

definition well_formed_state :: "(string \<times> tla) list \<Rightarrow> bool" where
  "well_formed_state kvs \<longleftrightarrow> list_all (\<lambda>kv. plain_text (fst kv) \<and> well_formed (snd kv)) kvs \<and> distinct (map fst kvs)"

definition no_newline :: "string \<Rightarrow> bool" where
  "no_newline s \<longleftrightarrow> list_all (\<lambda>c. c \<noteq> CHR 0x0A) s"

lemma no_newline_append [simp]: "no_newline (s @ t) \<longleftrightarrow> no_newline s \<and> no_newline t"
  by (simp add: no_newline_def)

lemma no_newline_join: "no_newline sep \<Longrightarrow> list_all no_newline ss \<Longrightarrow> no_newline (join sep ss)"
  by (induction sep ss rule: join.induct) (simp_all, simp_all add: no_newline_def)

lemma plain_no_newline: "plain_text s \<Longrightarrow> no_newline s"
  by (auto simp: plain_text_def no_newline_def plain_char_def is_space_def list_all_iff)

lemma brackets_no_newline: "no_newline ''<<''" "no_newline ''>>''" "no_newline ''['' " "no_newline '']''" "no_newline ''{''"
  "no_newline ''}''" "no_newline '', ''" "no_newline '' |-> ''" "no_newline '' = ''" "no_newline conjunct"
  by (simp_all add: no_newline_def conjunct_def)

lemma tla_text_no_newline: "well_formed v \<Longrightarrow> no_newline (tla_text v)"
proof (induction v rule: tla_text.induct)
  case (1 s)
  then show ?case by (simp add: plain_no_newline)
next
  case (2 vs)
  then have "no_newline (join '', '' (map tla_text vs))"
    by (intro no_newline_join brackets_no_newline) (simp add: list_all_iff)
  then show ?case by (simp only: tla_text.simps no_newline_append brackets_no_newline simp_thms)
next
  case (3 vs)
  then have "no_newline (join '', '' (map tla_text vs))"
    by (intro no_newline_join brackets_no_newline) (simp add: list_all_iff)
  then show ?case by (simp only: tla_text.simps no_newline_append brackets_no_newline simp_thms)
next
  case (4 fs)
  then have "list_all no_newline (map (\<lambda>f. fst f @ '' |-> '' @ tla_text (snd f)) fs)"
    by (simp only: list_all_iff set_map ball_simps(9) no_newline_append brackets_no_newline) (simp add: list_all_iff plain_no_newline)
  then have "no_newline (join '', '' (map (\<lambda>f. fst f @ '' |-> '' @ tla_text (snd f)) fs))"
    by (intro no_newline_join brackets_no_newline)
  then show ?case by (simp only: tla_text.simps no_newline_append brackets_no_newline simp_thms)
qed

lemma split_lines_nonempty: "split_lines s \<noteq> []"
  by (induction s) (simp_all split: list.splits)

lemma split_lines_line: "no_newline l \<Longrightarrow> split_lines l = [l] \<and> split_lines (l @ CHR 0x0A # s) = l # split_lines s"
  by (induction l) (simp_all add: no_newline_def)

lemma split_lines_join:
  "ls \<noteq> [] \<Longrightarrow> list_all no_newline ls \<Longrightarrow> split_lines (join [CHR 0x0A] ls) = ls"
  by (induction "[CHR 0x0A]" ls rule: join.induct) (simp_all add: split_lines_line)

lemma split_at_key:
  "plain_text k \<Longrightarrow> split_at '' = '' (k @ '' = '' @ v) = Some (k, v)"
proof -
  have "split_at '' = '' ('' = '' @ v) = Some ([], v)" by (simp add: after_prefix_def)
  moreover have "split_at '' = '' (c # s) = (case split_at '' = '' s of None \<Rightarrow> None | Some (l, r) \<Rightarrow> Some (c # l, r))"
    if "plain_char c" for c s
    using that by (simp add: after_prefix_def plain_char_def is_space_def)
  moreover assume "plain_text k"
  then have "list_all plain_char k" by (simp add: plain_text_def)
  ultimately show ?thesis by (induction k) (simp_all del: split_at.simps)
qed

lemma conjunct_line_parts:
  assumes "plain_text (fst kv)" "well_formed (snd kv)"
  shows "after_prefix conjunct (trim_space (conjunct_line kv)) = Some (fst kv @ '' = '' @ tla_text (snd kv))"
proof -
  have "last (conjunct_line kv) = last (tla_text (snd kv))" "conjunct_line kv \<noteq> []" "hd (conjunct_line kv) = CHR 0x2F"
    using tla_text_trimmed [OF assms(2)] by (simp_all add: conjunct_line_def conjunct_def)
  then have "trimmed (conjunct_line kv)"
    using tla_text_trimmed [OF assms(2)] unfolding trimmed_def by (auto simp: is_space_def)
  then show ?thesis by (simp only: trim_space_trimmed) (simp add: conjunct_line_def after_prefix_def)
qed

lemma update_new: "k \<notin> fst ` set m \<Longrightarrow> AList.update k v m = m @ [(k, v)]"
  by (induction m) auto

lemma assignments_of_lines:
  "list_all (\<lambda>kv. plain_text (fst kv) \<and> well_formed (snd kv)) kvs \<Longrightarrow> distinct (map fst m @ map fst kvs) \<Longrightarrow>
     assignments_from cur m (map conjunct_line kvs) = m @ map (\<lambda>kv. (fst kv, tla_text (snd kv))) kvs"
proof (induction kvs arbitrary: cur m)
  case (Cons kv kvs)
  have "assignments_from cur m (map conjunct_line (kv # kvs)) =
      assignments_from (fst kv) (AList.update (fst kv) (tla_text (snd kv)) m) (map conjunct_line kvs)"
    using Cons.prems(1) unfolding list.map list.pred_inject assignments_from.simps Let_def
    by (elim conjE) (simp only: conjunct_line_parts split_at_key option.case prod.case)
  also have "AList.update (fst kv) (tla_text (snd kv)) m = m @ [(fst kv, tla_text (snd kv))]"
    using Cons.prems(2) by (intro update_new) auto
  also have "assignments_from (fst kv) \<dots> (map conjunct_line kvs) =
      (m @ [(fst kv, tla_text (snd kv))]) @ map (\<lambda>kv. (fst kv, tla_text (snd kv))) kvs"
    using Cons.prems by (intro Cons.IH) auto
  finally show ?case by simp
qed simp

lemma conjunct_line_no_newline: "plain_text (fst kv) \<Longrightarrow> well_formed (snd kv) \<Longrightarrow> no_newline (conjunct_line kv)"
  by (simp only: conjunct_line_def no_newline_append brackets_no_newline plain_no_newline tla_text_no_newline simp_thms)

lemma state_assignments_text:
  assumes "well_formed_state kvs"
  shows "state_assignments (state_text kvs) = map (\<lambda>kv. (fst kv, tla_text (snd kv))) kvs"
proof (cases "kvs = []")
  case True
  then show ?thesis by (simp add: state_assignments_def state_text_def trim_space_def after_prefix_def conjunct_def)
next
  case False
  have ok: "list_all (\<lambda>kv. plain_text (fst kv) \<and> well_formed (snd kv)) kvs" and d: "distinct (map fst kvs)"
    using assms by (simp_all add: well_formed_state_def)
  have "list_all no_newline (map conjunct_line kvs)"
    using ok by (simp add: list_all_iff conjunct_line_no_newline)
  then have "split_lines (state_text kvs) = map conjunct_line kvs"
    unfolding state_text_def using False by (intro split_lines_join) simp_all
  with assignments_of_lines [OF ok, of "[]" "[]"] d show ?thesis by (simp add: state_assignments_def)
qed

section \<open>The projection of a state of the model\<close>

definition raft_state :: "u64 list \<Rightarrow> (u64 \<times> nat) list list \<Rightarrow> (string \<times> tla) list \<Rightarrow> (string \<times> tla) list" where
  "raft_state ts logs others =
     (''currentTerm'', Tuple (map (\<lambda>t. Atom (format_uint t)) ts)) # (''log'', log_value logs) # others"

definition printed_state :: "int \<Rightarrow> (string \<times> tla) list \<Rightarrow> model_state" where
  "printed_state key kvs = \<lparr>ms_text = state_text kvs, ms_key = key\<rparr>"

definition value_text :: "(string \<times> tla) list \<Rightarrow> string \<Rightarrow> string" where
  "value_text kvs k = (case map_of kvs k of None \<Rightarrow> [] | Some v \<Rightarrow> tla_text v)"

text \<open>The other variables of a state: what the projection needs of them.\<close>

definition rest_of_state :: "(string \<times> tla) list \<Rightarrow> bool" where
  "rest_of_state others \<longleftrightarrow>
     well_formed_state others \<and> list_all (\<lambda>kv. fst kv \<noteq> ''currentTerm'' \<and> fst kv \<noteq> ''log'') others \<and>
     map_of others ''currentActive'' \<noteq> None \<and> map_of others ''state'' \<noteq> None"

lemma rest_of_state_ok: "rest_of_state others \<Longrightarrow> well_formed_state (raft_state ts logs others)"
proof -
  have "plain_text ''currentTerm''" "plain_text ''log''" by (simp_all add: plain_text_def plain_char_def is_space_def)
  moreover have "well_formed (Tuple (map (\<lambda>t. Atom (format_uint t)) ts))"
    using digits_plain [OF format_uint_digits format_uint_nonempty] by (simp add: list_all_iff)
  moreover assume "rest_of_state others"
  ultimately show ?thesis
    by (auto simp: rest_of_state_def well_formed_state_def raft_state_def log_value_ok list_all_iff simp del: well_formed.simps)
qed

lemma string_at_texts: "string_at (map (\<lambda>kv. (fst kv, tla_text (snd kv))) kvs) k = value_text kvs k"
  by (induction kvs) (auto simp: string_at_def value_text_def)

lemma value_text_present:
  "well_formed_state kvs \<Longrightarrow> map_of kvs k \<noteq> None \<Longrightarrow> value_text kvs k \<noteq> []"
proof -
  assume ok: "well_formed_state kvs" and "map_of kvs k \<noteq> None"
  then obtain v where v: "map_of kvs k = Some v" by auto
  then have "(k, v) \<in> set kvs" by (rule map_of_SomeD)
  then have "well_formed v" using ok by (auto simp: well_formed_state_def list_all_iff)
  then show ?thesis using v tla_text_trimmed by (simp add: value_text_def)
qed

text \<open>The projection in terms of the values: the terms appear only as their ranks.\<close>

definition projection :: "(u64 \<times> u64) list \<Rightarrow> u64 list \<Rightarrow> (u64 \<times> nat) list list \<Rightarrow> (string \<times> tla) list \<Rightarrow> string" where
  "projection ranks ts logs others =
     (let val = value_text others; lens = map (\<lambda>es. int (length es)) logs
      in join ''|''
        [''active='' @ compact (val ''currentActive''),
         ''roles='' @ compact (val ''state''),
         ''terms='' @ ''<<'' @ join '','' (map (\<lambda>t. format_uint (rank ranks t)) ts) @ ''>>'',
         ''log='' @ log_shape ranks logs,
         ''commit='' @ commit_shape (val ''commitIndex'') lens,
         ''replication='' @ replication_shape (val ''matchIndex'') lens,
         ''votes='' @ vote_shape (val ''votesGranted''),
         ''votedFor='' @ compact (val ''votedFor'')])"

lemma state_text_shown: "kvs \<noteq> [] \<Longrightarrow> trim_space (state_text kvs) \<noteq> []"
proof -
  assume "kvs \<noteq> []"
  then have "CHR 0x2F \<in> set (state_text kvs)"
    by (cases kvs; cases "tl kvs") (simp_all add: state_text_def conjunct_line_def conjunct_def join_Cons)
  moreover have "\<not> is_space CHR 0x2F" by (simp add: is_space_def)
  ultimately have "dropWhile is_space (state_text kvs) \<noteq> []" by (auto simp: dropWhile_eq_Nil_conv)
  then have "\<not> is_space (hd (dropWhile is_space (state_text kvs)))" by (rule hd_dropWhile)
  then have "\<exists>c \<in> set (dropWhile is_space (state_text kvs)). \<not> is_space c"
    using \<open>dropWhile is_space (state_text kvs) \<noteq> []\<close> hd_in_set by blast
  then show ?thesis by (simp add: trim_space_def dropWhile_eq_Nil_conv)
qed

lemma project_state_printed:
  assumes "rest_of_state others"
  shows "project_state (printed_state key (raft_state ts logs others)) =
    projection (ranks_of (ts @ map fst (concat logs))) ts logs others"
proof -
  let ?kvs = "raft_state ts logs others" and ?ranks = "ranks_of (ts @ map fst (concat logs))"
  let ?m = "map (\<lambda>kv. (fst kv, tla_text (snd kv))) ?kvs"
  have others: "value_text ?kvs k = value_text others k" if "k \<noteq> ''currentTerm'' \<and> k \<noteq> ''log''" for k
    using that by (simp add: value_text_def raft_state_def)
  have term_text: "string_at ?m ''currentTerm'' = terms_text ts" and log_text: "string_at ?m ''log'' = tla_text (log_value logs)"
    unfolding string_at_texts by (simp_all add: value_text_def raft_state_def terms_text_def del: tla_text.simps)
  have texts: "string_at ?m k = value_text others k" if "k \<noteq> ''currentTerm'' \<and> k \<noteq> ''log''" for k
    unfolding string_at_texts using others [OF that] .
  have ranks: "term_ranks (''currentTerm = '' @ terms_text ts @ '' '' @ tla_text (log_value logs)) = ?ranks"
    unfolding term_ranks_def terms_in_state ..
  have "value_text others ''currentActive'' \<noteq> []" "value_text others ''state'' \<noteq> []"
    using assms value_text_present by (simp_all add: rest_of_state_def)
  moreover have "terms_text ts \<noteq> []" "tla_text (log_value logs) \<noteq> []"
    using tla_text_trimmed [OF log_value_ok] by (simp_all add: terms_text_eq)
  ultimately have "project_assignments ?m = Some (projection ?ranks ts logs others)"
    unfolding project_assignments_def Let_def term_text log_text ranks semantic_log_text replace_terms_text projection_def
    by (simp add: texts)
  moreover have "trim_space (state_text ?kvs) \<noteq> []" by (rule state_text_shown) (simp add: raft_state_def)
  ultimately show ?thesis
    using state_assignments_text [OF rest_of_state_ok [OF assms, of ts logs]]
    by (simp add: project_state_def printed_state_def)
qed

lemma project_state_renamed:
  assumes others: "rest_of_state others" and f: "renames f (ts @ map fst (concat logs))"
  shows "project_state (printed_state key (raft_state (map f ts) (map (map (apfst f)) logs) others)) =
    project_state (printed_state key' (raft_state ts logs others))"
proof -
  let ?all = "ts @ map fst (concat logs)"
  have all: "map f ts @ map fst (concat (map (map (apfst f)) logs)) = map f ?all"
    by (simp add: map_concat comp_def)
  have rank: "rank (ranks_of (map f ?all)) (f t) = rank (ranks_of ?all) t" if "t \<in> set ?all" for t
    using rank_renamed [OF f that] .
  have terms: "map (\<lambda>t. format_uint (rank (ranks_of (map f ?all)) t)) (map f ts) = map (\<lambda>t. format_uint (rank (ranks_of ?all) t)) ts"
    using rank by simp
  have "log_shape (ranks_of (map f ?all)) (map (map (apfst f)) logs) = log_shape (ranks_of ?all) logs"
  proof -
    have "rank (ranks_of (map f ?all)) (f (fst e)) = rank (ranks_of ?all) (fst e)" if "es \<in> set logs" "e \<in> set es" for e es
      using that by (intro rank) auto
    then show ?thesis unfolding log_shape_def by (intro arg_cong [where f = "join '';''"]) (simp add: comp_def cong: map_cong)
  qed
  then show ?thesis
    unfolding project_state_printed [OF others] all projection_def terms by (simp add: comp_def)
qed

text \<open>A run, and the same run with the terms of each of its states renamed.\<close>

type_synonym raft_states = "((u64 \<Rightarrow> u64) \<times> u64 list \<times> (u64 \<times> nat) list list \<times> (string \<times> tla) list) list"

definition printed_run :: "int \<Rightarrow> raft_states \<Rightarrow> model_state list" where
  "printed_run key run = map (\<lambda>(f, ts, logs, others). printed_state key (raft_state ts logs others)) run"

definition renamed_run :: "int \<Rightarrow> raft_states \<Rightarrow> model_state list" where
  "renamed_run key run =
     map (\<lambda>(f, ts, logs, others). printed_state key (raft_state (map f ts) (map (map (apfst f)) logs) others)) run"

definition renamable :: "raft_states \<Rightarrow> bool" where
  "renamable run \<longleftrightarrow> list_all (\<lambda>(f, ts, logs, others). rest_of_state others \<and> renames f (ts @ map fst (concat logs))) run"

text \<open>C14: semantic coverage depends on the order of the terms of a state only. If the terms of each state of a run
  are renamed so that 0 and the order of the terms of the nodes and of their logs are kept, then the run, as
  TLC prints it, has the same state keys and the same transition keys, whatever the fingerprints of its states,
  the names of its events, the digest and the other variables of the states are.\<close>

theorem coverage_ignores_absolute_terms:
  assumes "renamable run"
  shows "project_coverage digest (renamed_run key run) events = project_coverage digest (printed_run key' run) events"
proof -
  have "map project_state (renamed_run key run) = map project_state (printed_run key' run)"
    using assms by (induction run) (auto simp: renamable_def renamed_run_def printed_run_def project_state_renamed)
  then show ?thesis by (simp only: project_coverage_def)
qed

theorem coverage_ignores_absolute_terms_witness:
  "let others = [(''currentActive'', SetOf [Atom ''1'', Atom ''2'']), (''state'', Tuple [Atom ''F'', Atom ''L''])] in
   project_coverage (\<lambda>s. int (length s))
     [printed_state 7 (raft_state [0, 0] [[], []] others), printed_state 7 (raft_state [4, 9] [[(4, 1), (9, 2)], []] others)] [] =
   project_coverage (\<lambda>s. int (length s))
     [printed_state 8 (raft_state [0, 0] [[], []] others), printed_state 8 (raft_state [2, 3] [[(2, 1), (3, 2)], []] others)] []"
proof -
  let ?others = "[(''currentActive'', SetOf [Atom ''1'', Atom ''2'']), (''state'', Tuple [Atom ''F'', Atom ''L''])]"
  let ?f = "\<lambda>t :: u64. if t = 2 then 4 else if t = 3 then 9 else t"
  let ?run = "[(?f, [0, 0], [[], []], ?others), (?f, [2, 3], [[(2, 1), (3, 2)], []], ?others)]"
  have o: "rest_of_state ?others"
    by (simp add: rest_of_state_def well_formed_state_def plain_text_def plain_char_def is_space_def)
  have f: "renamable ?run" by (simp add: renamable_def o) (simp add: renames_def)
  from coverage_ignores_absolute_terms [OF f, of "\<lambda>s. int (length s)" 7 "[]" 8] show ?thesis
    by (simp add: renamed_run_def printed_run_def)
qed

end
