(* ===== verification/Trace_Replay.thy ===== *)
theory Trace_Replay
  imports Runtime Model
begin

text \<open>
  internal/trace/replay.go: a recorded trace is executed again, step by step, and compared with what it records.
  The JSON form of the compared values (\<open>encoding/json\<close>) and the digest over the JSON form of the semantic
  fields are parameters. The wording of the reasons is left out: a reason is a value of \<open>replay_reason\<close>.
\<close>

section \<open>Parameters and results\<close>

record json_forms =
  js_nodes :: "node_observation list \<Rightarrow> go_error + string"
  js_action :: "action \<Rightarrow> go_error + string"
  js_effects :: "effect list \<Rightarrow> go_error + string"
  js_text :: "string \<Rightarrow> go_error + string"
  js_identity :: "execution_id \<Rightarrow> int \<Rightarrow> go_error + string"
  js_semantic_digest :: "any_map \<Rightarrow> go_error + string"

text \<open>The values a divergence quotes; a comparison of two such values is one of their JSON forms.\<close>

datatype replay_value =
    NoValue
  | TimeValue logical_time
  | NodesValue "node_observation list"
  | ActionValue action
  | EffectsValue "effect list"
  | TextValue string
  | IdentityValue execution_id int

datatype replay_reason =
  IdentityDiffers | TimeDiffers | ValueDiffers | NotSerializable go_error | NotExecutable go_error

record divergence =
  dv_step :: u64
  dv_field :: string
  dv_expected :: replay_value
  dv_actual :: replay_value
  dv_reason :: replay_reason

datatype replay_status = ReplayCompleted | ReplayDiverged | ReplayCanceled

text \<open>The errors: the two of the package, with what they quote, and those of the runtime.\<close>

datatype replay_error =
    InvalidTrace validation_error
  | DivergedIdentity
  | DivergedStep u64 string replay_reason
  | RuntimeError go_error

record replay_result =
  rr_status :: replay_status
  rr_error :: "replay_error option"
  rr_matched :: u64
  rr_divergence :: "divergence option"
  rr_actual :: trace

definition zero_trace :: trace where
  "zero_trace = \<lparr>tr_version = 0, tr_execution_id = [], tr_seed = 0, tr_steps = [], tr_metadata = []\<rparr>"

section \<open>Comparing\<close>

fun json_of :: "json_forms \<Rightarrow> replay_value \<Rightarrow> go_error + string" where
  "json_of j (TimeValue t) = Inr (format_uint t)"
| "json_of j (NodesValue ns) = js_nodes j ns"
| "json_of j (ActionValue a) = js_action j a"
| "json_of j (EffectsValue es) = js_effects j es"
| "json_of j (TextValue s) = js_text j s"
| "json_of j (IdentityValue i seed) = js_identity j i seed"
| "json_of j NoValue = Inr ''null''"

definition equal_json :: "json_forms \<Rightarrow> replay_value \<Rightarrow> replay_value \<Rightarrow> go_error + bool" where
  "equal_json j left right =
     (case json_of j left of
        Inl e \<Rightarrow> Inl e
      | Inr l \<Rightarrow> (case json_of j right of Inl e \<Rightarrow> Inl e | Inr r \<Rightarrow> Inr (l = r)))"

text \<open>None: the values agree; otherwise the reason of the divergence.\<close>

definition compare_values :: "json_forms \<Rightarrow> replay_value \<Rightarrow> replay_value \<Rightarrow> replay_reason option" where
  "compare_values j left right =
     (case equal_json j left right of
        Inl e \<Rightarrow> Some (NotSerializable e)
      | Inr eq \<Rightarrow> if eq then None else Some ValueDiffers)"

text \<open>\<open>compatibleNodes\<close>: the fields that versions before 4 do not have.\<close>

definition compatible_node :: "json_forms \<Rightarrow> u32 \<Rightarrow> node_observation \<Rightarrow> node_observation" where
  "compatible_node j version n =
     (if version \<ge> 4 then n
      else if map_of (no_semantic n) ''committed_prefix_available'' = None then n
      else
        let sem = AList.delete ''committed_prefix_digests'' (AList.delete ''committed_prefix_available'' (no_semantic n));
            n = n\<lparr>no_semantic := sem\<rparr>
        in case js_semantic_digest j sem of Inl e \<Rightarrow> n | Inr d \<Rightarrow> n\<lparr>no_digest := d\<rparr>)"

definition compatible_nodes :: "json_forms \<Rightarrow> u32 \<Rightarrow> node_observation list \<Rightarrow> node_observation list" where
  "compatible_nodes j version ns = map (compatible_node j version) ns"

text \<open>The comparisons of a step that was executed, in their order; the effects are skipped if there are none on
  either side.\<close>

definition step_comparisons ::
  "json_forms \<Rightarrow> u32 \<Rightarrow> step_record \<Rightarrow> step_record \<Rightarrow> (string \<times> replay_value \<times> replay_value) list" where
  "step_comparisons j version s t =
     [(''time_after'', TimeValue (sr_time_after s), TimeValue (sr_time_after t)),
      (''action'', ActionValue (sr_action s), ActionValue (sr_action t)),
      (''effects'', EffectsValue (sr_effects s), EffectsValue (sr_effects t)),
      (''nodes_after'', NodesValue (compatible_nodes j version (sr_nodes_after s)),
         NodesValue (compatible_nodes j version (sr_nodes_after t)))] @
     (if version \<ge> 4
      then [(''observation_digest'', TextValue (sr_observation_digest s), TextValue (sr_observation_digest t))] else [])"

fun first_difference ::
  "json_forms \<Rightarrow> (string \<times> replay_value \<times> replay_value) list \<Rightarrow> (string \<times> replay_value \<times> replay_value \<times> replay_reason) option" where
  "first_difference j [] = None"
| "first_difference j ((field, expected, got) # rest) =
     (if field = ''effects'' \<and> expected = EffectsValue [] \<and> got = EffectsValue [] then first_difference j rest
      else case compare_values j expected got of
        Some reason \<Rightarrow> Some (field, expected, got, reason)
      | None \<Rightarrow> first_difference j rest)"

section \<open>Replaying\<close>

type_synonym 'w replay_outcome = "replay_result \<times> replay_error option \<times> 'w runtime"

definition replay_fail ::
  "replay_result \<Rightarrow> divergence option \<Rightarrow> replay_error \<Rightarrow> 'w runtime \<Rightarrow> 'w replay_outcome" where
  "replay_fail res d e r =
     (let res = res\<lparr>rr_divergence := d, rr_error := Some e\<rparr>
      in (case runtime_trace r of Inl _ \<Rightarrow> res | Inr t \<Rightarrow> res\<lparr>rr_actual := t\<rparr>, Some e, r))"

definition replay_diverged ::
  "replay_result \<Rightarrow> u64 \<Rightarrow> string \<Rightarrow> replay_value \<Rightarrow> replay_value \<Rightarrow> replay_reason \<Rightarrow> 'w runtime \<Rightarrow> 'w replay_outcome" where
  "replay_diverged res step field expected actual reason r =
     replay_fail res
       (Some \<lparr>dv_step = step, dv_field = field, dv_expected = expected, dv_actual = actual, dv_reason = reason\<rparr>)
       (DivergedStep step field reason) r"

text \<open>One step: the outcome of the replay if it ends here, or what the loop goes on with.\<close>

definition replay_step ::
  "json_forms \<Rightarrow> u32 \<Rightarrow> u64 \<Rightarrow> step_record \<Rightarrow> replay_result \<Rightarrow> observation \<Rightarrow> 'w runtime \<Rightarrow>
   'w replay_outcome + (replay_result \<times> observation \<times> 'w runtime)" where
  "replay_step j version i s res ob r0 =
     (case check_context r0 of
        (Some e, r) \<Rightarrow> Inl (replay_fail (res\<lparr>rr_status := ReplayCanceled\<rparr>) None (RuntimeError e) r)
      | (None, r) \<Rightarrow>
          if sr_time_before s \<noteq> rt_time r
          then Inl (replay_diverged res i ''time_before'' (TimeValue (sr_time_before s)) (TimeValue (rt_time r)) TimeDiffers r)
          else
            let expected = NodesValue (compatible_nodes j version (sr_nodes_before s));
                actual = NodesValue (compatible_nodes j version (obs_nodes ob))
            in case compare_values j expected actual of
              Some reason \<Rightarrow> Inl (replay_diverged res i ''nodes_before'' expected actual reason r)
            | None \<Rightarrow>
                (case runtime_execute (sr_action s) r of
                   (Inl e, r) \<Rightarrow> Inl (replay_diverged res i ''action'' (ActionValue (sr_action s)) NoValue (NotExecutable e) r)
                 | (Inr step, r) \<Rightarrow>
                     (case first_difference j (step_comparisons j version s (sres_record step)) of
                        Some (field, expected, got, reason) \<Rightarrow> Inl (replay_diverged res i field expected got reason r)
                      | None \<Rightarrow> Inr (res\<lparr>rr_matched := rr_matched res + 1\<rparr>, sres_observation step, r))))"

fun replay_steps ::
  "json_forms \<Rightarrow> u32 \<Rightarrow> nat \<Rightarrow> step_record list \<Rightarrow> replay_result \<Rightarrow> observation \<Rightarrow> 'w runtime \<Rightarrow> 'w replay_outcome" where
  "replay_steps j version i [] res ob r =
     ((case runtime_trace r of Inl _ \<Rightarrow> res\<lparr>rr_actual := zero_trace\<rparr> | Inr t \<Rightarrow> res\<lparr>rr_actual := t\<rparr>)\<lparr>rr_status := ReplayCompleted\<rparr>,
      None, r)"
| "replay_steps j version i (s # ss) res ob r =
     (case replay_step j version (of_nat i) s res ob r of
        Inl outcome \<Rightarrow> outcome
      | Inr (res, ob, r) \<Rightarrow> replay_steps j version (Suc i) ss res ob r)"

definition replay :: "json_forms \<Rightarrow> trace \<Rightarrow> 'w runtime \<Rightarrow> 'w replay_outcome" where
  "replay j expected r0 =
     (let res = \<lparr>rr_status = ReplayDiverged, rr_error = None, rr_matched = 0, rr_divergence = None, rr_actual = zero_trace\<rparr>
      in case trace_validate expected of
           Some e \<Rightarrow> (res, Some (InvalidTrace e), r0)
         | None \<Rightarrow>
             (case runtime_reset r0 of
                (Inl e, r) \<Rightarrow> replay_fail res None (RuntimeError (wrap_text ''reset runtime'' e)) r
              | (Inr ob, r) \<Rightarrow>
                  (case runtime_trace r of
                     Inl e \<Rightarrow> replay_fail res None (RuntimeError e) r
                   | Inr actual \<Rightarrow>
                       if tr_execution_id actual \<noteq> tr_execution_id expected \<or> tr_seed actual \<noteq> tr_seed expected
                       then replay_fail res
                         (Some \<lparr>dv_step = 0, dv_field = ''trace_identity'',
                            dv_expected = IdentityValue (tr_execution_id expected) (tr_seed expected),
                            dv_actual = IdentityValue (tr_execution_id actual) (tr_seed actual),
                            dv_reason = IdentityDiffers\<rparr>) DivergedIdentity r
                       else replay_steps j (tr_version expected) 0 (tr_steps expected) res ob r)))"

section \<open>What agrees when no difference is found\<close>

definition same_json :: "json_forms \<Rightarrow> replay_value \<Rightarrow> replay_value \<Rightarrow> bool" where
  "same_json j a b \<longleftrightarrow> (case (json_of j a, json_of j b) of (Inr x, Inr y) \<Rightarrow> x = y | _ \<Rightarrow> False)"

lemma compare_values_None: "compare_values j a b = None \<longleftrightarrow> same_json j a b"
  by (auto simp: compare_values_def equal_json_def same_json_def split: sum.splits)

lemma same_json_refl: "same_json j a a \<longleftrightarrow> (case json_of j a of Inl _ \<Rightarrow> False | Inr _ \<Rightarrow> True)"
  by (auto simp: same_json_def split: sum.splits)

lemma same_json_time [simp]: "same_json j (TimeValue t) (TimeValue u) \<longleftrightarrow> t = u"
  by (auto simp: same_json_def format_uint_inject)

text \<open>A recorded step and the step of a replay agree: equal clocks, and equal JSON forms of everything else.\<close>

definition after_agrees :: "json_forms \<Rightarrow> u32 \<Rightarrow> step_record \<Rightarrow> step_record \<Rightarrow> bool" where
  "after_agrees j version s t \<longleftrightarrow>
     sr_time_after s = sr_time_after t \<and> same_json j (ActionValue (sr_action s)) (ActionValue (sr_action t)) \<and>
     (sr_effects s = [] \<and> sr_effects t = [] \<or> same_json j (EffectsValue (sr_effects s)) (EffectsValue (sr_effects t))) \<and>
     same_json j (NodesValue (compatible_nodes j version (sr_nodes_after s)))
       (NodesValue (compatible_nodes j version (sr_nodes_after t))) \<and>
     (version < 4 \<or> same_json j (TextValue (sr_observation_digest s)) (TextValue (sr_observation_digest t)))"

definition step_agrees :: "json_forms \<Rightarrow> u32 \<Rightarrow> step_record \<Rightarrow> step_record \<Rightarrow> bool" where
  "step_agrees j version s t \<longleftrightarrow>
     sr_time_before s = sr_time_before t \<and>
     same_json j (NodesValue (compatible_nodes j version (sr_nodes_before s)))
       (NodesValue (compatible_nodes j version (sr_nodes_before t))) \<and>
     after_agrees j version s t"

lemma first_difference_None:
  "first_difference j (step_comparisons j version s t) = None \<longleftrightarrow> after_agrees j version s t"
  by (auto simp: step_comparisons_def after_agrees_def compare_values_None not_le [symmetric] split: option.splits)

section \<open>One executed step\<close>

lemma execute_record:
  assumes ok: "runtime_ok r" and run: "runtime_execute a r = (Inr res, r')"
  shows "rt_trace r' = (rt_trace r)\<lparr>tr_steps := tr_steps (rt_trace r) @ [sres_record res]\<rparr>"
    and "sr_nodes_before (sres_record res) = obs_nodes (rt_observation r)"
    and "sr_time_before (sres_record res) = rt_time r" and "sr_action (sres_record res) = a"
    and "sres_observation res = rt_observation r'" and "rt_initialized r' \<and> \<not> rt_terminated r'" and "runtime_ok r'"
proof -
  note exec = runtime_execute_ok [OF ok run]
  show "sr_time_before (sres_record res) = rt_time r" "sr_action (sres_record res) = a"
    "sres_observation res = rt_observation r'" "rt_initialized r' \<and> \<not> rt_terminated r'"
    using exec(2) by (auto simp: step_executed_def)
  show "runtime_ok r'" by (rule exec(1)) 
  from run have "rt_trace r' = (rt_trace r)\<lparr>tr_steps := tr_steps (rt_trace r) @ [sres_record res]\<rparr> \<and>
      sr_nodes_before (sres_record res) = obs_nodes (rt_observation r)"
  proof (cases rule: runtime_execute_cases)
    case (stepped w)
    let ?r = "r\<lparr>rt_world := w\<rparr>"
    have res: "resources_ok ?r" "validate_budget a ?r = None" using ok stepped by (simp_all add: runtime_ok_def)
    from stepped(5) show ?thesis
    proof (cases rule: execute_step_cases)
      case (executed es r1 v ob d t)
      have "runtime_frame ?r r1" using apply_action_ok [OF res executed(1)] by (simp add: applied_ok_def)
      then have "rt_trace r1 = rt_trace r" by (simp add: runtime_frame_def)
      with executed show ?thesis by (auto simp: trace_append_Inr step_record_of_def)
    qed simp_all
  qed simp_all
  then show "rt_trace r' = (rt_trace r)\<lparr>tr_steps := tr_steps (rt_trace r) @ [sres_record res]\<rparr>"
    and "sr_nodes_before (sres_record res) = obs_nodes (rt_observation r)" by simp_all
qed

section \<open>The invariant of a replay\<close>

definition trace_head :: "trace \<Rightarrow> u32 \<times> execution_id \<times> int \<times> string_map" where
  "trace_head t = (tr_version t, tr_execution_id t, tr_seed t, tr_metadata t)"

definition replaying ::
  "json_forms \<Rightarrow> trace \<Rightarrow> nat \<Rightarrow> replay_result \<Rightarrow> observation \<Rightarrow> 'w runtime \<Rightarrow> bool" where
  "replaying j expected i res ob r \<longleftrightarrow>
     runtime_ok r \<and> rt_initialized r \<and> \<not> rt_terminated r \<and> ob = rt_observation r \<and>
     trace_head (rt_trace r) = (current_trace_version, tr_execution_id expected, tr_seed expected, []) \<and>
     rr_status res = ReplayDiverged \<and> rr_error res = None \<and> rr_divergence res = None \<and> rr_matched res = of_nat i \<and>
     i \<le> length (tr_steps expected) \<and>
     list_all2 (step_agrees j (tr_version expected)) (take i (tr_steps expected)) (tr_steps (rt_trace r))"

text \<open>A divergence is about the step after those that agree, and the error says the same.\<close>

definition ended_with :: "trace \<Rightarrow> nat \<Rightarrow> divergence option \<Rightarrow> replay_error \<Rightarrow> bool" where
  "ended_with expected i d e \<longleftrightarrow>
     (case e of
        DivergedStep step field reason \<Rightarrow> i < length (tr_steps expected) \<and> step = of_nat i \<and>
          (case d of None \<Rightarrow> False | Some d \<Rightarrow> dv_step d = step \<and> dv_field d = field \<and> dv_reason d = reason)
      | DivergedIdentity \<Rightarrow> i = 0 \<and> d \<noteq> None
      | InvalidTrace v \<Rightarrow> trace_validate expected = Some v \<and> d = None
      | RuntimeError _ \<Rightarrow> d = None)"

text \<open>What is known of a replay that has ended after \<open>i\<close> steps that agree.\<close>

definition replayed :: "json_forms \<Rightarrow> trace \<Rightarrow> nat \<Rightarrow> 'w replay_outcome \<Rightarrow> bool" where
  "replayed j expected i out \<longleftrightarrow>
     (case out of (res, err, r) \<Rightarrow>
        rr_matched res = of_nat i \<and> i \<le> length (tr_steps expected) \<and>
        list_all2 (step_agrees j (tr_version expected)) (take i (tr_steps expected)) (take i (tr_steps (rr_actual res))) \<and>
        (case err of
           None \<Rightarrow> rr_status res = ReplayCompleted \<and> rr_divergence res = None \<and> i = length (tr_steps expected) \<and>
             length (tr_steps (rr_actual res)) = i \<and>
             trace_head (rr_actual res) = (current_trace_version, tr_execution_id expected, tr_seed expected, [])
         | Some e \<Rightarrow> rr_status res \<noteq> ReplayCompleted \<and>
             (i < length (tr_steps (rr_actual res)) \<longrightarrow> i < length (tr_steps expected) \<and>
                \<not> step_agrees j (tr_version expected) (tr_steps expected ! i) (tr_steps (rr_actual res) ! i)) \<and>
             ended_with expected i (rr_divergence res) e))"

lemma replaying_ends:
  assumes st: "replaying j expected i res ob r" and r': "runtime_trace r' = Inr t"
    and t: "list_all2 (step_agrees j (tr_version expected)) (take i (tr_steps expected)) (take i (tr_steps t))"
    and status: "status \<noteq> ReplayCompleted"
    and differs: "i < length (tr_steps t) \<Longrightarrow> i < length (tr_steps expected) \<and>
        \<not> step_agrees j (tr_version expected) (tr_steps expected ! i) (tr_steps t ! i)"
    and d: "ended_with expected i d e"
  shows "replayed j expected i (replay_fail (res\<lparr>rr_status := status\<rparr>) d e r')"
  using assms by (simp add: replayed_def replay_fail_def replaying_def split: option.splits)

lemma replaying_diverges:
  assumes st: "replaying j expected i res ob r" and "runtime_trace r' = Inr t"
    and "list_all2 (step_agrees j (tr_version expected)) (take i (tr_steps expected)) (take i (tr_steps t))"
    and "i < length (tr_steps t) \<Longrightarrow> i < length (tr_steps expected) \<and>
        \<not> step_agrees j (tr_version expected) (tr_steps expected ! i) (tr_steps t ! i)"
    and "i < length (tr_steps expected)"
  shows "replayed j expected i (replay_diverged res (of_nat i) field a b reason r')"
proof -
  have "res = res\<lparr>rr_status := ReplayDiverged\<rparr>" using st by (simp add: replaying_def)
  moreover have "replayed j expected i (replay_fail (res\<lparr>rr_status := ReplayDiverged\<rparr>)
      (Some \<lparr>dv_step = of_nat i, dv_field = field, dv_expected = a, dv_actual = b, dv_reason = reason\<rparr>)
      (DivergedStep (of_nat i) field reason) r')"
    by (rule replaying_ends [OF assms(1-3)]) (simp_all add: assms(4,5) ended_with_def)
  ultimately show ?thesis unfolding replay_diverged_def by simp
qed

lemma replaying_trace:
  "replaying j expected i res ob r \<Longrightarrow> runtime_trace r = Inr (rt_trace r) \<and>
     list_all2 (step_agrees j (tr_version expected)) (take i (tr_steps expected)) (take i (tr_steps (rt_trace r))) \<and>
     length (tr_steps (rt_trace r)) = i"
proof -
  assume st: "replaying j expected i res ob r"
  then have "length (tr_steps (rt_trace r)) = i" by (auto simp: replaying_def dest: list_all2_lengthD)
  with st show ?thesis by (simp add: replaying_def runtime_trace_def)
qed

lemma replay_step_ok:
  assumes st: "replaying j expected i res ob r0" and s: "i < length (tr_steps expected)" "s = tr_steps expected ! i"
  shows "case replay_step j (tr_version expected) (of_nat i) s res ob r0 of
      Inl out \<Rightarrow> replayed j expected i out
    | Inr (res', ob', r') \<Rightarrow> replaying j expected (Suc i) res' ob' r'"
proof -
  obtain e w where c: "check_context r0 = (e, r0\<lparr>rt_world := w\<rparr>)" using check_context_frame by (metis prod.collapse)
  let ?r = "r0\<lparr>rt_world := w\<rparr>" and ?v = "tr_version expected"
  have str: "replaying j expected i res ob ?r" using st by (simp add: replaying_def)
  have tr: "runtime_trace ?r = Inr (rt_trace ?r)"
    "list_all2 (step_agrees j ?v) (take i (tr_steps expected)) (take i (tr_steps (rt_trace ?r)))"
    and len: "length (tr_steps (rt_trace ?r)) = i" using replaying_trace [OF str] by blast+
  have diverges: "replayed j expected i (replay_diverged res (of_nat i) field a b reason r')"
    if "runtime_trace r' = Inr (rt_trace ?r)" for field a b reason and r' :: "'a runtime"
    by (rule replaying_diverges [OF str that tr(2) _ s(1)]) (use len in simp)
  have ok: "runtime_ok ?r" and ob: "ob = rt_observation ?r" using str by (simp_all add: replaying_def)
  show ?thesis
  proof (cases e)
    case (Some x)
    show ?thesis
      using replaying_ends [OF str tr, where status = ReplayCanceled and d = None and e = "RuntimeError x"] len Some c
      by (simp add: replay_step_def ended_with_def)
  next
    case None
    let ?before = "NodesValue (compatible_nodes j ?v (sr_nodes_before s))"
    let ?now = "NodesValue (compatible_nodes j ?v (obs_nodes ob))"
    consider (time) "sr_time_before s \<noteq> rt_time ?r" | (nodes) reason where "sr_time_before s = rt_time ?r" "compare_values j ?before ?now = Some reason"
      | (go) "sr_time_before s = rt_time ?r" "compare_values j ?before ?now = None"
      by (cases "compare_values j ?before ?now") auto
    then show ?thesis
    proof cases
      case time
      then show ?thesis using c None diverges [OF tr(1)] by (simp add: replay_step_def)
    next
      case nodes
      then show ?thesis using c None diverges [OF tr(1)] by (simp add: replay_step_def Let_def)
    next
      case go
      obtain x r1 where x: "runtime_execute (sr_action s) ?r = (x, r1)" by fastforce
      show ?thesis
      proof (cases x)
        case (Inl err)
        have "runtime_trace r1 = Inr (rt_trace ?r)"
          using runtime_execute_ok(3) [OF ok x Inl] str by (auto simp: step_failed_def runtime_trace_def replaying_def)
        from diverges [OF this] show ?thesis using c None go x Inl
          by (simp add: replay_step_def Let_def)
      next
        case (Inr step)
        note rec = execute_record [OF ok x [unfolded Inr]]
        have trace1: "runtime_trace r1 = Inr (rt_trace r1)" using rec(6) by (simp add: runtime_trace_def)
        have take1: "take i (tr_steps (rt_trace r1)) = tr_steps (rt_trace ?r)" using len by (simp add: rec(1))
        show ?thesis
        proof (cases "first_difference j (step_comparisons j ?v s (sres_record step))")
          case (Some y)
          obtain field a b reason where y: "y = (field, a, b, reason)" by (cases y)
          have "list_all2 (step_agrees j ?v) (take i (tr_steps expected)) (take i (tr_steps (rt_trace r1)))"
            using str by (simp add: take1 replaying_def)
          moreover have "\<not> step_agrees j ?v (tr_steps expected ! i) (tr_steps (rt_trace r1) ! i)"
            using Some first_difference_None [of j ?v s "sres_record step"] s(2) len
            by (simp add: step_agrees_def rec(1) nth_append)
          ultimately have "replayed j expected i (replay_diverged res (of_nat i) field a b reason r1)"
            using s(1) by (intro replaying_diverges [OF str trace1]) simp_all
          then show ?thesis using c None go x Inr Some y
            by (simp add: replay_step_def Let_def)
        next
          case none: None
          have "step_agrees j ?v s (sres_record step)"
            using none go rec(2,3) ob by (simp add: step_agrees_def first_difference_None compare_values_None)
          then have "list_all2 (step_agrees j ?v) (take i (tr_steps expected) @ [s]) (tr_steps (rt_trace r1))"
            using str by (simp add: rec(1) replaying_def list_all2_appendI)
          then have "replaying j expected (Suc i) (res\<lparr>rr_matched := rr_matched res + 1\<rparr>) (sres_observation step) r1"
            using str rec s by (simp add: replaying_def trace_head_def take_Suc_conv_app_nth)
          then show ?thesis using c None go x Inr none by (simp add: replay_step_def Let_def)
        qed
      qed
    qed
  qed
qed

section \<open>A whole replay\<close>

lemma replay_steps_ok:
  "replaying j expected i res ob r \<Longrightarrow>
     \<exists>k. replayed j expected k (replay_steps j (tr_version expected) i (drop i (tr_steps expected)) res ob r)"
proof (induction "drop i (tr_steps expected)" arbitrary: i res ob r)
  case Nil
  then have i: "i = length (tr_steps expected)" by (auto simp: replaying_def)
  have tr: "runtime_trace r = Inr (rt_trace r)"
    "list_all2 (step_agrees j (tr_version expected)) (take i (tr_steps expected)) (take i (tr_steps (rt_trace r)))"
    "length (tr_steps (rt_trace r)) = i" using replaying_trace [OF Nil(2)] by blast+
  have "replayed j expected i (replay_steps j (tr_version expected) i [] res ob r)"
    using Nil(2) tr i by (simp add: replayed_def replaying_def)
  with Nil(1) show ?case by auto
next
  case (Cons s ss)
  then have i: "i < length (tr_steps expected)" by (metis drop_all list.distinct(1) not_le)
  have s: "s = tr_steps expected ! i" "ss = drop (Suc i) (tr_steps expected)"
    using Cons(2) Cons_nth_drop_Suc [OF i] by (metis list.inject)+
  note step = replay_step_ok [OF Cons(3) i s(1)]
  show ?case
  proof (cases "replay_step j (tr_version expected) (of_nat i) s res ob r")
    case (Inl out)
    with step show ?thesis unfolding Cons(2) [symmetric] by auto
  next
    case (Inr p)
    obtain res' ob' r' where p: "p = (res', ob', r')" by (cases p)
    with step Inr have "replaying j expected (Suc i) res' ob' r'" by simp
    from Cons(1) [OF s(2) this] show ?thesis unfolding Cons(2) [symmetric] by (simp add: Inr p s(2))
  qed
qed

lemma reset_trace:
  assumes "runtime_reset r = (x, r')"
  shows "rt_trace r' = new_trace (cfg_execution_id (rt_config r)) (cfg_seed (rt_config r))"
proof -
  let ?s = "r\<lparr>rt_network := new_network, rt_time := 0,
            rt_trace := new_trace (cfg_execution_id (rt_config r)) (cfg_seed (rt_config r)),
            rt_last_action := None, rt_action_count := 0, rt_effect_count := 0,
            rt_initialized := True, rt_terminated := False, rt_failure := None\<rparr>"
  obtain y w where y: "call_sut ''reset'' (ad_reset (rt_adapter ?s) (cfg_seed (rt_config ?s))) ?s = (y, ?s\<lparr>rt_world := w\<rparr>)"
    by (metis call_sut_frame prod.collapse)
  obtain z v where z: "collect_observation (?s\<lparr>rt_world := w\<rparr>) = (z, (?s\<lparr>rt_world := w\<rparr>)\<lparr>rt_world := v\<rparr>)"
    by (rule collect_observation_world [of "?s\<lparr>rt_world := w\<rparr>"])
  have kept: "rt_trace (record_failure op a ob e q) = rt_trace q" for op a ob e and q :: "'a runtime"
    by (simp add: record_failure_def Let_def split: option.splits)
  show ?thesis using assms y z by (cases y; cases z) (auto simp: runtime_reset_def Let_def kept)
qed

lemma reset_observation: "runtime_ok r \<Longrightarrow> runtime_reset r = (Inr ob, r') \<Longrightarrow> rt_observation r' = ob \<and> rt_initialized r' \<and> \<not> rt_terminated r'"
  using runtime_reset_ok(2) by blast

lemma replay_ok:
  assumes ok: "runtime_ok r0"
  shows "\<exists>k. replayed j expected k (replay j expected r0)"
proof (cases "trace_validate expected")
  case (Some e)
  then have "replayed j expected 0 (replay j expected r0)"
    by (simp add: replay_def replayed_def ended_with_def zero_trace_def)
  then show ?thesis ..
next
  case None
  obtain x r where reset: "runtime_reset r0 = (x, r)" by fastforce
  have new: "rt_trace r = new_trace (cfg_execution_id (rt_config r0)) (cfg_seed (rt_config r0))" by (rule reset_trace [OF reset])
  show ?thesis
  proof (cases x)
    case (Inl e)
    have "runtime_trace r = Inr (rt_trace r)" using runtime_reset_ok(3) [OF ok reset Inl] by (simp add: runtime_trace_def)
    then have "replayed j expected 0 (replay j expected r0)"
      using None reset Inl new by (simp add: replay_def replay_fail_def replayed_def ended_with_def new_trace_def)
    then show ?thesis ..
  next
    case (Inr ob)
    have r: "runtime_ok r" "rt_observation r = ob" "rt_initialized r" "\<not> rt_terminated r"
      using runtime_reset_ok(1) [OF ok reset] reset_observation [OF ok reset [unfolded Inr]] by simp_all
    then have trace: "runtime_trace r = Inr (rt_trace r)" by (simp add: runtime_trace_def)
    show ?thesis
    proof (cases "tr_execution_id (rt_trace r) = tr_execution_id expected \<and> tr_seed (rt_trace r) = tr_seed expected")
      case False
      then have "replayed j expected 0 (replay j expected r0)"
        using None reset Inr new trace by (auto simp: replay_def replay_fail_def replayed_def ended_with_def new_trace_def)
      then show ?thesis ..
    next
      case True
      let ?res = "\<lparr>rr_status = ReplayDiverged, rr_error = None, rr_matched = 0, rr_divergence = None, rr_actual = zero_trace\<rparr>"
      have "replaying j expected 0 ?res ob r"
        using r True new by (simp add: replaying_def trace_head_def new_trace_def)
      from replay_steps_ok [OF this] show ?thesis using None reset Inr trace True by (simp add: replay_def)
    qed
  qed
qed

section \<open>Replaying what the runtime has recorded\<close>

fun perform :: "action list \<Rightarrow> 'w runtime \<Rightarrow> 'w runtime option" where
  "perform [] r = Some r"
| "perform (a # as) r = (case runtime_execute a r of (Inl _, _) \<Rightarrow> None | (Inr _, r) \<Rightarrow> perform as r)"

text \<open>The values of a step have a JSON form; the context is never canceled.\<close>

definition encodable :: "json_forms \<Rightarrow> step_record \<Rightarrow> bool" where
  "encodable j s \<longleftrightarrow> list_all (\<lambda>v. case json_of j v of Inl _ \<Rightarrow> False | Inr _ \<Rightarrow> True)
     [NodesValue (sr_nodes_before s), ActionValue (sr_action s), EffectsValue (sr_effects s), NodesValue (sr_nodes_after s),
      TextValue (sr_observation_digest s)]"

definition never_canceled :: "'w sut_env \<Rightarrow> bool" where
  "never_canceled ad \<longleftrightarrow> (\<forall>w. env_ctx_err ad w = (None, w))"

lemma step_agrees_refl: "encodable j s \<Longrightarrow> step_agrees j current_trace_version s s"
  by (auto simp: encodable_def step_agrees_def after_agrees_def same_json_refl compatible_nodes_def compatible_node_def
      current_trace_version_def map_idI)

lemma perform_steps:
  "runtime_ok r \<Longrightarrow> perform as r = Some r' \<Longrightarrow>
     \<exists>ss. rt_trace r' = (rt_trace r)\<lparr>tr_steps := tr_steps (rt_trace r) @ ss\<rparr> \<and> length ss = length as"
proof (induction as arbitrary: r)
  case (Cons a as)
  then obtain res r1 where x: "runtime_execute a r = (Inr res, r1)" "perform as r1 = Some r'"
    by (auto split: prod.splits sum.splits)
  note rec = execute_record [OF Cons.prems(1) x(1)]
  from Cons.IH [OF rec(7) x(2)] obtain ss where
    "rt_trace r' = (rt_trace r1)\<lparr>tr_steps := tr_steps (rt_trace r1) @ ss\<rparr>" "length ss = length as" by blast
  then show ?case by (intro exI [of _ "sres_record res # ss"]) (simp add: rec(1))
qed (auto intro: exI [of _ "[]"])

lemma replay_steps_recorded:
  assumes "runtime_ok r" "rt_initialized r" "never_canceled (rt_adapter r)" "perform as r = Some r'"
    "rt_trace r' = (rt_trace r)\<lparr>tr_steps := tr_steps (rt_trace r) @ ss\<rparr>" "list_all (encodable j) ss"
  shows "replay_steps j current_trace_version i ss res (rt_observation r) r =
    (res\<lparr>rr_matched := rr_matched res + of_nat (length ss), rr_actual := rt_trace r', rr_status := ReplayCompleted\<rparr>, None, r')"
  using assms
proof (induction as arbitrary: r ss res i)
  case Nil
  then have "r' = r" "ss = []" by (auto simp: trace.equality dest: arg_cong [of _ _ tr_steps])
  with Nil show ?case by (simp add: runtime_trace_def)
next
  case (Cons a as)
  obtain step r1 where x: "runtime_execute a r = (Inr step, r1)" and rest: "perform as r1 = Some r'"
    using Cons.prems(4) by (auto split: prod.splits sum.splits)
  note rec = execute_record [OF Cons.prems(1) x]
  obtain ts where ts: "rt_trace r' = (rt_trace r1)\<lparr>tr_steps := tr_steps (rt_trace r1) @ ts\<rparr>"
    using perform_steps [OF rec(7) rest] by blast
  have ss: "ss = sres_record step # ts"
    using Cons.prems(5) ts rec(1) by (auto dest: arg_cong [of _ _ tr_steps])
  have adapter: "rt_adapter r1 = rt_adapter r" using runtime_execute_frame [OF Cons.prems(1) x] by simp
  have agrees: "step_agrees j current_trace_version (sres_record step) (sres_record step)"
    using Cons.prems(6) by (simp add: ss step_agrees_refl)
  have ctx: "check_context r = (None, r)"
    using Cons.prems(3) by (simp add: check_context_def never_canceled_def)
  have "replay_step j current_trace_version (of_nat i) (sres_record step) res (rt_observation r) r =
      Inr (res\<lparr>rr_matched := rr_matched res + 1\<rparr>, rt_observation r1, r1)"
  proof -
    let ?nodes = "NodesValue (compatible_nodes j current_trace_version (obs_nodes (rt_observation r)))"
    have "compare_values j ?nodes ?nodes = None"
      using agrees by (simp add: step_agrees_def compare_values_None rec(2))
    moreover have "first_difference j (step_comparisons j current_trace_version (sres_record step) (sres_record step)) = None"
      using agrees by (simp add: step_agrees_def first_difference_None)
    ultimately show ?thesis using x by (simp add: replay_step_def ctx rec(2-5))
  qed
  moreover have "replay_steps j current_trace_version (Suc i) ts (res\<lparr>rr_matched := rr_matched res + 1\<rparr>) (rt_observation r1) r1 =
      (res\<lparr>rr_matched := rr_matched res + 1 + of_nat (length ts), rr_actual := rt_trace r', rr_status := ReplayCompleted\<rparr>, None, r')"
    using Cons.IH [OF rec(7) _ _ rest ts, where i = "Suc i" and res = "res\<lparr>rr_matched := rr_matched res + 1\<rparr>"] rec(6) Cons.prems(3,6)
    by (simp add: adapter ss)
  ultimately show ?case by (simp add: ss algebra_simps)
qed

lemma perform_ok:
  "runtime_ok r \<Longrightarrow> rt_initialized r \<Longrightarrow> perform as r = Some r' \<Longrightarrow> runtime_ok r' \<and> rt_initialized r'"
proof (induction as arbitrary: r)
  case (Cons a as)
  then obtain res r1 where x: "runtime_execute a r = (Inr res, r1)" "perform as r1 = Some r'"
    by (auto split: prod.splits sum.splits)
  note rec = execute_record [OF Cons.prems(1) x(1)]
  from Cons.IH [OF rec(7) _ x(2)] rec(6) show ?case by simp
qed simp

section \<open>The properties\<close>


text \<open>C18: a recorded run replays: the trace of any actions that a runtime has executed after a reset is executed
  again to its end by a runtime in the same initial state, with the same final state, if the context is not
  canceled and the recorded values have a JSON form. So a divergence means that the system under test,
  its configuration or the trace is another one.\<close>

theorem recorded_run_replays:
  "case runtime_new (Some ad) c w of
     Inl _ \<Rightarrow> True
   | Inr r0 \<Rightarrow>
       (let r = runtime_run r0 calls in
        case runtime_reset r of
          (Inl _, _) \<Rightarrow> True
        | (Inr ob, r1) \<Rightarrow>
            (case perform as r1 of
               None \<Rightarrow> True
             | Some r2 \<Rightarrow>
                 (if never_canceled ad \<and> list_all (encodable j) (tr_steps (rt_trace r2))
                  then replay j (rt_trace r2) r =
                    (\<lparr>rr_status = ReplayCompleted, rr_error = None, rr_matched = of_nat (length as),
                      rr_divergence = None, rr_actual = rt_trace r2\<rparr>, None, r2)
                  else True)))"
proof (cases "runtime_new (Some ad) c w")
  case (Inr r0)
  define r where "r = runtime_run r0 calls"
  have new_ok: "runtime_ok r0" by (rule new_runtime_ok [OF Inr])
  have ok: "runtime_ok r" unfolding r_def by (rule runtime_run_ok [OF new_ok])
  have "rt_adapter r0 = ad" using Inr by (auto simp: runtime_new_def split: option.splits)
  then have ad: "rt_adapter r = ad" using runtime_run_frame [OF new_ok] by (simp add: r_def)
  have replays: "replay j (rt_trace r2) r = (\<lparr>rr_status = ReplayCompleted, rr_error = None, rr_matched = of_nat (length as),
      rr_divergence = None, rr_actual = rt_trace r2\<rparr>, None, r2)"
    if reset: "runtime_reset r = (Inr ob, r1)" and run: "perform as r1 = Some r2"
      and env: "never_canceled ad" "list_all (encodable j) (tr_steps (rt_trace r2))" for ob r1 r2
  proof -
    have r1: "runtime_ok r1" "rt_observation r1 = ob" "rt_initialized r1"
      using runtime_reset_ok(1) [OF ok reset] reset_observation [OF ok reset] by simp_all
    have ad1: "rt_adapter r1 = ad" using runtime_reset_frame [OF reset] ad by simp
    have new: "rt_trace r1 = new_trace (cfg_execution_id (rt_config r)) (cfg_seed (rt_config r))" by (rule reset_trace [OF reset])
    obtain ss where ss: "rt_trace r2 = (rt_trace r1)\<lparr>tr_steps := tr_steps (rt_trace r1) @ ss\<rparr>" "length ss = length as"
      using perform_steps [OF r1(1) run] by blast
    have steps: "tr_steps (rt_trace r2) = ss" by (simp add: ss(1) new new_trace_def)
    have "runtime_ok r2 \<and> rt_initialized r2" using perform_ok [OF r1(1,3) run] .
    then have "trace_validate (rt_trace r2) = None" by (simp add: runtime_ok_def recording_ok_def)
    moreover have "replay_steps j current_trace_version 0 ss
        \<lparr>rr_status = ReplayDiverged, rr_error = None, rr_matched = 0, rr_divergence = None, rr_actual = zero_trace\<rparr> ob r1 =
      (\<lparr>rr_status = ReplayCompleted, rr_error = None, rr_matched = of_nat (length as), rr_divergence = None,
        rr_actual = rt_trace r2\<rparr>, None, r2)"
      using replay_steps_recorded [OF r1(1,3) _ run ss(1)] env ad1 steps ss(2) r1(2) by simp
    ultimately show ?thesis using reset r1(3) steps ss(1) new
      by (simp add: replay_def runtime_trace_def) (simp add: new_trace_def)
  qed
  have "case runtime_reset r of (Inl _, _) \<Rightarrow> True | (Inr ob, r1) \<Rightarrow> (case perform as r1 of None \<Rightarrow> True | Some r2 \<Rightarrow>
      (if never_canceled ad \<and> list_all (encodable j) (tr_steps (rt_trace r2))
       then replay j (rt_trace r2) r = (\<lparr>rr_status = ReplayCompleted, rr_error = None, rr_matched = of_nat (length as),
         rr_divergence = None, rr_actual = rt_trace r2\<rparr>, None, r2) else True))"
    using replays by (auto split: prod.splits sum.splits option.splits)
  then show ?thesis unfolding Inr sum.case Let_def r_def .
qed simp

end
