(* ===== verification/Spec2Isabelle.thy ===== *)
theory Spec2Isabelle
  imports Batch Engine_Raft Experiment_Store Policy_Random Raft_Coverage_Runs Trace_Replay
begin

text \<open>
  ModelFuzz-NG, a fuzzer for Raft implementations that is guided by a TLA+ model: the parts that decide
  what a run does and what it means, modelled in HOL and verified. Unless they start with src, file
  names below are under src/internal; every definition is a translation of the Go code it names, executable, with every error
  and early return as a value.

  \<^bold>\<open>The program.\<close> A plan (plan) is a list of high-level actions with selectors. The engine (engine) turns
  each planned action into concrete actions with the resolver (plan), asks the profile of the model
  (model, model/raft) whether the model can follow each of them, executes the accepted ones on the
  runtime (runtime), which owns the message network and drives the system under test through an adapter
  (sut), maps the step to model events with the mapper (model, model/raft), and runs the safety checkers
  (oracle, oracle/raft). Runs that reach new model states enter the corpus (corpus).

  \<^bold>\<open>Values.\<close> Go's \<open>uint64\<close> is \<open>64 word\<close>, \<open>int\<close> is \<open>int\<close> with the wrap-around of 64 bits written out
  (\<open>wrap64\<close>), strings and byte slices are character lists, a nil slice is an empty one, \<open>any\<close> is the
  datatype \<open>goval\<close>; a map is an association list (\<open>AList.update\<close>, \<open>AList.delete\<close>) or, where only its keys
  are used, a set. A function that returns an error returns \<open>go_error + 'a\<close> or an option of an error; the
  text and the wrapped categories of an error are kept, since callers test them (\<open>errors_is\<close>) and
  failure records quote them. A panic is the value None. State is passed explicitly: the world behind
  the adapter, the runtime, the state of the checkers and the engine's own.

  \<^bold>\<open>Theories.\<close>
  \<^item> Prelude, Go_Strconv: lemma collections, lists and association lists, checked arithmetic; Go's
    number formatting and parsing as the code uses it.
  \<^item> Core_Values (core/id.go, error.go, timer.go), Core_Action (action.go), Core_Message (message.go,
    effect.go), Core_Observation (observation.go), Core_Trace (trace.go, failure.go): the data with its
    validation. Lemmas characterise what validates, and that a trace built step by step is a valid one.
  \<^item> Network (runtime/network.go): queues per link, IDs, sequence numbers. The invariant \<open>network_wf\<close>
    holds in every reachable network; the locale \<open>message_queues\<close> states what the runtime relies on and
    is interpreted by the network.
  \<^item> Runtime (runtime/runtime.go, action.go, clock.go, recorder.go, panic.go, sut/adapter.go): the
    executor. The adapter is a record of functions over an abstract world, with no law assumed. Lemmas:
    the invariant \<open>runtime_ok\<close> of every operation, the budgets, the contract of Execute.
  \<^item> Trace_Replay (trace/replay.go): a recorded trace executed again and compared step by step; the JSON
    form of the compared values is a parameter (\<open>json_forms\<close>). Its verdict is true (\<open>step_agrees\<close>), and what
    a runtime has recorded replays.
  \<^item> Plan (plan/*.go): planned actions, the resolver and its results; Batch: a resolved batch of messages
    is executed on the network and runtime as the resolver means it.
  \<^item> Model (model/*.go): events, transitions, decisions of a profile, mapping of a run. Two locales,
    \<open>sound_mapper\<close> and \<open>profiled_mapper\<close>, hold what their client, the engine, needs of a mapper and of a
    profile. Raft_Mapper (model/raft/mapper.go) and Raft_Profile (model/raft/profile.go) are the Raft
    instances and interpret them; the election countdown is compared with a timer that ticks.
    Raft_Coverage (model/raft/coverage.go): the projection of printed TLC states onto semantic keys, with its
    regular expressions as functions on byte strings; Raft_Coverage_Runs: printed states (\<open>state_text\<close>), their
    projection, and that only the order of the terms matters in it.
  \<^item> Raft_Oracle (oracle/oracle.go, oracle/raft/checker.go): the online checker, compared with what
    safety means over a whole history (\<open>safe_history\<close>).
  \<^item> Corpus (corpus/corpus.go): retention, rollback, snapshot and checkpoint.
  \<^item> Engine (engine/engine.go, error.go, result.go): the loop over a plan sequence or an online source,
    in the order of the code. Engine_Execution: the invariant of its loop (\<open>going\<close>, \<open>stopped\<close>) and the
    contract of its results (\<open>outcome_ok\<close>). Engine_Raft: the engine with the Raft parts.

  \<^item> Policy_Random (policy/random.go): the policy that draws actions online, with the same random source as
    the mutator (\<open>draw\<close>). Its invariant \<open>policy_ok\<close> holds in every state it reaches; what it plans resolves
    and is accepted by the profile (\<open>executable_action\<close>).
  \<^item> Mutation (mutation/mutation.go, random.go): the random mutator with every operation, over an abstract
    random source (\<open>draw\<close>): it never panics and keeps plans and their lifecycle valid. Metrics
    (metrics/metrics.go): counters of a run, peak of the queue, summary of durations. Experiment_Report
    (experiment/digest.go, aggregation.go and the reports of runner.go): the report computed run by run
    and the one computed from all runs.
  \<^item> Experiment_Checkpoint (experiment/lifecycle.go, aggregation.go): exactly which checkpoints are accepted.
    Feedback_Setup and Feedback_Loop (experiment/runner.go): \<open>New\<close>, \<open>Run\<close> and \<open>RunFeedback\<close>, a state
    machine whose steps are what \<open>select\<close> takes (\<open>arrival\<close>); hooks, initializer and projector are functions
    of the calls made so far. Feedback_Invariant: the invariant of its state and of the checkpoints it
    hands out (\<open>run_inv\<close>), kept by every operation. Feedback_Runs: the invariant through whole calls, and
    through any number of interrupted and resumed calls (\<open>stored_after\<close>). Feedback_Progress: the loop never
    waits for nothing (\<open>progressing\<close>), ends after a bounded number of arrivals (\<open>potential\<close>) and completes
    every run once.
  \<^item> Journal (persistence/files.go): files of records on their bytes; an append may be cut off anywhere.
    Experiment_Store (src/cmd/modelfuzz-ng/experiment_store.go and the part of main.go that resumes): the
    files of an experiment, what the hooks write, a program that dies in any call of a hook (\<open>crashed\<close>), and
    the return to the last checkpoint. The JSON form of the records is a parameter (\<open>codec\<close>); the theorems
    hold where each written record is one line that decodes to the record (\<open>fits\<close>).

  \<^bold>\<open>How far it goes.\<close> Loops are structural recursions over lists or count down a natural number that the
  code counts up: the number of planned actions, the limit of an online run, the ticks of an advance, the
  runs of an experiment. No fuel is used; a loop that need not end (the thresholds of the periodic seeds)
  has a result of its own, \<open>Diverges\<close>. The length of an online run is the \<open>limit\<close> the code passes in.

  \<^bold>\<open>Parameters.\<close> The digest of an observation (SHA-256 over its JSON form), the system under test, the
  policy behind an online source, the model executor (an HTTP service), the random source of the mutator and the
  hooks of an experiment are arguments of the definitions that use them. Nothing is assumed of them unless
  a theorem says so in its hypotheses.

  \<^bold>\<open>Not modelled.\<close> The copying helpers (Copy, Clone) have no counterpart, since values are immutable.
  Checks for nil receivers and nil interfaces are modelled where the nil case can be reached with the
  types of the model; the engine's own "engine is not initialized" is not. The iteration order of Go's
  maps is not: where a loop over a map could depend on it the text at the definition says so. A
  floating-point value beyond the range of \<open>uint64\<close> is refused by \<open>unsigned_value\<close>, while in Go its
  conversion depends on the platform before it is refused. The floating-point numbers of reports are
  exact rationals. The statistics over several experiments (experiment/statistics.go) are left out.
  Of files, what a crash leaves of one append is modelled, and replacing a file is one step; errors of the
  file system appear as errors of hooks only. Flags and wiring of the command line, HTTP clients and the
  language-model client are I/O; the adapter for etcd's Raft drives a package that is not in the repository.
\<close>

end
